(* ===== verification/LeapView_Prelude.thy ===== *)
theory LeapView_Prelude
  imports Main "HOL-Library.Word" "HOL-Library.Sublist"
begin

text \<open>
  The prelude of the development: what the components share of the Go language and of its
  standard library, and the generic facts their proofs rest on.

  \<^item> Go strings are byte sequences, so they are the type \<open>string\<close> of HOL, whose characters
    are bytes; \<open>len\<close> is \<open>length\<close>, and the functions of package \<open>strings\<close> that the sources
    call are defined here on bytes, with the UTF-8 encodings of the Unicode white space
    written out for \<open>strings.TrimSpace\<close>.
  \<^item> A Go function that returns \<open>(value, error)\<close> returns a sum: \<open>Inl\<close> of the error, \<open>Inr\<close> of
    the value.
  \<^item> A run-time panic (an index out of range, a nil dereference) is the value \<open>None\<close> of an
    option, so that the absence of panics is a theorem and not a convention.
  \<^item> A Go \<open>int64\<close> that may overflow is an \<open>int\<close> with the wrap-around written out
    (\<open>wrap_int64\<close>), a \<open>uint64\<close> counter is a \<open>64 word\<close>.
\<close>

named_theorems go_simps \<open>unfolding rules for the models of Go library functions\<close>

type_synonym 'a go_panic = "'a option"

section \<open>Errors as values\<close>

fun bind_res :: "'e + 'a \<Rightarrow> ('a \<Rightarrow> 'e + 'b) \<Rightarrow> 'e + 'b" where
  "bind_res (Inl e) f = Inl e"
| "bind_res (Inr x) f = f x"

lemma bind_res_Inr_iff [simp]:
  "bind_res m f = Inr y \<longleftrightarrow> (\<exists>x. m = Inr x \<and> f x = Inr y)"
  by (cases m) auto

lemma bind_res_Inl_iff:
  "bind_res m f = Inl e \<longleftrightarrow> m = Inl e \<or> (\<exists>x. m = Inr x \<and> f x = Inl e)"
  by (cases m) auto

text \<open>A guard with an early error return.\<close>

definition ensure :: "bool \<Rightarrow> 'e \<Rightarrow> 'e + unit" where
  "ensure b e = (if b then Inr () else Inl e)"

lemma ensure_Inr_iff [simp]: "ensure b e = Inr u \<longleftrightarrow> b"
  by (simp add: ensure_def)

lemma ensure_Inl_iff [simp]: "ensure b e = Inl e' \<longleftrightarrow> \<not> b \<and> e' = e"
  by (auto simp: ensure_def)

section \<open>Lists updated by position\<close>

text \<open>\<open>append(xs[:i], xs[i+1:]...)\<close>: the list without the element at a position.\<close>

definition delete_at :: "nat \<Rightarrow> 'a list \<Rightarrow> 'a list" where
  "delete_at i xs = take i xs @ drop (Suc i) xs"

lemma length_delete_at: "i < length xs \<Longrightarrow> length (delete_at i xs) = length xs - 1"
  by (simp add: delete_at_def)

lemma delete_at_split: "delete_at (length ys) (ys @ y # zs) = ys @ zs"
  by (simp add: delete_at_def)

lemma nth_split: "i < length xs \<Longrightarrow> \<exists>ys zs. xs = ys @ xs ! i # zs \<and> length ys = i"
  by (rule exI [of _ "take i xs"], rule exI [of _ "drop (Suc i) xs"]) (simp add: id_take_nth_drop)

lemma set_delete_at:
  assumes "distinct xs" "i < length xs"
  shows "set (delete_at i xs) = set xs - {xs ! i}"
proof -
  obtain ys zs where xs: "xs = ys @ xs ! i # zs" and len: "length ys = i"
    using assms(2) nth_split by blast
  have "distinct (ys @ xs ! i # zs)"
    using assms(1) xs by simp
  moreover have "delete_at i xs = ys @ zs"
    using delete_at_split [of ys "xs ! i" zs] len xs by simp
  ultimately show ?thesis
    using arg_cong [OF xs, of set] by auto
qed

lemma distinct_delete_at: "distinct xs \<Longrightarrow> distinct (delete_at i xs)"
  by (auto simp: delete_at_def dest: in_set_takeD in_set_dropD)
     (metis append_take_drop_id disjoint_iff distinct_append drop_Suc in_mono
        set_drop_subset set_drop_subset_set_drop le_SucI order_refl)

text \<open>The position of the first element that satisfies a test: the \<open>for i, x := range xs\<close>
  loops that stop at the first hit.\<close>

fun index_where :: "('a \<Rightarrow> bool) \<Rightarrow> 'a list \<Rightarrow> nat option" where
  "index_where P [] = None"
| "index_where P (x # xs) = (if P x then Some 0 else map_option Suc (index_where P xs))"

lemma index_where_Some:
  "index_where P xs = Some i \<longleftrightarrow> i < length xs \<and> P (xs ! i) \<and> (\<forall>j<i. \<not> P (xs ! j))"
proof (induction xs arbitrary: i)
  case Nil
  show ?case by simp
next
  case (Cons x xs)
  show ?case
    by (cases i) (auto simp: Cons.IH less_Suc_eq_0_disj)
qed

lemma index_where_None: "index_where P xs = None \<longleftrightarrow> (\<forall>x\<in>set xs. \<not> P x)"
  by (induction xs) auto

lemma card_remove_int: "finite A \<Longrightarrow> x \<in> A \<Longrightarrow> int (card (A - {x})) = int (card A) - 1"
  using card_gt_0_iff [of A] by (auto simp: card_Diff_singleton)

section \<open>Totals over the values of a map\<close>

definition map_sum :: "('v \<Rightarrow> int) \<Rightarrow> ('k \<rightharpoonup> 'v) \<Rightarrow> int" where
  "map_sum f m = (\<Sum>k\<in>dom m. f (the (m k)))"

lemma map_sum_empty [simp]: "map_sum f Map.empty = 0"
  by (simp add: map_sum_def)

lemma map_sum_upd:
  assumes "finite (dom m)"
  shows "map_sum f (m(k \<mapsto> v)) = map_sum f m - (case m k of None \<Rightarrow> 0 | Some u \<Rightarrow> f u) + f v"
proof -
  have "map_sum f (m(k \<mapsto> v)) = f v + (\<Sum>x\<in>dom m - {k}. f (the (m x)))"
    using assms by (simp add: map_sum_def sum.insert_remove)
  also have "(\<Sum>x\<in>dom m - {k}. f (the (m x))) = map_sum f m - (if k \<in> dom m then f (the (m k)) else 0)"
    using assms by (simp add: map_sum_def sum_diff1)
  finally show ?thesis by (cases "m k") (simp_all add: domIff fun_upd_def)
qed

section \<open>Byte strings\<close>

fun prefix_drop :: "string \<Rightarrow> string \<Rightarrow> string option" where
  "prefix_drop [] s = Some s"
| "prefix_drop (p # ps) [] = None"
| "prefix_drop (p # ps) (c # s) = (if p = c then prefix_drop ps s else None)"

lemma prefix_drop_Some [simp]: "prefix_drop p s = Some r \<longleftrightarrow> s = p @ r"
  by (induction p s rule: prefix_drop.induct) auto

lemma prefix_drop_None: "prefix_drop p s = None \<longleftrightarrow> \<not> (\<exists>r. s = p @ r)"
  by (metis not_None_eq prefix_drop_Some)

text \<open>\<open>strings.HasPrefix\<close>.\<close>

definition has_prefix :: "string \<Rightarrow> string \<Rightarrow> bool" where
  "has_prefix s p \<longleftrightarrow> prefix_drop p s \<noteq> None"

lemma has_prefix_iff: "has_prefix s p \<longleftrightarrow> (\<exists>r. s = p @ r)"
  by (auto simp: has_prefix_def)

text \<open>A separator that occurs in neither first part splits a string in one way.\<close>

lemma split_at_separator:
  assumes "a @ [c] @ b = a' @ [c] @ b'" "c \<notin> set a" "c \<notin> set a'"
  shows "a = a' \<and> b = b'"
proof -
  have "takeWhile (\<lambda>x. x \<noteq> c) (u @ [c] @ v) = u" if "c \<notin> set u" for u v :: "'a list"
    using that by (subst takeWhile_append2) auto
  then have "a = a'" using assms by metis
  with assms(1) show ?thesis by simp
qed

text \<open>
  The UTF-8 encodings of the runes for which \<open>unicode.IsSpace\<close> holds, as
  \<open>strings.TrimSpace\<close> removes them at both ends of a string.
\<close>

definition space_encodings :: "string list" where
  "space_encodings =
    map (\<lambda>n. [char_of n]) [0x09, 0x0A, 0x0B, 0x0C, 0x0D, 0x20 :: nat]
    @ map (map char_of) [[0xC2, 0x85], [0xC2, 0xA0], [0xE1, 0x9A, 0x80 :: nat]]
    @ map (\<lambda>n. map char_of [0xE2, 0x80, n :: nat]) [0x80..<0x8B]
    @ map (map char_of)
        [[0xE2, 0x80, 0xA8], [0xE2, 0x80, 0xA9], [0xE2, 0x80, 0xAF],
         [0xE2, 0x81, 0x9F], [0xE3, 0x80, 0x80 :: nat]]"

lemma space_encodings_nonempty: "w \<in> set space_encodings \<Longrightarrow> w \<noteq> []"
  by (auto simp: space_encodings_def)

fun first_match :: "string list \<Rightarrow> string \<Rightarrow> string option" where
  "first_match [] s = None"
| "first_match (w # ws) s = (case prefix_drop w s of Some r \<Rightarrow> Some r | None \<Rightarrow> first_match ws s)"

lemma first_match_SomeE:
  assumes "first_match ws s = Some r"
  obtains w where "w \<in> set ws" "s = w @ r"
  using assms by (induction ws) (auto split: option.splits)

lemma first_match_None: "first_match ws s = None \<longleftrightarrow> (\<forall>w\<in>set ws. \<not> has_prefix s w)"
  by (induction ws) (auto simp: has_prefix_def simp del: prefix_drop_Some split: option.splits)

lemma first_match_shorter:
  assumes "first_match ws s = Some r" "\<forall>w\<in>set ws. w \<noteq> []"
  shows "length r < length s"
proof -
  obtain w where "w \<in> set ws" "s = w @ r"
    using assms(1) by (rule first_match_SomeE)
  with assms(2) show ?thesis by auto
qed

function trim_left_of :: "string list \<Rightarrow> string \<Rightarrow> string" where
  "trim_left_of ws s =
     (if [] \<in> set ws then s
      else case first_match ws s of None \<Rightarrow> s | Some r \<Rightarrow> trim_left_of ws r)"
  by pat_completeness auto
termination
  by (relation "measure (\<lambda>(ws, s). length s)") (auto intro!: first_match_shorter)

declare trim_left_of.simps [simp del]

text \<open>\<open>strings.TrimSpace\<close>: white space is removed on the left, then on the right.\<close>

definition trim_space :: "string \<Rightarrow> string" where
  "trim_space s =
     rev (trim_left_of (map rev space_encodings) (rev (trim_left_of space_encodings s)))"

lemma trim_left_of_suffix: "\<exists>p. s = p @ trim_left_of ws s"
proof (induction ws s rule: trim_left_of.induct)
  case (1 ws s)
  show ?case
  proof (cases "[] \<in> set ws \<or> first_match ws s = None")
    case True
    then show ?thesis by (subst trim_left_of.simps) auto
  next
    case False
    then obtain r where r: "first_match ws s = Some r" and ne: "[] \<notin> set ws" by auto
    then obtain w where w: "s = w @ r" by (auto elim: first_match_SomeE)
    have eq: "trim_left_of ws s = trim_left_of ws r"
      using r ne by (simp add: trim_left_of.simps [of ws s])
    obtain p where "r = p @ trim_left_of ws r" using 1 [OF ne r] by blast
    then have "s = (w @ p) @ trim_left_of ws s"
      using w eq by (metis append.assoc)
    then show ?thesis by blast
  qed
qed

lemma trim_left_of_stop:
  "[] \<notin> set ws \<Longrightarrow> first_match ws (trim_left_of ws s) = None"
proof (induction ws s rule: trim_left_of.induct)
  case (1 ws s)
  then show ?case
    by (cases "first_match ws s") (simp_all add: trim_left_of.simps [of ws s])
qed

lemma trim_left_of_id: "first_match ws s = None \<Longrightarrow> trim_left_of ws s = s"
  by (simp add: trim_left_of.simps)

lemma trim_space_Nil [simp]: "trim_space [] = []"
proof -
  have "first_match space_encodings [] = None" "first_match (map rev space_encodings) [] = None"
    by (auto simp: first_match_None has_prefix_iff space_encodings_nonempty)
  then show ?thesis by (simp add: trim_space_def trim_left_of_id)
qed

text \<open>The trimmed string is a middle part of the string, and trimming is idempotent.\<close>

lemma trim_space_sublist: "\<exists>p q. s = p @ trim_space s @ q"
proof -
  obtain p where p: "s = p @ trim_left_of space_encodings s"
    using trim_left_of_suffix by blast
  obtain q where "rev (trim_left_of space_encodings s) =
      q @ trim_left_of (map rev space_encodings) (rev (trim_left_of space_encodings s))"
    using trim_left_of_suffix by blast
  then have "trim_left_of space_encodings s = trim_space s @ rev q"
    by (metis rev_append rev_rev_ident trim_space_def)
  with p show ?thesis by metis
qed

lemma trim_space_length: "length (trim_space s) \<le> length s"
  using trim_space_sublist [of s] by (metis le_add1 le_add2 length_append order_trans)

lemma trim_space_idem [simp]: "trim_space (trim_space s) = trim_space s"
proof -
  let ?l = "trim_left_of space_encodings s"
  have ne: "[] \<notin> set space_encodings" "[] \<notin> set (map rev space_encodings)"
    using space_encodings_nonempty by auto
  have stop: "first_match space_encodings ?l = None"
    by (rule trim_left_of_stop [OF ne(1)])
  obtain q where l: "?l = trim_space s @ q"
    using trim_left_of_suffix [of "rev ?l" "map rev space_encodings"]
    by (metis rev_append rev_rev_ident trim_space_def)
  have "\<not> has_prefix (trim_space s) w" if "w \<in> set space_encodings" for w
    using stop that l by (auto simp: first_match_None has_prefix_iff)
  then have "trim_left_of space_encodings (trim_space s) = trim_space s"
    by (simp add: trim_left_of_id first_match_None)
  moreover have "trim_left_of (map rev space_encodings) (rev (trim_space s)) = rev (trim_space s)"
    using trim_left_of_stop [OF ne(2)] by (simp add: trim_space_def trim_left_of_id)
  ultimately show ?thesis by (simp add: trim_space_def [of "trim_space s"])
qed

text \<open>Character classes the sources test by byte comparisons.\<close>

definition in_range :: "char \<Rightarrow> char \<Rightarrow> char \<Rightarrow> bool" where
  "in_range lo hi c \<longleftrightarrow> of_char lo \<le> (of_char c :: nat) \<and> (of_char c :: nat) \<le> of_char hi"

definition is_lower :: "char \<Rightarrow> bool" where
  "is_lower c \<longleftrightarrow> in_range (CHR ''a'') (CHR ''z'') c"

definition is_upper :: "char \<Rightarrow> bool" where
  "is_upper c \<longleftrightarrow> in_range (CHR ''A'') (CHR ''Z'') c"

definition is_digit :: "char \<Rightarrow> bool" where
  "is_digit c \<longleftrightarrow> in_range (CHR ''0'') (CHR ''9'') c"

lemmas char_class_defs [go_simps] = is_lower_def is_upper_def is_digit_def in_range_def

section \<open>Machine integers\<close>

text \<open>Two's-complement wrap-around of Go's \<open>int64\<close> arithmetic.\<close>

definition max_int64 :: int where
  "max_int64 = 2 ^ 63 - 1"

definition wrap_int64 :: "int \<Rightarrow> int" where
  "wrap_int64 n = (n + 2 ^ 63) mod 2 ^ 64 - 2 ^ 63"

lemma wrap_int64_id: "- (2 ^ 63) \<le> n \<Longrightarrow> n \<le> max_int64 \<Longrightarrow> wrap_int64 n = n"
  by (simp add: wrap_int64_def max_int64_def)

lemma wrap_int64_range: "- (2 ^ 63) \<le> wrap_int64 n \<and> wrap_int64 n \<le> max_int64"
  using pos_mod_sign [of "2 ^ 64" "n + 2 ^ 63"] pos_mod_bound [of "2 ^ 64" "n + 2 ^ 63"]
  by (simp add: wrap_int64_def max_int64_def)

lemma wrap_int64_eq_signed_word: "wrap_int64 n = sint (word_of_int n :: 64 word)"
  by (simp add: wrap_int64_def sint_sbintrunc' signed_take_bit_eq_take_bit_shift take_bit_eq_mod)

text \<open>Strings that start and end with a visible ASCII character are not changed by trimming.\<close>

definition visible :: "char \<Rightarrow> bool" where
  "visible c \<longleftrightarrow> 32 < (of_char c :: nat) \<and> (of_char c :: nat) < 127"

lemma space_encodings_ends:
  assumes "w \<in> set space_encodings"
  shows "\<not> visible (hd w)" "\<not> visible (last w)"
proof -
  have "list_all (\<lambda>w. \<not> visible (hd w) \<and> \<not> visible (last w)) space_encodings"
    by (simp add: space_encodings_def visible_def upt_rec)
  then show "\<not> visible (hd w)" "\<not> visible (last w)" using assms by (auto simp: list_all_iff)
qed

lemma trim_space_visible:
  assumes "s \<noteq> []" "visible (hd s)" "visible (last s)"
  shows "trim_space s = s"
proof -
  have "\<not> has_prefix s w" if "w \<in> set space_encodings" for w
    using space_encodings_ends(1) [OF that] space_encodings_nonempty [OF that] assms(2)
    by (auto simp: has_prefix_iff)
  then have "trim_left_of space_encodings s = s" by (simp add: trim_left_of_id first_match_None)
  moreover have "\<not> has_prefix (rev s) (rev w)" if "w \<in> set space_encodings" for w
    using space_encodings_ends(2) [OF that] space_encodings_nonempty [OF that] assms(1,3)
    by (auto simp: has_prefix_iff hd_rev [symmetric])
  then have "trim_left_of (map rev space_encodings) (rev s) = rev s" by (simp add: trim_left_of_id first_match_None)
  ultimately show ?thesis by (simp add: trim_space_def)
qed

section \<open>Lists with a key\<close>

lemma filter_key:
  "distinct (map f xs) \<Longrightarrow> c \<in> set xs \<Longrightarrow> filter (\<lambda>r. f r = f c \<and> P r) xs = (if P c then [c] else [])"
proof (induction xs)
  case (Cons x xs)
  have none: "filter (\<lambda>r. f r = f x \<and> P r) xs = []" using Cons.prems by (auto simp: filter_empty_conv image_iff)
  show ?case
  proof (cases "x = c")
    case True
    then show ?thesis using none by simp
  next
    case False
    then have "c \<in> set xs" "f x \<noteq> f c" using Cons.prems by auto
    then show ?thesis using Cons by simp
  qed
qed simp

lemma find_key: "distinct (map f xs) \<Longrightarrow> c \<in> set xs \<Longrightarrow> find (\<lambda>r. f r = f c) xs = Some c"
  by (induction xs) (auto simp: image_iff)

lemma filter_map_subseq:
  assumes "list_all2 (\<lambda>r r'. k r' = k r \<and> (P r' \<longrightarrow> P r)) rs rs'"
  shows "subseq (map k (filter P rs')) (map k (filter P rs))"
  using assms by (induction rule: list_all2_induct) (auto intro: subseq_Cons')

lemma subseq_distinct: "subseq xs ys \<Longrightarrow> distinct ys \<Longrightarrow> distinct xs"
  by (auto simp: subseq_conv_nths)

lemma sorted_wrt_unique:
  assumes "sorted_wrt P xs" "sorted_wrt P ys" "set xs = set ys" "\<And>x y. x \<in> set xs \<Longrightarrow> y \<in> set xs \<Longrightarrow> P x y \<Longrightarrow> \<not> P y x"
  shows "xs = ys"
  using assms
proof (induction xs arbitrary: ys)
  case (Cons x xs)
  obtain y zs where ys: "ys = y # zs" using Cons.prems(3) by (cases ys) auto
  have irr: "\<not> P z z" if "z \<in> set (x # xs)" for z using Cons.prems(4) [OF that that] by blast
  have "x = y"
  proof (rule ccontr)
    assume "x \<noteq> y"
    then have "x \<in> set zs" "y \<in> set xs" using Cons.prems(3) ys by auto
    then have "P y x" "P x y" using Cons.prems(1,2) ys by auto
    then show False using Cons.prems(4) [of x y] \<open>y \<in> set xs\<close> by simp
  qed
  then have "x \<notin> set xs" "x \<notin> set zs" using Cons.prems(1,2) irr [of x] ys by auto
  then have "set xs = set zs" using Cons.prems(3) ys \<open>x = y\<close> by (simp add: insert_ident)
  moreover have "sorted_wrt P xs" "sorted_wrt P zs" using Cons.prems(1,2) ys by simp_all
  moreover have "\<not> P v u" if "u \<in> set xs" "v \<in> set xs" "P u v" for u v using Cons.prems(4) [of u v] that by simp
  ultimately have "xs = zs" by (intro Cons.IH)
  then show ?case using ys \<open>x = y\<close> by simp
qed simp

end
