(* ===== verification/Workload_Policy.thy ===== *)
theory Workload_Policy
  imports LeapView_Prelude
begin

text \<open>
  The static part of workload admission, \<open>internal/workload/workload.go\<close>: workload classes,
  per-class policies, the node configuration with its validation and its default, and the
  values that admission reports. Durations are integers in nanoseconds, as \<open>time.Duration\<close>
  is.
\<close>

section \<open>Classes, requests, policies\<close>

text \<open>\<open>type Class string\<close>: the five constants, and every other string a caller may pass.\<close>

datatype work_class = Interactive | Background | Refresh | Control | Maintenance | OtherClass string

definition classOrder :: "work_class list" where
  "classOrder = [Interactive, Background, Refresh, Control, Maintenance]"

definition NodeWorkspace :: string where
  "NodeWorkspace = ''_node''"

definition GlobalWorkspace :: string where
  "GlobalWorkspace = ''_global''"

record work_request =
  req_class :: work_class
  req_workspace :: string
  req_operation :: string

record work_policy =
  ReservedRunning :: int
  MaximumRunning :: int
  MaximumQueued :: int
  MaximumQueuedPerWorkspace :: int
  QueueTimeoutD :: int
  ExecutionTimeoutD :: int

record work_config =
  MaxRunning :: int
  NodeMaximumQueued :: int
  Classes :: "work_class \<rightharpoonup> work_policy"

text \<open>Reading a Go map at a missing key gives the zero value.\<close>

definition zero_policy :: work_policy where
  "zero_policy = \<lparr>ReservedRunning = 0, MaximumRunning = 0, MaximumQueued = 0,
     MaximumQueuedPerWorkspace = 0, QueueTimeoutD = 0, ExecutionTimeoutD = 0\<rparr>"

definition policy_of :: "work_config \<Rightarrow> work_class \<Rightarrow> work_policy" where
  "policy_of cfg cls = (case Classes cfg cls of Some p \<Rightarrow> p | None \<Rightarrow> zero_policy)"

definition second :: int where "second = 1000000000"
definition minute :: int where "minute = 60 * second"

definition DefaultConfig :: work_config where
  "DefaultConfig = \<lparr>MaxRunning = 5, NodeMaximumQueued = 112,
     Classes = Map.empty(
       Interactive \<mapsto> \<lparr>ReservedRunning = 3, MaximumRunning = 4, MaximumQueued = 64,
         MaximumQueuedPerWorkspace = 16, QueueTimeoutD = 30 * second, ExecutionTimeoutD = 2 * minute\<rparr>,
       Background \<mapsto> \<lparr>ReservedRunning = 0, MaximumRunning = 1, MaximumQueued = 16,
         MaximumQueuedPerWorkspace = 4, QueueTimeoutD = 2 * minute, ExecutionTimeoutD = 15 * minute\<rparr>,
       Refresh \<mapsto> \<lparr>ReservedRunning = 1, MaximumRunning = 1, MaximumQueued = 16,
         MaximumQueuedPerWorkspace = 1, QueueTimeoutD = 2 * minute, ExecutionTimeoutD = 0\<rparr>,
       Control \<mapsto> \<lparr>ReservedRunning = 1, MaximumRunning = 1, MaximumQueued = 16,
         MaximumQueuedPerWorkspace = 16, QueueTimeoutD = 2 * minute, ExecutionTimeoutD = 15 * minute\<rparr>,
       Maintenance \<mapsto> \<lparr>ReservedRunning = 0, MaximumRunning = 1, MaximumQueued = 0,
         MaximumQueuedPerWorkspace = 0, QueueTimeoutD = 0, ExecutionTimeoutD = 30 * minute\<rparr>)\<rparr>"

section \<open>Validation\<close>

datatype config_error =
    NegativeNodeLimits
  | NegativeClassLimits work_class
  | ReservedExceedsMaximum work_class
  | MaximumExceedsNode work_class
  | WorkspaceQueueExceedsClass work_class
  | ReservationsExceedNode

definition negative_policy :: "work_policy \<Rightarrow> bool" where
  "negative_policy p \<longleftrightarrow> ReservedRunning p < 0 \<or> MaximumRunning p < 0 \<or> MaximumQueued p < 0
     \<or> MaximumQueuedPerWorkspace p < 0 \<or> QueueTimeoutD p < 0 \<or> ExecutionTimeoutD p < 0"

text \<open>The loop of \<open>Config.Validate\<close>: the reservations seen so far are summed on the way.\<close>

fun validate_classes :: "work_config \<Rightarrow> work_class list \<Rightarrow> int \<Rightarrow> config_error + int" where
  "validate_classes cfg [] reserved = Inr reserved"
| "validate_classes cfg (cls # rest) reserved =
    (let policy = policy_of cfg cls in
     if negative_policy policy then Inl (NegativeClassLimits cls)
     else if ReservedRunning policy > MaximumRunning policy then Inl (ReservedExceedsMaximum cls)
     else if MaximumRunning policy > MaxRunning cfg then Inl (MaximumExceedsNode cls)
     else if MaximumQueuedPerWorkspace policy > MaximumQueued policy
       then Inl (WorkspaceQueueExceedsClass cls)
     else validate_classes cfg rest (reserved + ReservedRunning policy))"

definition Validate_config :: "work_config \<Rightarrow> config_error + unit" where
  "Validate_config cfg =
    (if MaxRunning cfg < 0 \<or> NodeMaximumQueued cfg < 0 then Inl NegativeNodeLimits
     else case validate_classes cfg classOrder 0 of
       Inl e \<Rightarrow> Inl e
     | Inr reserved \<Rightarrow> if reserved > MaxRunning cfg then Inl ReservationsExceedNode else Inr ())"

text \<open>\<open>clonePolicies\<close>: every class of \<open>classOrder\<close> gets an entry, others are dropped.\<close>

definition clonePolicies :: "(work_class \<rightharpoonup> work_policy) \<Rightarrow> (work_class \<rightharpoonup> work_policy)" where
  "clonePolicies source =
    (\<lambda>cls. if cls \<in> set classOrder
           then Some (case source cls of Some p \<Rightarrow> p | None \<Rightarrow> zero_policy) else None)"

section \<open>Reports\<close>

datatype rejection_reason =
    NodeQueueFull | ClassQueueFull | WorkspaceQueueFull | QueueTimeout
  | ConflictingNestedAdmission | ControllerShutdown | InvalidRequest

datatype ctx_error = Canceled | DeadlineExceeded

record rejection =
  rej_reason :: rejection_reason
  rej_request :: work_request
  rej_queue_wait :: int
  rej_cause :: "ctx_error option"

datatype outcome = Admitted | Rejected rejection_reason | CanceledOutcome | TimeoutOutcome | Completed

record admission_event =
  ev_request :: work_request
  ev_outcome :: outcome
  ev_queue_wait :: int
  ev_execution :: int

text \<open>Helper view used by the invariants: what a valid configuration says of one class.\<close>

definition class_limits_ok :: "work_config \<Rightarrow> work_class \<Rightarrow> bool" where
  "class_limits_ok cfg cls \<longleftrightarrow>
     (let p = policy_of cfg cls in
      0 \<le> ReservedRunning p \<and> ReservedRunning p \<le> MaximumRunning p \<and> MaximumRunning p \<le> MaxRunning cfg
      \<and> 0 \<le> MaximumQueuedPerWorkspace p \<and> MaximumQueuedPerWorkspace p \<le> MaximumQueued p
      \<and> 0 \<le> QueueTimeoutD p \<and> 0 \<le> ExecutionTimeoutD p)"

definition valid_config :: "work_config \<Rightarrow> bool" where
  "valid_config cfg \<longleftrightarrow> 0 \<le> MaxRunning cfg \<and> 0 \<le> NodeMaximumQueued cfg
     \<and> (\<forall>cls\<in>set classOrder. class_limits_ok cfg cls)
     \<and> (\<Sum>cls\<leftarrow>classOrder. ReservedRunning (policy_of cfg cls)) \<le> MaxRunning cfg"

lemma validate_classes_Inr:
  "validate_classes cfg cs r = Inr t \<longleftrightarrow>
     (\<forall>cls\<in>set cs. class_limits_ok cfg cls) \<and> t = r + (\<Sum>cls\<leftarrow>cs. ReservedRunning (policy_of cfg cls))"
proof (induction cs arbitrary: r)
  case Nil
  show ?case by auto
next
  case (Cons cls cs)
  show ?case
  proof (cases "class_limits_ok cfg cls")
    case True
    then show ?thesis
      by (auto simp: Cons.IH Let_def class_limits_ok_def negative_policy_def)
  next
    case False
    then have "validate_classes cfg (cls # cs) r \<noteq> Inr t"
      by (auto simp: Let_def class_limits_ok_def negative_policy_def)
    with False show ?thesis by simp
  qed
qed

lemma classOrder_distinct [simp]: "distinct classOrder"
  by (simp add: classOrder_def)

lemma length_classOrder [simp]: "length classOrder = 5"
  by (simp add: classOrder_def)

lemma policy_of_clonePolicies:
  "cls \<in> set classOrder \<Longrightarrow> policy_of (cfg\<lparr>Classes := clonePolicies (Classes cfg)\<rparr>) cls = policy_of cfg cls"
  by (simp add: policy_of_def clonePolicies_def split: option.splits)

lemma valid_config_clonePolicies [simp]:
  "valid_config (cfg\<lparr>Classes := clonePolicies (Classes cfg)\<rparr>) = valid_config cfg"
proof -
  have "(\<Sum>cls\<leftarrow>classOrder. ReservedRunning (policy_of (cfg\<lparr>Classes := clonePolicies (Classes cfg)\<rparr>) cls))
      = (\<Sum>cls\<leftarrow>classOrder. ReservedRunning (policy_of cfg cls))"
    by (rule arg_cong [where f = sum_list]) (simp add: policy_of_clonePolicies)
  moreover have "class_limits_ok (cfg\<lparr>Classes := clonePolicies (Classes cfg)\<rparr>) cls = class_limits_ok cfg cls"
    if "cls \<in> set classOrder" for cls
    using that by (simp add: class_limits_ok_def policy_of_clonePolicies)
  ultimately show ?thesis by (simp add: valid_config_def)
qed

lemma validate_valid: "Validate_config cfg = Inr () \<longleftrightarrow> valid_config cfg"
  by (auto simp: Validate_config_def valid_config_def validate_classes_Inr split: sum.splits)
     (metis Inl_Inr_False validate_classes_Inr)+

text \<open>
  Validation accepts exactly the configurations whose limits are non-negative, ordered
  (reserved, class maximum, node maximum; per-workspace queue, class queue) and whose
  reservations fit on the node together.
\<close>

theorem Validate_config_iff:
  "Validate_config cfg = Inr () \<longleftrightarrow>
     0 \<le> MaxRunning cfg \<and> 0 \<le> NodeMaximumQueued cfg
     \<and> list_all (\<lambda>cls. let p = policy_of cfg cls in
          0 \<le> ReservedRunning p \<and> ReservedRunning p \<le> MaximumRunning p \<and> MaximumRunning p \<le> MaxRunning cfg
          \<and> 0 \<le> MaximumQueuedPerWorkspace p \<and> MaximumQueuedPerWorkspace p \<le> MaximumQueued p
          \<and> 0 \<le> QueueTimeoutD p \<and> 0 \<le> ExecutionTimeoutD p) classOrder
     \<and> (\<Sum>cls\<leftarrow>classOrder. ReservedRunning (policy_of cfg cls)) \<le> MaxRunning cfg"
  by (simp add: validate_valid valid_config_def class_limits_ok_def list_all_iff)

lemma DefaultConfig_valid: "Validate_config DefaultConfig = Inr ()"
  by (simp add: Validate_config_def classOrder_def Let_def policy_of_def DefaultConfig_def
      negative_policy_def second_def minute_def)

end
