(* ===== verification/Workload_Queue.thy ===== *)
theory Workload_Queue
  imports LeapView_Prelude
begin

text \<open>
  The queue of one workload class, type \<open>classQueue\<close> of \<open>internal/workload/controller.go\<close>:
  one first-in-first-out list of waiters per workspace, served round-robin over the
  workspaces in \<open>order\<close> from position \<open>cursor\<close>. Waiters are pointers in the source; here
  they are values of any type \<open>'w\<close>, compared by identity.

  The locale \<open>workspace_queue\<close> is the interface the controller relies on; the model of the
  source is an instance of it, and the round-robin behaviour is stated by an abstraction to
  the list of workspaces in the order they are served.
\<close>

section \<open>The interface\<close>

locale workspace_queue =
  fixes invar :: "'q \<Rightarrow> bool"
    and lists :: "'q \<Rightarrow> string \<Rightarrow> 'w list"
    and queued :: "'q \<Rightarrow> int"
    and enq :: "string \<Rightarrow> 'w \<Rightarrow> 'q \<Rightarrow> 'q"
    and deq :: "'q \<Rightarrow> ('w option \<times> 'q) go_panic"
    and rem :: "string \<Rightarrow> 'w \<Rightarrow> 'q \<Rightarrow> bool \<times> 'q"
  assumes invar_enq: "invar q \<Longrightarrow> invar (enq ws w q)"
    and lists_enq: "invar q \<Longrightarrow> lists (enq ws w q) = (lists q)(ws := lists q ws @ [w])"
    and queued_enq: "invar q \<Longrightarrow> queued (enq ws w q) = queued q + 1"
    and deq_total: "invar q \<Longrightarrow> deq q \<noteq> None"
    and deq_None: "invar q \<Longrightarrow> deq q = Some (None, q') \<Longrightarrow> queued q = 0 \<and> q' = q"
    and deq_Some: "invar q \<Longrightarrow> deq q = Some (Some w, q') \<Longrightarrow>
       invar q' \<and> queued q' = queued q - 1
       \<and> (\<exists>ws ys. lists q ws = w # ys \<and> lists q' = (lists q)(ws := ys))"
    and invar_rem: "invar q \<Longrightarrow> invar (snd (rem ws w q))"
    and fst_rem: "invar q \<Longrightarrow> fst (rem ws w q) \<longleftrightarrow> w \<in> set (lists q ws)"
    and lists_rem: "invar q \<Longrightarrow> lists (snd (rem ws w q)) = (lists q)(ws := remove1 w (lists q ws))"
    and queued_rem: "invar q \<Longrightarrow>
       queued (snd (rem ws w q)) = queued q - (if w \<in> set (lists q ws) then 1 else 0)"
    and queued_bound: "invar q \<Longrightarrow> int (length (lists q ws)) \<le> queued q"
    and queued_zero: "invar q \<Longrightarrow> (\<forall>ws. lists q ws = []) \<Longrightarrow> queued q = 0"
begin

lemma queued_nonneg: "invar q \<Longrightarrow> 0 \<le> queued q"
  using queued_bound [of q undefined] by (rule order_trans [rotated]) simp_all

lemma queued_zero_iff: "invar q \<Longrightarrow> queued q = 0 \<longleftrightarrow> (\<forall>ws. lists q ws = [])"
  using queued_bound queued_zero by fastforce

lemma deq_nonempty:
  assumes "invar q" "queued q \<noteq> 0"
  obtains w q' where "deq q = Some (Some w, q')"
  using assms deq_total deq_None by (metis option.exhaust surj_pair)

text \<open>A waiter taken out was somewhere in the queue, and every waiter left was there before.\<close>

lemma deq_members:
  assumes "invar q" "deq q = Some (Some w, q')"
  shows "(\<exists>ws. w \<in> set (lists q ws)) \<and> set (lists q' ws') \<subseteq> set (lists q ws')"
proof -
  obtain ws ys where "lists q ws = w # ys" "lists q' = (lists q)(ws := ys)"
    using deq_Some [OF assms] by blast
  then show ?thesis by (auto intro: exI [of _ ws])
qed

lemma deq_length:
  assumes "invar q" "deq q = Some (Some w, q')"
  shows "length (lists q' ws) \<le> length (lists q ws)"
proof -
  obtain ws' ys where "lists q ws' = w # ys" "lists q' = (lists q)(ws' := ys)"
    using deq_Some [OF assms] by blast
  then show ?thesis by auto
qed

end

section \<open>The source's queue\<close>

record 'w classQueue =
  cq_workspaces :: "string \<rightharpoonup> 'w list"
  cq_order :: "string list"
  cq_cursor :: nat
  cq_queued :: int

definition empty_queue :: "'w classQueue" where
  "empty_queue = \<lparr>cq_workspaces = Map.empty, cq_order = [], cq_cursor = 0, cq_queued = 0\<rparr>"

text \<open>Reading \<open>q.workspaces[ws]\<close>: the nil slice for a missing workspace.\<close>

definition cq_lists :: "'w classQueue \<Rightarrow> string \<Rightarrow> 'w list" where
  "cq_lists q ws = (case cq_workspaces q ws of Some l \<Rightarrow> l | None \<Rightarrow> [])"

definition enqueue :: "string \<Rightarrow> 'w \<Rightarrow> 'w classQueue \<Rightarrow> 'w classQueue" where
  "enqueue ws w q =
     (let order = (if cq_workspaces q ws = None then cq_order q @ [ws] else cq_order q) in
      q\<lparr>cq_order := order,
        cq_workspaces := (cq_workspaces q)(ws \<mapsto> cq_lists q ws @ [w]),
        cq_queued := cq_queued q + 1\<rparr>)"

text \<open>
  \<open>pop\<close>. The result is \<open>None\<close> where the source would panic: \<open>waiters[0]\<close> on an empty list.
\<close>

definition pop :: "'w classQueue \<Rightarrow> ('w option \<times> 'w classQueue) go_panic" where
  "pop q =
    (if cq_queued q = 0 \<or> cq_order q = [] then Some (None, q)
     else
       let cursor = (if length (cq_order q) \<le> cq_cursor q then 0 else cq_cursor q);
           ws = cq_order q ! cursor in
       case cq_lists q ws of
         [] \<Rightarrow> None
       | w # rest \<Rightarrow>
           Some (Some w,
             if rest = [] then
               let order = delete_at cursor (cq_order q) in
               q\<lparr>cq_workspaces := (cq_workspaces q)(ws := None), cq_order := order,
                 cq_cursor := (if order = [] then 0 else if length order \<le> cursor then 0 else cursor),
                 cq_queued := cq_queued q - 1\<rparr>
             else
               q\<lparr>cq_workspaces := (cq_workspaces q)(ws \<mapsto> rest),
                 cq_cursor := (cursor + 1) mod length (cq_order q),
                 cq_queued := cq_queued q - 1\<rparr>))"

definition remove_waiter :: "string \<Rightarrow> 'w \<Rightarrow> 'w classQueue \<Rightarrow> bool \<times> 'w classQueue" where
  "remove_waiter ws target q =
    (let waiters = cq_lists q ws in
     case index_where (\<lambda>w. w = target) waiters of
       None \<Rightarrow> (False, q)
     | Some i \<Rightarrow>
         let waiters' = delete_at i waiters; q1 = q\<lparr>cq_queued := cq_queued q - 1\<rparr> in
         if waiters' \<noteq> [] then (True, q1\<lparr>cq_workspaces := (cq_workspaces q)(ws \<mapsto> waiters')\<rparr>)
         else
           let q2 = q1\<lparr>cq_workspaces := (cq_workspaces q)(ws := None)\<rparr> in
           case index_where (\<lambda>candidate. candidate = ws) (cq_order q) of
             None \<Rightarrow> (True, q2)
           | Some index \<Rightarrow>
               let order = delete_at index (cq_order q);
                   cursor = (if index < cq_cursor q then cq_cursor q - 1 else cq_cursor q) in
               (True, q2\<lparr>cq_order := order,
                   cq_cursor := (if order = [] \<or> length order \<le> cursor then 0 else cursor)\<rparr>))"

section \<open>Well-formed queues\<close>

definition queue_wf :: "'w classQueue \<Rightarrow> bool" where
  "queue_wf q \<longleftrightarrow> distinct (cq_order q) \<and> dom (cq_workspaces q) = set (cq_order q)
     \<and> (\<forall>ws\<in>set (cq_order q). cq_lists q ws \<noteq> [])
     \<and> (if cq_order q = [] then cq_cursor q = 0 else cq_cursor q < length (cq_order q))
     \<and> cq_queued q = (\<Sum>ws\<in>set (cq_order q). int (length (cq_lists q ws)))"

lemma queue_wf_empty [simp]: "queue_wf empty_queue"
  by (simp add: queue_wf_def empty_queue_def)

lemma cq_lists_empty_queue [simp]: "cq_lists empty_queue ws = []"
  by (simp add: cq_lists_def empty_queue_def)

lemma queue_wf_outside: "queue_wf q \<Longrightarrow> ws \<notin> set (cq_order q) \<Longrightarrow> cq_lists q ws = []"
  by (auto simp: queue_wf_def cq_lists_def dom_def split: option.splits)

lemma queue_wf_inside: "queue_wf q \<Longrightarrow> ws \<in> set (cq_order q) \<Longrightarrow> cq_workspaces q ws = Some (cq_lists q ws)"
  by (auto simp: queue_wf_def cq_lists_def dom_def split: option.splits)

lemma cq_lists_enqueue: "cq_lists (enqueue ws w q) = (cq_lists q)(ws := cq_lists q ws @ [w])"
  by (auto simp: cq_lists_def enqueue_def Let_def fun_eq_iff)

lemma enqueue_fields:
  "cq_order (enqueue ws w q) = (if cq_workspaces q ws = None then cq_order q @ [ws] else cq_order q)"
  "dom (cq_workspaces (enqueue ws w q)) = insert ws (dom (cq_workspaces q))"
  "cq_cursor (enqueue ws w q) = cq_cursor q"
  "cq_queued (enqueue ws w q) = cq_queued q + 1"
  by (simp_all add: enqueue_def Let_def)

lemma queue_wf_enqueue:
  assumes wf: "queue_wf q"
  shows "queue_wf (enqueue ws w q)"
proof (cases "ws \<in> set (cq_order q)")
  case True
  then have ws: "cq_workspaces q ws \<noteq> None" using wf by (auto simp: queue_wf_inside)
  have "(\<Sum>x\<in>set (cq_order q). int (length (cq_lists (enqueue ws w q) x)))
      = (\<Sum>x\<in>set (cq_order q). int (length (cq_lists q x)) + (if x = ws then 1 else 0))"
    by (rule sum.cong) (auto simp: cq_lists_enqueue)
  also have "\<dots> = cq_queued q + 1"
    using wf True by (simp add: sum.distrib queue_wf_def)
  finally have sum: "(\<Sum>x\<in>set (cq_order q). int (length (cq_lists (enqueue ws w q) x))) = cq_queued q + 1" .
  show ?thesis
    using wf ws True sum by (auto simp: queue_wf_def enqueue_fields cq_lists_enqueue)
next
  case False
  then have ws: "cq_workspaces q ws = None" using wf by (auto simp: queue_wf_def dom_def)
  have empty: "cq_lists q ws = []" using queue_wf_outside [OF wf False] .
  have sum: "(\<Sum>x\<in>set (cq_order q). int (length (cq_lists (enqueue ws w q) x)))
      = (\<Sum>x\<in>set (cq_order q). int (length (cq_lists q x)))"
    using False by (intro sum.cong) (auto simp: cq_lists_enqueue)
  have "(\<Sum>x\<in>set (cq_order q @ [ws]). int (length (cq_lists (enqueue ws w q) x))) = cq_queued q + 1"
    using wf False sum empty by (simp add: queue_wf_def cq_lists_enqueue)
  then show ?thesis
    unfolding queue_wf_def enqueue_fields using wf ws False
    by (auto simp: queue_wf_def cq_lists_enqueue split: if_splits)
qed

text \<open>
  Taking the list of one workspace down to \<open>ys\<close>: the common part of \<open>pop\<close> and
  \<open>remove_waiter\<close>.
\<close>

lemma queue_sum_update:
  assumes "finite A" "ws \<in> A"
  shows "(\<Sum>x\<in>A. int (length ((f(ws := ys)) x))) =
    (\<Sum>x\<in>A. int (length (f x))) - int (length (f ws)) + int (length ys)"
  using assms by (simp add: sum.remove [of A ws])

lemma cq_lists_update:
  "cq_lists (q\<lparr>cq_workspaces := (cq_workspaces q)(ws \<mapsto> ys)\<rparr>) = (cq_lists q)(ws := ys)"
  "cq_lists (q\<lparr>cq_workspaces := (cq_workspaces q)(ws := None)\<rparr>) = (cq_lists q)(ws := [])"
  by (auto simp: cq_lists_def fun_eq_iff)

lemma cq_lists_frame [simp]:
  "cq_lists (q\<lparr>cq_order := wss\<rparr>) = cq_lists q"
  "cq_lists (q\<lparr>cq_cursor := cu\<rparr>) = cq_lists q"
  "cq_lists (q\<lparr>cq_queued := n\<rparr>) = cq_lists q"
  by (auto simp: cq_lists_def fun_eq_iff)

lemma queue_wf_shrink:
  assumes wf: "queue_wf q" and ws: "ws \<in> set (cq_order q)"
    and len: "length ys = length (cq_lists q ws) - 1" and ne: "ys \<noteq> []"
    and cur: "cur < length (cq_order q)"
  shows "queue_wf (q\<lparr>cq_workspaces := (cq_workspaces q)(ws \<mapsto> ys), cq_cursor := cur,
           cq_queued := cq_queued q - 1\<rparr>)"
proof -
  have "cq_lists q ws \<noteq> []" using wf ws by (auto simp: queue_wf_def)
  then have "int (length (cq_lists q ws)) = int (length ys) + 1"
    using len by (cases "cq_lists q ws") auto
  then show ?thesis
    using wf ws ne cur queue_sum_update [of "set (cq_order q)" ws "cq_lists q" ys]
    by (auto simp: queue_wf_def cq_lists_update)
qed

lemma queue_wf_drop:
  assumes wf: "queue_wf q" and k: "k < length (cq_order q)"
    and len: "length (cq_lists q (cq_order q ! k)) = 1"
    and cur: "if delete_at k (cq_order q) = [] then cur = 0 else cur < length (delete_at k (cq_order q))"
  shows "queue_wf (q\<lparr>cq_workspaces := (cq_workspaces q)(cq_order q ! k := None),
           cq_order := delete_at k (cq_order q), cq_cursor := cur, cq_queued := cq_queued q - 1\<rparr>)"
proof -
  let ?ws = "cq_order q ! k" and ?or = "delete_at k (cq_order q)"
  have d: "distinct (cq_order q)" using wf by (simp add: queue_wf_def)
  have set_or: "set ?or = set (cq_order q) - {?ws}" using set_delete_at [OF d k] .
  have "(\<Sum>x\<in>set (cq_order q). int (length (cq_lists q x))) =
      int (length (cq_lists q ?ws)) + (\<Sum>x\<in>set ?or. int (length (cq_lists q x)))"
    using k sum.remove [of "set (cq_order q)" ?ws] by (simp add: set_or)
  moreover have "(\<Sum>x\<in>set ?or. int (length (((cq_lists q)(?ws := [])) x))) =
      (\<Sum>x\<in>set ?or. int (length (cq_lists q x)))"
    by (rule sum.cong) (auto simp: set_or)
  ultimately show ?thesis
    using wf len cur distinct_delete_at [OF d, of k]
    by (auto simp: queue_wf_def cq_lists_update set_or)
qed

section \<open>Round-robin service\<close>

text \<open>The workspaces in the order \<open>pop\<close> serves them, each with its waiters.\<close>

definition rota :: "'w classQueue \<Rightarrow> (string \<times> 'w list) list" where
  "rota q = map (\<lambda>ws. (ws, cq_lists q ws)) (rotate (cq_cursor q) (cq_order q))"

text \<open>One turn of an ideal round-robin queue.\<close>

fun rota_pop :: "(string \<times> 'w list) list \<Rightarrow> ('w \<times> (string \<times> 'w list) list) option" where
  "rota_pop [] = None"
| "rota_pop ((ws, []) # r) = None"
| "rota_pop ((ws, w # rest) # r) = Some (w, if rest = [] then r else r @ [(ws, rest)])"

lemma rota_split:
  assumes "queue_wf q" "cq_order q \<noteq> []"
  obtains xs ws ys where "cq_order q = xs @ ws # ys" "length xs = cq_cursor q"
    "rotate (cq_cursor q) (cq_order q) = ws # ys @ xs" "ws = cq_order q ! cq_cursor q"
    "ws \<notin> set (ys @ xs)"
proof -
  have lt: "cq_cursor q < length (cq_order q)" and d: "distinct (cq_order q)"
    using assms by (auto simp: queue_wf_def)
  obtain xs ys where s: "cq_order q = xs @ cq_order q ! cq_cursor q # ys" and l: "length xs = cq_cursor q"
    using nth_split [OF lt] by blast
  have "rotate (length xs) (xs @ cq_order q ! cq_cursor q # ys) = cq_order q ! cq_cursor q # ys @ xs"
    by (simp add: rotate_append)
  moreover have "cq_order q ! cq_cursor q \<notin> set (ys @ xs)"
    using d s by (metis distinct.simps(2) distinct_append list.set_intros(1) UnE disjoint_iff set_append)
  ultimately show ?thesis using that [of xs _ ys] s l by metis
qed

lemma pop_rota:
  assumes wf: "queue_wf q" and ne: "cq_order q \<noteq> []"
  shows "\<exists>w q'. pop q = Some (Some w, q') \<and> queue_wf q' \<and> rota_pop (rota q) = Some (w, rota q')
    \<and> cq_queued q' = cq_queued q - 1
    \<and> (\<exists>ws ys. cq_lists q ws = w # ys \<and> cq_lists q' = (cq_lists q)(ws := ys))"
proof -
  obtain xs ws ys where s: "cq_order q = xs @ ws # ys" and l: "length xs = cq_cursor q"
    and rot: "rotate (cq_cursor q) (cq_order q) = ws # ys @ xs" and ws: "ws = cq_order q ! cq_cursor q"
    and fresh: "ws \<notin> set (ys @ xs)"
    using rota_split [OF wf ne] .
  have lt: "cq_cursor q < length (cq_order q)" using wf ne by (simp add: queue_wf_def)
  have inS: "ws \<in> set (cq_order q)" by (simp add: s)
  then obtain w rest where wr: "cq_lists q ws = w # rest"
    using wf by (metis queue_wf_def neq_Nil_conv)
  have pos: "cq_queued q \<noteq> 0"
  proof -
    have "int (length (cq_lists q ws)) \<le> (\<Sum>x\<in>set (cq_order q). int (length (cq_lists q x)))"
      by (rule member_le_sum [OF inS]) auto
    then show ?thesis using wf wr by (auto simp: queue_wf_def)
  qed
  have rotaq: "rota q = (ws, w # rest) # map (\<lambda>x. (x, cq_lists q x)) (ys @ xs)"
    by (simp add: rota_def rot wr)
  have frame: "map (\<lambda>x. (x, ((cq_lists q)(ws := zs)) x)) (ys @ xs) = map (\<lambda>x. (x, cq_lists q x)) (ys @ xs)" for zs
    using fresh by auto
  show ?thesis
  proof (cases "rest = []")
    case True
    define os where "os = delete_at (cq_cursor q) (cq_order q)"
    define cu where "cu = (if os = [] then 0 else if length os \<le> cq_cursor q then 0 else cq_cursor q)"
    let ?q' = "q\<lparr>cq_workspaces := (cq_workspaces q)(ws := None), cq_order := os, cq_cursor := cu,
        cq_queued := cq_queued q - 1\<rparr>"
    have os: "os = xs @ ys" using delete_at_split [of xs ws ys] by (simp add: s l os_def)
    have "pop q = Some (Some w, ?q')"
      using pos ne lt wr True ws by (simp add: pop_def Let_def os_def cu_def)
    moreover have "queue_wf ?q'"
      using queue_wf_drop [OF wf lt, of cu] wr True ws unfolding os_def [symmetric]
      by (auto simp: cu_def)
    moreover have "rotate cu os = ys @ xs"
      unfolding cu_def l [symmetric] os by (cases "ys = []") (simp_all add: rotate_append)
    then have "rota_pop (rota q) = Some (w, rota ?q')"
      using True frame [of "[]"] by (simp add: rotaq) (simp add: rota_def cq_lists_update)
    moreover have "cq_lists ?q' = (cq_lists q)(ws := [])"
      by (auto simp: cq_lists_def fun_eq_iff)
    ultimately show ?thesis using wr True by (intro exI [of _ w] exI [of _ ?q']) auto
  next
    case False
    let ?cu = "(cq_cursor q + 1) mod length (cq_order q)"
    let ?q' = "q\<lparr>cq_workspaces := (cq_workspaces q)(ws \<mapsto> rest), cq_cursor := ?cu,
        cq_queued := cq_queued q - 1\<rparr>"
    have "pop q = Some (Some w, ?q')"
      using pos ne lt wr False ws by (simp add: pop_def Let_def)
    moreover have "queue_wf ?q'"
      using queue_wf_shrink [OF wf inS _ False, of ?cu] wr ne by simp
    moreover have "rotate ?cu (cq_order q) = ys @ xs @ [ws]"
    proof -
      have "rotate ?cu (cq_order q) = rotate (Suc (cq_cursor q)) (cq_order q)"
        by (metis Suc_eq_plus1 rotate_conv_mod)
      also have "\<dots> = rotate1 (ws # ys @ xs)" by (simp add: rot)
      finally show ?thesis by simp
    qed
    then have "rota_pop (rota q) = Some (w, rota ?q')"
      using False frame [of rest] by (simp add: rotaq) (simp add: rota_def cq_lists_update)
    moreover have "cq_lists ?q' = (cq_lists q)(ws := rest)"
      by (auto simp: cq_lists_def fun_eq_iff)
    ultimately show ?thesis using wr by (intro exI [of _ w] exI [of _ ?q']) auto
  qed
qed

section \<open>Removing one waiter\<close>

lemma delete_at_remove1:
  "index_where (\<lambda>w. w = x) xs = Some i \<Longrightarrow> delete_at i xs = remove1 x xs"
proof (induction xs arbitrary: i)
  case Nil
  then show ?case by simp
next
  case (Cons y ys)
  then show ?case
    by (auto simp: delete_at_def split: if_splits)
qed

lemma remove_waiter_absent:
  "x \<notin> set (cq_lists q ws) \<Longrightarrow> remove_waiter ws x q = (False, q)"
proof -
  assume "x \<notin> set (cq_lists q ws)"
  then have "index_where (\<lambda>w. w = x) (cq_lists q ws) = None" by (auto simp: index_where_None)
  then show ?thesis by (simp add: remove_waiter_def Let_def)
qed

lemma remove_waiter_present:
  assumes wf: "queue_wf q" and x: "x \<in> set (cq_lists q ws)"
  shows "fst (remove_waiter ws x q) \<and> queue_wf (snd (remove_waiter ws x q))
    \<and> cq_queued (snd (remove_waiter ws x q)) = cq_queued q - 1
    \<and> cq_lists (snd (remove_waiter ws x q)) = (cq_lists q)(ws := remove1 x (cq_lists q ws))"
proof -
  have inS: "ws \<in> set (cq_order q)" using queue_wf_outside [OF wf] x by fastforce
  obtain i where i: "index_where (\<lambda>w. w = x) (cq_lists q ws) = Some i"
    using x index_where_None [of "\<lambda>w. w = x"] by fastforce
  then have del: "delete_at i (cq_lists q ws) = remove1 x (cq_lists q ws)"
    by (rule delete_at_remove1)
  have len: "length (remove1 x (cq_lists q ws)) = length (cq_lists q ws) - 1"
    using x by (simp add: length_remove1)
  have cur: "cq_cursor q < length (cq_order q)" using wf inS by (auto simp: queue_wf_def split: if_splits)
  show ?thesis
  proof (cases "remove1 x (cq_lists q ws) = []")
    case False
    have "remove_waiter ws x q = (True, q\<lparr>cq_workspaces := (cq_workspaces q)(ws \<mapsto> remove1 x (cq_lists q ws)),
        cq_cursor := cq_cursor q, cq_queued := cq_queued q - 1\<rparr>)"
      using False by (simp add: remove_waiter_def i del Let_def)
    then show ?thesis
      using queue_wf_shrink [OF wf inS len False cur] by (simp add: cq_lists_update)
  next
    case True
    obtain k where k: "index_where (\<lambda>c. c = ws) (cq_order q) = Some k"
      using inS index_where_None [of "\<lambda>c. c = ws"] by fastforce
    then have klt: "k < length (cq_order q)" and kws: "cq_order q ! k = ws"
      by (auto simp: index_where_Some)
    let ?or = "delete_at k (cq_order q)"
    let ?c = "if k < cq_cursor q then cq_cursor q - 1 else cq_cursor q"
    let ?cu = "if ?or = [] \<or> length ?or \<le> ?c then 0 else ?c"
    have "remove_waiter ws x q = (True, q\<lparr>cq_workspaces := (cq_workspaces q)(ws := None),
        cq_order := ?or, cq_cursor := ?cu, cq_queued := cq_queued q - 1\<rparr>)"
      using True by (simp add: remove_waiter_def i k del Let_def)
    moreover have "length (cq_lists q (cq_order q ! k)) = 1"
      using len True x kws by (cases "cq_lists q ws") auto
    ultimately show ?thesis
      using queue_wf_drop [OF wf klt, of ?cu] True kws by (simp add: cq_lists_update)
  qed
qed

section \<open>The source's queue is an instance of the interface\<close>

lemma cq_queued_bound: "queue_wf q \<Longrightarrow> int (length (cq_lists q ws)) \<le> cq_queued q"
proof (cases "ws \<in> set (cq_order q)")
  case True
  assume "queue_wf q"
  then show ?thesis
    using member_le_sum [OF True, of "\<lambda>x. int (length (cq_lists q x))"] by (simp add: queue_wf_def)
next
  case False
  assume wf: "queue_wf q"
  have "0 \<le> cq_queued q" using wf by (simp add: queue_wf_def sum_nonneg)
  then show ?thesis using queue_wf_outside [OF wf False] by simp
qed

lemma pop_None: "queue_wf q \<Longrightarrow> pop q = Some (None, q') \<Longrightarrow> cq_queued q = 0 \<and> q' = q"
  using pop_rota [of q]
  by (cases "cq_order q = []") (auto simp: pop_def queue_wf_def)

interpretation cq: workspace_queue queue_wf cq_lists cq_queued enqueue pop remove_waiter
proof unfold_locales
  fix q q' :: "'a classQueue" and ws :: string and w :: 'a
  assume wf: "queue_wf q"
  show "queue_wf (enqueue ws w q)" using wf by (rule queue_wf_enqueue)
  show "cq_lists (enqueue ws w q) = (cq_lists q)(ws := cq_lists q ws @ [w])"
    by (rule cq_lists_enqueue)
  show "cq_queued (enqueue ws w q) = cq_queued q + 1" by (simp add: enqueue_def Let_def)
  show "pop q \<noteq> None" using pop_rota [OF wf] by (cases "cq_order q = []") (auto simp: pop_def)
  show "pop q = Some (None, q') \<Longrightarrow> cq_queued q = 0 \<and> q' = q" using wf by (rule pop_None)
  show "pop q = Some (Some w, q') \<Longrightarrow>
       queue_wf q' \<and> cq_queued q' = cq_queued q - 1
       \<and> (\<exists>ws ys. cq_lists q ws = w # ys \<and> cq_lists q' = (cq_lists q)(ws := ys))"
    using pop_rota [OF wf] by (cases "cq_order q = []") (auto simp: pop_def)
  show "queue_wf (snd (remove_waiter ws w q))"
    using wf remove_waiter_absent remove_waiter_present by (metis snd_conv)
  show "fst (remove_waiter ws w q) \<longleftrightarrow> w \<in> set (cq_lists q ws)"
    using wf remove_waiter_absent remove_waiter_present by (metis fst_conv)
  show "cq_lists (snd (remove_waiter ws w q)) = (cq_lists q)(ws := remove1 w (cq_lists q ws))"
    using wf remove_waiter_absent [of w q ws] remove_waiter_present [OF wf, of w ws]
    by (cases "w \<in> set (cq_lists q ws)") (auto simp: remove1_idem)
  show "cq_queued (snd (remove_waiter ws w q)) = cq_queued q - (if w \<in> set (cq_lists q ws) then 1 else 0)"
    using wf remove_waiter_absent [of w q ws] remove_waiter_present [OF wf, of w ws] by auto
  show "int (length (cq_lists q ws)) \<le> cq_queued q" using wf by (rule cq_queued_bound)
  show "\<forall>ws. cq_lists q ws = [] \<Longrightarrow> cq_queued q = 0" using wf by (simp add: queue_wf_def)
qed

section \<open>One round serves every workspace once\<close>

fun pop_n :: "nat \<Rightarrow> 'w classQueue \<Rightarrow> ('w list \<times> 'w classQueue) option" where
  "pop_n 0 q = Some ([], q)"
| "pop_n (Suc n) q =
    (case pop q of
       Some (Some w, q') \<Rightarrow> (case pop_n n q' of Some (ws, q'') \<Rightarrow> Some (w # ws, q'') | None \<Rightarrow> None)
     | _ \<Rightarrow> None)"

lemma rota_empty_iff: "rota q = [] \<longleftrightarrow> cq_order q = []"
  by (simp add: rota_def)

lemma pop_n_rota:
  assumes "queue_wf q" "rota q = r @ s" "\<forall>(ws, l)\<in>set r. l \<noteq> []"
  shows "\<exists>q'. pop_n (length r) q = Some (map (hd \<circ> snd) r, q') \<and> queue_wf q'
    \<and> rota q' = s @ filter (\<lambda>(ws, l). l \<noteq> []) (map (apsnd tl) r)"
  using assms
proof (induction r arbitrary: q s)
  case Nil
  then show ?case by simp
next
  case (Cons e r)
  obtain ws w rest where e: "e = (ws, w # rest)"
    using Cons.prems(3) by (cases e) (auto simp: neq_Nil_conv)
  have "cq_order q \<noteq> []" using Cons.prems(2) rota_empty_iff [of q] by auto
  then obtain w' q' where p: "pop q = Some (Some w', q')" and wf': "queue_wf q'"
    and r: "rota_pop (rota q) = Some (w', rota q')"
    using pop_rota [OF Cons.prems(1)] by blast
  have w': "w' = w" and rq': "rota q' = r @ (if rest = [] then s else s @ [(ws, rest)])"
    using r Cons.prems(2) e by (auto split: if_splits)
  obtain q'' where "pop_n (length r) q' = Some (map (hd \<circ> snd) r, q'')" "queue_wf q''"
    "rota q'' = (if rest = [] then s else s @ [(ws, rest)]) @ filter (\<lambda>(ws, l). l \<noteq> []) (map (apsnd tl) r)"
    using Cons.IH [OF wf' rq'] Cons.prems(3) by auto
  then show ?case using p w' e by auto
qed

lemma queue_wf_rota_nonempty: "queue_wf q \<Longrightarrow> \<forall>(ws, l)\<in>set (rota q). l \<noteq> []"
  by (auto simp: rota_def queue_wf_def)

text \<open>
  C8. Fair service: over one round of \<open>pop\<close> calls, one per waiting workspace, with no
  arrivals in between, the queue hands out exactly the oldest waiter of every waiting
  workspace, in the order of the rota, and never panics.
\<close>

theorem pop_round_serves_every_workspace_once:
  assumes "queue_wf q"
  shows "\<exists>q'. pop_n (length (rota q)) q = Some (map (\<lambda>(ws, l). hd l) (rota q), q') \<and> queue_wf q'
    \<and> distinct (map fst (rota q)) \<and> set (map fst (rota q)) = {ws. cq_lists q ws \<noteq> []}"
proof -
  have "map (hd \<circ> snd) (rota q) = map (\<lambda>(ws, l). hd l) (rota q)" by auto
  moreover have "distinct (map fst (rota q))"
    using assms by (simp add: rota_def comp_def queue_wf_def)
  moreover have "set (map fst (rota q)) = {ws. cq_lists q ws \<noteq> []}"
    using assms queue_wf_outside [OF assms] by (auto simp: rota_def image_image queue_wf_def)
  ultimately show ?thesis
    using pop_n_rota [OF assms, of "rota q" "[]"] queue_wf_rota_nonempty [OF assms] by auto
qed

theorem pop_round_serves_every_workspace_once_witness:
  "\<exists>q'. pop_n 2 (enqueue ''b'' 3 (enqueue ''a'' 2 (enqueue ''a'' (1::nat) empty_queue))) = Some ([1, 3], q')"
proof -
  let ?q = "enqueue ''b'' 3 (enqueue ''a'' 2 (enqueue ''a'' (1::nat) empty_queue))"
  have wf: "queue_wf ?q" by (intro queue_wf_enqueue queue_wf_empty)
  have "rota ?q = [(''a'', [1, 2]), (''b'', [3])]"
    by (simp add: rota_def enqueue_def empty_queue_def cq_lists_def Let_def)
  then have "length (rota ?q) = 2" "map (\<lambda>(ws, l). hd l) (rota ?q) = [1, 3]" by simp_all
  then show ?thesis
    using pop_round_serves_every_workspace_once [OF wf] by metis
qed

end
