(* ===== verification/Workload_Controller.thy ===== *)
theory Workload_Controller
  imports Workload_Policy Workload_Queue
begin

text \<open>
  The admission controller, type \<open>Controller\<close> of \<open>internal/workload/controller.go\<close>, as a
  state machine. Pointers to waiters and leases are numbers allocated from \<open>ct_next\<close>; the
  one-place result channel of a waiter is the field \<open>wt_result\<close>. Every critical section of
  the source (the code between \<open>mu.Lock\<close> and \<open>mu.Unlock\<close>) is one function on the state, so
  an execution of concurrent callers is a sequence of these functions; \<open>Acquire\<close>, which
  blocks, is its first critical section (\<open>acquire_begin\<close>) and the three branches of its
  \<open>select\<close> (\<open>acquire_recv\<close>, \<open>acquire_ctx_done\<close>, \<open>acquire_timeout\<close>). The clock is the
  argument \<open>now\<close>; the state of a context (\<open>ctx.Err()\<close>) is an argument too. \<open>None\<close> is a
  panic or a receive that would block forever.
\<close>

section \<open>State\<close>

datatype waiter_state = Waiting | Granted | RejectedState

datatype acquire_result = ResLease nat | ResErr rejection

record waiter =
  wt_request :: work_request
  wt_enqueued :: int
  wt_state :: waiter_state
  wt_result :: "acquire_result option"

record lease =
  ls_request :: work_request
  ls_queueWait :: int
  ls_started :: int
  ls_deadline :: "int option"
  ls_canceled :: bool
  ls_once :: bool

record workspace_stats =
  wst_running :: int
  wst_queued :: int

record class_stats =
  cst_policy :: work_policy
  cst_running :: int
  cst_queued :: int
  cst_borrowed :: int
  cst_workspaces :: "string \<rightharpoonup> workspace_stats"

record work_stats =
  st_max_running :: int
  st_running :: int
  st_queued :: int
  st_classes :: "(work_class \<times> class_stats) list"

datatype observation = ObserveWorkload work_stats | ObserveAdmission admission_event

record controller =
  ct_config :: work_config
  ct_closed :: bool
  ct_observer :: "observation list option"
  ct_running :: int
  ct_runningClass :: "work_class \<Rightarrow> int"
  ct_runningWS :: "work_class \<Rightarrow> (string \<rightharpoonup> int)"
  ct_active :: "nat list"
  ct_queues :: "work_class \<Rightarrow> nat classQueue"
  ct_classCursor :: nat
  ct_waiters :: "nat \<rightharpoonup> waiter"
  ct_leases :: "nat \<rightharpoonup> lease"
  ct_next :: nat

definition New_controller :: "work_config \<Rightarrow> observation list option \<Rightarrow> config_error + controller" where
  "New_controller config observer =
    (let config = (if MaxRunning config = 0 \<and> NodeMaximumQueued config = 0 \<and> Classes config = Map.empty
                   then DefaultConfig else config);
         config = config\<lparr>Classes := clonePolicies (Classes config)\<rparr> in
     case Validate_config config of
       Inl e \<Rightarrow> Inl e
     | Inr _ \<Rightarrow> Inr \<lparr>ct_config = config, ct_closed = False, ct_observer = observer, ct_running = 0,
         ct_runningClass = (\<lambda>_. 0), ct_runningWS = (\<lambda>_. Map.empty), ct_active = [],
         ct_queues = (\<lambda>_. empty_queue), ct_classCursor = 0, ct_waiters = Map.empty,
         ct_leases = Map.empty, ct_next = 0\<rparr>)"

section \<open>Statistics and observation\<close>

definition class_stats_of :: "controller \<Rightarrow> work_class \<Rightarrow> class_stats" where
  "class_stats_of c cls =
    (let queue = ct_queues c cls; policy = policy_of (ct_config c) cls;
         running = ct_runningClass c cls; borrowed = running - ReservedRunning policy in
     \<lparr>cst_policy = policy, cst_running = running, cst_queued = cq_queued queue,
      cst_borrowed = (if borrowed < 0 then 0 else borrowed),
      cst_workspaces = (\<lambda>ws.
        case cq_workspaces queue ws of
          Some waiters \<Rightarrow> Some \<lparr>wst_running = (case ct_runningWS c cls ws of Some r \<Rightarrow> r | None \<Rightarrow> 0),
                               wst_queued = int (length waiters)\<rparr>
        | None \<Rightarrow> map_option (\<lambda>r. \<lparr>wst_running = r, wst_queued = 0\<rparr>) (ct_runningWS c cls ws))\<rparr>)"

definition statsLocked :: "controller \<Rightarrow> work_stats" where
  "statsLocked c =
    \<lparr>st_max_running = MaxRunning (ct_config c), st_running = ct_running c,
     st_queued = (\<Sum>cls\<leftarrow>classOrder. cq_queued (ct_queues c cls)),
     st_classes = map (\<lambda>cls. (cls, class_stats_of c cls)) classOrder\<rparr>"

definition observe :: "observation \<Rightarrow> controller \<Rightarrow> controller" where
  "observe ob c = c\<lparr>ct_observer := map_option (\<lambda>trace. trace @ [ob]) (ct_observer c)\<rparr>"

definition observe_admission :: "work_request \<Rightarrow> outcome \<Rightarrow> int \<Rightarrow> int \<Rightarrow> controller \<Rightarrow> controller" where
  "observe_admission request out wait execution =
     observe (ObserveAdmission \<lparr>ev_request = request, ev_outcome = out,
       ev_queue_wait = wait, ev_execution = execution\<rparr>)"

section \<open>Scheduling\<close>

definition class_eligible :: "bool \<Rightarrow> controller \<Rightarrow> work_class \<Rightarrow> bool" where
  "class_eligible reservedOnly c cls \<longleftrightarrow>
     (let policy = policy_of (ct_config c) cls in
      \<not> (cq_queued (ct_queues c cls) = 0 \<or> ct_runningClass c cls \<ge> MaximumRunning policy)
      \<and> \<not> (reservedOnly \<and> ct_runningClass c cls \<ge> ReservedRunning policy))"

text \<open>\<open>nextClassLocked\<close>: the first eligible class from the cursor on, and the moved cursor.\<close>

definition nextClassLocked :: "bool \<Rightarrow> controller \<Rightarrow> (work_class \<times> nat) option" where
  "nextClassLocked reservedOnly c =
    (let index = (\<lambda>offset. (ct_classCursor c + offset) mod length classOrder) in
     case find (\<lambda>offset. class_eligible reservedOnly c (classOrder ! index offset)) [0..<length classOrder] of
       None \<Rightarrow> None
     | Some offset \<Rightarrow> Some (classOrder ! index offset, (index offset + 1) mod length classOrder))"

text \<open>A popped waiter becomes a running lease.\<close>

definition grant :: "int \<Rightarrow> work_class \<Rightarrow> nat \<Rightarrow> waiter \<Rightarrow> controller \<Rightarrow> controller" where
  "grant now cls wid w c =
    (let l = ct_next c; ws = req_workspace (wt_request w); policy = policy_of (ct_config c) cls;
         runningWS = ct_runningWS c cls in
     c\<lparr>ct_waiters := (ct_waiters c)(wid \<mapsto> w\<lparr>wt_state := Granted, wt_result := Some (ResLease l)\<rparr>),
       ct_running := ct_running c + 1,
       ct_runningClass := (ct_runningClass c)(cls := ct_runningClass c cls + 1),
       ct_runningWS := (ct_runningWS c)(cls :=
         runningWS(ws \<mapsto> (case runningWS ws of Some n \<Rightarrow> n | None \<Rightarrow> 0) + 1)),
       ct_leases := (ct_leases c)(l \<mapsto>
         \<lparr>ls_request = wt_request w, ls_queueWait = now - wt_enqueued w, ls_started = now,
          ls_deadline = (if ExecutionTimeoutD policy > 0 then Some (now + ExecutionTimeoutD policy) else None),
          ls_canceled = False, ls_once = False\<rparr>),
       ct_active := ct_active c @ [l],
       ct_next := Suc l\<rparr>)"

text \<open>One iteration of the loop of \<open>scheduleLocked\<close>; the flag says whether the loop goes on.\<close>

definition schedule_step :: "int \<Rightarrow> controller \<Rightarrow> (bool \<times> controller) go_panic" where
  "schedule_step now c =
    (if ct_closed c \<or> \<not> ct_running c < MaxRunning (ct_config c) then Some (False, c)
     else
       case (case nextClassLocked True c of Some r \<Rightarrow> Some r | None \<Rightarrow> nextClassLocked False c) of
         None \<Rightarrow> Some (False, c)
       | Some (cls, cursor) \<Rightarrow>
           let c1 = c\<lparr>ct_classCursor := cursor\<rparr> in
           case pop (ct_queues c1 cls) of
             None \<Rightarrow> None
           | Some (None, q) \<Rightarrow> Some (False, c1\<lparr>ct_queues := (ct_queues c1)(cls := q)\<rparr>)
           | Some (Some wid, q) \<Rightarrow>
               (case ct_waiters c1 wid of
                  None \<Rightarrow> None
                | Some w \<Rightarrow> Some (True, grant now cls wid w (c1\<lparr>ct_queues := (ct_queues c1)(cls := q)\<rparr>))))"

lemma schedule_step_progress:
  assumes "schedule_step now c = Some (True, c')"
  shows "ct_running c < MaxRunning (ct_config c) \<and> ct_running c' = ct_running c + 1 \<and> ct_config c' = ct_config c"
  using assms
  by (auto simp: schedule_step_def grant_def Let_def split: if_splits option.splits prod.splits)

function scheduleLocked :: "int \<Rightarrow> controller \<Rightarrow> controller go_panic" where
  "scheduleLocked now c =
    (case schedule_step now c of
       None \<Rightarrow> None
     | Some (goes_on, c') \<Rightarrow> if goes_on then scheduleLocked now c' else Some c')"
  by pat_completeness auto
termination
  by (relation "measure (\<lambda>(now, c). nat (MaxRunning (ct_config c) - ct_running c))")
     (auto dest!: schedule_step_progress)

declare scheduleLocked.simps [simp del]

section \<open>Acquire\<close>

definition rejection_of :: "work_request \<Rightarrow> rejection_reason \<Rightarrow> int \<Rightarrow> ctx_error option \<Rightarrow> rejection" where
  "rejection_of request reason wait cause =
     \<lparr>rej_reason = reason, rej_request = request, rej_queue_wait = wait, rej_cause = cause\<rparr>"

definition normalize :: "work_request \<Rightarrow> rejection + work_request" where
  "normalize request =
    (if req_class request \<notin> set classOrder \<or> req_operation request = [] \<or> 96 < length (req_operation request)
     then Inl (rejection_of request InvalidRequest 0 None)
     else if req_class request = Control \<or> req_class request = Maintenance
     then Inr (request\<lparr>req_workspace := NodeWorkspace\<rparr>)
     else if req_workspace request = [] \<or> req_workspace request = NodeWorkspace
          \<or> (req_workspace request = GlobalWorkspace \<and> req_class request \<noteq> Background)
     then Inl (rejection_of request InvalidRequest 0 None)
     else Inr request)"

definition queueLimitReasonLocked :: "work_request \<Rightarrow> controller \<Rightarrow> rejection_reason option" where
  "queueLimitReasonLocked request c =
    (let queue = ct_queues c (req_class request);
         policy = policy_of (ct_config c) (req_class request);
         total = (\<Sum>cls\<leftarrow>classOrder. cq_queued (ct_queues c cls)) in
     if total > NodeMaximumQueued (ct_config c) then Some NodeQueueFull
     else if cq_queued queue > MaximumQueued policy then Some ClassQueueFull
     else if int (length (cq_lists queue (req_workspace request))) > MaximumQueuedPerWorkspace policy
     then Some WorkspaceQueueFull
     else None)"

text \<open>
  The admission a context already carries: whether it is of this controller, its class and
  its workspace.
\<close>

type_synonym ctx_admission = "(bool \<times> work_class \<times> string) option"

datatype acquire_start = Denied rejection | NestedLease | Immediate nat | Parked nat

text \<open>The new waiter at the end of its workspace's list.\<close>

definition enqueue_waiter :: "int \<Rightarrow> work_request \<Rightarrow> controller \<Rightarrow> controller" where
  "enqueue_waiter now request c =
    (let wid = ct_next c; cls = req_class request in
     c\<lparr>ct_waiters := (ct_waiters c)(wid \<mapsto>
         \<lparr>wt_request = request, wt_enqueued = now, wt_state = Waiting, wt_result = None\<rparr>),
       ct_next := Suc wid,
       ct_queues := (ct_queues c)(cls := enqueue (req_workspace request) wid (ct_queues c cls))\<rparr>)"

text \<open>\<open>Acquire\<close> up to its \<open>select\<close>.\<close>

definition acquire_begin ::
  "int \<Rightarrow> ctx_admission \<Rightarrow> work_request \<Rightarrow> controller \<Rightarrow> (acquire_start \<times> controller) go_panic" where
  "acquire_begin now active request0 c =
    (case normalize request0 of
       Inl rej \<Rightarrow> Some (Denied rej, observe_admission (rej_request rej) (Rejected InvalidRequest) 0 0 c)
     | Inr request \<Rightarrow>
       (case active of
          Some (same, cls, ws) \<Rightarrow>
            if same \<and> cls = req_class request \<and> ws = req_workspace request then Some (NestedLease, c)
            else Some (Denied (rejection_of request ConflictingNestedAdmission 0 None),
                       observe_admission request (Rejected ConflictingNestedAdmission) 0 0 c)
        | None \<Rightarrow>
            if ct_closed c then
              Some (Denied (rejection_of request ControllerShutdown 0 None),
                    observe_admission request (Rejected ControllerShutdown) 0 0 c)
            else
              let wid = ct_next c; cls = req_class request; ws = req_workspace request;
                  c1 = enqueue_waiter now request c in
              (case scheduleLocked now c1 of
                 None \<Rightarrow> None
               | Some c2 \<Rightarrow>
                 (case ct_waiters c2 wid of
                    None \<Rightarrow> None
                  | Some w \<Rightarrow>
                    (if wt_state w = Waiting then
                       (case queueLimitReasonLocked request c2 of
                          Some reason \<Rightarrow>
                            let c3 = c2\<lparr>ct_queues := (ct_queues c2)(cls :=
                                         snd (remove_waiter ws wid (ct_queues c2 cls))),
                                       ct_waiters := (ct_waiters c2)(wid \<mapsto> w\<lparr>wt_state := RejectedState\<rparr>)\<rparr> in
                            Some (Denied (rejection_of request reason (now - wt_enqueued w) None),
                                  observe_admission request (Rejected reason) 0 0
                                    (observe (ObserveWorkload (statsLocked c3)) c3))
                        | None \<Rightarrow> Some (Parked wid, observe (ObserveWorkload (statsLocked c2)) c2))
                     else
                       (case wt_result w of
                          Some (ResLease l) \<Rightarrow>
                            (case ct_leases c2 l of
                               None \<Rightarrow> None
                             | Some ls \<Rightarrow>
                                 Some (Immediate l,
                                   observe_admission request Admitted (ls_queueWait ls) 0
                                     (observe (ObserveWorkload (statsLocked c2))
                                        (c2\<lparr>ct_waiters := (ct_waiters c2)(wid \<mapsto> w\<lparr>wt_result := None\<rparr>)\<rparr>))))
                        | _ \<Rightarrow> None))))))"

section \<open>Release\<close>

definition release_counters :: "nat \<Rightarrow> lease \<Rightarrow> controller \<Rightarrow> controller" where
  "release_counters l ls c =
    (let cls = req_class (ls_request ls); ws = req_workspace (ls_request ls);
         n = (case ct_runningWS c cls ws of Some k \<Rightarrow> k | None \<Rightarrow> 0) - 1 in
     c\<lparr>ct_leases := (ct_leases c)(l \<mapsto> ls\<lparr>ls_canceled := True, ls_once := True\<rparr>),
       ct_running := ct_running c - 1,
       ct_runningClass := (ct_runningClass c)(cls := ct_runningClass c cls - 1),
       ct_active := removeAll l (ct_active c),
       ct_runningWS := (ct_runningWS c)(cls :=
         (ct_runningWS c cls)(ws := (if n = 0 then None else Some n)))\<rparr>)"

definition release :: "int \<Rightarrow> ctx_error option \<Rightarrow> nat \<Rightarrow> controller \<Rightarrow> controller go_panic" where
  "release now contextErr l c =
    (case ct_leases c l of
       None \<Rightarrow> None
     | Some ls \<Rightarrow>
         if ls_once ls then Some c
         else
           (case scheduleLocked now (release_counters l ls c) of
              None \<Rightarrow> None
            | Some c1 \<Rightarrow>
                Some (observe_admission (ls_request ls)
                   (case contextErr of Some DeadlineExceeded \<Rightarrow> TimeoutOutcome
                      | Some Canceled \<Rightarrow> CanceledOutcome | None \<Rightarrow> Completed)
                   (ls_queueWait ls) (now - ls_started ls)
                   (observe (ObserveWorkload (statsLocked c1)) c1))))"

section \<open>The select of Acquire\<close>

text \<open>\<open>cancelWaiter\<close>: \<open>Some l\<close> when the waiter had been granted the lease \<open>l\<close> meanwhile.\<close>

definition cancelWaiter :: "int \<Rightarrow> nat \<Rightarrow> controller \<Rightarrow> (nat option \<times> controller) go_panic" where
  "cancelWaiter now wid c =
    (case ct_waiters c wid of
       None \<Rightarrow> None
     | Some w \<Rightarrow>
         if wt_state w = Waiting then
           let cls = req_class (wt_request w); ws = req_workspace (wt_request w) in
           (case scheduleLocked now
               (c\<lparr>ct_queues := (ct_queues c)(cls := snd (remove_waiter ws wid (ct_queues c cls))),
                  ct_waiters := (ct_waiters c)(wid \<mapsto> w\<lparr>wt_state := RejectedState\<rparr>)\<rparr>) of
              None \<Rightarrow> None
            | Some c1 \<Rightarrow> Some (None, observe (ObserveWorkload (statsLocked c1)) c1))
         else
           (case wt_result w of
              Some (ResLease l) \<Rightarrow> Some (Some l, c\<lparr>ct_waiters := (ct_waiters c)(wid \<mapsto> w\<lparr>wt_result := None\<rparr>)\<rparr>)
            | Some (ResErr e) \<Rightarrow> Some (None, c\<lparr>ct_waiters := (ct_waiters c)(wid \<mapsto> w\<lparr>wt_result := None\<rparr>)\<rparr>)
            | None \<Rightarrow> Some (None, c)))"

datatype acquire_return = Got nat | Failed rejection | CtxFailed ctx_error

text \<open>The branch that receives the result; \<open>None\<close> where there is nothing to receive.\<close>

definition acquire_recv ::
  "int \<Rightarrow> ctx_error option \<Rightarrow> nat \<Rightarrow> controller \<Rightarrow> (acquire_return \<times> controller) go_panic" where
  "acquire_recv now ctxErr wid c =
    (case ct_waiters c wid of
       None \<Rightarrow> None
     | Some w \<Rightarrow>
         let c1 = c\<lparr>ct_waiters := (ct_waiters c)(wid \<mapsto> w\<lparr>wt_result := None\<rparr>)\<rparr> in
         (case wt_result w of
            None \<Rightarrow> None
          | Some (ResErr e) \<Rightarrow> Some (Failed e, c1)
          | Some (ResLease l) \<Rightarrow>
              (case ctxErr of
                 Some e \<Rightarrow> map_option (Pair (CtxFailed e)) (release now ctxErr l c1)
               | None \<Rightarrow>
                   (case ct_leases c1 l of
                      None \<Rightarrow> None
                    | Some ls \<Rightarrow> Some (Got l, observe_admission (wt_request w) Admitted (ls_queueWait ls) 0 c1)))))"

text \<open>The branch of a done context.\<close>

definition acquire_ctx_done ::
  "int \<Rightarrow> ctx_error \<Rightarrow> nat \<Rightarrow> controller \<Rightarrow> (acquire_return \<times> controller) go_panic" where
  "acquire_ctx_done now e wid c =
    (case ct_waiters c wid of
       None \<Rightarrow> None
     | Some w \<Rightarrow>
         (case cancelWaiter now wid c of
            None \<Rightarrow> None
          | Some (Some l, c1) \<Rightarrow> map_option (Pair (CtxFailed e)) (release now (Some e) l c1)
          | Some (None, c1) \<Rightarrow>
              Some (CtxFailed e,
                observe_admission (wt_request w) CanceledOutcome (now - wt_enqueued w) 0 c1)))"

text \<open>The branch of the queue timer.\<close>

definition acquire_timeout ::
  "int \<Rightarrow> ctx_error option \<Rightarrow> nat \<Rightarrow> controller \<Rightarrow> (acquire_return \<times> controller) go_panic" where
  "acquire_timeout now ctxErr wid c =
    (case ct_waiters c wid of
       None \<Rightarrow> None
     | Some w \<Rightarrow>
         (case cancelWaiter now wid c of
            None \<Rightarrow> None
          | Some (Some l, c1) \<Rightarrow>
              (case ctxErr of
                 None \<Rightarrow> (case ct_leases c1 l of
                            None \<Rightarrow> None
                          | Some ls \<Rightarrow> Some (Got l, observe_admission (wt_request w) Admitted (ls_queueWait ls) 0 c1))
               | Some e \<Rightarrow> map_option (Pair (CtxFailed e)) (release now ctxErr l c1))
          | Some (None, c1) \<Rightarrow>
              Some (Failed (rejection_of (wt_request w) QueueTimeout (now - wt_enqueued w) (Some DeadlineExceeded)),
                observe_admission (wt_request w) (Rejected QueueTimeout) (now - wt_enqueued w) 0 c1)))"

section \<open>Close\<close>

text \<open>The waiters \<open>Close\<close> rejects, in the order it collects them.\<close>

definition queued_waiters :: "controller \<Rightarrow> nat list" where
  "queued_waiters c =
     concat (map (\<lambda>cls. concat (map (cq_lists (ct_queues c cls)) (cq_order (ct_queues c cls)))) classOrder)"

definition reject_waiter :: "int \<Rightarrow> controller \<Rightarrow> nat \<Rightarrow> controller" where
  "reject_waiter now c wid =
    (case ct_waiters c wid of
       None \<Rightarrow> c
     | Some w \<Rightarrow>
         let wait = now - wt_enqueued w in
         observe_admission (wt_request w) (Rejected ControllerShutdown) wait 0
           (c\<lparr>ct_waiters := (ct_waiters c)(wid \<mapsto>
                w\<lparr>wt_state := RejectedState,
                  wt_result := Some (ResErr (rejection_of (wt_request w) ControllerShutdown wait None))\<rparr>)\<rparr>))"

definition Close :: "int \<Rightarrow> controller \<Rightarrow> controller" where
  "Close now c =
    (if ct_closed c then c
     else
       let rejected = queued_waiters c;
           c1 = c\<lparr>ct_closed := True,
                  ct_queues := (\<lambda>cls. if cls \<in> set classOrder then empty_queue else ct_queues c cls)\<rparr>;
           stats = statsLocked c1;
           c2 = c1\<lparr>ct_leases := (\<lambda>l. if l \<in> set (ct_active c1)
                    then map_option (\<lambda>ls. ls\<lparr>ls_canceled := True\<rparr>) (ct_leases c1 l) else ct_leases c1 l)\<rparr> in
       observe (ObserveWorkload stats) (foldl (reject_waiter now) c2 rejected))"

end
