(* ===== verification/Workload_Safety.thy ===== *)
theory Workload_Safety
  imports Workload_Controller
begin

text \<open>
  Invariants of the admission controller and their preservation by every operation:
  leases and counters agree, waiters and queues agree, no capacity limit is exceeded
  (\<open>controller_inv\<close>), no queue limit is exceeded (\<open>queues_bounded\<close>), and no admissible
  waiter is left waiting (\<open>settled\<close>).
\<close>

section \<open>Invariants\<close>

definition lease_request :: "controller \<Rightarrow> nat \<Rightarrow> work_request" where
  "lease_request c l = ls_request (the (ct_leases c l))"

definition active_in :: "controller \<Rightarrow> work_class \<Rightarrow> nat list" where
  "active_in c cls = filter (\<lambda>l. req_class (lease_request c l) = cls) (ct_active c)"

definition active_ws :: "controller \<Rightarrow> work_class \<Rightarrow> string \<Rightarrow> nat list" where
  "active_ws c cls ws = filter (\<lambda>l. req_workspace (lease_request c l) = ws) (active_in c cls)"

definition leases_inv :: "controller \<Rightarrow> bool" where
  "leases_inv c \<longleftrightarrow> distinct (ct_active c)
     \<and> (\<forall>l. l \<in> set (ct_active c) \<longleftrightarrow> (\<exists>ls. ct_leases c l = Some ls \<and> \<not> ls_once ls))
     \<and> (\<forall>l. ct_leases c l \<noteq> None \<longrightarrow> l < ct_next c)"

definition positive :: "nat \<Rightarrow> int option" where
  "positive n = (if n = 0 then None else Some (int n))"

definition counts_inv :: "controller \<Rightarrow> bool" where
  "counts_inv c \<longleftrightarrow> ct_running c = int (length (ct_active c))
     \<and> (\<forall>cls. ct_runningClass c cls = int (length (active_in c cls)))
     \<and> (\<forall>cls ws. ct_runningWS c cls ws = positive (length (active_ws c cls ws)))"

definition waiters_inv :: "controller \<Rightarrow> bool" where
  "waiters_inv c \<longleftrightarrow> (\<forall>cls. queue_wf (ct_queues c cls))
     \<and> (\<forall>cls ws. distinct (cq_lists (ct_queues c cls) ws))
     \<and> (\<forall>cls ws wid. wid \<in> set (cq_lists (ct_queues c cls) ws) \<longleftrightarrow>
          (\<exists>w. ct_waiters c wid = Some w \<and> wt_state w = Waiting
             \<and> req_class (wt_request w) = cls \<and> req_workspace (wt_request w) = ws))
     \<and> (\<forall>wid w. ct_waiters c wid = Some w \<longrightarrow>
          wid < ct_next c \<and> req_class (wt_request w) \<in> set classOrder
          \<and> (\<forall>l. wt_result w = Some (ResLease l) \<longrightarrow> ct_leases c l \<noteq> None)
          \<and> (wt_state w = Waiting \<longrightarrow> wt_result w = None))"

definition caps_inv :: "controller \<Rightarrow> bool" where
  "caps_inv c \<longleftrightarrow> valid_config (ct_config c) \<and> ct_running c \<le> MaxRunning (ct_config c)
     \<and> (\<forall>cls\<in>set classOrder. ct_runningClass c cls \<le> MaximumRunning (policy_of (ct_config c) cls))"

definition controller_inv :: "controller \<Rightarrow> bool" where
  "controller_inv c \<longleftrightarrow> leases_inv c \<and> counts_inv c \<and> waiters_inv c \<and> caps_inv c
     \<and> (ct_closed c \<longrightarrow> (\<forall>cls. cq_queued (ct_queues c cls) = 0))"

definition total_queued :: "controller \<Rightarrow> int" where
  "total_queued c = (\<Sum>cls\<leftarrow>classOrder. cq_queued (ct_queues c cls))"

definition queues_bounded :: "controller \<Rightarrow> bool" where
  "queues_bounded c \<longleftrightarrow> total_queued c \<le> NodeMaximumQueued (ct_config c)
     \<and> (\<forall>cls\<in>set classOrder.
          cq_queued (ct_queues c cls) \<le> MaximumQueued (policy_of (ct_config c) cls)
          \<and> (\<forall>ws. int (length (cq_lists (ct_queues c cls) ws))
                  \<le> MaximumQueuedPerWorkspace (policy_of (ct_config c) cls)))"

definition settled :: "controller \<Rightarrow> bool" where
  "settled c \<longleftrightarrow> ct_closed c \<or> MaxRunning (ct_config c) \<le> ct_running c
     \<or> (\<forall>cls\<in>set classOrder. cq_queued (ct_queues c cls) = 0
          \<or> MaximumRunning (policy_of (ct_config c) cls) \<le> ct_runningClass c cls)"

section \<open>Frame: what observation leaves alone\<close>

lemma observe_frame [simp]:
  "ct_config (observe ob c) = ct_config c" "ct_closed (observe ob c) = ct_closed c"
  "ct_running (observe ob c) = ct_running c" "ct_runningClass (observe ob c) = ct_runningClass c"
  "ct_runningWS (observe ob c) = ct_runningWS c" "ct_active (observe ob c) = ct_active c"
  "ct_queues (observe ob c) = ct_queues c" "ct_classCursor (observe ob c) = ct_classCursor c"
  "ct_waiters (observe ob c) = ct_waiters c" "ct_leases (observe ob c) = ct_leases c"
  "ct_next (observe ob c) = ct_next c"
  by (simp_all add: observe_def)

lemma lease_request_cong: "ct_leases c' = ct_leases c \<Longrightarrow> lease_request c' = lease_request c"
  by (rule ext) (simp add: lease_request_def)

lemma controller_inv_cong:
  assumes "ct_config c' = ct_config c" "ct_closed c' = ct_closed c" "ct_running c' = ct_running c"
    "ct_runningClass c' = ct_runningClass c" "ct_runningWS c' = ct_runningWS c"
    "ct_active c' = ct_active c" "ct_queues c' = ct_queues c" "ct_waiters c' = ct_waiters c"
    "ct_leases c' = ct_leases c" "ct_next c' = ct_next c"
  shows "controller_inv c' = controller_inv c"
proof -
  have lr: "lease_request c' = lease_request c" using assms(9) by (rule lease_request_cong)
  then have ain: "active_in c' = active_in c"
    using assms(6) by (intro ext) (simp add: active_in_def)
  have "active_ws c' = active_ws c"
    using lr by (intro ext) (simp add: active_ws_def ain)
  then show ?thesis
    using assms ain by (simp add: controller_inv_def leases_inv_def counts_inv_def waiters_inv_def caps_inv_def)
qed

lemma controller_inv_observe [simp]: "controller_inv (observe ob c) = controller_inv c"
  by (rule controller_inv_cong) simp_all

lemma queues_bounded_observe [simp]: "queues_bounded (observe ob c) = queues_bounded c"
  by (simp add: queues_bounded_def total_queued_def)

lemma settled_observe [simp]: "settled (observe ob c) = settled c"
  by (simp add: settled_def)

lemma controller_inv_cursor [simp]:
  "controller_inv (c\<lparr>ct_classCursor := k\<rparr>) = controller_inv c"
  by (rule controller_inv_cong) simp_all

section \<open>Choosing a class\<close>

lemma nextClassLocked_Some:
  assumes "nextClassLocked r c = Some (cls, k)"
  shows "cls \<in> set classOrder \<and> class_eligible r c cls"
proof -
  let ?index = "\<lambda>offset. (ct_classCursor c + offset) mod length classOrder"
  obtain off where off: "find (\<lambda>o'. class_eligible r c (classOrder ! ?index o')) [0..<length classOrder] = Some off"
    and cls: "cls = classOrder ! ?index off"
    using assms by (auto simp: nextClassLocked_def Let_def split: option.splits)
  have "class_eligible r c (classOrder ! ?index off)" using off by (auto simp: find_Some_iff)
  moreover have "?index off < length classOrder" by simp
  ultimately show ?thesis using cls nth_mem by metis
qed

lemma nextClassLocked_None:
  assumes "nextClassLocked r c = None" "cls \<in> set classOrder"
  shows "\<not> class_eligible r c cls"
proof
  assume el: "class_eligible r c cls"
  let ?n = "length classOrder" and ?k = "ct_classCursor c"
  obtain i where i: "i < ?n" "classOrder ! i = cls" using assms(2) by (auto simp: in_set_conv_nth)
  define off where "off = (i + ?n - ?k mod ?n) mod ?n"
  have "(?k + off) mod ?n = i"
  proof -
    have "(?k + off) mod ?n = (?k mod ?n + (i + ?n - ?k mod ?n)) mod ?n"
      by (simp add: off_def mod_simps del: length_classOrder)
    also have "\<dots> = (i + ?n) mod ?n" using mod_less_divisor [of ?n ?k] by simp
    finally show ?thesis using i by simp
  qed
  moreover have "off \<in> set [0..<?n]" by (simp add: off_def)
  ultimately have "\<exists>o'\<in>set [0..<?n]. class_eligible r c (classOrder ! ((?k + o') mod ?n))"
    using el i by (intro bexI [of _ off]) simp_all
  then show False
    using assms(1) by (auto simp: nextClassLocked_def Let_def find_None_iff split: option.splits)
qed

lemma class_eligible_nonempty: "class_eligible r c cls \<Longrightarrow> cq_queued (ct_queues c cls) \<noteq> 0"
  by (auto simp: class_eligible_def Let_def)

lemma class_eligible_reserved: "class_eligible True c cls \<Longrightarrow> class_eligible False c cls"
  by (auto simp: class_eligible_def Let_def)

section \<open>Granting one waiter\<close>

lemma waiters_inv_member:
  assumes "waiters_inv c" "wid \<in> set (cq_lists (ct_queues c cls) ws)"
  obtains w where "ct_waiters c wid = Some w" "wt_state w = Waiting" "req_class (wt_request w) = cls"
    "req_workspace (wt_request w) = ws" "wt_result w = None"
  using assms by (auto simp: waiters_inv_def)

text \<open>
  Taking a waiter out of its queue and changing its state away from \<open>Waiting\<close>, by \<open>pop\<close> or
  by \<open>remove_waiter\<close>: the queues stay in step with the waiters.
\<close>

lemma waiters_inv_take:
  assumes inv: "waiters_inv c" and w: "ct_waiters c wid = Some w" and st: "wt_state w = Waiting"
    and cls: "req_class (wt_request w) = cls" and ws: "req_workspace (wt_request w) = ws"
    and q: "queue_wf q" "cq_lists q = (cq_lists (ct_queues c cls))(ws := remove1 wid (cq_lists (ct_queues c cls) ws))"
    and w': "wt_state w' \<noteq> Waiting" "wt_request w' = wt_request w"
    and res: "\<And>l. wt_result w' = Some (ResLease l) \<Longrightarrow> ct_leases c' l \<noteq> None"
    and c': "ct_queues c' = (ct_queues c)(cls := q)" "ct_waiters c' = (ct_waiters c)(wid \<mapsto> w')"
      "ct_next c \<le> ct_next c'" "\<And>l. ct_leases c l \<noteq> None \<Longrightarrow> ct_leases c' l \<noteq> None"
  shows "waiters_inv c'"
proof -
  let ?Q = "ct_queues c"
  have dist: "distinct (cq_lists (?Q k) x)" for k x using inv by (simp add: waiters_inv_def)
  have mem: "v \<in> set (cq_lists (?Q k) x) \<longleftrightarrow> (\<exists>u. ct_waiters c v = Some u \<and> wt_state u = Waiting
      \<and> req_class (wt_request u) = k \<and> req_workspace (wt_request u) = x)" for k x v
    using inv by (simp add: waiters_inv_def)
  have lists': "set (cq_lists (ct_queues c' k) x) = set (cq_lists (?Q k) x) - (if k = cls \<and> x = ws then {wid} else {})" for k x
    using dist by (auto simp: c'(1) q(2))
  have wf': "queue_wf (ct_queues c' k)" for k
    using inv q(1) by (simp add: c'(1) waiters_inv_def)
  have d': "distinct (cq_lists (ct_queues c' k) x)" for k x
    using dist by (simp add: c'(1) q(2))
  have m': "v \<in> set (cq_lists (ct_queues c' k) x) \<longleftrightarrow> (\<exists>u. ct_waiters c' v = Some u \<and> wt_state u = Waiting
      \<and> req_class (wt_request u) = k \<and> req_workspace (wt_request u) = x)" for k x v
    using w st cls ws w'(1) by (auto simp: lists' mem c'(2))
  have t': "v < ct_next c' \<and> req_class (wt_request u) \<in> set classOrder
      \<and> (\<forall>l. wt_result u = Some (ResLease l) \<longrightarrow> ct_leases c' l \<noteq> None)
      \<and> (wt_state u = Waiting \<longrightarrow> wt_result u = None)" if "ct_waiters c' v = Some u" for v u
  proof (cases "v = wid")
    case True
    then have "u = w'" using that by (simp add: c'(2))
    then show ?thesis
      using inv w True w' res c'(3) by (fastforce simp: waiters_inv_def)
  next
    case False
    then have "ct_waiters c v = Some u" using that by (simp add: c'(2))
    then have "v < ct_next c \<and> req_class (wt_request u) \<in> set classOrder
      \<and> (\<forall>l. wt_result u = Some (ResLease l) \<longrightarrow> ct_leases c l \<noteq> None)
      \<and> (wt_state u = Waiting \<longrightarrow> wt_result u = None)"
      using inv unfolding waiters_inv_def by blast
    then show ?thesis using c'(3,4) by auto
  qed
  show ?thesis
    unfolding waiters_inv_def using wf' d' m' t' by blast
qed

lemma filter_fresh:
  assumes "\<And>l. l \<in> set xs \<Longrightarrow> P' l = P l"
  shows "filter P' (xs @ [x]) = filter P xs @ (if P' x then [x] else [])"
  using assms by (simp cong: filter_cong)

lemma positive_Suc: "positive (Suc n) = Some ((case positive n of Some k \<Rightarrow> k | None \<Rightarrow> 0) + 1)"
  by (simp add: positive_def)

lemma grant_counts:
  assumes li: "leases_inv c" and ci: "counts_inv c" and cls: "req_class (wt_request w) = cls"
  shows "leases_inv (grant now cls wid w c) \<and> counts_inv (grant now cls wid w c)"
proof -
  let ?c' = "grant now cls wid w c" and ?l = "ct_next c" and ?ws = "req_workspace (wt_request w)"
  have fresh: "ct_leases c ?l = None" "?l \<notin> set (ct_active c)"
    using li by (auto simp: leases_inv_def)
  have act: "ct_active ?c' = ct_active c @ [?l]" by (simp add: grant_def Let_def)
  have lr: "lease_request ?c' l = (if l = ?l then wt_request w else lease_request c l)" for l
    by (simp add: lease_request_def grant_def Let_def)
  have lrs: "lease_request ?c' l = lease_request c l" if "l \<in> set (ct_active c)" for l
    using that fresh(2) lr by auto
  have ain: "active_in ?c' k = active_in c k @ (if k = cls then [?l] else [])" for k
    unfolding active_in_def act using lrs lr [of ?l] cls
    by (subst filter_fresh [where P = "\<lambda>l. req_class (lease_request c l) = k"]) auto
  have aws: "active_ws ?c' k x = active_ws c k x @ (if k = cls \<and> x = ?ws then [?l] else [])" for k x
  proof -
    have "filter (\<lambda>l. req_workspace (lease_request ?c' l) = x) (active_in c k) =
        filter (\<lambda>l. req_workspace (lease_request c l) = x) (active_in c k)"
      by (rule filter_cong) (auto simp: active_in_def lrs)
    then show ?thesis using lr [of ?l] by (simp add: active_ws_def ain)
  qed
  have "leases_inv ?c'"
    using li fresh by (auto simp: leases_inv_def grant_def Let_def)
  moreover have "counts_inv ?c'"
  proof -
    have r: "ct_running ?c' = ct_running c + 1"
      "ct_runningClass ?c' = (ct_runningClass c)(cls := ct_runningClass c cls + 1)"
      "ct_runningWS ?c' k x = (if k = cls \<and> x = ?ws
         then Some ((case ct_runningWS c cls ?ws of Some n \<Rightarrow> n | None \<Rightarrow> 0) + 1) else ct_runningWS c k x)" for k x
      by (simp_all add: grant_def Let_def)
    show ?thesis
      using ci unfolding counts_inv_def r act ain aws by (auto simp: positive_Suc)
  qed
  ultimately show ?thesis by simp
qed

section \<open>The scheduler\<close>

text \<open>What scheduling may change: queues lose waiters from the front, waiters may be granted.\<close>

definition schedules_to :: "controller \<Rightarrow> controller \<Rightarrow> bool" where
  "schedules_to c c' \<longleftrightarrow> ct_config c' = ct_config c \<and> ct_closed c' = ct_closed c
     \<and> ct_observer c' = ct_observer c \<and> ct_next c \<le> ct_next c'
     \<and> (\<forall>l ls. ct_leases c l = Some ls \<longrightarrow> ct_leases c' l = Some ls)
     \<and> (\<forall>cls ws. \<exists>gone. cq_lists (ct_queues c cls) ws = gone @ cq_lists (ct_queues c' cls) ws
          \<and> int (length gone) \<le> cq_queued (ct_queues c cls) - cq_queued (ct_queues c' cls))
     \<and> (\<forall>wid w. ct_waiters c wid = Some w \<longrightarrow>
          (\<exists>w'. ct_waiters c' wid = Some w' \<and> (w' = w \<or> wt_state w = Waiting
             \<and> (\<exists>l. w' = w\<lparr>wt_state := Granted, wt_result := Some (ResLease l)\<rparr>))))"

lemma schedules_to_refl [simp]: "schedules_to c c"
  by (simp add: schedules_to_def)

lemma schedules_to_trans:
  assumes ab: "schedules_to a b" and bc: "schedules_to b c"
  shows "schedules_to a c"
proof -
  have lists: "\<exists>gone. cq_lists (ct_queues a k) x = gone @ cq_lists (ct_queues c k) x
      \<and> int (length gone) \<le> cq_queued (ct_queues a k) - cq_queued (ct_queues c k)" for k x
  proof -
    obtain g where g: "cq_lists (ct_queues a k) x = g @ cq_lists (ct_queues b k) x"
      "int (length g) \<le> cq_queued (ct_queues a k) - cq_queued (ct_queues b k)"
      using ab unfolding schedules_to_def by blast
    obtain h where h: "cq_lists (ct_queues b k) x = h @ cq_lists (ct_queues c k) x"
      "int (length h) \<le> cq_queued (ct_queues b k) - cq_queued (ct_queues c k)"
      using bc unfolding schedules_to_def by blast
    show ?thesis using g h by (intro exI [of _ "g @ h"]) simp
  qed
  have wait: "\<exists>w''. ct_waiters c wid = Some w'' \<and> (w'' = w \<or> wt_state w = Waiting
      \<and> (\<exists>l. w'' = w\<lparr>wt_state := Granted, wt_result := Some (ResLease l)\<rparr>))"
    if w: "ct_waiters a wid = Some w" for wid w
  proof -
    obtain w' where w': "ct_waiters b wid = Some w'" and step1: "w' = w \<or> wt_state w = Waiting
        \<and> (\<exists>l. w' = w\<lparr>wt_state := Granted, wt_result := Some (ResLease l)\<rparr>)"
      using ab w unfolding schedules_to_def by blast
    obtain w'' where w'': "ct_waiters c wid = Some w''" and step2: "w'' = w' \<or> wt_state w' = Waiting
        \<and> (\<exists>l. w'' = w'\<lparr>wt_state := Granted, wt_result := Some (ResLease l)\<rparr>)"
      using bc w' unfolding schedules_to_def by blast
    show ?thesis using step1 step2 w'' by auto
  qed
  show ?thesis
    using ab bc lists wait unfolding schedules_to_def by auto
qed

lemma grant_frame:
  "ct_config (grant now cls wid w c) = ct_config c" "ct_closed (grant now cls wid w c) = ct_closed c"
  "ct_observer (grant now cls wid w c) = ct_observer c" "ct_queues (grant now cls wid w c) = ct_queues c"
  "ct_next (grant now cls wid w c) = Suc (ct_next c)" "ct_running (grant now cls wid w c) = ct_running c + 1"
  "ct_runningClass (grant now cls wid w c) = (ct_runningClass c)(cls := ct_runningClass c cls + 1)"
  "ct_waiters (grant now cls wid w c) =
     (ct_waiters c)(wid \<mapsto> w\<lparr>wt_state := Granted, wt_result := Some (ResLease (ct_next c))\<rparr>)"
  "ct_leases (grant now cls wid w c) (ct_next c) \<noteq> None"
  "l \<noteq> ct_next c \<Longrightarrow> ct_leases (grant now cls wid w c) l = ct_leases c l"
  by (simp_all add: grant_def Let_def)

lemma controller_inv_parts:
  assumes "controller_inv c"
  shows "leases_inv c" "counts_inv c" "waiters_inv c" "caps_inv c"
    "queue_wf (ct_queues c cls)" "ct_closed c \<Longrightarrow> cq_queued (ct_queues c cls) = 0"
  using assms by (auto simp: controller_inv_def waiters_inv_def)

text \<open>One granting iteration of the scheduler keeps the invariant.\<close>

lemma grant_step:
  assumes inv: "controller_inv c" and open_c: "\<not> ct_closed c"
    and room: "ct_running c < MaxRunning (ct_config c)"
    and cls: "cls \<in> set classOrder" and el: "class_eligible False c cls"
    and p: "pop (ct_queues c cls) = Some (Some wid, q)" and w: "ct_waiters c wid = Some w"
  shows "controller_inv (grant now cls wid w (c\<lparr>ct_classCursor := k, ct_queues := (ct_queues c)(cls := q)\<rparr>))
    \<and> schedules_to c (grant now cls wid w (c\<lparr>ct_classCursor := k, ct_queues := (ct_queues c)(cls := q)\<rparr>))"
    (is "controller_inv ?c' \<and> schedules_to c ?c'")
proof -
  note parts = controller_inv_parts [OF inv]
  let ?Q = "ct_queues c"
  obtain ws ys where ys: "cq_lists (?Q cls) ws = wid # ys" "cq_lists q = (cq_lists (?Q cls))(ws := ys)"
    and wfq: "queue_wf q" and qd: "cq_queued q = cq_queued (?Q cls) - 1"
    using cq.deq_Some [OF parts(5) p] by blast
  have "wid \<in> set (cq_lists (?Q cls) ws)" using ys by simp
  then obtain u where u: "ct_waiters c wid = Some u" "wt_state u = Waiting" "req_class (wt_request u) = cls"
    "req_workspace (wt_request u) = ws"
    by (rule waiters_inv_member [OF parts(3)]) blast
  then have wu: "u = w" and wst: "wt_state w = Waiting" using w by simp_all
  have lists: "cq_lists q = (cq_lists (?Q cls))(ws := remove1 wid (cq_lists (?Q cls) ws))"
    using ys by simp
  have wi: "waiters_inv ?c'"
  proof (rule waiters_inv_take [OF parts(3), where wid = wid and w = w and cls = cls and ws = ws and q = q
        and w' = "w\<lparr>wt_state := Granted, wt_result := Some (ResLease (ct_next c))\<rparr>"])
    show "ct_leases ?c' l \<noteq> None" if "ct_leases c l \<noteq> None" for l
      using that by (cases "l = ct_next c") (auto simp: grant_def Let_def)
  qed (use u wu lists wfq in \<open>auto simp: grant_def Let_def\<close>)
  have lc: "leases_inv ?c' \<and> counts_inv ?c'"
    using parts(1,2) u wu
    by (intro grant_counts) (simp_all add: leases_inv_def counts_inv_def active_ws_def active_in_def lease_request_def)
  have ca: "caps_inv ?c'"
    using parts(4) room el by (auto simp: caps_inv_def grant_def class_eligible_def Let_def)
  have fresh: "ct_leases c (ct_next c) = None" using parts(1) by (auto simp: leases_inv_def)
  have "schedules_to c ?c'"
    unfolding schedules_to_def
  proof (intro conjI allI impI)
    fix l ls assume "ct_leases c l = Some ls"
    then show "ct_leases ?c' l = Some ls" using fresh by (auto simp: grant_def Let_def)
  next
    fix k x
    show "\<exists>gone. cq_lists (?Q k) x = gone @ cq_lists (ct_queues ?c' k) x
        \<and> int (length gone) \<le> cq_queued (?Q k) - cq_queued (ct_queues ?c' k)"
      using ys qd by (intro exI [of _ "if k = cls \<and> x = ws then [wid] else []"]) (auto simp: grant_frame)
  next
    fix v u assume "ct_waiters c v = Some u"
    then show "\<exists>w'. ct_waiters ?c' v = Some w' \<and> (w' = u \<or> wt_state u = Waiting
        \<and> (\<exists>l. w' = u\<lparr>wt_state := Granted, wt_result := Some (ResLease l)\<rparr>))"
      using w wst by (auto simp: grant_frame)
  qed (simp_all add: grant_frame)
  moreover have "controller_inv ?c'"
    using wi lc ca open_c by (simp add: controller_inv_def grant_frame)
  ultimately show ?thesis by simp
qed

lemma not_eligible_settled:
  assumes "\<And>cls. cls \<in> set classOrder \<Longrightarrow> \<not> class_eligible False c cls"
  shows "settled c"
  using assms by (auto simp: settled_def class_eligible_def Let_def)

lemma schedule_step_inv:
  assumes inv: "controller_inv c"
  shows "\<exists>goes_on c'. schedule_step now c = Some (goes_on, c') \<and> controller_inv c' \<and> schedules_to c c'
    \<and> (\<not> goes_on \<longrightarrow> settled c')"
proof (cases "ct_closed c \<or> \<not> ct_running c < MaxRunning (ct_config c)")
  case True
  then have "schedule_step now c = Some (False, c)" by (auto simp: schedule_step_def)
  moreover have "settled c" using True by (auto simp: settled_def)
  ultimately show ?thesis using inv by (intro exI [of _ False] exI [of _ c]) auto
next
  case False
  let ?pick = "case nextClassLocked True c of Some r \<Rightarrow> Some r | None \<Rightarrow> nextClassLocked False c"
  show ?thesis
  proof (cases ?pick)
    case None
    then have "schedule_step now c = Some (False, c)"
      using False by (simp add: schedule_step_def)
    moreover have "nextClassLocked False c = None" using None by (auto split: option.splits)
    then have "settled c" by (intro not_eligible_settled nextClassLocked_None)
    ultimately show ?thesis using inv by (intro exI [of _ False] exI [of _ c]) auto
  next
    case (Some pick)
    obtain cls k where pick: "?pick = Some (cls, k)" using Some by (cases pick) auto
    have cls: "cls \<in> set classOrder" and el: "class_eligible False c cls"
      using pick nextClassLocked_Some class_eligible_reserved by (auto split: option.splits)
    obtain wid q where p: "pop (ct_queues c cls) = Some (Some wid, q)"
      using cq.deq_nonempty [OF controller_inv_parts(5) [OF inv] class_eligible_nonempty [OF el]] .
    then obtain w where w: "ct_waiters c wid = Some w"
      using cq.deq_members [OF controller_inv_parts(5) [OF inv] p]
        waiters_inv_member [OF controller_inv_parts(3) [OF inv]] by metis
    have "schedule_step now c =
        Some (True, grant now cls wid w (c\<lparr>ct_classCursor := k, ct_queues := (ct_queues c)(cls := q)\<rparr>))"
      using False pick p w by (simp add: schedule_step_def Let_def)
    then show ?thesis
      using grant_step [OF inv _ _ cls el p w, of now k] False by auto
  qed
qed

text \<open>
  The scheduler always returns, keeps the invariant and leaves no admissible waiter behind.
\<close>

lemma scheduleLocked_inv:
  assumes "controller_inv c"
  shows "\<exists>c'. scheduleLocked now c = Some c' \<and> controller_inv c' \<and> schedules_to c c' \<and> settled c'"
  using assms
proof (induction now c rule: scheduleLocked.induct)
  case (1 now c)
  obtain goes_on c1 where s: "schedule_step now c = Some (goes_on, c1)" "controller_inv c1"
    "schedules_to c c1" "\<not> goes_on \<longrightarrow> settled c1"
    using schedule_step_inv [OF 1(2)] by blast
  show ?case
  proof (cases goes_on)
    case True
    then obtain c' where "scheduleLocked now c1 = Some c'" "controller_inv c'" "schedules_to c1 c'" "settled c'"
      using 1(1) [OF s(1) refl] s(2) by auto
    then show ?thesis
      using True s schedules_to_trans [OF s(3)] by (simp add: scheduleLocked.simps [of now c])
  next
    case False
    then show ?thesis using s by (simp add: scheduleLocked.simps [of now c])
  qed
qed

section \<open>Operations keep the invariants\<close>

definition controller_ok :: "controller \<Rightarrow> bool" where
  "controller_ok c \<longleftrightarrow> controller_inv c \<and> queues_bounded c \<and> settled c"

lemma schedules_to_queues:
  assumes "schedules_to c c'"
  shows "cq_queued (ct_queues c' cls) \<le> cq_queued (ct_queues c cls)"
    and "length (cq_lists (ct_queues c' cls) ws) \<le> length (cq_lists (ct_queues c cls) ws)"
proof -
  obtain g where g: "cq_lists (ct_queues c cls) ws = g @ cq_lists (ct_queues c' cls) ws"
    "int (length g) \<le> cq_queued (ct_queues c cls) - cq_queued (ct_queues c' cls)"
    using assms unfolding schedules_to_def by blast
  then show "cq_queued (ct_queues c' cls) \<le> cq_queued (ct_queues c cls)" by simp
  show "length (cq_lists (ct_queues c' cls) ws) \<le> length (cq_lists (ct_queues c cls) ws)"
    using g(1) by simp
qed

lemma queues_bounded_mono:
  assumes b: "queues_bounded c" and cfg: "ct_config c' = ct_config c"
    and q: "\<And>cls. cq_queued (ct_queues c' cls) \<le> cq_queued (ct_queues c cls)"
    and l: "\<And>cls ws. length (cq_lists (ct_queues c' cls) ws) \<le> length (cq_lists (ct_queues c cls) ws)"
  shows "queues_bounded c'"
  unfolding queues_bounded_def cfg
proof (intro conjI ballI allI)
  have "total_queued c' \<le> total_queued c"
    unfolding total_queued_def by (intro sum_list_mono q)
  then show "total_queued c' \<le> NodeMaximumQueued (ct_config c)"
    using b by (simp add: queues_bounded_def)
next
  fix cls ws assume cls: "cls \<in> set classOrder"
  show "cq_queued (ct_queues c' cls) \<le> MaximumQueued (policy_of (ct_config c) cls)"
  proof (rule order_trans [OF q])
    show "cq_queued (ct_queues c cls) \<le> MaximumQueued (policy_of (ct_config c) cls)"
      using b cls by (simp add: queues_bounded_def)
  qed
  show "int (length (cq_lists (ct_queues c' cls) ws)) \<le> MaximumQueuedPerWorkspace (policy_of (ct_config c) cls)"
  proof (rule order_trans)
    show "int (length (cq_lists (ct_queues c' cls) ws)) \<le> int (length (cq_lists (ct_queues c cls) ws))"
      using l by simp
    show "int (length (cq_lists (ct_queues c cls) ws)) \<le> MaximumQueuedPerWorkspace (policy_of (ct_config c) cls)"
      using b cls by (simp add: queues_bounded_def)
  qed
qed

lemma schedules_to_bounded:
  assumes "schedules_to c c'" "queues_bounded c"
  shows "queues_bounded c'"
  using assms(2) _ schedules_to_queues [OF assms(1)]
  by (rule queues_bounded_mono) (use assms(1) in \<open>simp add: schedules_to_def\<close>)

text \<open>Removing a waiter from its queue, as a rejected or a cancelled acquisition does.\<close>

definition drop_waiter :: "nat \<Rightarrow> waiter \<Rightarrow> controller \<Rightarrow> controller" where
  "drop_waiter wid w c =
    (let cls = req_class (wt_request w) in
     c\<lparr>ct_queues := (ct_queues c)(cls :=
         snd (remove_waiter (req_workspace (wt_request w)) wid (ct_queues c cls))),
       ct_waiters := (ct_waiters c)(wid \<mapsto> w\<lparr>wt_state := RejectedState\<rparr>)\<rparr>)"

lemma drop_waiter_frame [simp]:
  "ct_config (drop_waiter wid w c) = ct_config c" "ct_closed (drop_waiter wid w c) = ct_closed c"
  "ct_running (drop_waiter wid w c) = ct_running c" "ct_runningClass (drop_waiter wid w c) = ct_runningClass c"
  "ct_next (drop_waiter wid w c) = ct_next c" "ct_leases (drop_waiter wid w c) = ct_leases c"
  "ct_active (drop_waiter wid w c) = ct_active c" "ct_runningWS (drop_waiter wid w c) = ct_runningWS c"
  by (simp_all add: drop_waiter_def Let_def)

lemma drop_waiter_inv:
  assumes inv: "controller_inv c" and w: "ct_waiters c wid = Some w" "wt_state w = Waiting"
  shows "controller_inv (drop_waiter wid w c)"
    and "cq_queued (ct_queues (drop_waiter wid w c) cls) =
      cq_queued (ct_queues c cls) - (if cls = req_class (wt_request w) then 1 else 0)"
    and "cq_lists (ct_queues (drop_waiter wid w c) cls) ws =
      (if cls = req_class (wt_request w) \<and> ws = req_workspace (wt_request w)
       then remove1 wid (cq_lists (ct_queues c cls) ws) else cq_lists (ct_queues c cls) ws)"
proof -
  let ?cls = "req_class (wt_request w)" and ?ws = "req_workspace (wt_request w)"
  note parts = controller_inv_parts [OF inv]
  have mem: "wid \<in> set (cq_lists (ct_queues c ?cls) ?ws)"
    using parts(3) w by (auto simp: waiters_inv_def)
  have open_c: "\<not> ct_closed c"
    using cq.queued_bound [OF parts(5), of ?cls ?ws] parts(6) [of ?cls] mem by fastforce
  show q: "cq_queued (ct_queues (drop_waiter wid w c) cls) =
      cq_queued (ct_queues c cls) - (if cls = ?cls then 1 else 0)" for cls
    using cq.queued_rem [OF parts(5)] mem by (simp add: drop_waiter_def Let_def)
  show "cq_lists (ct_queues (drop_waiter wid w c) cls) ws =
      (if cls = ?cls \<and> ws = ?ws then remove1 wid (cq_lists (ct_queues c cls) ws)
       else cq_lists (ct_queues c cls) ws)"
    using cq.lists_rem [OF parts(5)] by (simp add: drop_waiter_def Let_def)
  have "waiters_inv (drop_waiter wid w c)"
  proof (rule waiters_inv_take [OF parts(3) w(1,2) refl refl])
    show "queue_wf (snd (remove_waiter ?ws wid (ct_queues c ?cls)))"
      by (rule cq.invar_rem [OF parts(5)])
    show "cq_lists (snd (remove_waiter ?ws wid (ct_queues c ?cls))) =
        (cq_lists (ct_queues c ?cls))(?ws := remove1 wid (cq_lists (ct_queues c ?cls) ?ws))"
      by (rule cq.lists_rem [OF parts(5)])
    show "ct_leases (drop_waiter wid w c) l \<noteq> None"
      if "wt_result (w\<lparr>wt_state := RejectedState\<rparr>) = Some (ResLease l)" for l
      using that parts(3) w(1) by (auto simp: waiters_inv_def)
  qed (auto simp: drop_waiter_def Let_def)
  then show "controller_inv (drop_waiter wid w c)"
    using inv open_c
    by (auto simp: controller_inv_def leases_inv_def counts_inv_def caps_inv_def active_ws_def
        active_in_def lease_request_def)
qed

lemma drop_waiter_settled:
  assumes inv: "controller_inv c" and w: "ct_waiters c wid = Some w" "wt_state w = Waiting"
  shows "settled c \<Longrightarrow> settled (drop_waiter wid w c)"
proof -
  assume s: "settled c"
  have "cq_queued (ct_queues (drop_waiter wid w c) cls) = 0" if "cq_queued (ct_queues c cls) = 0" for cls
    using drop_waiter_inv(2) [OF assms, of cls] that
      cq.queued_nonneg [OF controller_inv_parts(5) [OF drop_waiter_inv(1) [OF assms], of cls]]
    by (simp split: if_splits)
  then show ?thesis using s by (auto simp: settled_def)
qed

lemma drop_waiter_bounded:
  assumes inv: "controller_inv c" and w: "ct_waiters c wid = Some w" "wt_state w = Waiting"
  shows "queues_bounded c \<Longrightarrow> queues_bounded (drop_waiter wid w c)"
  by (erule queues_bounded_mono) (simp_all add: drop_waiter_inv(2,3) [OF assms] length_remove1)

text \<open>Enqueueing a waiter with a fresh pointer.\<close>

lemma enqueue_waiter_inv:
  assumes inv: "controller_inv c" and open_c: "\<not> ct_closed c" and cls: "req_class r \<in> set classOrder"
  shows "controller_inv (enqueue_waiter now r c)"
proof -
  note parts = controller_inv_parts [OF inv]
  let ?c' = "enqueue_waiter now r c" and ?w = "ct_next c"
  let ?new = "\<lparr>wt_request = r, wt_enqueued = now, wt_state = Waiting, wt_result = None\<rparr>"
  have fresh: "ct_waiters c ?w = None"
    using parts(3) unfolding waiters_inv_def by (metis less_irrefl not_None_eq)
  have notin: "?w \<notin> set (cq_lists (ct_queues c k) x)" for k x
    using fresh waiters_inv_member [OF parts(3), of ?w k x] by auto
  have W: "ct_waiters ?c' = (ct_waiters c)(?w \<mapsto> ?new)" by (simp add: enqueue_waiter_def Let_def)
  have L: "cq_lists (ct_queues ?c' k) x = (if k = req_class r \<and> x = req_workspace r
      then cq_lists (ct_queues c k) x @ [?w] else cq_lists (ct_queues c k) x)" for k x
    by (simp add: enqueue_waiter_def Let_def cq_lists_enqueue)
  have "waiters_inv ?c'"
    unfolding waiters_inv_def
  proof (intro conjI allI impI)
    fix k x v
    show "queue_wf (ct_queues ?c' k)"
      using parts(3) by (simp add: enqueue_waiter_def Let_def waiters_inv_def queue_wf_enqueue)
    show "distinct (cq_lists (ct_queues ?c' k) x)"
      using parts(3) notin by (simp add: L waiters_inv_def)
    show "v \<in> set (cq_lists (ct_queues ?c' k) x) \<longleftrightarrow> (\<exists>w. ct_waiters ?c' v = Some w \<and> wt_state w = Waiting
        \<and> req_class (wt_request w) = k \<and> req_workspace (wt_request w) = x)"
      using parts(3) notin [of k x] fresh unfolding L W by (cases "v = ?w") (auto simp: waiters_inv_def)
  next
    fix v w assume v: "ct_waiters ?c' v = Some w"
    have old: "v < ct_next c \<and> req_class (wt_request w) \<in> set classOrder
        \<and> (\<forall>l. wt_result w = Some (ResLease l) \<longrightarrow> ct_leases c l \<noteq> None)
        \<and> (wt_state w = Waiting \<longrightarrow> wt_result w = None)" if "v \<noteq> ?w"
      using parts(3) v that unfolding waiters_inv_def W by simp
    show "v < ct_next ?c'" using old by (cases "v = ?w") (auto simp: enqueue_waiter_def Let_def)
    show "req_class (wt_request w) \<in> set classOrder"
      using old v cls by (cases "v = ?w") (auto simp: W)
    show "ct_leases ?c' l \<noteq> None" if "wt_result w = Some (ResLease l)" for l
      using old v that by (cases "v = ?w") (auto simp: W enqueue_waiter_def Let_def)
    show "wt_result w = None" if "wt_state w = Waiting"
      using old v that by (cases "v = ?w") (auto simp: W)
  qed
  then show ?thesis
    using inv open_c
    by (auto simp: controller_inv_def leases_inv_def counts_inv_def caps_inv_def active_ws_def
        active_in_def lease_request_def enqueue_waiter_def Let_def)
qed

end
