(* ===== verification/Workload_Operations.thy ===== *)
theory Workload_Operations
  imports Workload_Safety
begin

text \<open>
  Every operation of the admission controller returns and keeps \<open>controller_ok\<close>; the
  operations as a step relation, and what holds in every reachable state.
\<close>

section \<open>Acquire\<close>

lemma enqueue_waiter_queues:
  "cq_queued (ct_queues (enqueue_waiter now r c) k) = cq_queued (ct_queues c k) + (if k = req_class r then 1 else 0)"
  "cq_lists (ct_queues (enqueue_waiter now r c) k) x =
     (if k = req_class r \<and> x = req_workspace r then cq_lists (ct_queues c k) x @ [ct_next c]
      else cq_lists (ct_queues c k) x)"
  "ct_config (enqueue_waiter now r c) = ct_config c"
  "ct_closed (enqueue_waiter now r c) = ct_closed c"
  "ct_waiters (enqueue_waiter now r c) (ct_next c) =
     Some \<lparr>wt_request = r, wt_enqueued = now, wt_state = Waiting, wt_result = None\<rparr>"
  by (simp_all add: enqueue_waiter_def Let_def cq_lists_enqueue enqueue_fields)

lemma enqueue_scheduled_waiter:
  assumes "schedules_to (enqueue_waiter now r c) c2"
  obtains w where "ct_waiters c2 (ct_next c) = Some w" "wt_request w = r" "wt_enqueued w = now"
    "wt_state w = Waiting \<or> wt_state w = Granted \<and> (\<exists>l. wt_result w = Some (ResLease l))"
proof -
  let ?new = "\<lparr>wt_request = r, wt_enqueued = now, wt_state = Waiting, wt_result = None\<rparr>"
  obtain w where "ct_waiters c2 (ct_next c) = Some w"
    "w = ?new \<or> (\<exists>l. w = ?new\<lparr>wt_state := Granted, wt_result := Some (ResLease l)\<rparr>)"
    using assms enqueue_waiter_queues(5) [of now r c] unfolding schedules_to_def by blast
  then show ?thesis using that [of w] by auto
qed

text \<open>If the new waiter left the queues again, the queues are no longer than before it came.\<close>

lemma enqueue_then_gone:
  assumes st: "schedules_to (enqueue_waiter now r c) c2" and b: "queues_bounded c"
    and gone: "ct_next c \<notin> set (cq_lists (ct_queues c2 (req_class r)) (req_workspace r))"
  shows "queues_bounded c2"
proof (rule queues_bounded_mono [OF b])
  let ?c1 = "enqueue_waiter now r c" and ?k = "req_class r" and ?x = "req_workspace r"
  show "ct_config c2 = ct_config c"
    using st by (simp add: schedules_to_def enqueue_waiter_queues)
  obtain g where g: "cq_lists (ct_queues ?c1 ?k) ?x = g @ cq_lists (ct_queues c2 ?k) ?x"
    "int (length g) \<le> cq_queued (ct_queues ?c1 ?k) - cq_queued (ct_queues c2 ?k)"
    using st unfolding schedules_to_def by blast
  have "ct_next c \<in> set (cq_lists (ct_queues ?c1 ?k) ?x)" by (simp add: enqueue_waiter_queues)
  with g gone have "g \<noteq> []" by auto
  then have "1 \<le> length g" by (cases g) auto
  fix k x
  show "cq_queued (ct_queues c2 k) \<le> cq_queued (ct_queues c k)"
    using schedules_to_queues(1) [OF st, of k] g(2) \<open>1 \<le> length g\<close>
    by (cases "k = ?k") (auto simp: enqueue_waiter_queues)
  show "length (cq_lists (ct_queues c2 k) x) \<le> length (cq_lists (ct_queues c k) x)"
    using schedules_to_queues(2) [OF st, of k x] arg_cong [OF g(1), of length] \<open>1 \<le> length g\<close>
    by (cases "k = ?k \<and> x = ?x") (auto simp: enqueue_waiter_queues)
qed

lemma enqueue_then_dropped:
  assumes st: "schedules_to (enqueue_waiter now r c) c2" and b: "queues_bounded c"
    and inv: "controller_inv c2" and w: "ct_waiters c2 (ct_next c) = Some w" "wt_state w = Waiting"
    and r: "wt_request w = r"
  shows "queues_bounded (drop_waiter (ct_next c) w c2)"
proof (rule queues_bounded_mono [OF b])
  note d = drop_waiter_inv(2,3) [OF inv w]
  show "ct_config (drop_waiter (ct_next c) w c2) = ct_config c"
    using st by (simp add: schedules_to_def enqueue_waiter_queues)
  have mem: "ct_next c \<in> set (cq_lists (ct_queues c2 (req_class r)) (req_workspace r))"
    using inv w r by (auto simp: controller_inv_def waiters_inv_def)
  fix k x
  show "cq_queued (ct_queues (drop_waiter (ct_next c) w c2) k) \<le> cq_queued (ct_queues c k)"
    using schedules_to_queues(1) [OF st, of k] r by (auto simp: d enqueue_waiter_queues)
  show "length (cq_lists (ct_queues (drop_waiter (ct_next c) w c2) k) x) \<le> length (cq_lists (ct_queues c k) x)"
    using schedules_to_queues(2) [OF st, of k x] r mem by (auto simp: d enqueue_waiter_queues length_remove1)
qed

lemma within_limits_bounded:
  assumes st: "schedules_to (enqueue_waiter now r c) c2" and b: "queues_bounded c"
    and lim: "queueLimitReasonLocked r c2 = None"
  shows "queues_bounded c2"
proof -
  have cfg: "ct_config c2 = ct_config c"
    using st by (simp add: schedules_to_def enqueue_waiter_queues)
  have own: "total_queued c2 \<le> NodeMaximumQueued (ct_config c2)"
    "cq_queued (ct_queues c2 (req_class r)) \<le> MaximumQueued (policy_of (ct_config c2) (req_class r))"
    "int (length (cq_lists (ct_queues c2 (req_class r)) (req_workspace r)))
      \<le> MaximumQueuedPerWorkspace (policy_of (ct_config c2) (req_class r))"
    using lim by (auto simp: queueLimitReasonLocked_def total_queued_def Let_def split: if_splits)
  show ?thesis
    unfolding queues_bounded_def
  proof (intro conjI ballI allI)
    fix k x assume k: "k \<in> set classOrder"
    have bk: "cq_queued (ct_queues c k) \<le> MaximumQueued (policy_of (ct_config c) k)"
      "int (length (cq_lists (ct_queues c k) x)) \<le> MaximumQueuedPerWorkspace (policy_of (ct_config c) k)"
      using b k by (auto simp: queues_bounded_def)
    show "cq_queued (ct_queues c2 k) \<le> MaximumQueued (policy_of (ct_config c2) k)"
      using own(2) schedules_to_queues(1) [OF st, of k] bk(1) cfg
      by (cases "k = req_class r") (auto simp: enqueue_waiter_queues)
    show "int (length (cq_lists (ct_queues c2 k) x)) \<le> MaximumQueuedPerWorkspace (policy_of (ct_config c2) k)"
      using own(3) schedules_to_queues(2) [OF st, of k x] bk(2) cfg
      by (cases "k = req_class r \<and> x = req_workspace r") (auto simp: enqueue_waiter_queues)
  qed (rule own(1))
qed

text \<open>Receiving from a waiter's channel changes neither queues nor counters.\<close>

lemma clear_result_inv:
  assumes inv: "controller_inv c" and w: "ct_waiters c wid = Some w" and r: "wt_result w \<noteq> None"
  shows "controller_inv (c\<lparr>ct_waiters := (ct_waiters c)(wid \<mapsto> w\<lparr>wt_result := None\<rparr>)\<rparr>)" (is "controller_inv ?c'")
proof -
  have st: "wt_state w \<noteq> Waiting" using inv w r by (auto simp: controller_inv_def waiters_inv_def)
  have mem: "(\<exists>u. ct_waiters ?c' v = Some u \<and> wt_state u = Waiting \<and> req_class (wt_request u) = k
        \<and> req_workspace (wt_request u) = x) \<longleftrightarrow>
      (\<exists>u. ct_waiters c v = Some u \<and> wt_state u = Waiting \<and> req_class (wt_request u) = k
        \<and> req_workspace (wt_request u) = x)" for v k x
    using st w by auto
  have "waiters_inv ?c'"
    using inv w unfolding controller_inv_def waiters_inv_def mem by auto
  then show ?thesis
    using inv by (auto simp: controller_inv_def leases_inv_def counts_inv_def caps_inv_def active_ws_def
        active_in_def lease_request_def)
qed

lemma normalize_class: "normalize r = Inr r' \<Longrightarrow> req_class r' \<in> set classOrder"
  by (auto simp: normalize_def split: if_splits)

lemma observe_admission_ok [simp]:
  "controller_inv (observe_admission r ou x y c) = controller_inv c"
  "queues_bounded (observe_admission r ou x y c) = queues_bounded c"
  "settled (observe_admission r ou x y c) = settled c"
  by (simp_all add: observe_admission_def)

lemma controller_ok_observe [simp]:
  "controller_ok (observe ob c) = controller_ok c"
  "controller_ok (observe_admission r ou x y c) = controller_ok c"
  by (simp_all add: controller_ok_def)

lemma clear_result_ok:
  assumes "controller_ok c" "ct_waiters c wid = Some w" "wt_result w \<noteq> None"
  shows "controller_ok (c\<lparr>ct_waiters := (ct_waiters c)(wid \<mapsto> w\<lparr>wt_result := None\<rparr>)\<rparr>)"
  using assms clear_result_inv [of c wid w]
  by (simp add: controller_ok_def queues_bounded_def total_queued_def settled_def)

lemma acquire_enqueue_ok:
  assumes ok: "controller_ok c" and open_c: "\<not> ct_closed c" and n: "normalize r0 = Inr r"
  shows "\<exists>res c'. acquire_begin now None r0 c = Some (res, c') \<and> controller_ok c'"
proof -
  have inv: "controller_inv c" and b: "queues_bounded c" using ok by (auto simp: controller_ok_def)
  have "controller_inv (enqueue_waiter now r c)"
    using enqueue_waiter_inv [OF inv open_c normalize_class [OF n]] .
  then obtain c2 where s: "scheduleLocked now (enqueue_waiter now r c) = Some c2" and inv2: "controller_inv c2"
    and st: "schedules_to (enqueue_waiter now r c) c2" and se: "settled c2"
    using scheduleLocked_inv by blast
  obtain w where w: "ct_waiters c2 (ct_next c) = Some w" "wt_request w = r" "wt_enqueued w = now"
    and state: "wt_state w = Waiting \<or> wt_state w = Granted \<and> (\<exists>l. wt_result w = Some (ResLease l))"
    using enqueue_scheduled_waiter [OF st] by blast
  note def = acquire_begin_def n open_c s w Let_def
  from state consider (limit) reason where "wt_state w = Waiting" "queueLimitReasonLocked r c2 = Some reason"
    | (parked) "wt_state w = Waiting" "queueLimitReasonLocked r c2 = None"
    | (granted) l where "wt_state w = Granted" "wt_result w = Some (ResLease l)" by fastforce
  then show ?thesis
  proof cases
    case limit
    let ?c3 = "drop_waiter (ct_next c) w c2"
    have "controller_ok ?c3"
      using drop_waiter_inv(1) [OF inv2 w(1) limit(1)] drop_waiter_settled [OF inv2 w(1) limit(1) se]
        enqueue_then_dropped [OF st b inv2 w(1) limit(1) w(2)] by (simp add: controller_ok_def)
    then show ?thesis
      using limit by (simp add: def drop_waiter_def)
  next
    case parked
    then have "controller_ok c2"
      using inv2 se within_limits_bounded [OF st b] by (simp add: controller_ok_def)
    then show ?thesis using parked by (simp add: def)
  next
    case granted
    have "ct_next c \<notin> set (cq_lists (ct_queues c2 (req_class r)) (req_workspace r))"
      using inv2 w granted(1) by (auto simp: controller_inv_def waiters_inv_def)
    then have ok2: "controller_ok c2"
      using inv2 se enqueue_then_gone [OF st b] by (simp add: controller_ok_def)
    obtain ls where "ct_leases c2 l = Some ls"
      using inv2 w(1) granted(2) unfolding controller_inv_def waiters_inv_def by blast
    then show ?thesis
      using granted clear_result_ok [OF ok2 w(1)] by (simp add: def)
  qed
qed

lemma acquire_begin_ok:
  assumes "controller_ok c"
  shows "\<exists>res c'. acquire_begin now active r0 c = Some (res, c') \<and> controller_ok c'"
proof (cases "normalize r0")
  case (Inl e)
  then show ?thesis using assms by (simp add: acquire_begin_def)
next
  case (Inr r)
  show ?thesis
  proof (cases active)
    case None
    then show ?thesis
      using acquire_enqueue_ok [OF assms _ Inr] assms Inr
      by (cases "ct_closed c") (simp_all add: acquire_begin_def)
  next
    case (Some a)
    then show ?thesis using assms Inr by (cases a) (auto simp: acquire_begin_def)
  qed
qed

section \<open>Release\<close>

lemma length_filter_removeAll:
  assumes "distinct xs" "x \<in> set xs"
  shows "int (length (filter P (removeAll x xs))) = int (length (filter P xs)) - (if P x then 1 else 0)"
proof -
  have "filter P (removeAll x xs) = removeAll x (filter P xs)"
    by (induction xs) auto
  moreover have "removeAll x (filter P xs) = remove1 x (filter P xs)"
    using assms(1) by (simp add: distinct_remove1_removeAll)
  then have "length (removeAll x (filter P xs)) = length (filter P xs) - (if P x then 1 else 0)"
    using assms(2) by (simp add: length_remove1)
  moreover have "P x \<Longrightarrow> 1 \<le> length (filter P xs)"
    using assms(2) by (auto simp: Suc_le_eq filter_empty_conv)
  ultimately show ?thesis by (auto simp: of_nat_diff)
qed

lemma positive_minus:
  "0 < n \<Longrightarrow> int m = int n - 1 \<Longrightarrow>
   (let k = (case positive n of Some k \<Rightarrow> k | None \<Rightarrow> 0) - 1 in if k = 0 then None else Some k) = positive m"
  by (auto simp: positive_def Let_def)

lemma release_counters_inv:
  assumes inv: "controller_inv c" and l: "ct_leases c l = Some ls" "\<not> ls_once ls"
  shows "controller_inv (release_counters l ls c)" (is "controller_inv ?c'")
proof -
  note parts = controller_inv_parts [OF inv]
  let ?k = "req_class (ls_request ls)" and ?x = "req_workspace (ls_request ls)"
  have act: "l \<in> set (ct_active c)" and d: "distinct (ct_active c)"
    using parts(1) l by (auto simp: leases_inv_def)
  have lr: "lease_request ?c' = lease_request c"
    using l(1) by (rule_tac ext) (simp add: lease_request_def release_counters_def Let_def)
  have lrl: "lease_request c l = ls_request ls" using l(1) by (simp add: lease_request_def)
  have A: "ct_active ?c' = removeAll l (ct_active c)" by (simp add: release_counters_def Let_def)
  have ain: "int (length (active_in ?c' k)) = int (length (active_in c k)) - (if k = ?k then 1 else 0)" for k
    unfolding active_in_def lr A using length_filter_removeAll [OF d act] lrl by auto
  have aws: "int (length (active_ws ?c' k x)) = int (length (active_ws c k x)) - (if k = ?k \<and> x = ?x then 1 else 0)" for k x
    unfolding active_ws_def active_in_def lr A filter_filter using length_filter_removeAll [OF d act] lrl by auto
  have pos: "0 < length (active_ws c ?k ?x)"
    using act lrl by (auto simp: active_ws_def active_in_def filter_empty_conv intro: bexI [of _ l])
  have W: "ct_runningWS ?c' k x = (if k = ?k \<and> x = ?x
      then (let n = (case ct_runningWS c ?k ?x of Some k \<Rightarrow> k | None \<Rightarrow> 0) - 1 in if n = 0 then None else Some n)
      else ct_runningWS c k x)" for k x
    by (simp add: release_counters_def Let_def)
  have "counts_inv ?c'"
    unfolding counts_inv_def
  proof (intro conjI allI)
    show "ct_running ?c' = int (length (ct_active ?c'))"
      using length_filter_removeAll [OF d act, of "\<lambda>_. True"] parts(2)
      by (simp add: counts_inv_def release_counters_def Let_def)
    fix k x
    show "ct_runningClass ?c' k = int (length (active_in ?c' k))"
      using parts(2) ain [of k] by (simp add: counts_inv_def release_counters_def Let_def)
    show "ct_runningWS ?c' k x = positive (length (active_ws ?c' k x))"
      using parts(2) aws [of k x] positive_minus [OF pos, of "length (active_ws ?c' k x)"]
      unfolding W counts_inv_def by auto
  qed
  moreover have "leases_inv ?c'"
    using parts(1) l by (auto simp: leases_inv_def release_counters_def Let_def distinct_removeAll)
  moreover have "waiters_inv ?c'"
    using parts(3) l(1) unfolding waiters_inv_def release_counters_def Let_def by auto
  moreover have "caps_inv ?c'"
    using parts(4) by (auto simp: caps_inv_def release_counters_def Let_def)
  ultimately show ?thesis
    using inv by (simp add: controller_inv_def release_counters_def Let_def)
qed

lemma release_ok:
  assumes ok: "controller_ok c" and l: "ct_leases c l \<noteq> None"
  shows "\<exists>c'. release now e l c = Some c' \<and> controller_ok c'"
proof -
  obtain ls where ls: "ct_leases c l = Some ls" using l by blast
  show ?thesis
  proof (cases "ls_once ls")
    case True
    then show ?thesis using ok ls by (simp add: release_def)
  next
    case False
    have "controller_inv (release_counters l ls c)"
      using release_counters_inv [OF _ ls False] ok by (simp add: controller_ok_def)
    then obtain c1 where s: "scheduleLocked now (release_counters l ls c) = Some c1" and c1: "controller_inv c1" "settled c1"
      and st: "schedules_to (release_counters l ls c) c1"
      using scheduleLocked_inv by blast
    have "queues_bounded (release_counters l ls c)"
      using ok by (simp add: controller_ok_def queues_bounded_def total_queued_def release_counters_def Let_def)
    then have "controller_ok c1" using c1 schedules_to_bounded [OF st] by (simp add: controller_ok_def)
    then show ?thesis using ls False s by (simp add: release_def)
  qed
qed

section \<open>The branches of the select\<close>

lemma cancelWaiter_ok:
  assumes ok: "controller_ok c" and w: "ct_waiters c wid = Some w"
  shows "\<exists>r c'. cancelWaiter now wid c = Some (r, c') \<and> controller_ok c' \<and> (\<forall>l. r = Some l \<longrightarrow> ct_leases c' l \<noteq> None)"
proof (cases "wt_state w = Waiting")
  case True
  have inv: "controller_inv c" and b: "queues_bounded c" using ok by (auto simp: controller_ok_def)
  obtain c1 where s: "scheduleLocked now (drop_waiter wid w c) = Some c1" "controller_inv c1" "settled c1"
    and st: "schedules_to (drop_waiter wid w c) c1"
    using scheduleLocked_inv [OF drop_waiter_inv(1) [OF inv w True]] by blast
  then have "controller_ok c1"
    using schedules_to_bounded [OF st drop_waiter_bounded [OF inv w True b]] by (simp add: controller_ok_def)
  then show ?thesis
    using True w s by (simp add: cancelWaiter_def drop_waiter_def Let_def)
next
  case False
  show ?thesis
  proof (cases "wt_result w")
    case None
    then show ?thesis using False w ok by (simp add: cancelWaiter_def)
  next
    case (Some r)
    have "\<And>l. r = ResLease l \<Longrightarrow> ct_leases c l \<noteq> None"
      using ok w Some unfolding controller_ok_def controller_inv_def waiters_inv_def by blast
    then show ?thesis
      using False w Some clear_result_ok [OF ok w] by (cases r) (simp_all add: cancelWaiter_def)
  qed
qed

lemma acquire_recv_ok:
  assumes ok: "controller_ok c" and w: "ct_waiters c wid = Some w" and r: "wt_result w \<noteq> None"
  shows "\<exists>res c'. acquire_recv now e wid c = Some (res, c') \<and> controller_ok c'"
proof -
  let ?c1 = "c\<lparr>ct_waiters := (ct_waiters c)(wid \<mapsto> w\<lparr>wt_result := None\<rparr>)\<rparr>"
  have ok1: "controller_ok ?c1" by (rule clear_result_ok [OF ok w r])
  have leases: "ct_leases ?c1 l \<noteq> None" if "wt_result w = Some (ResLease l)" for l
    using ok w that unfolding controller_ok_def controller_inv_def waiters_inv_def by auto
  obtain x where x: "wt_result w = Some x" using r by blast
  show ?thesis
  proof (cases x)
    case (ResErr rej)
    then show ?thesis using w x ok1 by (simp add: acquire_recv_def)
  next
    case (ResLease l)
    show ?thesis
    proof (cases e)
      case None
      then show ?thesis using w x ResLease ok1 leases by (fastforce simp: acquire_recv_def)
    next
      case (Some err)
      then show ?thesis
        using w x ResLease release_ok [OF ok1 leases, of l now e] by (auto simp: acquire_recv_def)
    qed
  qed
qed

lemma acquire_ctx_done_ok:
  assumes ok: "controller_ok c" and w: "ct_waiters c wid = Some w"
  shows "\<exists>res c'. acquire_ctx_done now e wid c = Some (res, c') \<and> controller_ok c'"
proof -
  obtain r c1 where c1: "cancelWaiter now wid c = Some (r, c1)" "controller_ok c1"
    "\<forall>l. r = Some l \<longrightarrow> ct_leases c1 l \<noteq> None"
    using cancelWaiter_ok [OF ok w] by blast
  show ?thesis
    using c1 w release_ok [OF c1(2), of _ now "Some e"]
    by (cases r) (fastforce simp: acquire_ctx_done_def)+
qed

lemma acquire_timeout_ok:
  assumes ok: "controller_ok c" and w: "ct_waiters c wid = Some w"
  shows "\<exists>res c'. acquire_timeout now e wid c = Some (res, c') \<and> controller_ok c'"
proof -
  obtain r c1 where c1: "cancelWaiter now wid c = Some (r, c1)" "controller_ok c1"
    "\<forall>l. r = Some l \<longrightarrow> ct_leases c1 l \<noteq> None"
    using cancelWaiter_ok [OF ok w] by blast
  show ?thesis
    using c1 w release_ok [OF c1(2), of _ now e]
    by (cases r; cases e) (fastforce simp: acquire_timeout_def)+
qed

section \<open>Close\<close>

lemma reject_waiter_frame:
  "ct_config (reject_waiter now c wid) = ct_config c" "ct_closed (reject_waiter now c wid) = ct_closed c"
  "ct_running (reject_waiter now c wid) = ct_running c"
  "ct_runningClass (reject_waiter now c wid) = ct_runningClass c"
  "ct_runningWS (reject_waiter now c wid) = ct_runningWS c" "ct_active (reject_waiter now c wid) = ct_active c"
  "ct_queues (reject_waiter now c wid) = ct_queues c" "ct_leases (reject_waiter now c wid) = ct_leases c"
  "ct_next (reject_waiter now c wid) = ct_next c"
  by (simp_all add: reject_waiter_def observe_admission_def Let_def split: option.splits)

lemma reject_waiter_waiters:
  "ct_waiters (reject_waiter now c wid) v =
     (if v = wid then map_option (\<lambda>w. w\<lparr>wt_state := RejectedState, wt_result :=
         Some (ResErr (rejection_of (wt_request w) ControllerShutdown (now - wt_enqueued w) None))\<rparr>) (ct_waiters c v)
      else ct_waiters c v)"
  by (simp add: reject_waiter_def observe_admission_def Let_def split: option.splits)

lemma foldl_reject_frame:
  "ct_config (foldl (reject_waiter now) c ws) = ct_config c" "ct_closed (foldl (reject_waiter now) c ws) = ct_closed c"
  "ct_running (foldl (reject_waiter now) c ws) = ct_running c"
  "ct_runningClass (foldl (reject_waiter now) c ws) = ct_runningClass c"
  "ct_runningWS (foldl (reject_waiter now) c ws) = ct_runningWS c"
  "ct_active (foldl (reject_waiter now) c ws) = ct_active c"
  "ct_queues (foldl (reject_waiter now) c ws) = ct_queues c"
  "ct_leases (foldl (reject_waiter now) c ws) = ct_leases c"
  "ct_next (foldl (reject_waiter now) c ws) = ct_next c"
  by (induction ws arbitrary: c) (simp_all add: reject_waiter_frame)

lemma foldl_reject_waiters:
  "ct_waiters (foldl (reject_waiter now) c ws) v =
     (if v \<in> set ws then map_option (\<lambda>w. w\<lparr>wt_state := RejectedState, wt_result :=
         Some (ResErr (rejection_of (wt_request w) ControllerShutdown (now - wt_enqueued w) None))\<rparr>) (ct_waiters c v)
      else ct_waiters c v)"
  by (induction ws arbitrary: c)
     (auto simp: reject_waiter_waiters option.map_comp comp_def rejection_of_def)

lemma queued_waiters_iff:
  assumes "controller_inv c"
  shows "wid \<in> set (queued_waiters c) \<longleftrightarrow> (\<exists>w. ct_waiters c wid = Some w \<and> wt_state w = Waiting)"
proof
  assume "wid \<in> set (queued_waiters c)"
  then obtain cls ws where "wid \<in> set (cq_lists (ct_queues c cls) ws)" by (auto simp: queued_waiters_def)
  then show "\<exists>w. ct_waiters c wid = Some w \<and> wt_state w = Waiting"
    using controller_inv_parts(3) [OF assms] by (auto elim: waiters_inv_member)
next
  assume "\<exists>w. ct_waiters c wid = Some w \<and> wt_state w = Waiting"
  then obtain cls ws where "cls \<in> set classOrder" and m: "wid \<in> set (cq_lists (ct_queues c cls) ws)"
    using assms unfolding controller_inv_def waiters_inv_def by blast
  moreover have "ws \<in> set (cq_order (ct_queues c cls))"
    using queue_wf_outside [OF controller_inv_parts(5) [OF assms]] m by fastforce
  ultimately show "wid \<in> set (queued_waiters c)" by (auto simp: queued_waiters_def)
qed

lemma unknown_class_empty:
  assumes inv: "controller_inv c" and k: "k \<notin> set classOrder"
  shows "cq_lists (ct_queues c k) x = []"
proof (rule ccontr)
  assume "cq_lists (ct_queues c k) x \<noteq> []"
  then have "hd (cq_lists (ct_queues c k) x) \<in> set (cq_lists (ct_queues c k) x)" by simp
  then show False
    using waiters_inv_member [OF controller_inv_parts(3) [OF inv]] controller_inv_parts(3) [OF inv] k
    unfolding waiters_inv_def by metis
qed

lemma Close_closed: "ct_closed (Close now c)"
  by (simp add: Close_def Let_def foldl_reject_frame)

lemma Close_queues:
  assumes inv: "controller_inv c"
  shows "queue_wf (ct_queues (Close now c) k)" "cq_queued (ct_queues (Close now c) k) = 0"
    "cq_lists (ct_queues (Close now c) k) x = []"
proof -
  have wf: "queue_wf (ct_queues c k)" by (rule controller_inv_parts(5) [OF inv])
  have z: "ct_closed c \<or> k \<notin> set classOrder \<Longrightarrow> cq_queued (ct_queues c k) = 0"
    using unknown_class_empty [OF inv] cq.queued_zero [OF wf] controller_inv_parts(6) [OF inv] by blast
  show "queue_wf (ct_queues (Close now c) k)"
    using wf by (simp add: Close_def Let_def foldl_reject_frame)
  show zero: "cq_queued (ct_queues (Close now c) k) = 0"
    using z by (auto simp: Close_def Let_def foldl_reject_frame empty_queue_def)
  show "cq_lists (ct_queues (Close now c) k) x = []"
    using zero cq.queued_zero_iff \<open>queue_wf (ct_queues (Close now c) k)\<close> by blast
qed

lemma Close_inv:
  assumes inv: "controller_inv c" and open_c: "\<not> ct_closed c"
  shows "controller_inv (Close now c)"
proof -
  note parts = controller_inv_parts [OF inv]
  let ?c' = "Close now c"
  have L: "ct_leases ?c' l = (if l \<in> set (ct_active c) then map_option (\<lambda>ls. ls\<lparr>ls_canceled := True\<rparr>) (ct_leases c l)
      else ct_leases c l)" for l
    using open_c by (simp add: Close_def Let_def foldl_reject_frame)
  have lr: "lease_request ?c' l = lease_request c l" if "l \<in> set (ct_active c)" for l
    using that parts(1) by (auto simp: lease_request_def L leases_inv_def)
  have F: "ct_active ?c' = ct_active c" "ct_running ?c' = ct_running c" "ct_runningClass ?c' = ct_runningClass c"
    "ct_runningWS ?c' = ct_runningWS c" "ct_config ?c' = ct_config c" "ct_next ?c' = ct_next c"
    using open_c by (simp_all add: Close_def Let_def foldl_reject_frame)
  have ain: "active_in ?c' k = active_in c k" for k
    unfolding active_in_def F(1) by (rule filter_cong) (simp_all add: lr)
  have aws: "active_ws ?c' k x = active_ws c k x" for k x
    unfolding active_ws_def ain by (rule filter_cong) (auto simp: lr active_in_def)
  have W: "ct_waiters ?c' v = (if v \<in> set (queued_waiters c)
      then map_option (\<lambda>w. w\<lparr>wt_state := RejectedState, wt_result :=
         Some (ResErr (rejection_of (wt_request w) ControllerShutdown (now - wt_enqueued w) None))\<rparr>) (ct_waiters c v)
      else ct_waiters c v)" for v
    using open_c by (simp add: Close_def Let_def foldl_reject_waiters)
  have none: "ct_waiters ?c' v = Some u \<Longrightarrow> wt_state u \<noteq> Waiting" for v u
    using queued_waiters_iff [OF inv, of v] by (auto simp: W split: if_splits)
  have t: "v < ct_next c \<and> req_class (wt_request u) \<in> set classOrder
      \<and> (\<forall>l. wt_result u = Some (ResLease l) \<longrightarrow> ct_leases ?c' l \<noteq> None)" if "ct_waiters ?c' v = Some u" for v u
    using that parts(3) unfolding waiters_inv_def W L by (fastforce split: if_splits)
  have "waiters_inv ?c'"
    unfolding waiters_inv_def using Close_queues [OF inv] none t F(6) by fastforce
  moreover have "leases_inv ?c'"
    using parts(1) by (auto simp: leases_inv_def L F split: if_splits)
  ultimately show ?thesis
    using parts(2,4) Close_queues(2) [OF inv] ain aws F
    by (simp add: controller_inv_def counts_inv_def caps_inv_def)
qed

lemma Close_ok:
  assumes ok: "controller_ok c"
  shows "controller_ok (Close now c)"
proof (cases "ct_closed c")
  case True
  then show ?thesis using ok by (simp add: Close_def)
next
  case False
  have inv: "controller_inv c" and b: "queues_bounded c" using ok by (auto simp: controller_ok_def)
  have "queues_bounded (Close now c)"
    using b by (rule queues_bounded_mono)
      (use Close_queues [OF inv] cq.queued_nonneg [OF controller_inv_parts(5) [OF inv]] False
       in \<open>auto simp: Close_def Let_def foldl_reject_frame\<close>)
  then show ?thesis
    using Close_inv [OF inv False] Close_closed by (simp add: controller_ok_def settled_def)
qed

section \<open>Executions\<close>

text \<open>
  One step of any caller. A waiter can only be resumed when it exists, a lease only be
  released when it was handed out.
\<close>

inductive workload_step :: "controller \<Rightarrow> controller \<Rightarrow> bool" where
  step_acquire: "acquire_begin now active r c = Some (res, c') \<Longrightarrow> workload_step c c'"
| step_recv: "acquire_recv now e wid c = Some (res, c') \<Longrightarrow> workload_step c c'"
| step_ctx_done: "acquire_ctx_done now e' wid c = Some (res, c') \<Longrightarrow> workload_step c c'"
| step_timeout: "acquire_timeout now e wid c = Some (res, c') \<Longrightarrow> workload_step c c'"
| step_release: "release now e l c = Some c' \<Longrightarrow> workload_step c c'"
| step_close: "workload_step c (Close now c)"

inductive workload_reachable :: "work_config \<Rightarrow> controller \<Rightarrow> bool" for cfg where
  reach_new: "New_controller cfg ob = Inr c \<Longrightarrow> workload_reachable cfg c"
| reach_step: "workload_reachable cfg c \<Longrightarrow> workload_step c c' \<Longrightarrow> workload_reachable cfg c'"

lemma acquire_recv_waiter: "acquire_recv now e wid c = Some r \<Longrightarrow> \<exists>w. ct_waiters c wid = Some w \<and> wt_result w \<noteq> None"
  by (auto simp: acquire_recv_def Let_def split: option.splits)

lemma acquire_ctx_done_waiter: "acquire_ctx_done now e wid c = Some r \<Longrightarrow> ct_waiters c wid \<noteq> None"
  by (auto simp: acquire_ctx_done_def split: option.splits)

lemma acquire_timeout_waiter: "acquire_timeout now e wid c = Some r \<Longrightarrow> ct_waiters c wid \<noteq> None"
  by (auto simp: acquire_timeout_def split: option.splits)

lemma release_lease: "release now e l c = Some c' \<Longrightarrow> ct_leases c l \<noteq> None"
  by (auto simp: release_def split: option.splits)

lemma workload_step_ok:
  assumes "workload_step c c'" "controller_ok c"
  shows "controller_ok c'"
  using assms
proof (cases rule: workload_step.cases)
  case (step_acquire now active r res)
  then show ?thesis using acquire_begin_ok [OF assms(2)] by (metis option.inject prod.inject)
next
  case (step_recv now e wid res)
  then obtain w where "ct_waiters c wid = Some w" "wt_result w \<noteq> None" using acquire_recv_waiter by blast
  then show ?thesis using acquire_recv_ok [OF assms(2)] step_recv by (metis option.inject prod.inject)
next
  case (step_ctx_done now e' wid res)
  then obtain w where "ct_waiters c wid = Some w" using acquire_ctx_done_waiter by blast
  then show ?thesis using acquire_ctx_done_ok [OF assms(2)] step_ctx_done by (metis option.inject prod.inject)
next
  case (step_timeout now e wid res)
  then obtain w where "ct_waiters c wid = Some w" using acquire_timeout_waiter by blast
  then show ?thesis using acquire_timeout_ok [OF assms(2)] step_timeout by (metis option.inject prod.inject)
next
  case (step_release now e l)
  then show ?thesis using release_ok [OF assms(2)] release_lease by (metis option.inject)
next
  case (step_close now)
  then show ?thesis using Close_ok [OF assms(2)] by simp
qed

lemma New_controller_ok:
  assumes "New_controller cfg ob = Inr c"
  shows "controller_ok c"
proof -
  have "valid_config (ct_config c)"
    using assms by (auto simp: New_controller_def validate_valid [symmetric] Let_def
        simp del: valid_config_clonePolicies split: sum.splits if_splits)
  moreover have "ct_closed c = False" "ct_running c = 0" "ct_runningClass c = (\<lambda>_. 0)"
    "ct_runningWS c = (\<lambda>_. Map.empty)" "ct_active c = []" "ct_queues c = (\<lambda>_. empty_queue)"
    "ct_waiters c = Map.empty" "ct_leases c = Map.empty"
    using assms by (auto simp: New_controller_def Let_def split: sum.splits)
  moreover have "cq_queued empty_queue = (0::int)" by (simp add: empty_queue_def)
  ultimately show ?thesis
    by (auto simp: controller_ok_def controller_inv_def leases_inv_def counts_inv_def waiters_inv_def
        caps_inv_def active_in_def active_ws_def positive_def queues_bounded_def total_queued_def
        settled_def valid_config_def class_limits_ok_def Let_def)
qed

lemma workload_reachable_ok: "workload_reachable cfg c \<Longrightarrow> controller_ok c"
  by (induction rule: workload_reachable.induct) (auto intro: New_controller_ok workload_step_ok)

end
