(* ===== verification/Workload_Theorems.thy ===== *)
theory Workload_Theorems
  imports Workload_Operations
begin

text \<open>
  The guarantees of workload admission, for every state that concurrent callers can reach
  from a new controller.
\<close>

section \<open>A concrete execution\<close>

definition demo_request :: work_request where
  "demo_request = \<lparr>req_class = Interactive, req_workspace = ''sales'', req_operation = ''query''\<rparr>"

definition demo_start :: controller where
  "demo_start = \<lparr>ct_config = DefaultConfig\<lparr>Classes := clonePolicies (Classes DefaultConfig)\<rparr>,
     ct_closed = False, ct_observer = None, ct_running = 0, ct_runningClass = (\<lambda>_. 0),
     ct_runningWS = (\<lambda>_. Map.empty), ct_active = [], ct_queues = (\<lambda>_. empty_queue),
     ct_classCursor = 0, ct_waiters = Map.empty, ct_leases = Map.empty, ct_next = 0\<rparr>"

lemma demo_start_new: "New_controller DefaultConfig None = Inr demo_start"
proof -
  have "Validate_config (DefaultConfig\<lparr>Classes := clonePolicies (Classes DefaultConfig)\<rparr>) = Inr ()"
    using DefaultConfig_valid by (simp add: validate_valid)
  moreover have "MaxRunning DefaultConfig \<noteq> 0" by (simp add: DefaultConfig_def)
  ultimately show ?thesis by (simp add: New_controller_def demo_start_def)
qed

lemma demo_policy:
  "policy_of (DefaultConfig\<lparr>Classes := clonePolicies (Classes DefaultConfig)\<rparr>) Interactive =
    \<lparr>ReservedRunning = 3, MaximumRunning = 4, MaximumQueued = 64,
     MaximumQueuedPerWorkspace = 16, QueueTimeoutD = 30 * second, ExecutionTimeoutD = 2 * minute\<rparr>"
  by (simp add: policy_of_def clonePolicies_def classOrder_def DefaultConfig_def)

lemma demo_acquire:
  "\<exists>c. acquire_begin 7 None demo_request demo_start = Some (Immediate 1, c) \<and> ct_active c = [1]
     \<and> ct_leases c 1 \<noteq> None \<and> \<not> ct_closed c"
  by (simp add: acquire_begin_def demo_request_def normalize_def NodeWorkspace_def GlobalWorkspace_def
      classOrder_def demo_start_def enqueue_waiter_def Let_def scheduleLocked.simps schedule_step_def
      nextClassLocked_def class_eligible_def upt_rec demo_policy DefaultConfig_def [THEN arg_cong, of MaxRunning]
      enqueue_def pop_def cq_lists_def empty_queue_def delete_at_def grant_def observe_admission_def)

lemma demo_reachable:
  "\<exists>c. workload_reachable DefaultConfig c \<and> ct_active c = [1] \<and> ct_leases c 1 \<noteq> None \<and> \<not> ct_closed c"
  using demo_acquire reach_new [OF demo_start_new]
  by (metis workload_reachable.reach_step workload_step.step_acquire)

section \<open>Capacity\<close>

text \<open>The leases handed out and not yet released, and those of one class.\<close>

definition running_leases :: "controller \<Rightarrow> nat set" where
  "running_leases c = {l. \<exists>ls. ct_leases c l = Some ls \<and> \<not> ls_once ls}"

definition running_leases_in :: "controller \<Rightarrow> work_class \<Rightarrow> nat set" where
  "running_leases_in c cls = {l. \<exists>ls. ct_leases c l = Some ls \<and> \<not> ls_once ls \<and> req_class (ls_request ls) = cls}"

lemma running_leases_active:
  assumes "leases_inv c"
  shows "running_leases c = set (ct_active c)" "card (running_leases c) = length (ct_active c)"
    "running_leases_in c cls = set (active_in c cls)" "card (running_leases_in c cls) = length (active_in c cls)"
proof -
  have d: "distinct (ct_active c)" using assms by (simp add: leases_inv_def)
  show a: "running_leases c = set (ct_active c)" using assms by (auto simp: running_leases_def leases_inv_def)
  then show "card (running_leases c) = length (ct_active c)" by (simp add: distinct_card [OF d])
  show b: "running_leases_in c cls = set (active_in c cls)"
    using assms by (fastforce simp: running_leases_in_def active_in_def lease_request_def leases_inv_def)
  then show "card (running_leases_in c cls) = length (active_in c cls)"
    using distinct_card [of "active_in c cls"] d by (simp add: active_in_def)
qed

text \<open>
  C1. In every reachable state the leases that are running (handed out, not released)
  number at most the node maximum, those of each class at most the class maximum, and the
  counters the controller decides by are exactly these numbers.
\<close>

theorem admission_respects_capacity:
  assumes "workload_reachable cfg c"
  shows "int (card (running_leases c)) \<le> MaxRunning (ct_config c)
    \<and> ct_running c = int (card (running_leases c))
    \<and> (\<forall>cls. ct_runningClass c cls = int (card (running_leases_in c cls)))
    \<and> list_all (\<lambda>cls. int (card (running_leases_in c cls)) \<le> MaximumRunning (policy_of (ct_config c) cls)) classOrder"
proof -
  have inv: "controller_inv c" using workload_reachable_ok [OF assms] by (simp add: controller_ok_def)
  show ?thesis
    using controller_inv_parts(2,4) [OF inv] running_leases_active [OF controller_inv_parts(1) [OF inv]]
    by (auto simp: counts_inv_def caps_inv_def list_all_iff)
qed

theorem admission_respects_capacity_witness:
  "\<exists>c. workload_reachable DefaultConfig c \<and> ct_running c = 1 \<and> int (card (running_leases c)) \<le> MaxRunning (ct_config c)"
proof -
  obtain c where c: "workload_reachable DefaultConfig c" "ct_active c = [1]" using demo_reachable by blast
  have "card (running_leases c) = 1"
    using workload_reachable_ok [OF c(1)] c(2) running_leases_active(2) [of c]
    by (simp add: controller_ok_def controller_inv_def)
  then show ?thesis using admission_respects_capacity [OF c(1)] c(1) by auto
qed

text \<open>
  C5. In every reachable state the waiters of the node, of each class and of each workspace
  within a class number at most the configured queue limits.
\<close>

theorem admission_queues_bounded:
  assumes "workload_reachable cfg c"
  shows "(\<Sum>cls\<leftarrow>classOrder. cq_queued (ct_queues c cls)) \<le> NodeMaximumQueued (ct_config c)
    \<and> list_all (\<lambda>cls. cq_queued (ct_queues c cls) \<le> MaximumQueued (policy_of (ct_config c) cls)
         \<and> (\<forall>ws. int (length (cq_lists (ct_queues c cls) ws))
                 \<le> MaximumQueuedPerWorkspace (policy_of (ct_config c) cls))) classOrder"
  using workload_reachable_ok [OF assms]
  by (simp add: controller_ok_def queues_bounded_def total_queued_def list_all_iff)

theorem admission_queues_bounded_witness:
  "\<exists>c. workload_reachable DefaultConfig c \<and> ct_active c = [1]
     \<and> (\<Sum>cls\<leftarrow>classOrder. cq_queued (ct_queues c cls)) \<le> NodeMaximumQueued (ct_config c)"
  using demo_reachable admission_queues_bounded by blast

text \<open>
  C6. Work conservation: in every reachable state of an open controller with a free node
  slot, every class that still has waiters runs at its class maximum.
\<close>

theorem admission_work_conserving:
  assumes "workload_reachable cfg c" "\<not> ct_closed c" "ct_running c < MaxRunning (ct_config c)"
    and "cls \<in> set classOrder" "cq_queued (ct_queues c cls) \<noteq> 0"
  shows "ct_runningClass c cls = MaximumRunning (policy_of (ct_config c) cls)"
proof -
  have "settled c" "caps_inv c"
    using workload_reachable_ok [OF assms(1)] by (auto simp: controller_ok_def controller_inv_def)
  then show ?thesis using assms(2-5) by (fastforce simp: settled_def caps_inv_def)
qed



section \<open>Priority of reservations\<close>

text \<open>
  C7. Whenever the scheduler grants a slot while some class with waiters is below its
  reservation, the slot goes to a class that is below its own reservation: borrowing never
  comes before a reserved slot. (\<open>c'\<close> is the state after one iteration.)
\<close>

theorem reserved_before_borrowed:
  assumes "schedule_step now c = Some (True, c')"
    and "k \<in> set classOrder" "cq_queued (ct_queues c k) \<noteq> 0"
    and "ct_runningClass c k < ReservedRunning (policy_of (ct_config c) k)"
    and "ReservedRunning (policy_of (ct_config c) k) \<le> MaximumRunning (policy_of (ct_config c) k)"
  shows "\<exists>cls\<in>set classOrder. ct_runningClass c cls < ReservedRunning (policy_of (ct_config c) cls)
    \<and> ct_runningClass c' = (ct_runningClass c)(cls := ct_runningClass c cls + 1)"
proof -
  have "class_eligible True c k" using assms(3-5) by (simp add: class_eligible_def Let_def)
  then obtain cls cur where n: "nextClassLocked True c = Some (cls, cur)"
    using nextClassLocked_None [OF _ assms(2)] by (metis option.exhaust surj_pair)
  then have "cls \<in> set classOrder" "class_eligible True c cls" using nextClassLocked_Some by blast+
  moreover have "ct_runningClass c' = (ct_runningClass c)(cls := ct_runningClass c cls + 1)"
    using assms(1) n
    by (auto simp: schedule_step_def grant_def Let_def split: if_splits option.splits prod.splits)
  ultimately show ?thesis by (intro bexI [of _ cls]) (auto simp: class_eligible_def Let_def)
qed

section \<open>Release and shutdown\<close>

text \<open>
  Releasing a lease is idempotent: in a reachable state, once a release has returned,
  releasing the same lease again changes nothing, whatever the context and the clock say.
\<close>

theorem release_idempotent:
  assumes "workload_reachable cfg c" "release now e l c = Some c1"
  shows "release now' e' l c1 = Some c1"
proof -
  have inv: "controller_inv c" using workload_reachable_ok [OF assms(1)] by (simp add: controller_ok_def)
  obtain ls where ls: "ct_leases c l = Some ls" using release_lease [OF assms(2)] by blast
  show ?thesis
  proof (cases "ls_once ls")
    case True
    then show ?thesis using assms(2) ls by (auto simp: release_def)
  next
    case False
    have "controller_inv (release_counters l ls c)" by (rule release_counters_inv [OF inv ls False])
    then obtain c2 where c2: "scheduleLocked now (release_counters l ls c) = Some c2"
      "schedules_to (release_counters l ls c) c2"
      using scheduleLocked_inv by blast
    have "ct_leases (release_counters l ls c) l = Some (ls\<lparr>ls_canceled := True, ls_once := True\<rparr>)"
      by (simp add: release_counters_def Let_def)
    then have "ct_leases c2 l = Some (ls\<lparr>ls_canceled := True, ls_once := True\<rparr>)"
      using c2(2) by (simp add: schedules_to_def)
    then have "ct_leases c1 l = Some (ls\<lparr>ls_canceled := True, ls_once := True\<rparr>)"
      using assms(2) ls False c2(1) by (auto simp: release_def observe_admission_def)
    then show ?thesis by (simp add: release_def)
  qed
qed

theorem release_idempotent_witness:
  "\<exists>c c1. workload_reachable DefaultConfig c \<and> release 9 None 1 c = Some c1 \<and> release 11 (Some Canceled) 1 c1 = Some c1"
proof -
  obtain c where c: "workload_reachable DefaultConfig c" "ct_leases c 1 \<noteq> None" using demo_reachable by blast
  then obtain c1 where "release 9 None 1 c = Some c1"
    using release_ok [OF workload_reachable_ok] by blast
  then show ?thesis using release_idempotent [OF c(1)] c(1) by blast
qed

lemma schedule_closed: "ct_closed c \<Longrightarrow> scheduleLocked now c = Some c"
  by (simp add: scheduleLocked.simps schedule_step_def)

definition quiet :: "controller \<Rightarrow> controller \<Rightarrow> bool" where
  "quiet c c' \<longleftrightarrow> ct_closed c' \<and> dom (ct_leases c') = dom (ct_leases c)"

lemma quiet_frame [simp]:
  "quiet (c\<lparr>ct_waiters := W\<rparr>) c' = quiet c c'" "quiet c (observe ob c') = quiet c c'"
  "quiet c (c'\<lparr>ct_waiters := W\<rparr>) = quiet c c'" "quiet c (observe_admission r ou x y c') = quiet c c'"
  by (simp_all add: quiet_def observe_admission_def)

lemma quiet_refl: "ct_closed c \<Longrightarrow> quiet c c"
  by (simp add: quiet_def)

lemma quiet_trans: "quiet a b \<Longrightarrow> quiet b c \<Longrightarrow> quiet a c"
  by (simp add: quiet_def)

lemma release_quiet: "release now e l c = Some c' \<Longrightarrow> ct_closed c \<Longrightarrow> quiet c c'"
  by (auto simp: release_def schedule_closed release_counters_def Let_def observe_admission_def quiet_def
      split: option.splits if_splits)

lemma cancelWaiter_quiet: "cancelWaiter now wid c = Some (r, c') \<Longrightarrow> ct_closed c \<Longrightarrow> quiet c c'"
  by (auto simp: cancelWaiter_def schedule_closed Let_def quiet_def
      split: option.splits if_splits acquire_result.splits)

lemma cancel_release_quiet:
  "cancelWaiter now wid c = Some (r, c1) \<Longrightarrow> release now e l c1 = Some c' \<Longrightarrow> ct_closed c \<Longrightarrow> quiet c c'"
  using cancelWaiter_quiet release_quiet by (metis quiet_def)

lemma workload_step_quiet:
  assumes "workload_step c c'" "ct_closed c"
  shows "quiet c c'"
  using assms(1)
proof (cases rule: workload_step.cases)
  case (step_acquire now active r res)
  then show ?thesis using assms(2)
    by (auto simp: acquire_begin_def quiet_refl split: sum.splits option.splits if_splits)
next
  case (step_recv now e wid res)
  then show ?thesis using assms(2)
    by (auto simp: acquire_recv_def Let_def quiet_refl dest!: release_quiet
        split: option.splits acquire_result.splits)
next
  case (step_ctx_done now e' wid res)
  then show ?thesis using assms(2) cancelWaiter_quiet cancel_release_quiet
    by (fastforce simp: acquire_ctx_done_def split: option.splits prod.splits)
next
  case (step_timeout now e wid res)
  then show ?thesis using assms(2) cancelWaiter_quiet cancel_release_quiet
    by (fastforce simp: acquire_timeout_def split: option.splits prod.splits)
next
  case (step_release now e l)
  then show ?thesis using release_quiet assms(2) by blast
next
  case (step_close now)
  then show ?thesis using assms(2) by (simp add: Close_def quiet_def)
qed



section \<open>Witness states for the scheduler\<close>

text \<open>The state between the enqueueing and the scheduling of the first request.\<close>

lemma demo_schedule:
  "\<exists>c'. schedule_step 7 (enqueue_waiter 7 demo_request demo_start) = Some (True, c')"
  by (simp add: demo_request_def classOrder_def demo_start_def enqueue_waiter_def Let_def schedule_step_def
      nextClassLocked_def class_eligible_def upt_rec demo_policy DefaultConfig_def [THEN arg_cong, of MaxRunning]
      enqueue_def pop_def cq_lists_def empty_queue_def delete_at_def)

theorem reserved_before_borrowed_witness:
  "\<exists>c'. schedule_step 7 (enqueue_waiter 7 demo_request demo_start) = Some (True, c')
     \<and> (\<exists>cls\<in>set classOrder. ct_runningClass c' cls = 1)"
proof -
  let ?c = "enqueue_waiter 7 demo_request demo_start"
  obtain c' where c': "schedule_step 7 ?c = Some (True, c')" using demo_schedule by blast
  have cfg: "policy_of (ct_config ?c) Interactive =
    \<lparr>ReservedRunning = 3, MaximumRunning = 4, MaximumQueued = 64, MaximumQueuedPerWorkspace = 16,
     QueueTimeoutD = 30 * second, ExecutionTimeoutD = 2 * minute\<rparr>"
    using demo_policy by (simp add: enqueue_waiter_def demo_start_def Let_def)
  have zero: "ct_runningClass ?c = (\<lambda>_. 0)" by (simp add: enqueue_waiter_def demo_start_def Let_def)
  have "cq_queued (ct_queues ?c Interactive) \<noteq> 0"
    by (simp add: enqueue_waiter_queues demo_request_def demo_start_def empty_queue_def)
  then obtain cls where "cls \<in> set classOrder" "ct_runningClass c' = (ct_runningClass ?c)(cls := ct_runningClass ?c cls + 1)"
    using reserved_before_borrowed [OF c', of Interactive] cfg zero by (auto simp: classOrder_def)
  then show ?thesis using c' zero by (intro exI [of _ c']) auto
qed

text \<open>
  A controller whose node has two slots and whose control class runs at most one request:
  the first control request runs, the second waits although a node slot is free.
\<close>

definition narrow_config :: work_config where
  "narrow_config = \<lparr>MaxRunning = 2, NodeMaximumQueued = 1,
     Classes = clonePolicies (Map.empty(Control \<mapsto> \<lparr>ReservedRunning = 0, MaximumRunning = 1, MaximumQueued = 1,
       MaximumQueuedPerWorkspace = 1, QueueTimeoutD = 0, ExecutionTimeoutD = 0\<rparr>))\<rparr>"

definition control_request :: work_request where
  "control_request = \<lparr>req_class = Control, req_workspace = [], req_operation = ''deploy''\<rparr>"

lemma narrow_waiting:
  "\<exists>c0 c1 c2. New_controller narrow_config None = Inr c0
     \<and> acquire_begin 0 None control_request c0 = Some (Immediate 1, c1)
     \<and> acquire_begin 0 None control_request c1 = Some (Parked 2, c2)
     \<and> \<not> ct_closed c2 \<and> ct_running c2 = 1 \<and> MaxRunning (ct_config c2) = 2 \<and> cq_queued (ct_queues c2 Control) = 1"
  by (simp add: narrow_config_def control_request_def New_controller_def Validate_config_def
      acquire_begin_def normalize_def NodeWorkspace_def GlobalWorkspace_def
      classOrder_def enqueue_waiter_def Let_def scheduleLocked.simps schedule_step_def
      nextClassLocked_def class_eligible_def upt_rec policy_of_def clonePolicies_def zero_policy_def
      negative_policy_def enqueue_def pop_def cq_lists_def empty_queue_def delete_at_def grant_def
      observe_admission_def queueLimitReasonLocked_def)

theorem admission_work_conserving_witness:
  "\<exists>c. workload_reachable narrow_config c \<and> cq_queued (ct_queues c Control) = 1
     \<and> ct_runningClass c Control = MaximumRunning (policy_of (ct_config c) Control)"
proof -
  obtain c0 c1 c2 where c: "New_controller narrow_config None = Inr c0"
    "acquire_begin 0 None control_request c0 = Some (Immediate 1, c1)"
    "acquire_begin 0 None control_request c1 = Some (Parked 2, c2)"
    "\<not> ct_closed c2" "ct_running c2 = 1" "MaxRunning (ct_config c2) = 2" "cq_queued (ct_queues c2 Control) = 1"
    using narrow_waiting by blast
  have "workload_reachable narrow_config c2"
    using reach_step [OF reach_step [OF reach_new [OF c(1)] step_acquire [OF c(2)]] step_acquire [OF c(3)]] .
  then show ?thesis
    using admission_work_conserving [of narrow_config c2 Control] c(4-7) by (auto simp: classOrder_def)
qed

end
