(* ===== verification/Arrow_Result.thy ===== *)
theory Arrow_Result
  imports LeapView_Prelude
begin

text \<open>
  Reference-counted analytical results, package \<open>internal/analytics/arrowresult\<close>
  (\<open>result.go\<close>). Results, leases and builders are objects of a store, \<open>arrow_heap\<close>, that
  also holds the package's \<open>globalStats\<close>. An atomic counter update is one step of the model;
  the compare-and-swap loop of \<open>Result.Acquire\<close> is its linearised effect. The counters count
  live objects and bytes of resident memory, so they are unbounded integers.

  The Arrow library is not part of the repository: what the builder needs of it (schema
  equality, the deep copy of a record batch, its size and number of rows) is the argument
  \<open>arrow_lib\<close> of the definitions. Record batches are values of a type variable.
\<close>

section \<open>State\<close>

record arrow_field =
  af_name :: string
  af_type :: string
  af_metadata :: "(string \<times> string) list"

record arrow_schema =
  as_string :: string
  as_metadata :: "(string \<times> string) list"
  as_fields :: "arrow_field list"

record 'r arrow_lib =
  lib_schema :: "'r \<Rightarrow> arrow_schema"
  lib_equal :: "arrow_schema \<Rightarrow> arrow_schema \<Rightarrow> bool"
  lib_copy :: "'r \<Rightarrow> arrow_schema \<Rightarrow> string + 'r"
  lib_size :: "'r \<Rightarrow> int"
  lib_rows :: "'r \<Rightarrow> int"

record 'r arrow_builder =
  bl_schema :: "arrow_schema option"
  bl_records :: "'r list"
  bl_rows :: int
  bl_transient :: int
  bl_finished :: bool

record 'r arrow_result =
  ar_refs :: int
  ar_ownerReleased :: bool
  ar_schema :: "arrow_schema option"
  ar_records :: "'r list"
  ar_rows :: int
  ar_bytes :: int

record arrow_lease =
  al_once :: bool
  al_result :: "nat option"

record arrow_stats =
  gs_results :: int
  gs_leases :: int
  gs_bytes :: int
  gs_transientBytes :: int

record 'r arrow_heap =
  ah_builders :: "nat \<rightharpoonup> 'r arrow_builder"
  ah_results :: "nat \<rightharpoonup> 'r arrow_result"
  ah_leases :: "nat \<rightharpoonup> arrow_lease"
  ah_next :: nat
  ah_stats :: arrow_stats

datatype arrow_error =
    ErrSchemaRequired | ErrSchemaAlreadySet | ErrBuilderFinished | ErrResultReleased
  | ErrSchemaMismatch | ErrCopy string

definition arrow_empty :: "'r arrow_heap" where
  "arrow_empty = \<lparr>ah_builders = Map.empty, ah_results = Map.empty, ah_leases = Map.empty,
     ah_next = 0, ah_stats = \<lparr>gs_results = 0, gs_leases = 0, gs_bytes = 0, gs_transientBytes = 0\<rparr>\<rparr>"

definition add_stats :: "int \<Rightarrow> int \<Rightarrow> int \<Rightarrow> int \<Rightarrow> arrow_stats \<Rightarrow> arrow_stats" where
  "add_stats rs ls bs ts g = \<lparr>gs_results = gs_results g + rs, gs_leases = gs_leases g + ls,
     gs_bytes = gs_bytes g + bs, gs_transientBytes = gs_transientBytes g + ts\<rparr>"

lemma add_stats_simps [simp]:
  "gs_results (add_stats a b c d g) = gs_results g + a"
  "gs_leases (add_stats a b c d g) = gs_leases g + b"
  "gs_bytes (add_stats a b c d g) = gs_bytes g + c"
  "gs_transientBytes (add_stats a b c d g) = gs_transientBytes g + d"
  by (simp_all add: add_stats_def)

section \<open>Builders\<close>

definition metadata_size :: "(string \<times> string) list \<Rightarrow> int" where
  "metadata_size kvs = (\<Sum>(k, v)\<leftarrow>kvs. int (length k + length v) + 32)"

definition SchemaBytes :: "arrow_schema option \<Rightarrow> int" where
  "SchemaBytes schema = (case schema of None \<Rightarrow> 0 | Some s \<Rightarrow>
     int (length (as_string s) + 64) + metadata_size (as_metadata s)
     + (\<Sum>f\<leftarrow>as_fields s. int (length (af_name f) + length (af_type f)) + 64
          + metadata_size (af_metadata f)))"

definition NewBuilder :: "'r arrow_heap \<Rightarrow> nat \<times> 'r arrow_heap" where
  "NewBuilder h = (ah_next h, h\<lparr>ah_next := Suc (ah_next h), ah_builders := (ah_builders h)(ah_next h \<mapsto>
     \<lparr>bl_schema = None, bl_records = [], bl_rows = 0, bl_transient = 0, bl_finished = False\<rparr>)\<rparr>)"

definition WriteSchema :: "nat option \<Rightarrow> arrow_schema option \<Rightarrow> 'r arrow_heap \<Rightarrow> (arrow_error + unit) \<times> 'r arrow_heap" where
  "WriteSchema b schema h =
    (case Option.bind b (ah_builders h) of
       None \<Rightarrow> (Inl ErrBuilderFinished, h)
     | Some bl \<Rightarrow>
         if bl_finished bl then (Inl ErrBuilderFinished, h)
         else case schema of
           None \<Rightarrow> (Inl ErrSchemaRequired, h)
         | Some s \<Rightarrow>
             if bl_schema bl \<noteq> None then (Inl ErrSchemaAlreadySet, h)
             else (Inr (), h\<lparr>ah_builders := (ah_builders h)(the b \<mapsto> bl\<lparr>bl_schema := Some s\<rparr>)\<rparr>))"

definition WriteRecord ::
  "'r arrow_lib \<Rightarrow> nat option \<Rightarrow> 'r option \<Rightarrow> 'r arrow_heap \<Rightarrow> (arrow_error + unit) \<times> 'r arrow_heap" where
  "WriteRecord lib b record h =
    (case Option.bind b (ah_builders h) of
       None \<Rightarrow> (Inl ErrBuilderFinished, h)
     | Some bl \<Rightarrow>
         if bl_finished bl then (Inl ErrBuilderFinished, h)
         else case bl_schema bl of
           None \<Rightarrow> (Inl ErrSchemaRequired, h)
         | Some s \<Rightarrow>
             (case record of
                None \<Rightarrow> (Inr (), h)
              | Some r \<Rightarrow>
                  if \<not> lib_equal lib s (lib_schema lib r) then (Inl ErrSchemaMismatch, h)
                  else case lib_copy lib r s of
                    Inl e \<Rightarrow> (Inl (ErrCopy e), h)
                  | Inr copied \<Rightarrow>
                      (Inr (), h\<lparr>ah_builders := (ah_builders h)(the b \<mapsto>
                          bl\<lparr>bl_records := bl_records bl @ [copied],
                            bl_rows := bl_rows bl + lib_rows lib r,
                            bl_transient := bl_transient bl + lib_size lib copied\<rparr>),
                        ah_stats := add_stats 0 0 0 (lib_size lib copied) (ah_stats h)\<rparr>)))"

definition Finish :: "nat option \<Rightarrow> 'r arrow_heap \<Rightarrow> (arrow_error + nat) \<times> 'r arrow_heap" where
  "Finish b h =
    (case Option.bind b (ah_builders h) of
       None \<Rightarrow> (Inl ErrBuilderFinished, h)
     | Some bl \<Rightarrow>
         if bl_finished bl then (Inl ErrBuilderFinished, h)
         else if bl_schema bl = None then (Inl ErrSchemaRequired, h)
         else let retainedBytes = SchemaBytes (bl_schema bl) + bl_transient bl in
           (Inr (ah_next h), h\<lparr>ah_next := Suc (ah_next h),
              ah_results := (ah_results h)(ah_next h \<mapsto>
                \<lparr>ar_refs = 1, ar_ownerReleased = False, ar_schema = bl_schema bl,
                 ar_records = bl_records bl, ar_rows = bl_rows bl, ar_bytes = retainedBytes\<rparr>),
              ah_builders := (ah_builders h)(the b \<mapsto>
                bl\<lparr>bl_finished := True, bl_schema := None, bl_records := [], bl_transient := 0\<rparr>),
              ah_stats := add_stats 1 0 retainedBytes (- bl_transient bl) (ah_stats h)\<rparr>))"

definition Abort :: "nat option \<Rightarrow> 'r arrow_heap \<Rightarrow> 'r arrow_heap" where
  "Abort b h =
    (case Option.bind b (ah_builders h) of
       None \<Rightarrow> h
     | Some bl \<Rightarrow>
         if bl_finished bl then h
         else h\<lparr>ah_builders := (ah_builders h)(the b \<mapsto>
                  bl\<lparr>bl_finished := True, bl_schema := None, bl_records := [], bl_transient := 0\<rparr>),
                ah_stats := add_stats 0 0 0 (- bl_transient bl) (ah_stats h)\<rparr>)"

section \<open>Results and leases\<close>

definition result_Rows :: "nat option \<Rightarrow> 'r arrow_heap \<Rightarrow> int" where
  "result_Rows r h = (case Option.bind r (ah_results h) of None \<Rightarrow> 0 | Some res \<Rightarrow> ar_rows res)"

definition result_Bytes :: "nat option \<Rightarrow> 'r arrow_heap \<Rightarrow> int" where
  "result_Bytes r h = (case Option.bind r (ah_results h) of None \<Rightarrow> 0 | Some res \<Rightarrow> ar_bytes res)"

definition result_Acquire :: "nat option \<Rightarrow> 'r arrow_heap \<Rightarrow> (arrow_error + nat) \<times> 'r arrow_heap" where
  "result_Acquire r h =
    (case Option.bind r (ah_results h) of
       None \<Rightarrow> (Inl ErrResultReleased, h)
     | Some res \<Rightarrow>
         if ar_refs res \<le> 0 then (Inl ErrResultReleased, h)
         else (Inr (ah_next h), h\<lparr>ah_next := Suc (ah_next h),
                 ah_results := (ah_results h)(the r \<mapsto> res\<lparr>ar_refs := ar_refs res + 1\<rparr>),
                 ah_leases := (ah_leases h)(ah_next h \<mapsto> \<lparr>al_once = False, al_result = r\<rparr>),
                 ah_stats := add_stats 0 1 0 0 (ah_stats h)\<rparr>))"

definition releaseRef :: "nat \<Rightarrow> 'r arrow_heap \<Rightarrow> 'r arrow_heap" where
  "releaseRef r h =
    (case ah_results h r of
       None \<Rightarrow> h
     | Some res \<Rightarrow>
         if ar_refs res - 1 \<noteq> 0
         then h\<lparr>ah_results := (ah_results h)(r \<mapsto> res\<lparr>ar_refs := ar_refs res - 1\<rparr>)\<rparr>
         else h\<lparr>ah_results := (ah_results h)(r \<mapsto>
                  res\<lparr>ar_refs := ar_refs res - 1, ar_records := [], ar_schema := None\<rparr>),
                ah_stats := add_stats (- 1) 0 (- ar_bytes res) 0 (ah_stats h)\<rparr>)"

definition result_Release :: "nat option \<Rightarrow> 'r arrow_heap \<Rightarrow> 'r arrow_heap" where
  "result_Release r h =
    (case Option.bind r (ah_results h) of
       None \<Rightarrow> h
     | Some res \<Rightarrow>
         if ar_ownerReleased res then h
         else releaseRef (the r) (h\<lparr>ah_results := (ah_results h)(the r \<mapsto> res\<lparr>ar_ownerReleased := True\<rparr>)\<rparr>))"

definition lease_Acquire :: "nat option \<Rightarrow> 'r arrow_heap \<Rightarrow> (arrow_error + nat) \<times> 'r arrow_heap" where
  "lease_Acquire l h =
    (case Option.bind l (ah_leases h) of
       None \<Rightarrow> (Inl ErrResultReleased, h)
     | Some ls \<Rightarrow>
         if al_result ls = None then (Inl ErrResultReleased, h) else result_Acquire (al_result ls) h)"

definition lease_result :: "nat option \<Rightarrow> 'r arrow_heap \<Rightarrow> 'r arrow_result option" where
  "lease_result l h =
    Option.bind (Option.bind l (ah_leases h)) (\<lambda>ls. Option.bind (al_result ls) (ah_results h))"

definition lease_Schema :: "nat option \<Rightarrow> 'r arrow_heap \<Rightarrow> arrow_schema option" where
  "lease_Schema l h = Option.bind (lease_result l h) ar_schema"

definition lease_Rows :: "nat option \<Rightarrow> 'r arrow_heap \<Rightarrow> int" where
  "lease_Rows l h = (case lease_result l h of None \<Rightarrow> 0 | Some r \<Rightarrow> ar_rows r)"

definition lease_Bytes :: "nat option \<Rightarrow> 'r arrow_heap \<Rightarrow> int" where
  "lease_Bytes l h = (case lease_result l h of None \<Rightarrow> 0 | Some r \<Rightarrow> ar_bytes r)"

text \<open>The visitor of \<open>VisitRecords\<close> threads a state and may stop the iteration with an error.\<close>

fun visit_all :: "('r \<Rightarrow> 's \<Rightarrow> ('e option) \<times> 's) \<Rightarrow> 'r list \<Rightarrow> 's \<Rightarrow> ('e option) \<times> 's" where
  "visit_all visit [] s = (None, s)"
| "visit_all visit (r # rs) s =
     (case visit r s of (Some e, s') \<Rightarrow> (Some e, s') | (None, s') \<Rightarrow> visit_all visit rs s')"

definition VisitRecords ::
  "nat option \<Rightarrow> ('r \<Rightarrow> 's \<Rightarrow> (arrow_error option) \<times> 's) option \<Rightarrow> 'r arrow_heap \<Rightarrow> 's
    \<Rightarrow> (arrow_error option) \<times> 's" where
  "VisitRecords l visit h s =
    (case lease_result l h of
       None \<Rightarrow> (Some ErrResultReleased, s)
     | Some r \<Rightarrow> (case visit of None \<Rightarrow> (None, s) | Some f \<Rightarrow> visit_all f (ar_records r) s))"

definition lease_Release :: "nat option \<Rightarrow> 'r arrow_heap \<Rightarrow> 'r arrow_heap" where
  "lease_Release l h =
    (case Option.bind l (ah_leases h) of
       None \<Rightarrow> h
     | Some ls \<Rightarrow>
         if al_once ls then h
         else case al_result ls of
           None \<Rightarrow> h\<lparr>ah_leases := (ah_leases h)(the l \<mapsto> ls\<lparr>al_once := True\<rparr>)\<rparr>
         | Some r \<Rightarrow>
             releaseRef r (h\<lparr>ah_leases := (ah_leases h)(the l \<mapsto> \<lparr>al_once = True, al_result = None\<rparr>),
               ah_stats := add_stats 0 (- 1) 0 0 (ah_stats h)\<rparr>))"

section \<open>The reference-count invariant\<close>

definition pins :: "'r arrow_heap \<Rightarrow> nat \<Rightarrow> nat \<Rightarrow> bool" where
  "pins h l r \<longleftrightarrow> (\<exists>ls. ah_leases h l = Some ls \<and> al_result ls = Some r)"

definition live_leases :: "'r arrow_heap \<Rightarrow> nat set" where
  "live_leases h = {l. \<exists>r. pins h l r}"

definition live_results :: "'r arrow_heap \<Rightarrow> nat set" where
  "live_results h = {r. \<exists>res. ah_results h r = Some res \<and> 0 < ar_refs res}"

definition result_ok :: "'r arrow_heap \<Rightarrow> int \<Rightarrow> nat \<Rightarrow> 'r arrow_result \<Rightarrow> bool" where
  "result_ok h extra r res \<longleftrightarrow>
     ar_refs res = (if ar_ownerReleased res then 0 else 1) + int (card {l. pins h l r}) + extra
     \<and> (ar_schema res \<noteq> None \<longleftrightarrow> 0 < ar_refs res) \<and> (ar_refs res = 0 \<longrightarrow> ar_records res = [])"

text \<open>
  \<open>arrow_inv h owed\<close>: every result is counted once for its creator, once for every live lease
  and \<open>owed r\<close> times for references that are being given up; a result keeps its schema and its
  records exactly while it is referenced; the package statistics are the true totals.
\<close>

definition arrow_inv :: "'r arrow_heap \<Rightarrow> (nat \<Rightarrow> int) \<Rightarrow> bool" where
  "arrow_inv h owed \<longleftrightarrow>
     (\<forall>x\<ge>ah_next h. ah_builders h x = None \<and> ah_results h x = None \<and> ah_leases h x = None)
     \<and> (\<forall>l ls. ah_leases h l = Some ls \<longrightarrow> (al_once ls \<longleftrightarrow> al_result ls = None))
     \<and> (\<forall>l r. pins h l r \<longrightarrow> r \<in> dom (ah_results h))
     \<and> (\<forall>r res. ah_results h r = Some res \<longrightarrow> result_ok h (owed r) r res)
     \<and> gs_leases (ah_stats h) = int (card (live_leases h))
     \<and> gs_results (ah_stats h) = int (card (live_results h))
     \<and> gs_bytes (ah_stats h) = (\<Sum>r\<in>live_results h. result_Bytes (Some r) h)
     \<and> gs_transientBytes (ah_stats h) = map_sum bl_transient (ah_builders h)
     \<and> (\<forall>b bl. ah_builders h b = Some bl \<longrightarrow> bl_finished bl \<longrightarrow> bl_schema bl = None)"

abbreviation arrow_ok :: "'r arrow_heap \<Rightarrow> bool" where
  "arrow_ok h \<equiv> arrow_inv h (\<lambda>_. 0)"

lemma arrow_invD:
  assumes "arrow_inv h owed"
  shows "x \<ge> ah_next h \<Longrightarrow> ah_builders h x = None \<and> ah_results h x = None \<and> ah_leases h x = None"
    and "ah_leases h l = Some ls \<Longrightarrow> al_once ls \<longleftrightarrow> al_result ls = None"
    and "pins h l r \<Longrightarrow> \<exists>res. ah_results h r = Some res"
    and "ah_results h r = Some res \<Longrightarrow> result_ok h (owed r) r res"
    and "gs_leases (ah_stats h) = int (card (live_leases h))"
    and "gs_results (ah_stats h) = int (card (live_results h))"
    and "gs_bytes (ah_stats h) = (\<Sum>r\<in>live_results h. result_Bytes (Some r) h)"
    and "gs_transientBytes (ah_stats h) = map_sum bl_transient (ah_builders h)"
    and "ah_builders h b = Some bl \<Longrightarrow> bl_finished bl \<Longrightarrow> bl_schema bl = None"
  using assms by (auto simp: arrow_inv_def)

lemma pins_unique: "pins h l r \<Longrightarrow> pins h l r' \<Longrightarrow> r = r'"
  by (auto simp: pins_def)

lemma arrow_finite:
  assumes "arrow_inv h owed"
  shows "finite (dom (ah_leases h))" "finite (dom (ah_results h))" "finite (dom (ah_builders h))"
    "finite (live_leases h)" "finite (live_results h)" "finite {l. pins h l r}"
proof -
  have bound: "dom (ah_leases h) \<subseteq> {..<ah_next h}" "dom (ah_results h) \<subseteq> {..<ah_next h}"
    "dom (ah_builders h) \<subseteq> {..<ah_next h}"
    using arrow_invD(1) [OF assms] by (metis domIff lessThan_iff not_less subsetI)+
  then show l: "finite (dom (ah_leases h))" and r: "finite (dom (ah_results h))"
    and "finite (dom (ah_builders h))"
    using finite_subset by blast+
  have "live_leases h \<subseteq> dom (ah_leases h)" "live_results h \<subseteq> dom (ah_results h)"
    by (auto simp: live_leases_def live_results_def pins_def)
  then show "finite (live_leases h)" "finite (live_results h)"
    using l r finite_subset by blast+
  have "{l. pins h l r} \<subseteq> dom (ah_leases h)" by (auto simp: pins_def)
  then show "finite {l. pins h l r}" using l finite_subset by blast
qed

lemma arrow_empty_ok: "arrow_ok arrow_empty"
  by (simp add: arrow_inv_def arrow_empty_def pins_def live_leases_def live_results_def)

text \<open>A live lease pins its result: the result is referenced and holds its schema.\<close>

lemma pinned_result:
  assumes "arrow_ok h" "pins h l r"
  obtains res where "ah_results h r = Some res" "0 < ar_refs res" "ar_schema res \<noteq> None"
proof -
  obtain res where res: "ah_results h r = Some res"
    using arrow_invD(3) [OF assms] by blast
  have "0 < card {l. pins h l r}"
    using arrow_finite(6) [OF assms(1)] assms(2) by (auto simp: card_gt_0_iff)
  then have "0 < ar_refs res \<and> ar_schema res \<noteq> None"
    using arrow_invD(4) [OF assms(1) res] by (auto simp: result_ok_def split: if_splits)
  with res that show thesis by blast
qed

subsection \<open>Giving up a reference\<close>

lemma releaseRef_simps [simp]:
  "ah_leases (releaseRef r h) = ah_leases h" "ah_next (releaseRef r h) = ah_next h"
  "ah_builders (releaseRef r h) = ah_builders h"
  by (auto simp: releaseRef_def split: option.split)

lemma releaseRef_pins [simp]: "pins (releaseRef r h) l x = pins h l x"
  by (simp add: pins_def)

lemma releaseRef_live_leases [simp]: "live_leases (releaseRef r h) = live_leases h"
  by (simp add: live_leases_def)

lemma releaseRef_ok:
  assumes inv: "arrow_inv h (\<lambda>x. if x = r then 1 else 0)" and res: "ah_results h r = Some res"
  shows "arrow_ok (releaseRef r h)"
proof -
  let ?h = "releaseRef r h"
  have ok: "result_ok h 1 r res" using arrow_invD(4) [OF inv res] by simp
  have pos: "0 < ar_refs res" using ok by (auto simp: result_ok_def split: if_splits)
  have live: "r \<in> live_results h" using pos res by (auto simp: live_results_def)
  note fin = arrow_finite [OF inv]
  have others: "result_ok ?h 0 x res'" if "ah_results h x = Some res'" "x \<noteq> r" for x res'
    using arrow_invD(4) [OF inv that(1)] that(2) by (simp add: result_ok_def)
  have results: "ah_results ?h x = (if x = r then Some (if ar_refs res = 1 then
      res\<lparr>ar_refs := 0, ar_records := [], ar_schema := None\<rparr> else res\<lparr>ar_refs := ar_refs res - 1\<rparr>)
      else ah_results h x)" for x
    using res by (auto simp: releaseRef_def)
  have mine: "result_ok ?h 0 r res'" if "ah_results ?h r = Some res'" for res'
    using that ok pos by (auto simp: results result_ok_def split: if_splits)
  have bytes: "result_Bytes (Some x) ?h = result_Bytes (Some x) h" for x
    using res by (auto simp: result_Bytes_def results)
  have lr: "live_results ?h = (if ar_refs res = 1 then live_results h - {r} else live_results h)"
    using pos res by (auto simp: live_results_def results split: if_splits)
  have rb: "result_Bytes (Some r) h = ar_bytes res"
    using res by (simp add: result_Bytes_def)
  have stats: "ah_stats ?h = (if ar_refs res = 1 then add_stats (- 1) 0 (- ar_bytes res) 0 (ah_stats h)
      else ah_stats h)"
    using res by (auto simp: releaseRef_def)
  have dom: "dom (ah_results ?h) = dom (ah_results h)"
    using res by (auto simp: results split: if_splits)
  have "gs_results (ah_stats ?h) = int (card (live_results ?h))"
    using arrow_invD(6) [OF inv] live fin(5) card_Diff_singleton [OF live] card_gt_0_iff [of "live_results h"]
    by (auto simp: stats lr)
  moreover have "gs_bytes (ah_stats ?h) = (\<Sum>x\<in>live_results ?h. result_Bytes (Some x) ?h)"
    using arrow_invD(7) [OF inv] live fin(5) sum_diff1 [OF fin(5), of "\<lambda>x. result_Bytes (Some x) h" r]
    by (simp add: stats lr bytes rb)
  moreover have "\<forall>x res'. ah_results ?h x = Some res' \<longrightarrow> result_ok ?h 0 x res'"
    using others mine results by (metis (no_types, lifting))
  moreover have "\<forall>x\<ge>ah_next h. ah_results ?h x = None"
    using arrow_invD(1) [OF inv] res by (auto simp: results)
  ultimately show ?thesis
    using arrow_invD(1,2,3,5,8,9) [OF inv] dom
    by (simp add: arrow_inv_def stats domIff)
qed

lemma lease_Release_pins [simp]:
  "pins (lease_Release (Some l) h) l' r \<longleftrightarrow> l' \<noteq> l \<and> pins h l' r" if "arrow_ok h"
  using arrow_invD(2) [OF that, of l]
  by (auto simp: lease_Release_def pins_def split: option.split)

lemma lease_Release_ok:
  assumes inv: "arrow_ok h"
  shows "arrow_ok (lease_Release l h)"
proof (cases "Option.bind l (ah_leases h)")
  case None
  then show ?thesis using inv by (simp add: lease_Release_def)
next
  case (Some ls)
  then obtain l0 where l: "l = Some l0" and ls: "ah_leases h l0 = Some ls" by (cases l) auto
  show ?thesis
  proof (cases "al_result ls")
    case None
    then show ?thesis using inv l ls arrow_invD(2) [OF inv ls] by (simp add: lease_Release_def)
  next
    case (Some r)
    then have once: "\<not> al_once ls" using arrow_invD(2) [OF inv ls] by simp
    let ?h = "h\<lparr>ah_leases := (ah_leases h)(l0 \<mapsto> \<lparr>al_once = True, al_result = None\<rparr>),
      ah_stats := add_stats 0 (- 1) 0 0 (ah_stats h)\<rparr>"
    have pl: "pins h l0 r" using ls Some by (simp add: pins_def)
    obtain res where res: "ah_results h r = Some res" using arrow_invD(3) [OF inv pl] by blast
    have pins: "pins ?h l' x \<longleftrightarrow> l' \<noteq> l0 \<and> pins h l' x" for l' x by (auto simp: pins_def)
    have live: "live_leases ?h = live_leases h - {l0}" "l0 \<in> live_leases h"
      using pl by (auto simp: live_leases_def pins)
    have same: "live_results ?h = live_results h" "\<And>x. result_Bytes x ?h = result_Bytes x h"
      by (simp_all add: live_results_def result_Bytes_def)
    have only: "pins h l0 x \<longleftrightarrow> x = r" for x
      using pl by (auto dest: pins_unique)
    have set: "{l'. pins ?h l' x} = (if x = r then {l'. pins h l' x} - {l0} else {l'. pins h l' x})" for x
      by (auto simp: pins only)
    have card: "int (card {l'. pins ?h l' x}) = int (card {l'. pins h l' x}) - (if x = r then 1 else 0)" for x
      using card_remove_int [OF arrow_finite(6) [OF inv, of r], of l0] pl by (simp add: set)
    have "result_ok ?h (if x = r then 1 else 0) x res'" if "ah_results h x = Some res'" for x res'
      using arrow_invD(4) [OF inv that] by (simp add: result_ok_def card)
    moreover have "int (card (live_leases ?h)) = int (card (live_leases h)) - 1"
      unfolding live(1) by (rule card_remove_int [OF arrow_finite(4) [OF inv] live(2)])
    moreover have "\<forall>l ls. ah_leases ?h l = Some ls \<longrightarrow> (al_once ls \<longleftrightarrow> al_result ls = None)"
      using arrow_invD(2) [OF inv] by simp
    moreover have "\<forall>x\<ge>ah_next h. ah_leases ?h x = None"
      using arrow_invD(1) [OF inv] ls by auto
    moreover have "\<forall>l x. pins ?h l x \<longrightarrow> x \<in> dom (ah_results h)"
      using arrow_invD(3) [OF inv] by (auto simp: pins)
    ultimately have "arrow_inv ?h (\<lambda>x. if x = r then 1 else 0)"
      using arrow_invD(1,5,6,7,8,9) [OF inv] unfolding arrow_inv_def same by simp
    from releaseRef_ok [OF this] show ?thesis
      using res l ls Some once by (simp add: lease_Release_def)
  qed
qed

lemma result_Release_pins [simp]: "pins (result_Release r h) l x = pins h l x"
  by (auto simp: result_Release_def pins_def split: option.split)

lemma result_Release_ok:
  assumes inv: "arrow_ok h"
  shows "arrow_ok (result_Release r h)"
proof (cases "Option.bind r (ah_results h)")
  case None
  then show ?thesis using inv by (simp add: result_Release_def)
next
  case (Some res)
  then obtain r0 where r: "r = Some r0" and res: "ah_results h r0 = Some res" by (cases r) auto
  show ?thesis
  proof (cases "ar_ownerReleased res")
    case True
    then show ?thesis using inv r res by (simp add: result_Release_def)
  next
    case False
    let ?h = "h\<lparr>ah_results := (ah_results h)(r0 \<mapsto> res\<lparr>ar_ownerReleased := True\<rparr>)\<rparr>"
    have same: "live_leases ?h = live_leases h" "pins ?h = pins h"
      by (auto simp: live_leases_def pins_def fun_eq_iff)
    have live: "live_results ?h = live_results h"
      using res by (auto simp: live_results_def)
    have bytes: "result_Bytes x ?h = result_Bytes x h" for x
      using res by (cases x) (auto simp: result_Bytes_def)
    have "arrow_inv ?h (\<lambda>x. if x = r0 then 1 else 0)"
      using arrow_invD [OF inv] arrow_invD(4) [OF inv res] res False
      by (auto simp: arrow_inv_def result_ok_def same live bytes)
    from releaseRef_ok [OF this] show ?thesis
      using r res False by (simp add: result_Release_def)
  qed
qed

subsection \<open>Taking a reference\<close>

lemma result_Acquire_outcome:
  "result_Acquire (Some r) h = (Inr l, h') \<Longrightarrow>
     \<exists>res. ah_results h r = Some res \<and> 0 < ar_refs res \<and> l = ah_next h \<and> h' = h\<lparr>ah_next := Suc (ah_next h),
       ah_results := (ah_results h)(r \<mapsto> res\<lparr>ar_refs := ar_refs res + 1\<rparr>),
       ah_leases := (ah_leases h)(l \<mapsto> \<lparr>al_once = False, al_result = Some r\<rparr>),
       ah_stats := add_stats 0 1 0 0 (ah_stats h)\<rparr>"
  by (auto simp: result_Acquire_def split: option.splits if_splits)

lemma result_Acquire_error: "result_Acquire r h = (Inl e, h') \<Longrightarrow> h' = h \<and> e = ErrResultReleased"
  by (auto simp: result_Acquire_def split: option.splits if_splits)

lemma pins_fresh: "arrow_inv h owed \<Longrightarrow> \<not> pins h (ah_next h) r"
  using arrow_invD(1) [of h owed "ah_next h"] by (auto simp: pins_def)

lemma result_Acquire_ok:
  assumes inv: "arrow_ok h" and acq: "result_Acquire (Some r) h = (Inr l, h')"
  shows "arrow_ok h'" "pins h' l' x \<longleftrightarrow> l' = l \<and> x = r \<or> pins h l' x" "\<not> pins h l x"
proof -
  obtain res where res: "ah_results h r = Some res" "0 < ar_refs res" and l: "l = ah_next h"
    and h': "h' = h\<lparr>ah_next := Suc (ah_next h),
       ah_results := (ah_results h)(r \<mapsto> res\<lparr>ar_refs := ar_refs res + 1\<rparr>),
       ah_leases := (ah_leases h)(l \<mapsto> \<lparr>al_once = False, al_result = Some r\<rparr>),
       ah_stats := add_stats 0 1 0 0 (ah_stats h)\<rparr>"
    using result_Acquire_outcome [OF acq] by blast
  have fresh: "\<not> pins h l x" for x using pins_fresh [OF inv] l by simp
  then show "\<not> pins h l x" .
  have pins: "pins h' l' x \<longleftrightarrow> l' = l \<and> x = r \<or> pins h l' x" for l' x
    using fresh [of x] by (auto simp: h' pins_def)
  then show "pins h' l' x \<longleftrightarrow> l' = l \<and> x = r \<or> pins h l' x" .
  have live: "live_leases h' = insert l (live_leases h)" "l \<notin> live_leases h"
    using fresh by (auto simp: live_leases_def pins)
  have lr: "live_results h' = live_results h"
    using res by (auto simp: live_results_def h')
  have bytes: "result_Bytes x h' = result_Bytes x h" for x
    using res by (cases x) (auto simp: result_Bytes_def h')
  have set: "{l'. pins h' l' x} = (if x = r then insert l {l'. pins h l' x} else {l'. pins h l' x})" for x
    by (auto simp: pins)
  have card: "int (card {l'. pins h' l' x}) = int (card {l'. pins h l' x}) + (if x = r then 1 else 0)" for x
    unfolding set using fresh arrow_finite(6) [OF inv, of r] by auto
  have upd: "ah_results h' = (ah_results h)(r \<mapsto> res\<lparr>ar_refs := ar_refs res + 1\<rparr>)"
    by (simp add: h')
  have results: "result_ok h' 0 x res'" if "ah_results h' x = Some res'" for x res'
    using that arrow_invD(4) [OF inv res(1)] arrow_invD(4) [OF inv, of x] res(2)
    by (auto simp: result_ok_def card upd split: if_splits)
  have bound: "\<forall>x\<ge>ah_next h'. ah_builders h' x = None \<and> ah_results h' x = None \<and> ah_leases h' x = None"
    using arrow_invD(1) [OF inv] res l by (auto simp: h')
  have "\<forall>l ls. ah_leases h' l = Some ls \<longrightarrow> (al_once ls \<longleftrightarrow> al_result ls = None)"
    using arrow_invD(2) [OF inv] by (auto simp: h')
  moreover have "\<forall>l r. pins h' l r \<longrightarrow> r \<in> dom (ah_results h')"
    using arrow_invD(3) [OF inv] res by (auto simp: pins) (auto simp: h')
  moreover have "gs_leases (ah_stats h') = int (card (live_leases h'))"
    using arrow_invD(5) [OF inv] live arrow_finite(4) [OF inv] by (simp add: h')
  moreover have "ah_builders h' = ah_builders h" "gs_results (ah_stats h') = gs_results (ah_stats h)"
    "gs_bytes (ah_stats h') = gs_bytes (ah_stats h)" "gs_transientBytes (ah_stats h') = gs_transientBytes (ah_stats h)"
    by (simp_all add: h')
  ultimately show "arrow_ok h'"
    using arrow_invD(6,7,8,9) [OF inv] bound results by (simp add: arrow_inv_def lr bytes)
qed

lemma result_Acquire_pinned:
  assumes "arrow_ok h" "pins h l r"
  shows "\<exists>l' h'. result_Acquire (Some r) h = (Inr l', h')"
proof -
  obtain res where "ah_results h r = Some res" "0 < ar_refs res"
    using pinned_result [OF assms] by blast
  then show ?thesis by (simp add: result_Acquire_def)
qed

subsection \<open>Builders\<close>

lemma builder_update_ok:
  assumes inv: "arrow_ok h" and bl: "ah_builders h b = Some bl"
    and fin: "bl_finished bl' \<longrightarrow> bl_schema bl' = None"
  shows "arrow_ok (h\<lparr>ah_builders := (ah_builders h)(b \<mapsto> bl'),
    ah_stats := add_stats 0 0 0 (bl_transient bl' - bl_transient bl) (ah_stats h)\<rparr>)" (is "arrow_ok ?h")
proof -
  have same: "pins ?h = pins h" "live_leases ?h = live_leases h" "live_results ?h = live_results h"
    "\<And>x. result_Bytes x ?h = result_Bytes x h"
    by (simp_all add: fun_eq_iff pins_def live_leases_def live_results_def result_Bytes_def)
  have "\<And>r res. ah_results h r = Some res \<Longrightarrow> result_ok ?h 0 r res"
    using arrow_invD(4) [OF inv] by (simp add: result_ok_def same)
  moreover have "b < ah_next h"
    using arrow_invD(1) [OF inv, of b] bl by (cases "b < ah_next h") auto
  ultimately show ?thesis
    using arrow_invD(1,2,3,5,6,7,8,9) [OF inv] bl fin
    unfolding arrow_inv_def same by (simp add: map_sum_upd arrow_finite [OF inv] domIff)
qed

lemma add_stats_0 [simp]: "add_stats 0 0 0 0 g = g"
  by (simp add: add_stats_def)

lemma NewBuilder_ok:
  assumes inv: "arrow_ok h"
  shows "arrow_ok (snd (NewBuilder h))"
proof -
  let ?h = "snd (NewBuilder h)"
  have same: "pins ?h = pins h" "live_leases ?h = live_leases h" "live_results ?h = live_results h"
    "\<And>x. result_Bytes x ?h = result_Bytes x h"
    by (simp_all add: NewBuilder_def fun_eq_iff pins_def live_leases_def live_results_def result_Bytes_def)
  have "\<And>r res. ah_results h r = Some res \<Longrightarrow> result_ok ?h 0 r res"
    using arrow_invD(4) [OF inv] by (simp add: result_ok_def same)
  then show ?thesis
    using arrow_invD(1,2,3,5,6,7,8,9) [OF inv]
    unfolding arrow_inv_def same
    by (simp add: map_sum_upd arrow_finite [OF inv] NewBuilder_def domIff)
qed

lemma WriteSchema_ok: "arrow_ok h \<Longrightarrow> arrow_ok (snd (WriteSchema b s h))"
proof (cases "\<exists>bl s'. Option.bind b (ah_builders h) = Some bl \<and> \<not> bl_finished bl \<and> s = Some s' \<and> bl_schema bl = None")
  case True
  then obtain bl s' where c: "Option.bind b (ah_builders h) = Some bl" "\<not> bl_finished bl" "s = Some s'" "bl_schema bl = None"
    by blast
  assume "arrow_ok h"
  from builder_update_ok [OF this, of "the b" bl "bl\<lparr>bl_schema := Some s'\<rparr>"]
  show ?thesis using c by (cases b) (simp_all add: WriteSchema_def)
next
  case False
  assume "arrow_ok h"
  moreover have "snd (WriteSchema b s h) = h"
    using False by (auto simp: WriteSchema_def split: option.split)
  ultimately show ?thesis by simp
qed

lemma WriteRecord_ok: "arrow_ok h \<Longrightarrow> arrow_ok (snd (WriteRecord lib b r h))"
proof (cases "\<exists>bl s rec copied. Option.bind b (ah_builders h) = Some bl \<and> \<not> bl_finished bl
    \<and> bl_schema bl = Some s \<and> r = Some rec \<and> lib_equal lib s (lib_schema lib rec) \<and> lib_copy lib rec s = Inr copied")
  case True
  then obtain bl s rec copied where c: "Option.bind b (ah_builders h) = Some bl" "\<not> bl_finished bl"
    "bl_schema bl = Some s" "r = Some rec" "lib_equal lib s (lib_schema lib rec)" "lib_copy lib rec s = Inr copied"
    by blast
  assume "arrow_ok h"
  from builder_update_ok [OF this, of "the b" bl "bl\<lparr>bl_records := bl_records bl @ [copied],
      bl_rows := bl_rows bl + lib_rows lib rec, bl_transient := bl_transient bl + lib_size lib copied\<rparr>"]
  show ?thesis using c by (cases b) (simp_all add: WriteRecord_def)
next
  case False
  assume "arrow_ok h"
  moreover have "snd (WriteRecord lib b r h) = h"
    using False by (auto simp: WriteRecord_def split: option.split sum.split)
  ultimately show ?thesis by simp
qed

lemma Abort_ok: "arrow_ok h \<Longrightarrow> arrow_ok (Abort b h)"
proof (cases "Option.bind b (ah_builders h)")
  case (Some bl)
  assume "arrow_ok h"
  with Some builder_update_ok [OF this, of "the b" bl
      "bl\<lparr>bl_finished := True, bl_schema := None, bl_records := [], bl_transient := 0\<rparr>"]
  show ?thesis by (cases b) (simp_all add: Abort_def)
qed (simp add: Abort_def)

lemma new_result_ok:
  assumes inv: "arrow_ok h" and s: "ar_schema res \<noteq> None" "ar_refs res = 1" "\<not> ar_ownerReleased res"
  shows "arrow_ok (h\<lparr>ah_next := Suc (ah_next h), ah_results := (ah_results h)(ah_next h \<mapsto> res),
    ah_stats := add_stats 1 0 (ar_bytes res) 0 (ah_stats h)\<rparr>)" (is "arrow_ok ?h")
proof -
  have none: "ah_results h (ah_next h) = None"
    using arrow_invD(1) [OF inv] by simp
  have same: "pins ?h = pins h" "live_leases ?h = live_leases h"
    by (simp_all add: fun_eq_iff pins_def live_leases_def)
  have fresh: "ah_next h \<notin> live_results h"
    using none by (simp add: live_results_def)
  have live: "live_results ?h = insert (ah_next h) (live_results h)"
    using s by (auto simp: live_results_def)
  have bytes: "result_Bytes (Some x) ?h = (if x = ah_next h then ar_bytes res else result_Bytes (Some x) h)" for x
    by (simp add: result_Bytes_def)
  have "(\<Sum>x\<in>live_results h. result_Bytes (Some x) ?h) = (\<Sum>x\<in>live_results h. result_Bytes (Some x) h)"
    using fresh by (intro sum.cong refl) (auto simp: bytes)
  then have sums: "(\<Sum>x\<in>live_results ?h. result_Bytes (Some x) ?h) = ar_bytes res + (\<Sum>x\<in>live_results h. result_Bytes (Some x) h)"
    using fresh arrow_finite(5) [OF inv] by (simp add: live bytes)
  have "{l. pins h l (ah_next h)} = {}"
    using arrow_invD(3) [OF inv] none by fastforce
  then have "ah_results ?h r = Some res' \<Longrightarrow> result_ok ?h 0 r res'" for r res'
    using arrow_invD(4) [OF inv, of r res'] s by (auto simp: result_ok_def same split: if_splits)
  moreover have "int (card (live_results ?h)) = int (card (live_results h)) + 1"
    using fresh arrow_finite(5) [OF inv] by (simp add: live)
  ultimately show ?thesis
    using arrow_invD(1,2,3,5,6,7,8,9) [OF inv] unfolding arrow_inv_def same sums by (simp add: domIff)
qed

lemma Finish_ok: "arrow_ok h \<Longrightarrow> arrow_ok (snd (Finish b h))"
proof (cases "\<exists>bl. Option.bind b (ah_builders h) = Some bl \<and> \<not> bl_finished bl \<and> bl_schema bl \<noteq> None")
  case True
  then obtain bl where c: "Option.bind b (ah_builders h) = Some bl" "\<not> bl_finished bl" "bl_schema bl \<noteq> None"
    by blast
  assume inv: "arrow_ok h"
  let ?bl = "bl\<lparr>bl_finished := True, bl_schema := None, bl_records := [], bl_transient := 0\<rparr>"
  let ?h = "h\<lparr>ah_builders := (ah_builders h)(the b \<mapsto> ?bl),
    ah_stats := add_stats 0 0 0 (bl_transient ?bl - bl_transient bl) (ah_stats h)\<rparr>"
  have "arrow_ok ?h"
    using builder_update_ok [OF inv, of "the b" bl ?bl] c by (cases b) simp_all
  from new_result_ok [OF this, of "\<lparr>ar_refs = 1, ar_ownerReleased = False, ar_schema = bl_schema bl,
      ar_records = bl_records bl, ar_rows = bl_rows bl, ar_bytes = SchemaBytes (bl_schema bl) + bl_transient bl\<rparr>"]
  show ?thesis using c by (cases h) (auto simp: Finish_def Let_def add_stats_def)
next
  case False
  assume "arrow_ok h"
  moreover have "snd (Finish b h) = h"
    using False by (auto simp: Finish_def split: option.split)
  ultimately show ?thesis by simp
qed

section \<open>The interface of the lease store\<close>

text \<open>
  What a holder of leases relies on: a pinned result can be acquired again, a new lease is
  fresh, and releasing a lease takes away that lease's pin and no other.
\<close>

locale lease_store =
  fixes ok :: "'h \<Rightarrow> bool"
    and pin :: "'h \<Rightarrow> nat \<Rightarrow> nat \<Rightarrow> bool"
    and acquire :: "nat option \<Rightarrow> 'h \<Rightarrow> (arrow_error + nat) \<times> 'h"
    and release :: "nat option \<Rightarrow> 'h \<Rightarrow> 'h"
  assumes acquire_pinned: "ok h \<Longrightarrow> pin h l r \<Longrightarrow> \<exists>l' h'. acquire (Some r) h = (Inr l', h')"
    and acquire_ok: "ok h \<Longrightarrow> acquire (Some r) h = (Inr l, h') \<Longrightarrow> ok h'"
    and acquire_pin: "ok h \<Longrightarrow> acquire (Some r) h = (Inr l, h') \<Longrightarrow> pin h' l' x \<longleftrightarrow> l' = l \<and> x = r \<or> pin h l' x"
    and acquire_fresh: "ok h \<Longrightarrow> acquire (Some r) h = (Inr l, h') \<Longrightarrow> \<not> pin h l x"
    and release_ok: "ok h \<Longrightarrow> ok (release lo h)"
    and release_pin: "ok h \<Longrightarrow> pin (release (Some l) h) l' r \<longleftrightarrow> l' \<noteq> l \<and> pin h l' r"
begin

lemma release_all_ok: "ok h \<Longrightarrow> ok (fold (\<lambda>l. release (Some l)) ls h)"
  by (induction ls arbitrary: h) (simp_all add: release_ok)

lemma release_all_pin:
  "ok h \<Longrightarrow> pin (fold (\<lambda>l. release (Some l)) ls h) l r \<longleftrightarrow> l \<notin> set ls \<and> pin h l r"
  by (induction ls arbitrary: h) (auto simp: release_ok release_pin)

lemma release_twice: "ok h \<Longrightarrow> pin (release (Some l) (release (Some l) h)) l' r = pin (release (Some l) h) l' r"
  by (auto simp: release_pin release_ok)

end

interpretation arrow: lease_store arrow_ok pins result_Acquire lease_Release
  by unfold_locales
    (auto intro: result_Acquire_pinned result_Acquire_ok(1) lease_Release_ok
      dest: result_Acquire_ok(2,3))

section \<open>Executions\<close>

inductive arrow_step :: "'r arrow_lib \<Rightarrow> 'r arrow_heap \<Rightarrow> 'r arrow_heap \<Rightarrow> bool" for lib where
  new_builder: "arrow_step lib h (snd (NewBuilder h))"
| write_schema: "arrow_step lib h (snd (WriteSchema b s h))"
| write_record: "arrow_step lib h (snd (WriteRecord lib b r h))"
| finish: "arrow_step lib h (snd (Finish b h))"
| abort: "arrow_step lib h (Abort b h)"
| acquire_result: "arrow_step lib h (snd (result_Acquire r h))"
| acquire_lease: "arrow_step lib h (snd (lease_Acquire l h))"
| release_result: "arrow_step lib h (result_Release r h)"
| release_lease: "arrow_step lib h (lease_Release l h)"

inductive_simps arrow_step_simps: "arrow_step lib h h'"

definition arrow_reachable :: "'r arrow_lib \<Rightarrow> 'r arrow_heap \<Rightarrow> bool" where
  "arrow_reachable lib h \<longleftrightarrow> (arrow_step lib)\<^sup>*\<^sup>* arrow_empty h"

lemma result_Acquire_snd_ok: "arrow_ok h \<Longrightarrow> arrow_ok (snd (result_Acquire r h))"
proof (cases "result_Acquire r h")
  case (Pair o' h')
  assume ok: "arrow_ok h"
  show ?thesis
  proof (cases o')
    case (Inl e)
    then show ?thesis using Pair ok result_Acquire_error [of r h e h'] by simp
  next
    case (Inr l)
    then obtain r0 where "r = Some r0" using Pair by (cases r) (auto simp: result_Acquire_def)
    then show ?thesis using Pair Inr result_Acquire_ok(1) [OF ok] by simp
  qed
qed

lemma lease_Acquire_snd_ok: "arrow_ok h \<Longrightarrow> arrow_ok (snd (lease_Acquire l h))"
  by (auto simp: lease_Acquire_def result_Acquire_snd_ok split: option.split)

lemma arrow_step_ok: "arrow_step lib h h' \<Longrightarrow> arrow_ok h \<Longrightarrow> arrow_ok h'"
  by (induction rule: arrow_step.induct)
    (simp_all add: NewBuilder_ok WriteSchema_ok WriteRecord_ok Finish_ok Abort_ok
      result_Acquire_snd_ok lease_Acquire_snd_ok result_Release_ok lease_Release_ok)

lemma arrow_reachable_ok: "arrow_reachable lib h \<Longrightarrow> arrow_ok h"
  unfolding arrow_reachable_def
  by (induction rule: rtranclp_induct) (auto intro: arrow_empty_ok arrow_step_ok)

section \<open>What a lease shows does not change\<close>

definition result_view :: "'r arrow_result \<Rightarrow> arrow_schema option \<times> 'r list \<times> int \<times> int" where
  "result_view res = (ar_schema res, ar_records res, ar_rows res, ar_bytes res)"

definition view_kept :: "'r arrow_heap \<Rightarrow> 'r arrow_heap \<Rightarrow> bool" where
  "view_kept h h' \<longleftrightarrow> (\<forall>r res res'. ah_results h r = Some res \<longrightarrow> ah_results h' r = Some res' \<longrightarrow>
     0 < ar_refs res' \<longrightarrow> result_view res' = result_view res)"

lemma releaseRef_view: "view_kept h (releaseRef r h)"
  by (auto simp: view_kept_def releaseRef_def result_view_def split: option.splits if_splits)

lemma view_kept_trans_left:
  assumes "view_kept h1 h2" "\<And>r. map_option result_view (ah_results h1 r) = map_option result_view (ah_results h r)"
  shows "view_kept h h2"
  unfolding view_kept_def
proof (intro allI impI)
  fix r res res'
  assume r: "ah_results h r = Some res" "ah_results h2 r = Some res'" "0 < ar_refs res'"
  then obtain res1 where "ah_results h1 r = Some res1" "result_view res1 = result_view res"
    using assms(2) [of r] by auto
  then show "result_view res' = result_view res"
    using assms(1) r by (auto simp: view_kept_def)
qed

lemma lease_Release_view: "view_kept h (lease_Release l h)"
proof -
  have "view_kept h (releaseRef r (h\<lparr>ah_leases := x, ah_stats := y\<rparr>))" for r x y
    by (rule view_kept_trans_left [OF releaseRef_view]) simp
  then show ?thesis
    by (auto simp: lease_Release_def view_kept_def split: option.split)
qed

lemma result_Release_view: "view_kept h (result_Release r h)"
proof (cases "Option.bind r (ah_results h)")
  case (Some res)
  have "view_kept h (releaseRef (the r) (h\<lparr>ah_results := (ah_results h)(the r \<mapsto> res\<lparr>ar_ownerReleased := True\<rparr>)\<rparr>))"
    using Some by (intro view_kept_trans_left [OF releaseRef_view]) (auto simp: result_view_def split: Option.bind_splits)
  with Some show ?thesis by (simp add: result_Release_def view_kept_def)
qed (simp add: result_Release_def view_kept_def)

lemma result_Acquire_view: "view_kept h (snd (result_Acquire r h))"
  by (auto simp: view_kept_def result_Acquire_def result_view_def split: option.splits if_splits Option.bind_splits)

lemma lease_Acquire_view: "view_kept h (snd (lease_Acquire l h))"
  by (auto simp: lease_Acquire_def result_Acquire_view split: option.split) (simp_all add: view_kept_def)

lemma builder_view:
  "view_kept h (snd (NewBuilder h))" "view_kept h (snd (WriteSchema b s h))"
  "view_kept h (snd (WriteRecord lib b x h))" "view_kept h (Abort b h)"
  by (auto simp: view_kept_def NewBuilder_def WriteSchema_def WriteRecord_def Abort_def split: option.splits sum.splits)

lemma Finish_view: "arrow_ok h \<Longrightarrow> view_kept h (snd (Finish b h))"
  using arrow_invD(1) [of h _ "ah_next h"]
  by (auto simp: view_kept_def Finish_def Let_def split: option.splits if_splits)

lemma arrow_step_view: "arrow_step lib h h' \<Longrightarrow> arrow_ok h \<Longrightarrow> view_kept h h'"
  by (induction rule: arrow_step.induct)
    (simp_all add: builder_view Finish_view lease_Acquire_view result_Acquire_view
      result_Release_view lease_Release_view)

lemma result_Acquire_next: "ah_next h \<le> ah_next (snd (result_Acquire r h))"
  by (auto simp: result_Acquire_def split: option.split)

lemma result_Acquire_old: "l < ah_next h \<Longrightarrow> ah_leases (snd (result_Acquire r h)) l = ah_leases h l"
  by (auto simp: result_Acquire_def split: option.split)

text \<open>Leases are never revived: a lease that existed before a step pins what it pinned, or nothing.\<close>

lemma arrow_step_pins:
  assumes "arrow_step lib h h'" "arrow_ok h" "l < ah_next h" "pins h' l r"
  shows "pins h l r"
  using assms
proof (induction rule: arrow_step.induct)
  case (release_lease h lo)
  then show ?case by (cases lo) (auto, simp add: lease_Release_def)
next
  case (acquire_lease h lo)
  then show ?case
    by (auto simp: lease_Acquire_def pins_def result_Acquire_old split: option.splits if_splits)
qed (auto simp: pins_def NewBuilder_def WriteSchema_def WriteRecord_def Finish_def Abort_def Let_def
  result_Acquire_old result_Release_def split: option.splits sum.splits if_splits)

lemma arrow_step_next: "arrow_step lib h h' \<Longrightarrow> ah_next h \<le> ah_next h'"
  by (induction rule: arrow_step.induct)
    (auto simp: NewBuilder_def WriteSchema_def WriteRecord_def Finish_def Abort_def Let_def
      result_Acquire_next lease_Acquire_def result_Release_def lease_Release_def
      split: option.split sum.split)

lemma arrow_step_results: "arrow_step lib h h' \<Longrightarrow> arrow_ok h \<Longrightarrow> dom (ah_results h) \<subseteq> dom (ah_results h')"
  by (induction rule: arrow_step.induct)
    (auto simp: NewBuilder_def WriteSchema_def WriteRecord_def Finish_def Abort_def Let_def
      lease_Acquire_def result_Acquire_def result_Release_def lease_Release_def releaseRef_def
      split: option.splits sum.splits)

lemma lease_view_step:
  assumes "arrow_step lib h h'" "arrow_ok h" "pins h' l r" "l < ah_next h"
  shows "pins h l r" "map_option result_view (lease_result (Some l) h') = map_option result_view (lease_result (Some l) h)"
proof -
  show p: "pins h l r" by (rule arrow_step_pins [OF assms(1,2,4,3)])
  obtain res where res: "ah_results h r = Some res" using pinned_result [OF assms(2) p] by blast
  obtain res' where res': "ah_results h' r = Some res'" "0 < ar_refs res'"
    using pinned_result [OF arrow_step_ok [OF assms(1,2)] assms(3)] by blast
  have "result_view res' = result_view res"
    using arrow_step_view [OF assms(1,2)] res res' by (auto simp: view_kept_def)
  then show "map_option result_view (lease_result (Some l) h') = map_option result_view (lease_result (Some l) h)"
    using p assms(3) res res' by (auto simp: lease_result_def pins_def)
qed

lemma lease_view_steps:
  assumes "(arrow_step lib)\<^sup>*\<^sup>* h h'" "arrow_ok h" "l < ah_next h" "pins h' l r"
  shows "map_option result_view (lease_result (Some l) h') = map_option result_view (lease_result (Some l) h)"
proof -
  have "arrow_ok h' \<and> ah_next h \<le> ah_next h' \<and> (\<forall>r. pins h' l r \<longrightarrow>
      map_option result_view (lease_result (Some l) h') = map_option result_view (lease_result (Some l) h))"
    using assms(1)
  proof (induction rule: rtranclp_induct)
    case base
    then show ?case using assms(2) by simp
  next
    case (step y z)
    then show ?case
      using lease_view_step [OF step.hyps(2)] arrow_step_ok [OF step.hyps(2)] arrow_step_next [OF step.hyps(2)] assms(3)
      by (metis order_trans order_less_le_trans)
  qed
  then show ?thesis using assms(4) by blast
qed

section \<open>Sizes\<close>

definition sizes_ok :: "'r arrow_heap \<Rightarrow> bool" where
  "sizes_ok h \<longleftrightarrow> (\<forall>bl\<in>ran (ah_builders h). 0 \<le> bl_transient bl) \<and> (\<forall>res\<in>ran (ah_results h). 0 \<le> ar_bytes res)"

lemma SchemaBytes_nonneg: "0 \<le> SchemaBytes s"
  unfolding SchemaBytes_def metadata_size_def
  by (auto intro!: add_nonneg_nonneg sum_list_nonneg split: option.split)

lemma ran_updD: "x \<in> ran (m(k \<mapsto> v)) \<Longrightarrow> x = v \<or> x \<in> ran m"
  by (auto simp: ran_def split: if_splits)

lemma sizes_upd:
  assumes "sizes_ok h"
  shows "0 \<le> bl_transient bl \<Longrightarrow> sizes_ok (h\<lparr>ah_builders := (ah_builders h)(b \<mapsto> bl)\<rparr>)"
    "0 \<le> ar_bytes res \<Longrightarrow> sizes_ok (h\<lparr>ah_results := (ah_results h)(r \<mapsto> res)\<rparr>)"
    "sizes_ok (h\<lparr>ah_next := n\<rparr>)" "sizes_ok (h\<lparr>ah_stats := st\<rparr>)" "sizes_ok (h\<lparr>ah_leases := ls\<rparr>)"
  using assms by (auto simp: sizes_ok_def dest!: ran_updD)

lemma sizesD:
  assumes "sizes_ok h"
  shows "ah_builders h b = Some bl \<Longrightarrow> 0 \<le> bl_transient bl" "ah_results h r = Some res \<Longrightarrow> 0 \<le> ar_bytes res"
    "0 \<le> result_Bytes r' h"
  using assms by (auto simp: sizes_ok_def ran_def result_Bytes_def split: option.split Option.bind_splits)

lemma releaseRef_sizes: "sizes_ok h \<Longrightarrow> sizes_ok (releaseRef r h)"
  by (auto simp: releaseRef_def sizesD intro!: sizes_upd split: option.split)

lemma arrow_step_sizes:
  assumes "arrow_step lib h h'" "sizes_ok h" "\<And>r. 0 \<le> lib_size lib r"
  shows "sizes_ok h'"
  using assms
proof (induction rule: arrow_step.induct)
  case (write_record h b r)
  then show ?case
    by (auto simp: WriteRecord_def sizesD intro!: sizes_upd split: option.split sum.split Option.bind_splits)
next
  case (finish h b)
  then show ?case
    using sizesD(1) [OF finish.prems(1)]
    by (auto simp: Finish_def Let_def sizes_ok_def add_nonneg_nonneg SchemaBytes_nonneg dest!: ran_updD
        split: option.split Option.bind_splits)
next
  case (release_result h r)
  then show ?case
    by (auto simp: result_Release_def sizesD intro!: releaseRef_sizes sizes_upd split: option.split Option.bind_splits)
next
  case (release_lease h l)
  then show ?case
    by (auto simp: lease_Release_def intro!: releaseRef_sizes sizes_upd split: option.split)
qed (auto simp: NewBuilder_def WriteSchema_def Abort_def result_Acquire_def lease_Acquire_def sizesD
  intro!: sizes_upd split: option.split Option.bind_splits, auto simp: sizes_ok_def dest!: ran_updD intro: ranI)

section \<open>Properties\<close>


definition sample_lib :: "nat arrow_lib" where
  "sample_lib = \<lparr>lib_schema = (\<lambda>_. \<lparr>as_string = ''s'', as_metadata = [], as_fields = []\<rparr>),
     lib_equal = (=), lib_copy = (\<lambda>r _. Inr r), lib_size = int, lib_rows = (\<lambda>_. 1)\<rparr>"

definition sample_heap :: "nat arrow_heap" where
  "sample_heap =
    (let h = snd (NewBuilder arrow_empty);
         h = snd (WriteSchema (Some 0) (Some (lib_schema sample_lib 0)) h);
         h = snd (WriteRecord sample_lib (Some 0) (Some 7) h);
         h = snd (Finish (Some 0) h) in
     snd (result_Acquire (Some 1) h))"

lemma sample_heap_reachable: "arrow_reachable sample_lib sample_heap"
  unfolding arrow_reachable_def sample_heap_def Let_def
  by (intro rtranclp.rtrancl_into_rtrancl [OF rtranclp.rtrancl_into_rtrancl [OF rtranclp.rtrancl_into_rtrancl
        [OF rtranclp.rtrancl_into_rtrancl [OF rtranclp.rtrancl_into_rtrancl [OF rtranclp.rtrancl_refl]]]]])
    (rule arrow_step.intros)+

lemmas sample_heap_eval = sample_heap_def sample_lib_def arrow_empty_def NewBuilder_def WriteSchema_def
  WriteRecord_def Finish_def result_Acquire_def SchemaBytes_def metadata_size_def add_stats_def Let_def


text \<open>
  C15. What a lease gives access to (the schema, the records, the row and byte counts) does not
  change while the lease is held, whatever other callers do: other leases may be released, the
  creator may release the result, further results may be built and released.
\<close>

theorem held_lease_view_stable:
  assumes "arrow_reachable lib h" "(arrow_step lib)\<^sup>*\<^sup>* h h'" "l < ah_next h" "pins h' l r"
  shows "lease_result (Some l) h' \<noteq> None
    \<and> lease_Schema (Some l) h' = lease_Schema (Some l) h \<and> lease_Schema (Some l) h' \<noteq> None
    \<and> lease_Rows (Some l) h' = lease_Rows (Some l) h \<and> lease_Bytes (Some l) h' = lease_Bytes (Some l) h
    \<and> VisitRecords (Some l) visit h' s = VisitRecords (Some l) visit h s"
proof -
  have ok: "arrow_ok h" by (rule arrow_reachable_ok [OF assms(1)])
  have ok': "arrow_ok h'"
    using assms(1,2) by (intro arrow_reachable_ok [of lib]) (simp add: arrow_reachable_def)
  obtain res' where "ah_results h' r = Some res'" "ar_schema res' \<noteq> None"
    using pinned_result [OF ok' assms(4)] by blast
  then have res': "lease_result (Some l) h' = Some res'" "ar_schema res' \<noteq> None"
    using assms(4) by (auto simp: lease_result_def pins_def)
  then obtain res where "lease_result (Some l) h = Some res" "result_view res' = result_view res"
    using lease_view_steps [OF assms(2) ok assms(3,4)] by (cases "lease_result (Some l) h") auto
  with res' show ?thesis
    by (simp add: lease_Schema_def lease_Rows_def lease_Bytes_def VisitRecords_def result_view_def split: option.split)
qed

theorem held_lease_view_stable_witness:
  "lease_Bytes (Some 2) (result_Release (Some 1) sample_heap) = lease_Bytes (Some 2) sample_heap
   \<and> lease_Bytes (Some 2) sample_heap = 72"
proof -
  have "pins sample_heap 2 1" "2 < ah_next sample_heap" "lease_Bytes (Some 2) sample_heap = 72"
    by (simp_all add: sample_heap_eval pins_def lease_Bytes_def lease_result_def)
  moreover have "(arrow_step sample_lib)\<^sup>*\<^sup>* sample_heap (result_Release (Some 1) sample_heap)"
    by (rule r_into_rtranclp) (rule arrow_step.release_result)
  ultimately show ?thesis
    using held_lease_view_stable [OF sample_heap_reachable, of "result_Release (Some 1) sample_heap" 2 1 None "()"] by simp
qed

end
