(* ===== verification/Result_Cache.thy ===== *)
theory Result_Cache
  imports Arrow_Result
begin

text \<open>
  The node-wide pool of governed query results, \<open>internal/analytics/resultcache/pool.go\<close>.
  Each exported method runs under the pool's mutex and is one function on the pool state.
  A list element is a pair of an identity and the immutable entry it carries; \<open>pl_lru\<close> lists
  the elements from the front (most recently used) to the back. A scope handle is the key it
  carries, \<open>None\<close> for a nil handle. The leases a pool holds live in \<open>pl_heap\<close>, the store of
  reference-counted results.

  Iterating over a Go map visits its keys in an unspecified order: \<open>Invalidate\<close> and
  \<open>scope_Close\<close> take the visiting order as an argument, and the step relation lets it be
  any enumeration of the keys. The eviction loops of \<open>enforceLocked\<close> could spin or
  dereference a nil scope; both are the value \<open>None\<close> of \<open>evict_while\<close>. Byte totals are sums of
  sizes of resident data and unbounded; generations and event counters are 64-bit words.
\<close>

section \<open>State\<close>

datatype cache_constraint = ConstraintRuntime | ConstraintWorkspace | ConstraintNode

datatype store_outcome = StoreStored | StoreOversized | StoreStale | StoreClosed

record cache_limits =
  RuntimeEntries :: int
  RuntimeBytes :: int
  WorkspaceEntries :: int
  WorkspaceBytes :: int
  NodeEntries :: int
  NodeBytes :: int

datatype limits_error = LimitsNotPositive | EntryLimitsUnordered | ByteLimitsUnordered

definition Validate_limits :: "cache_limits \<Rightarrow> limits_error + unit" where
  "Validate_limits l =
    (if RuntimeEntries l \<le> 0 \<or> WorkspaceEntries l \<le> 0 \<or> NodeEntries l \<le> 0
        \<or> RuntimeBytes l \<le> 0 \<or> WorkspaceBytes l \<le> 0 \<or> NodeBytes l \<le> 0 then Inl LimitsNotPositive
     else if RuntimeEntries l > WorkspaceEntries l \<or> WorkspaceEntries l > NodeEntries l
     then Inl EntryLimitsUnordered
     else if RuntimeBytes l > WorkspaceBytes l \<or> WorkspaceBytes l > NodeBytes l
     then Inl ByteLimitsUnordered
     else Inr ())"

record scope_id =
  WorkspaceID :: string
  RuntimeID :: string

record cache_metadata =
  md_SQL :: string
  md_TotalRows :: int
  md_TotalRowsKnown :: bool
  md_Warnings :: "string list"

record cache_usage =
  us_entries :: int
  us_bytes :: int

record cache_entry =
  en_composite :: string
  en_key :: string
  en_scope :: string
  en_result :: "nat option"
  en_hold :: "nat option"
  en_metadata :: cache_metadata
  en_bytes :: int

type_synonym element = "nat \<times> cache_entry"

record scope_state =
  ss_id :: scope_id
  ss_generation :: "64 word"
  ss_closed :: bool
  ss_entries :: "string set"
  ss_usage :: cache_usage

datatype cache_error =
    PoolClosed | ScopeIDsRequired | ScopeExists | ScopeRequired | ScopeClosed
  | NoFlightData | ResultError arrow_error | FlightError string | OwnerCanceled string | ContextDone string

record arrow_flight =
  fl_waiters :: int
  fl_shared :: bool
  fl_complete :: bool
  fl_data :: "nat option"
  fl_metadata :: cache_metadata
  fl_cached :: bool
  fl_err :: "cache_error option"

record 'r pool =
  pl_limits :: cache_limits
  pl_closed :: bool
  pl_entries :: "string \<rightharpoonup> element"
  pl_lru :: "element list"
  pl_nextElement :: nat
  pl_scopes :: "string \<rightharpoonup> scope_state"
  pl_workspaces :: "string \<rightharpoonup> cache_usage"
  pl_bytes :: int
  pl_evictions :: "cache_constraint \<Rightarrow> 64 word"
  pl_stores :: "store_outcome \<Rightarrow> 64 word"
  pl_arrowFlights :: "string \<rightharpoonup> nat"
  pl_flights :: "nat \<rightharpoonup> arrow_flight"
  pl_nextFlight :: nat
  pl_heap :: "'r arrow_heap"

definition NUL :: char where
  "NUL = CHR 0x00"

abbreviation no_usage :: cache_usage where
  "no_usage \<equiv> \<lparr>us_entries = 0, us_bytes = 0\<rparr>"

definition New_pool :: "cache_limits \<Rightarrow> 'r arrow_heap \<Rightarrow> limits_error + 'r pool" where
  "New_pool limits h =
    bind_res (Validate_limits limits) (\<lambda>_. Inr \<lparr>pl_limits = limits, pl_closed = False,
      pl_entries = Map.empty, pl_lru = [], pl_nextElement = 0, pl_scopes = Map.empty,
      pl_workspaces = Map.empty, pl_bytes = 0, pl_evictions = (\<lambda>_. 0), pl_stores = (\<lambda>_. 0),
      pl_arrowFlights = Map.empty, pl_flights = Map.empty, pl_nextFlight = 0, pl_heap = h\<rparr>)"

section \<open>Operations\<close>

definition scopeKey :: "scope_id \<Rightarrow> string" where
  "scopeKey i = WorkspaceID i @ [NUL] @ RuntimeID i"

definition OpenScope :: "scope_id \<Rightarrow> 'r pool \<Rightarrow> (cache_error + string) \<times> 'r pool" where
  "OpenScope i p =
    (if WorkspaceID i = [] \<or> RuntimeID i = [] then (Inl ScopeIDsRequired, p)
     else let key = WorkspaceID i @ [NUL] @ RuntimeID i in
       if pl_closed p then (Inl PoolClosed, p)
       else if (case pl_scopes p key of None \<Rightarrow> False | Some existing \<Rightarrow> \<not> ss_closed existing)
       then (Inl ScopeExists, p)
       else (Inr key, p\<lparr>pl_scopes := (pl_scopes p)(key \<mapsto>
               \<lparr>ss_id = i, ss_generation = 0, ss_closed = False, ss_entries = {}, ss_usage = no_usage\<rparr>)\<rparr>))"

definition Generation :: "string option \<Rightarrow> 'r pool \<Rightarrow> 64 word" where
  "Generation s p = (case Option.bind s (pl_scopes p) of None \<Rightarrow> 0 | Some st \<Rightarrow> ss_generation st)"

definition scope_Stats :: "string option \<Rightarrow> 'r pool \<Rightarrow> cache_usage" where
  "scope_Stats s p = (case Option.bind s (pl_scopes p) of None \<Rightarrow> no_usage | Some st \<Rightarrow> ss_usage st)"

definition cloneMetadata :: "cache_metadata \<Rightarrow> cache_metadata" where
  "cloneMetadata m = m\<lparr>md_Warnings := [] @ md_Warnings m\<rparr>"

definition metadataBytes :: "cache_metadata \<Rightarrow> int" where
  "metadataBytes m = int (length (md_SQL m) + 16) + (\<Sum>w\<leftarrow>md_Warnings m. int (length w + 16))"

definition workspaceLocked :: "string \<Rightarrow> 'r pool \<Rightarrow> cache_usage \<times> 'r pool" where
  "workspaceLocked i p =
    (case pl_workspaces p i of
       None \<Rightarrow> (no_usage, p\<lparr>pl_workspaces := (pl_workspaces p)(i \<mapsto> no_usage)\<rparr>)
     | Some u \<Rightarrow> (u, p))"

definition add_usage :: "int \<Rightarrow> int \<Rightarrow> cache_usage \<Rightarrow> cache_usage" where
  "add_usage n b u = \<lparr>us_entries = us_entries u + n, us_bytes = us_bytes u + b\<rparr>"

definition add_workspace :: "string \<Rightarrow> int \<Rightarrow> int \<Rightarrow> 'r pool \<Rightarrow> 'r pool" where
  "add_workspace i n b p =
    (case workspaceLocked i p of
       (u, q) \<Rightarrow> q\<lparr>pl_workspaces := (pl_workspaces q)(i \<mapsto> add_usage n b u)\<rparr>)"

definition removeLocked :: "cache_constraint option \<Rightarrow> element option \<Rightarrow> 'r pool \<Rightarrow> 'r pool" where
  "removeLocked constraint element p =
    (case element of
       None \<Rightarrow> p
     | Some (i, e) \<Rightarrow>
         let p = p\<lparr>pl_heap := lease_Release (en_hold e) (pl_heap p)\<rparr>;
             state = pl_scopes p (en_scope e);
             p = p\<lparr>pl_entries := (pl_entries p)(en_composite e := None),
                   pl_lru := filter (\<lambda>x. fst x \<noteq> i) (pl_lru p),
                   pl_bytes := pl_bytes p - en_bytes e\<rparr>;
             p = (case state of
                    None \<Rightarrow> p
                  | Some st \<Rightarrow>
                      add_workspace (WorkspaceID (ss_id st)) (- 1) (- en_bytes e)
                        (p\<lparr>pl_scopes := (pl_scopes p)(en_scope e \<mapsto>
                             st\<lparr>ss_entries := ss_entries st - {en_composite e},
                                ss_usage := add_usage (- 1) (- en_bytes e) (ss_usage st)\<rparr>)\<rparr>)) in
         case constraint of
           None \<Rightarrow> p
         | Some c \<Rightarrow> p\<lparr>pl_evictions := (pl_evictions p)(c := pl_evictions p c + 1)\<rparr>)"

text \<open>\<open>oldestLocked\<close> scans from the back; the test may itself panic.\<close>

fun scan_oldest :: "(cache_entry \<Rightarrow> bool go_panic) \<Rightarrow> element list \<Rightarrow> element option go_panic" where
  "scan_oldest match [] = Some None"
| "scan_oldest match (x # xs) =
    (case match (snd x) of
       None \<Rightarrow> None
     | Some True \<Rightarrow> Some (Some x)
     | Some False \<Rightarrow> scan_oldest match xs)"

definition oldestLocked :: "(cache_entry \<Rightarrow> bool go_panic) \<Rightarrow> 'r pool \<Rightarrow> element option go_panic" where
  "oldestLocked match p = scan_oldest match (rev (pl_lru p))"

text \<open>\<open>for over { remove(victim()) }\<close>: \<open>None\<close> when the victim's search panics or the loop never ends.\<close>

partial_function (option) evict_while ::
  "('p \<Rightarrow> bool) \<Rightarrow> ('p \<Rightarrow> 'x option) \<Rightarrow> ('x \<Rightarrow> 'p \<Rightarrow> 'p) \<Rightarrow> 'p \<Rightarrow> 'p option" where
  "evict_while over victim remove p =
    (if over p
     then (case victim p of None \<Rightarrow> None | Some x \<Rightarrow> evict_while over victim remove (remove x p))
     else Some p)"

definition exceeds :: "int \<Rightarrow> int \<Rightarrow> cache_usage \<Rightarrow> bool" where
  "exceeds n b u \<longleftrightarrow> us_entries u > n \<or> us_bytes u > b"

definition runtime_over :: "string \<Rightarrow> 'r pool \<Rightarrow> bool" where
  "runtime_over key p \<longleftrightarrow>
     exceeds (RuntimeEntries (pl_limits p)) (RuntimeBytes (pl_limits p)) (scope_Stats (Some key) p)"

definition runtime_victim :: "scope_id \<Rightarrow> 'r pool \<Rightarrow> element option go_panic" where
  "runtime_victim i p = oldestLocked (\<lambda>e. Some (en_scope e = scopeKey i)) p"

definition workspace_over :: "string \<Rightarrow> 'r pool \<Rightarrow> bool" where
  "workspace_over w p \<longleftrightarrow>
     exceeds (WorkspaceEntries (pl_limits p)) (WorkspaceBytes (pl_limits p))
       (case pl_workspaces p w of None \<Rightarrow> no_usage | Some u \<Rightarrow> u)"

definition workspace_victim :: "string \<Rightarrow> 'r pool \<Rightarrow> element option go_panic" where
  "workspace_victim w p =
     oldestLocked (\<lambda>e. map_option (\<lambda>st. WorkspaceID (ss_id st) = w) (pl_scopes p (en_scope e))) p"

definition node_over :: "'r pool \<Rightarrow> bool" where
  "node_over p \<longleftrightarrow> int (card (dom (pl_entries p))) > NodeEntries (pl_limits p)
     \<or> pl_bytes p > NodeBytes (pl_limits p)"

definition node_victim :: "'r pool \<Rightarrow> element option go_panic" where
  "node_victim p = Some (if pl_lru p = [] then None else Some (last (pl_lru p)))"

definition enforceLocked :: "string \<Rightarrow> scope_id \<Rightarrow> 'r pool \<Rightarrow> 'r pool option" where
  "enforceLocked key i p =
    Option.bind (evict_while (runtime_over key) (runtime_victim i) (removeLocked (Some ConstraintRuntime)) p)
      (\<lambda>p. Option.bind
        (evict_while (workspace_over (WorkspaceID i)) (workspace_victim (WorkspaceID i))
          (removeLocked (Some ConstraintWorkspace)) (snd (workspaceLocked (WorkspaceID i) p)))
        (\<lambda>p. evict_while node_over node_victim (removeLocked (Some ConstraintNode)) p))"

definition count_store :: "store_outcome \<Rightarrow> 'r pool \<Rightarrow> store_outcome \<times> 'r pool" where
  "count_store out p = (out, p\<lparr>pl_stores := (pl_stores p)(out := pl_stores p out + 1)\<rparr>)"

definition entry_size :: "string \<Rightarrow> nat option \<Rightarrow> cache_metadata \<Rightarrow> 'r pool \<Rightarrow> int" where
  "entry_size key result metadata p =
     int (length key) + result_Bytes result (pl_heap p) + metadataBytes metadata"

text \<open>The part of \<open>StoreArrow\<close> that replaces an older entry and links the new one.\<close>

definition link_entry :: "cache_entry \<Rightarrow> 'r pool \<Rightarrow> 'r pool" where
  "link_entry e p =
    (let element = (pl_nextElement p, e);
         p = p\<lparr>pl_nextElement := Suc (pl_nextElement p), pl_lru := element # pl_lru p,
               pl_entries := (pl_entries p)(en_composite e \<mapsto> element)\<rparr>;
         p = (case pl_scopes p (en_scope e) of
                None \<Rightarrow> p
              | Some st \<Rightarrow>
                  add_workspace (WorkspaceID (ss_id st)) 1 (en_bytes e)
                    (p\<lparr>pl_scopes := (pl_scopes p)(en_scope e \<mapsto>
                         st\<lparr>ss_entries := insert (en_composite e) (ss_entries st),
                            ss_usage := add_usage 1 (en_bytes e) (ss_usage st)\<rparr>)\<rparr>)) in
     p\<lparr>pl_bytes := pl_bytes p + en_bytes e\<rparr>)"

definition insert_entry :: "cache_entry \<Rightarrow> 'r pool \<Rightarrow> 'r pool" where
  "insert_entry e p = link_entry e (removeLocked None (pl_entries p (en_composite e)) p)"

definition StoreArrow ::
  "string option \<Rightarrow> string \<Rightarrow> 64 word \<Rightarrow> nat option \<Rightarrow> cache_metadata \<Rightarrow> 'r pool
    \<Rightarrow> (store_outcome \<times> 'r pool) option" where
  "StoreArrow s key token result metadata p =
    (case s of None \<Rightarrow> Some (StoreClosed, p) | Some skey \<Rightarrow>
     if result = None then Some (StoreClosed, p)
     else case pl_scopes p skey of
       None \<Rightarrow> Some (count_store StoreClosed p)
     | Some state \<Rightarrow>
       if pl_closed p \<or> ss_closed state then Some (count_store StoreClosed p)
       else if token \<noteq> ss_generation state then Some (count_store StoreStale p)
       else let bytes = entry_size key result metadata p in
       if bytes > RuntimeBytes (pl_limits p) \<or> bytes > WorkspaceBytes (pl_limits p)
          \<or> bytes > NodeBytes (pl_limits p) then Some (count_store StoreOversized p)
       else case result_Acquire result (pl_heap p) of
         (Inl _, h) \<Rightarrow> Some (count_store StoreClosed (p\<lparr>pl_heap := h\<rparr>))
       | (Inr hold, h) \<Rightarrow>
           map_option (count_store StoreStored)
             (enforceLocked skey (ss_id state)
               (insert_entry \<lparr>en_composite = skey @ [NUL] @ key, en_key = key, en_scope = skey,
                  en_result = result, en_hold = Some hold, en_metadata = cloneMetadata metadata,
                  en_bytes = bytes\<rparr> (p\<lparr>pl_heap := h\<rparr>))))"

record entry_lease =
  el_data :: "nat option"
  el_metadata :: cache_metadata

definition LookupArrow ::
  "string option \<Rightarrow> string \<Rightarrow> 'r pool
    \<Rightarrow> (cache_error option \<times> entry_lease option \<times> 64 word \<times> bool) \<times> 'r pool" where
  "LookupArrow s key p =
    (case s of None \<Rightarrow> ((Some ScopeRequired, None, 0, False), p) | Some skey \<Rightarrow>
     case pl_scopes p skey of
       None \<Rightarrow> ((Some ScopeClosed, None, 0, False), p)
     | Some state \<Rightarrow>
       if pl_closed p \<or> ss_closed state then ((Some ScopeClosed, None, 0, False), p)
       else case pl_entries p (skey @ [NUL] @ key) of
         None \<Rightarrow> ((None, None, ss_generation state, False), p)
       | Some (i, e) \<Rightarrow>
           if en_result e = None then ((None, None, ss_generation state, False), p)
           else case result_Acquire (en_result e) (pl_heap p) of
             (Inl err, h) \<Rightarrow> ((Some (ResultError err), None, ss_generation state, False), p\<lparr>pl_heap := h\<rparr>)
           | (Inr lease, h) \<Rightarrow>
               ((None, Some \<lparr>el_data = Some lease, el_metadata = cloneMetadata (en_metadata e)\<rparr>,
                 ss_generation state, True),
                p\<lparr>pl_heap := h, pl_lru := (i, e) # filter (\<lambda>x. fst x \<noteq> i) (pl_lru p)\<rparr>))"

definition Delete_entry :: "string option \<Rightarrow> string \<Rightarrow> 'r pool \<Rightarrow> 'r pool" where
  "Delete_entry s key p =
    (case s of None \<Rightarrow> p | Some skey \<Rightarrow>
     case pl_scopes p skey of
       None \<Rightarrow> p
     | Some state \<Rightarrow> if ss_closed state then p
         else removeLocked None (pl_entries p (skey @ [NUL] @ key)) p)"

definition remove_composites :: "string list \<Rightarrow> 'r pool \<Rightarrow> 'r pool" where
  "remove_composites order p = fold (\<lambda>c p. removeLocked None (pl_entries p c) p) order p"

definition Invalidate :: "string list \<Rightarrow> string option \<Rightarrow> 'r pool \<Rightarrow> 'r pool" where
  "Invalidate order s p =
    (case s of None \<Rightarrow> p | Some skey \<Rightarrow>
     case pl_scopes p skey of
       None \<Rightarrow> p
     | Some state \<Rightarrow> if ss_closed state then p
         else let p = remove_composites order p in
           p\<lparr>pl_scopes := (pl_scopes p)(skey :=
              map_option (\<lambda>st. st\<lparr>ss_generation := ss_generation st + 1\<rparr>) (pl_scopes p skey))\<rparr>)"

text \<open>\<open>Scope.Close\<close> also marks the state closed and bumps its generation; the state is then
  dropped from the map and no longer reachable.\<close>

definition scope_Close :: "string list \<Rightarrow> string option \<Rightarrow> 'r pool \<Rightarrow> 'r pool" where
  "scope_Close order s p =
    (case s of None \<Rightarrow> p | Some skey \<Rightarrow>
     case pl_scopes p skey of
       None \<Rightarrow> p
     | Some state \<Rightarrow> if ss_closed state then p
         else let p = remove_composites order p in p\<lparr>pl_scopes := (pl_scopes p)(skey := None)\<rparr>)"

definition pool_Close :: "'r pool \<Rightarrow> 'r pool" where
  "pool_Close p =
    (if pl_closed p then p
     else let p = fold (\<lambda>x. removeLocked None (Some x)) (rev (pl_lru p)) (p\<lparr>pl_closed := True\<rparr>) in
       p\<lparr>pl_scopes := Map.empty\<rparr>)"

record scope_snapshot =
  sn_id :: scope_id
  sn_entries :: int
  sn_bytes :: int
  sn_generation :: "64 word"

record cache_snapshot =
  cs_entries :: int
  cs_bytes :: int
  cs_workspaces :: "string \<rightharpoonup> cache_usage"
  cs_scopes :: "string \<rightharpoonup> scope_snapshot"
  cs_evictions :: "cache_constraint \<Rightarrow> 64 word"
  cs_stores :: "store_outcome \<Rightarrow> 64 word"

definition pool_Stats :: "'r pool \<Rightarrow> cache_snapshot" where
  "pool_Stats p =
    \<lparr>cs_entries = int (card (dom (pl_entries p))), cs_bytes = pl_bytes p,
     cs_workspaces = (\<lambda>i. case pl_workspaces p i of None \<Rightarrow> None
        | Some u \<Rightarrow> if us_entries u \<noteq> 0 \<or> us_bytes u \<noteq> 0 then Some u else None),
     cs_scopes = (\<lambda>k. map_option (\<lambda>st. \<lparr>sn_id = ss_id st, sn_entries = us_entries (ss_usage st),
        sn_bytes = us_bytes (ss_usage st), sn_generation = ss_generation st\<rparr>) (pl_scopes p k)),
     cs_evictions = pl_evictions p, cs_stores = pl_stores p\<rparr>"

end
