(* ===== verification/Result_Cache_Safety.thy ===== *)
theory Result_Cache_Safety
  imports Result_Cache
begin

text \<open>
  The invariant of the result cache and the operations that keep it: the counters of the
  node, of every workspace and of every scope are the totals of the entries linked in the
  list, the composite index is the list's, and every linked entry pins its result.
\<close>

section \<open>The accounting invariant\<close>

definition tally :: "(cache_entry \<Rightarrow> int) \<Rightarrow> 'r pool \<Rightarrow> int" where
  "tally f p = (\<Sum>x\<leftarrow>pl_lru p. f (snd x))"

definition usage_where :: "(cache_entry \<Rightarrow> bool) \<Rightarrow> 'r pool \<Rightarrow> cache_usage" where
  "usage_where P p = \<lparr>us_entries = tally (\<lambda>e. if P e then 1 else 0) p,
     us_bytes = tally (\<lambda>e. if P e then en_bytes e else 0) p\<rparr>"

definition entry_workspace :: "'r pool \<Rightarrow> cache_entry \<Rightarrow> string option" where
  "entry_workspace p e = map_option (\<lambda>st. WorkspaceID (ss_id st)) (pl_scopes p (en_scope e))"

definition workspace_usage :: "string \<Rightarrow> 'r pool \<Rightarrow> cache_usage" where
  "workspace_usage w p = (case pl_workspaces p w of None \<Rightarrow> no_usage | Some u \<Rightarrow> u)"

definition holds_of :: "'r pool \<Rightarrow> nat option set" where
  "holds_of p = (\<lambda>x. en_hold (snd x)) ` set (pl_lru p)"

definition entry_ok :: "'r pool \<Rightarrow> cache_entry \<Rightarrow> bool" where
  "entry_ok p e \<longleftrightarrow> en_scope e \<in> dom (pl_scopes p) \<and> 0 \<le> en_bytes e
     \<and> en_composite e = en_scope e @ [NUL] @ en_key e
     \<and> (\<exists>l r. en_hold e = Some l \<and> en_result e = Some r \<and> pins (pl_heap p) l r)"

definition scope_ok :: "'r pool \<Rightarrow> string \<Rightarrow> scope_state \<Rightarrow> bool" where
  "scope_ok p k st \<longleftrightarrow> \<not> ss_closed st \<and> k = scopeKey (ss_id st)
     \<and> ss_entries st = {en_composite (snd x) |x. x \<in> set (pl_lru p) \<and> en_scope (snd x) = k}
     \<and> ss_usage st = usage_where (\<lambda>e. en_scope e = k) p"

definition linked_ok :: "'r pool \<Rightarrow> bool" where
  "linked_ok p \<longleftrightarrow> distinct (map fst (pl_lru p)) \<and> (\<forall>x\<in>set (pl_lru p). fst x < pl_nextElement p)
     \<and> (\<forall>c x. pl_entries p c = Some x \<longleftrightarrow> x \<in> set (pl_lru p) \<and> en_composite (snd x) = c)
     \<and> distinct (map (\<lambda>x. en_hold (snd x)) (pl_lru p))"

definition pool_ok :: "'r pool \<Rightarrow> bool" where
  "pool_ok p \<longleftrightarrow> arrow_ok (pl_heap p) \<and> Validate_limits (pl_limits p) = Inr () \<and> linked_ok p
     \<and> (\<forall>x\<in>set (pl_lru p). entry_ok p (snd x))
     \<and> (\<forall>k st. pl_scopes p k = Some st \<longrightarrow> scope_ok p k st)
     \<and> (\<forall>w. workspace_usage w p = usage_where (\<lambda>e. entry_workspace p e = Some w) p)
     \<and> pl_bytes p = tally en_bytes p \<and> (pl_closed p \<longrightarrow> pl_scopes p = Map.empty)"

lemma pool_okD:
  assumes "pool_ok p"
  shows "arrow_ok (pl_heap p)" "Validate_limits (pl_limits p) = Inr ()" "linked_ok p"
    and "x \<in> set (pl_lru p) \<Longrightarrow> entry_ok p (snd x)"
    and "pl_scopes p k = Some st \<Longrightarrow> scope_ok p k st"
    and "workspace_usage w p = usage_where (\<lambda>e. entry_workspace p e = Some w) p"
    and "pl_bytes p = tally en_bytes p" and "pl_closed p \<Longrightarrow> pl_scopes p = Map.empty"
  using assms by (auto simp: pool_ok_def)

lemma linked_okD:
  assumes "linked_ok p"
  shows "distinct (map fst (pl_lru p))" "x \<in> set (pl_lru p) \<Longrightarrow> fst x < pl_nextElement p"
    and "pl_entries p c = Some y \<longleftrightarrow> y \<in> set (pl_lru p) \<and> en_composite (snd y) = c"
    and "distinct (map (\<lambda>x. en_hold (snd x)) (pl_lru p))"
  using assms unfolding linked_ok_def by blast+

lemma Validate_limits_pos:
  "Validate_limits l = Inr u \<Longrightarrow> 0 < RuntimeEntries l \<and> 0 < WorkspaceEntries l \<and> 0 < NodeEntries l
     \<and> 0 < RuntimeBytes l \<and> 0 < WorkspaceBytes l \<and> 0 < NodeBytes l"
  by (auto simp: Validate_limits_def split: if_splits)

section \<open>Totals of the list\<close>

lemma sum_list_filter_out:
  fixes f :: "'b \<Rightarrow> int"
  assumes "distinct (map fst xs)" "x \<in> set xs"
  shows "(\<Sum>y\<leftarrow>filter (\<lambda>y. fst y \<noteq> fst x) xs. f (snd y)) = (\<Sum>y\<leftarrow>xs. f (snd y)) - f (snd x)"
  using assms
proof (induction xs)
  case (Cons a xs)
  show ?case
  proof (cases "a = x")
    case True
    then have "filter (\<lambda>y. fst y \<noteq> fst x) xs = xs"
      using Cons.prems by (intro filter_True) (auto simp: image_iff)
    then show ?thesis using True by simp
  next
    case False
    then have "x \<in> set xs" "fst a \<noteq> fst x" using Cons.prems by force+
    then show ?thesis using Cons by simp
  qed
qed simp

lemma distinct_fst_eq: "distinct (map fst xs) \<Longrightarrow> x \<in> set xs \<Longrightarrow> y \<in> set xs \<Longrightarrow> fst x = fst y \<longleftrightarrow> x = y"
  by (metis eq_key_imp_eq_value prod.collapse)

lemma tally_zero: "(\<And>x. x \<in> set (pl_lru p) \<Longrightarrow> f (snd x) = 0) \<Longrightarrow> tally f p = 0"
  unfolding tally_def by (rule sum_list_nonneg_eq_0_iff [THEN iffD2]) auto

lemma tally_cong: "pl_lru p = pl_lru q \<Longrightarrow> (\<And>x. x \<in> set (pl_lru q) \<Longrightarrow> f (snd x) = g (snd x)) \<Longrightarrow> tally f p = tally g q"
  unfolding tally_def by (auto intro!: arg_cong [where f = sum_list])

lemma usage_where_cong:
  "pl_lru p = pl_lru q \<Longrightarrow> (\<And>x. x \<in> set (pl_lru q) \<Longrightarrow> P (snd x) = Q (snd x)) \<Longrightarrow> usage_where P p = usage_where Q q"
  unfolding usage_where_def by (auto intro!: tally_cong)

lemma totals_upd [simp]:
  "tally f (p\<lparr>pl_scopes := s\<rparr>) = tally f p" "usage_where P (p\<lparr>pl_scopes := s\<rparr>) = usage_where P p"
  "tally f (p\<lparr>pl_closed := c\<rparr>) = tally f p" "usage_where P (p\<lparr>pl_closed := c\<rparr>) = usage_where P p"
  by (simp_all add: tally_def usage_where_def)

lemma add_usage_simps [simp]:
  "us_entries (add_usage n b u) = us_entries u + n" "us_bytes (add_usage n b u) = us_bytes u + b"
  by (simp_all add: add_usage_def)

lemma usage_eqI: "us_entries u = us_entries v \<Longrightarrow> us_bytes u = us_bytes v \<Longrightarrow> u = (v :: cache_usage)"
  by simp

lemma add_workspace_simps [simp]:
  "pl_limits (add_workspace i n b p) = pl_limits p" "pl_closed (add_workspace i n b p) = pl_closed p"
  "pl_entries (add_workspace i n b p) = pl_entries p" "pl_lru (add_workspace i n b p) = pl_lru p"
  "pl_nextElement (add_workspace i n b p) = pl_nextElement p" "pl_scopes (add_workspace i n b p) = pl_scopes p"
  "pl_bytes (add_workspace i n b p) = pl_bytes p" "pl_evictions (add_workspace i n b p) = pl_evictions p"
  "pl_stores (add_workspace i n b p) = pl_stores p" "pl_heap (add_workspace i n b p) = pl_heap p"
  "pl_arrowFlights (add_workspace i n b p) = pl_arrowFlights p" "pl_flights (add_workspace i n b p) = pl_flights p"
  "pl_nextFlight (add_workspace i n b p) = pl_nextFlight p"
  by (auto simp: add_workspace_def workspaceLocked_def split: option.split)

lemma workspace_usage_add [simp]:
  "workspace_usage w (add_workspace i n b p) = (if w = i then add_usage n b (workspace_usage w p) else workspace_usage w p)"
  by (auto simp: workspace_usage_def add_workspace_def workspaceLocked_def split: option.split)

lemma workspace_usage_upd [simp]:
  "workspace_usage w (p\<lparr>pl_scopes := s\<rparr>) = workspace_usage w p" "workspace_usage w (p\<lparr>pl_heap := h\<rparr>) = workspace_usage w p"
  "workspace_usage w (p\<lparr>pl_entries := e\<rparr>) = workspace_usage w p" "workspace_usage w (p\<lparr>pl_lru := l\<rparr>) = workspace_usage w p"
  "workspace_usage w (p\<lparr>pl_bytes := b\<rparr>) = workspace_usage w p" "workspace_usage w (p\<lparr>pl_evictions := v\<rparr>) = workspace_usage w p"
  "workspace_usage w (p\<lparr>pl_nextElement := n\<rparr>) = workspace_usage w p" "workspace_usage w (p\<lparr>pl_closed := c\<rparr>) = workspace_usage w p"
  "workspace_usage w (p\<lparr>pl_stores := t\<rparr>) = workspace_usage w p"
  by (simp_all add: workspace_usage_def)

lemma exceeds_workspace: "workspace_over w p \<longleftrightarrow>
    exceeds (WorkspaceEntries (pl_limits p)) (WorkspaceBytes (pl_limits p)) (workspace_usage w p)"
  by (simp add: workspace_over_def workspace_usage_def)

section \<open>Removing an element\<close>

lemma removeLocked_None [simp]: "removeLocked c None p = p"
  by (simp add: removeLocked_def)

lemma removeLocked_frame [simp]:
  "pl_limits (removeLocked c x p) = pl_limits p" "pl_closed (removeLocked c x p) = pl_closed p"
  "pl_nextElement (removeLocked c x p) = pl_nextElement p" "pl_stores (removeLocked c x p) = pl_stores p"
  "pl_arrowFlights (removeLocked c x p) = pl_arrowFlights p" "pl_flights (removeLocked c x p) = pl_flights p"
  "pl_nextFlight (removeLocked c x p) = pl_nextFlight p"
  by (auto simp: removeLocked_def Let_def split: option.split prod.split)

lemma removeLocked_fields [simp]:
  "pl_lru (removeLocked c (Some x) p) = filter (\<lambda>y. fst y \<noteq> fst x) (pl_lru p)"
  "pl_entries (removeLocked c (Some x) p) = (pl_entries p)(en_composite (snd x) := None)"
  "pl_bytes (removeLocked c (Some x) p) = pl_bytes p - en_bytes (snd x)"
  "pl_heap (removeLocked c (Some x) p) = lease_Release (en_hold (snd x)) (pl_heap p)"
  "pl_scopes (removeLocked c (Some x) p) = (case pl_scopes p (en_scope (snd x)) of None \<Rightarrow> pl_scopes p
     | Some st \<Rightarrow> (pl_scopes p)(en_scope (snd x) \<mapsto> st\<lparr>ss_entries := ss_entries st - {en_composite (snd x)},
         ss_usage := add_usage (- 1) (- en_bytes (snd x)) (ss_usage st)\<rparr>))"
  "workspace_usage w (removeLocked c (Some x) p) =
     (if entry_workspace p (snd x) = Some w then add_usage (- 1) (- en_bytes (snd x)) (workspace_usage w p)
      else workspace_usage w p)"
  by (auto simp: removeLocked_def Let_def entry_workspace_def split: option.split prod.split)

lemma removeLocked_workspace [simp]: "entry_workspace (removeLocked c x p) e = entry_workspace p e"
  by (cases x) (auto simp: entry_workspace_def split: option.split)

lemma removeLocked_dom_scopes [simp]: "dom (pl_scopes (removeLocked c x p)) = dom (pl_scopes p)"
  by (cases x) (auto split: option.split)

lemma removeLocked_scope:
  "pl_scopes (removeLocked c x p) k = Some st' \<Longrightarrow>
     \<exists>st. pl_scopes p k = Some st \<and> ss_id st' = ss_id st \<and> ss_generation st' = ss_generation st \<and> ss_closed st' = ss_closed st"
  by (cases x) (auto split: option.splits if_splits)

lemma tally_remove:
  "linked_ok p \<Longrightarrow> x \<in> set (pl_lru p) \<Longrightarrow> tally f (removeLocked c (Some x) p) = tally f p - f (snd x)"
  by (simp add: tally_def linked_okD(1) sum_list_filter_out)

lemma usage_remove:
  "linked_ok p \<Longrightarrow> x \<in> set (pl_lru p) \<Longrightarrow> usage_where P (removeLocked c (Some x) p) =
     (if P (snd x) then add_usage (- 1) (- en_bytes (snd x)) (usage_where P p) else usage_where P p)"
  by (simp add: usage_where_def tally_remove add_usage_def)

lemma linked_remove:
  assumes "linked_ok p" "x \<in> set (pl_lru p)"
  shows "linked_ok (removeLocked c (Some x) p)"
proof -
  note d = linked_okD [OF assms(1)]
  have same: "fst y = fst x \<longleftrightarrow> y = x" if "y \<in> set (pl_lru p)" for y
    using distinct_fst_eq [OF d(1) that assms(2)] by simp
  have comp: "y = x" if "y \<in> set (pl_lru p)" "en_composite (snd y) = en_composite (snd x)" for y
    using d(3) [of "en_composite (snd x)"] assms(2) that by (metis option.inject)
  have "((pl_entries p)(en_composite (snd x) := None)) k = Some y \<longleftrightarrow>
      (y \<in> set (pl_lru p) \<and> fst y \<noteq> fst x) \<and> en_composite (snd y) = k" for k y
    using d(3) [of k y] same [of y] comp [of y] by auto
  moreover have "distinct (map f (filter P (pl_lru p)))" if "distinct (map f (pl_lru p))"
      for f :: "element \<Rightarrow> 'b" and P
    using that by (rule distinct_map_filter)
  ultimately show ?thesis
    using d(1,2,4) by (simp add: linked_ok_def distinct_map_filter)
qed

lemma holds_distinct:
  assumes "linked_ok p" "x \<in> set (pl_lru p)" "y \<in> set (pl_lru p)" "en_hold (snd x) = en_hold (snd y)"
  shows "x = y"
  using linked_okD(4) [OF assms(1)] assms(2-4) by (auto simp: distinct_map inj_on_def)

lemma entry_remove:
  assumes ok: "pool_ok p" and x: "x \<in> set (pl_lru p)" and y: "y \<in> set (pl_lru p)" "fst y \<noteq> fst x"
  shows "entry_ok (removeLocked c (Some x) p) (snd y)"
proof -
  have "entry_ok p (snd y)" "entry_ok p (snd x)" using pool_okD(4) [OF ok] x y by blast+
  moreover have "en_hold (snd y) \<noteq> en_hold (snd x)"
    using holds_distinct [OF pool_okD(3) [OF ok] y(1) x] y(2) by auto
  moreover have "en_scope (snd y) \<in> dom (pl_scopes (removeLocked c (Some x) p)) \<longleftrightarrow> en_scope (snd y) \<in> dom (pl_scopes p)"
    by (simp only: removeLocked_dom_scopes)
  ultimately show ?thesis
    using pool_okD(1) [OF ok] by (auto simp: entry_ok_def simp del: removeLocked_fields(5))
qed

lemma scope_remove:
  assumes ok: "pool_ok p" and x: "x \<in> set (pl_lru p)" and st: "pl_scopes (removeLocked c (Some x) p) k = Some st'"
  shows "scope_ok (removeLocked c (Some x) p) k st'"
proof -
  note lk = pool_okD(3) [OF ok]
  obtain s0 where s0: "pl_scopes p (en_scope (snd x)) = Some s0"
    using pool_okD(4) [OF ok x] by (auto simp: entry_ok_def)
  have uniq: "en_composite (snd y) \<noteq> en_composite (snd x)" if "y \<in> set (pl_lru p)" "fst y \<noteq> fst x" for y
    using linked_okD(3) [OF lk] x that by (metis option.inject)
  have eqx: "y = x" if "y \<in> set (pl_lru p)" "fst y = fst x" for y
    using distinct_fst_eq [OF linked_okD(1) [OF lk] that(1) x] that(2) by simp
  show ?thesis
  proof (cases "k = en_scope (snd x)")
    case True
    then have st': "st' = s0\<lparr>ss_entries := ss_entries s0 - {en_composite (snd x)},
        ss_usage := add_usage (- 1) (- en_bytes (snd x)) (ss_usage s0)\<rparr>"
      using st s0 by simp
    have "scope_ok p k s0" using pool_okD(5) [OF ok] s0 True by simp
    moreover have "{en_composite (snd y) |y. y \<in> set (pl_lru (removeLocked c (Some x) p)) \<and> en_scope (snd y) = k}
        = {en_composite (snd y) |y. y \<in> set (pl_lru p) \<and> en_scope (snd y) = k} - {en_composite (snd x)}"
    proof -
      have "y \<in> set (pl_lru p) \<Longrightarrow> fst y \<noteq> fst x \<longleftrightarrow> en_composite (snd y) \<noteq> en_composite (snd x)" for y
        using uniq eqx by metis
      then show ?thesis by (auto simp del: split_paired_Ex split_paired_All)
    qed
    ultimately show ?thesis
      using True unfolding scope_ok_def st' by (simp add: usage_remove [OF lk x])
  next
    case False
    then have "scope_ok p k st'" using st s0 pool_okD(5) [OF ok] by simp
    moreover have "(y \<in> set (pl_lru p) \<and> fst y \<noteq> fst x) \<and> en_scope (snd y) = k
        \<longleftrightarrow> y \<in> set (pl_lru p) \<and> en_scope (snd y) = k" for y
      using False eqx by metis
    ultimately show ?thesis
      using False unfolding scope_ok_def removeLocked_fields(1) set_filter mem_Collect_eq
      by (simp add: usage_remove [OF lk x])
  qed
qed

lemma remove_ok:
  assumes ok: "pool_ok p" and x: "x \<in> set (pl_lru p)"
  shows "pool_ok (removeLocked c (Some x) p)"
  unfolding pool_ok_def
proof (intro conjI allI ballI impI)
  note lk = pool_okD(3) [OF ok]
  show "arrow_ok (pl_heap (removeLocked c (Some x) p))"
    using pool_okD(1) [OF ok] by (simp add: lease_Release_ok)
  show "Validate_limits (pl_limits (removeLocked c (Some x) p)) = Inr ()"
    using pool_okD(2) [OF ok] by simp
  show "linked_ok (removeLocked c (Some x) p)" by (rule linked_remove [OF lk x])
  show "entry_ok (removeLocked c (Some x) p) (snd y)" if "y \<in> set (pl_lru (removeLocked c (Some x) p))" for y
    using that entry_remove [OF ok x] by simp
  show "scope_ok (removeLocked c (Some x) p) k st" if "pl_scopes (removeLocked c (Some x) p) k = Some st" for k st
    by (rule scope_remove [OF ok x that])
  show "workspace_usage w (removeLocked c (Some x) p)
      = usage_where (\<lambda>e. entry_workspace (removeLocked c (Some x) p) e = Some w) (removeLocked c (Some x) p)" for w
    using pool_okD(6) [OF ok, of w] by (simp add: usage_remove [OF lk x])
  show "pl_bytes (removeLocked c (Some x) p) = tally en_bytes (removeLocked c (Some x) p)"
    using pool_okD(7) [OF ok] by (simp add: tally_remove [OF lk x])
  show "pl_scopes (removeLocked c (Some x) p) = Map.empty" if "pl_closed (removeLocked c (Some x) p)"
    using pool_okD(8) [OF ok] pool_okD(4) [OF ok x] that by (auto simp: entry_ok_def)
qed

lemma remove_entry_ok: "pool_ok p \<Longrightarrow> pool_ok (removeLocked c (pl_entries p k) p)"
proof (cases "pl_entries p k")
  case (Some x)
  assume ok: "pool_ok p"
  then have "x \<in> set (pl_lru p)" using linked_okD(3) [OF pool_okD(3) [OF ok], of k x] Some by simp
  then show ?thesis using remove_ok [OF ok] Some by simp
qed simp

section \<open>What removals leave\<close>

definition scope_ident :: "scope_state \<Rightarrow> scope_id \<times> 64 word \<times> bool" where
  "scope_ident st = (ss_id st, ss_generation st, ss_closed st)"

text \<open>\<open>shrinks p q\<close>: \<open>q\<close> is \<open>p\<close> after some elements were removed and their holds released.\<close>

definition shrinks :: "'r pool \<Rightarrow> 'r pool \<Rightarrow> bool" where
  "shrinks p q \<longleftrightarrow> pl_limits q = pl_limits p \<and> pl_closed q = pl_closed p
     \<and> pl_nextElement q = pl_nextElement p \<and> pl_stores q = pl_stores p
     \<and> (\<exists>P. pl_lru q = filter P (pl_lru p))
     \<and> (\<forall>k. map_option scope_ident (pl_scopes q k) = map_option scope_ident (pl_scopes p k))
     \<and> (\<forall>l r. pins (pl_heap q) l r \<longleftrightarrow> pins (pl_heap p) l r \<and> (Some l \<in> holds_of p \<longrightarrow> Some l \<in> holds_of q))
     \<and> (\<forall>lib. (arrow_step lib)\<^sup>*\<^sup>* (pl_heap p) (pl_heap q))"

lemma shrinksD:
  assumes "shrinks p q"
  shows "pl_limits q = pl_limits p" "pl_closed q = pl_closed p" "pl_nextElement q = pl_nextElement p"
    "pl_stores q = pl_stores p" "\<exists>P. pl_lru q = filter P (pl_lru p)" "set (pl_lru q) \<subseteq> set (pl_lru p)"
    "map_option scope_ident (pl_scopes q k) = map_option scope_ident (pl_scopes p k)"
    "pins (pl_heap q) l r \<longleftrightarrow> pins (pl_heap p) l r \<and> (Some l \<in> holds_of p \<longrightarrow> Some l \<in> holds_of q)"
    "holds_of q \<subseteq> holds_of p" "(arrow_step lib)\<^sup>*\<^sup>* (pl_heap p) (pl_heap q)"
  using assms by (auto simp: shrinks_def holds_of_def)

lemma shrinks_refl [simp]: "shrinks p p"
  by (auto simp: shrinks_def intro: filter_True [symmetric] exI [of _ "\<lambda>_. True"])

lemma shrinks_trans:
  assumes "shrinks p q" "shrinks q s"
  shows "shrinks p s"
proof -
  obtain P Q where "pl_lru q = filter P (pl_lru p)" "pl_lru s = filter Q (pl_lru q)"
    using shrinksD(5) assms by meson
  then have "pl_lru s = filter (\<lambda>x. P x \<and> Q x) (pl_lru p)" by (simp add: filter_filter conj_commute)
  moreover have "(arrow_step lib)\<^sup>*\<^sup>* (pl_heap p) (pl_heap s)" for lib
    using shrinksD(10) [OF assms(1)] shrinksD(10) [OF assms(2)] by (rule rtranclp_trans)
  ultimately show ?thesis
    using shrinksD(1-9) [OF assms(1)] shrinksD(1-9) [OF assms(2)] by (auto simp: shrinks_def)
qed

lemma scope_ident_eq:
  "map_option scope_ident (pl_scopes q k) = map_option scope_ident (pl_scopes p k) \<Longrightarrow>
     map_option ss_id (pl_scopes q k) = map_option ss_id (pl_scopes p k)"
  by (cases "pl_scopes p k"; cases "pl_scopes q k") (auto simp: scope_ident_def)

lemma shrinks_workspace: "shrinks p q \<Longrightarrow> entry_workspace q e = entry_workspace p e"
  using scope_ident_eq [OF shrinksD(7), of p q "en_scope e"]
  by (cases "pl_scopes p (en_scope e)"; cases "pl_scopes q (en_scope e)") (auto simp: entry_workspace_def)

lemma remove_shrinks:
  assumes ok: "pool_ok p" and x: "x \<in> set (pl_lru p)"
  shows "shrinks p (removeLocked c (Some x) p)"
proof -
  obtain l where l: "en_hold (snd x) = Some l"
    using pool_okD(4) [OF ok x] by (auto simp: entry_ok_def)
  have holds: "Some l' \<in> holds_of (removeLocked c (Some x) p) \<longleftrightarrow> Some l' \<in> holds_of p \<and> l' \<noteq> l" for l'
  proof -
    have "y \<in> set (pl_lru p) \<Longrightarrow> fst y \<noteq> fst x \<longleftrightarrow> en_hold (snd y) \<noteq> Some l" for y
      using holds_distinct [OF pool_okD(3) [OF ok] _ x, of y] distinct_fst_eq [OF linked_okD(1) [OF pool_okD(3) [OF ok]] _ x, of y] l
      by auto
    then have "(y \<in> set (pl_lru p) \<and> fst y \<noteq> fst x) \<and> Some l' = en_hold (snd y)
        \<longleftrightarrow> (y \<in> set (pl_lru p) \<and> Some l' = en_hold (snd y)) \<and> l' \<noteq> l" for y
      by (metis option.inject)
    then show ?thesis
      unfolding holds_of_def removeLocked_fields(1) set_filter image_iff Bex_def mem_Collect_eq by blast
  qed
  have mine: "Some l \<in> holds_of p" using x l by (auto simp: holds_of_def intro!: rev_image_eqI)
  have "map_option scope_ident (pl_scopes (removeLocked c (Some x) p) k) = map_option scope_ident (pl_scopes p k)" for k
    by (auto simp: scope_ident_def split: option.split)
  moreover have "(arrow_step lib)\<^sup>*\<^sup>* (pl_heap p) (pl_heap (removeLocked c (Some x) p))" for lib
    by (simp add: arrow_step.release_lease r_into_rtranclp)
  ultimately show ?thesis
    using holds mine l pool_okD(1) [OF ok]
    by (auto simp: shrinks_def simp del: removeLocked_fields(5))
qed

lemma tally_mono:
  assumes "\<exists>P. pl_lru q = filter P (pl_lru p)" "\<And>x. x \<in> set (pl_lru p) \<Longrightarrow> 0 \<le> f (snd x)"
  shows "tally f q \<le> tally f p"
proof -
  have "(\<Sum>x\<leftarrow>filter P xs. f (snd x)) \<le> (\<Sum>x\<leftarrow>xs. f (snd x))" if "\<And>x. x \<in> set xs \<Longrightarrow> 0 \<le> f (snd x)" for P and xs :: "element list"
    using that by (induction xs) (auto intro: add_increasing)
  then show ?thesis using assms by (auto simp: tally_def)
qed

lemma exceeds_mono:
  assumes ok: "pool_ok p" and sh: "shrinks p q" and ex: "exceeds n b (usage_where P q)"
  shows "exceeds n b (usage_where P p)"
proof -
  have "\<And>x. x \<in> set (pl_lru p) \<Longrightarrow> 0 \<le> en_bytes (snd x)"
    using pool_okD(4) [OF ok] by (auto simp: entry_ok_def)
  then have "us_entries (usage_where P q) \<le> us_entries (usage_where P p)"
    "us_bytes (usage_where P q) \<le> us_bytes (usage_where P p)"
    unfolding usage_where_def by (auto intro!: tally_mono [OF shrinksD(5) [OF sh]])
  with ex show ?thesis by (auto simp: exceeds_def)
qed

section \<open>The three limits as one condition\<close>

lemma card_entries:
  assumes "linked_ok p"
  shows "card (dom (pl_entries p)) = length (pl_lru p)"
proof -
  note d = linked_okD [OF assms]
  have "dom (pl_entries p) = (\<lambda>x. en_composite (snd x)) ` set (pl_lru p)"
    using d(3) by (auto simp: dom_def image_iff simp del: split_paired_Ex)
  moreover have "inj_on (\<lambda>x. en_composite (snd x)) (set (pl_lru p))"
    using d(3) unfolding inj_on_def by (metis option.inject)
  ultimately show ?thesis
    using d(1) by (simp add: card_image distinct_card distinct_map)
qed

lemma runtime_over_usage:
  assumes "pool_ok p"
  shows "runtime_over k p \<longleftrightarrow> k \<in> dom (pl_scopes p) \<and>
    exceeds (RuntimeEntries (pl_limits p)) (RuntimeBytes (pl_limits p)) (usage_where (\<lambda>e. en_scope e = k) p)"
proof (cases "pl_scopes p k")
  case None
  then show ?thesis
    using Validate_limits_pos [OF pool_okD(2) [OF assms]] by (auto simp: runtime_over_def scope_Stats_def exceeds_def)
next
  case (Some st)
  then show ?thesis
    using pool_okD(5) [OF assms Some] by (auto simp: runtime_over_def scope_Stats_def scope_ok_def)
qed

lemma workspace_over_usage:
  "pool_ok p \<Longrightarrow> workspace_over w p \<longleftrightarrow>
     exceeds (WorkspaceEntries (pl_limits p)) (WorkspaceBytes (pl_limits p)) (usage_where (\<lambda>e. entry_workspace p e = Some w) p)"
  by (simp add: exceeds_workspace pool_okD(6))

lemma node_over_usage:
  "pool_ok p \<Longrightarrow> node_over p \<longleftrightarrow> exceeds (NodeEntries (pl_limits p)) (NodeBytes (pl_limits p)) (usage_where (\<lambda>_. True) p)"
  by (simp add: node_over_def exceeds_def card_entries pool_okD(3,7) usage_where_def tally_def sum_list_triv)

definition within_limits :: "'r pool \<Rightarrow> bool" where
  "within_limits p \<longleftrightarrow> (\<forall>k. \<not> runtime_over k p) \<and> (\<forall>w. \<not> workspace_over w p) \<and> \<not> node_over p"

lemma over_mono:
  assumes "pool_ok p" "pool_ok q" "shrinks p q"
  shows "runtime_over k q \<Longrightarrow> runtime_over k p" "workspace_over w q \<Longrightarrow> workspace_over w p"
    "node_over q \<Longrightarrow> node_over p"
proof -
  have "dom (pl_scopes q) = dom (pl_scopes p)"
    using shrinksD(7) [OF assms(3)] by (auto simp: dom_def) (metis option.map_disc_iff not_None_eq)+
  then show "runtime_over k q \<Longrightarrow> runtime_over k p"
    using exceeds_mono [OF assms(1,3)] by (auto simp: runtime_over_usage assms shrinksD(1) [OF assms(3)])
  show "workspace_over w q \<Longrightarrow> workspace_over w p" "node_over q \<Longrightarrow> node_over p"
    using exceeds_mono [OF assms(1,3)]
    by (auto simp: workspace_over_usage node_over_usage assms shrinksD(1) [OF assms(3)] shrinks_workspace [OF assms(3)])
qed

lemma within_limits_mono: "pool_ok p \<Longrightarrow> pool_ok q \<Longrightarrow> shrinks p q \<Longrightarrow> within_limits p \<Longrightarrow> within_limits q"
  using over_mono unfolding within_limits_def by meson

end
