(* ===== verification/Result_Cache_Eviction.thy ===== *)
theory Result_Cache_Eviction
  imports Result_Cache_Safety
begin

text \<open>
  The eviction loops of \<open>enforceLocked\<close>. The contract of a loop that removes victims until a
  limit holds is the locale \<open>eviction_loop\<close>; its three instances are the loops for the runtime,
  the workspace and the node. All three return, and the entry that was just linked stays.
\<close>

locale eviction_loop =
  fixes inv :: "'p \<Rightarrow> bool"
    and over :: "'p \<Rightarrow> bool"
    and victim :: "'p \<Rightarrow> 'x option"
    and remove :: "'x \<Rightarrow> 'p \<Rightarrow> 'p"
    and pending :: "'p \<Rightarrow> nat"
  assumes progress: "inv p \<Longrightarrow> over p \<Longrightarrow>
    \<exists>x. victim p = Some x \<and> inv (remove x p) \<and> pending (remove x p) < pending p"
begin

lemma loop_returns: "inv p \<Longrightarrow> \<exists>q. evict_while over victim remove p = Some q \<and> inv q \<and> \<not> over q"
proof (induction "pending p" arbitrary: p rule: less_induct)
  case less
  show ?case
  proof (cases "over p")
    case True
    obtain x where x: "victim p = Some x" "inv (remove x p)" "pending (remove x p) < pending p"
      using progress [OF less.prems True] by blast
    obtain q where "evict_while over victim remove (remove x p) = Some q" "inv q" "\<not> over q"
      using less.hyps [OF x(3,2)] by blast
    with True x(1) show ?thesis by (auto simp: evict_while.simps [of over victim remove p])
  next
    case False
    with less.prems show ?thesis by (auto simp: evict_while.simps [of over victim remove p])
  qed
qed

end

section \<open>Choosing the victim\<close>

lemma scan_oldest_find:
  "(\<And>x. x \<in> set xs \<Longrightarrow> match (snd x) = Some (P (snd x))) \<Longrightarrow> scan_oldest match xs = Some (find (\<lambda>x. P (snd x)) xs)"
  by (induction xs) auto

lemma find_rev_last:
  assumes "find P (rev xs) = Some x"
  obtains ys zs where "xs = ys @ x # zs" "P x" "\<forall>z\<in>set zs. \<not> P z"
proof -
  obtain i where i: "i < length xs" "P (rev xs ! i)" "x = rev xs ! i" "\<forall>j<i. \<not> P (rev xs ! j)"
    using assms by (auto simp: find_Some_iff)
  obtain us vs where r: "rev xs = us @ x # vs" "length us = i"
    using nth_split [of i "rev xs"] i by auto
  have "\<not> P u" if "u \<in> set us" for u
    using i(4) r that by (metis in_set_conv_nth nth_append)
  moreover have "xs = rev vs @ x # rev us"
    using r(1) by (metis append.assoc append_Cons append_Nil rev.simps(2) rev_append rev_rev_ident)
  ultimately show thesis using that i(2,3) by auto
qed

lemma usage_single:
  assumes "pl_lru p = z # zs" "P (snd z)" "\<forall>y\<in>set zs. \<not> P (snd y)"
  shows "usage_where P p = \<lparr>us_entries = 1, us_bytes = en_bytes (snd z)\<rparr>"
proof -
  have zero: "(\<Sum>y\<leftarrow>zs. if P (snd y) then f (snd y) else 0) = 0" for f :: "cache_entry \<Rightarrow> int"
    using assms(3) by (induction zs) auto
  have "usage_where P p = \<lparr>us_entries = 1 + (\<Sum>y\<leftarrow>zs. if P (snd y) then 1 else 0),
      us_bytes = en_bytes (snd z) + (\<Sum>y\<leftarrow>zs. if P (snd y) then en_bytes (snd y) else 0)\<rparr>"
    using assms(1,2) by (simp add: usage_where_def tally_def)
  then show ?thesis using zero [of "\<lambda>_. 1"] zero [of en_bytes] by simp
qed

text \<open>A pool whose newest entry fits every limit alone.\<close>

definition newest_fits :: "element \<Rightarrow> 'r pool \<Rightarrow> bool" where
  "newest_fits z p \<longleftrightarrow> (\<exists>zs. pl_lru p = z # zs) \<and> en_bytes (snd z) \<le> RuntimeBytes (pl_limits p)
     \<and> en_bytes (snd z) \<le> WorkspaceBytes (pl_limits p) \<and> en_bytes (snd z) \<le> NodeBytes (pl_limits p)"

definition evicting :: "'r pool \<Rightarrow> element \<Rightarrow> 'r pool \<Rightarrow> bool" where
  "evicting p0 z p \<longleftrightarrow> pool_ok p \<and> shrinks p0 p \<and> newest_fits z p"

text \<open>
  An exceeded limit has a victim, the oldest element that counts against the limit; it is not
  the newest element, which fits alone.
\<close>

lemma victim_progress:
  assumes ev: "evicting p0 z p" and ex: "exceeds n b (usage_where P p)" and n: "0 < n" "0 \<le> b"
    and fits: "en_bytes (snd z) \<le> b" and v: "victim = find (\<lambda>x. P (snd x)) (rev (pl_lru p))"
  obtains x where "victim = Some x" "evicting p0 z (removeLocked c (Some x) p)"
    "length (pl_lru (removeLocked c (Some x) p)) < length (pl_lru p)"
proof -
  have ok: "pool_ok p" and sh: "shrinks p0 p" and nf: "newest_fits z p"
    using ev by (auto simp: evicting_def)
  have "\<exists>y\<in>set (pl_lru p). P (snd y)"
  proof (rule ccontr)
    assume "\<not> ?thesis"
    then have "usage_where P p = no_usage" unfolding usage_where_def by (auto intro!: tally_zero)
    with ex n show False by (simp add: exceeds_def)
  qed
  then obtain x where x: "victim = Some x"
    using v find_None_iff [of "\<lambda>x. P (snd x)" "rev (pl_lru p)"] by (cases victim) auto
  then obtain ys zs where xs: "pl_lru p = ys @ x # zs" "P (snd x)" "\<forall>y\<in>set zs. \<not> P (snd y)"
    using v find_rev_last [of "\<lambda>x. P (snd x)" "pl_lru p" x] by metis
  obtain rest where z: "pl_lru p = z # rest" using nf by (auto simp: newest_fits_def)
  have ne: "ys \<noteq> []"
  proof
    assume "ys = []"
    then have "z = x" "rest = zs" using xs(1) z by auto
    then have "usage_where P p = \<lparr>us_entries = 1, us_bytes = en_bytes (snd z)\<rparr>"
      using usage_single [OF z] xs by simp
    with ex n fits show False by (simp add: exceeds_def)
  qed
  then have "z \<noteq> x" "x \<in> set rest"
    using xs(1) z linked_okD(1) [OF pool_okD(3) [OF ok]] by (cases ys; force)+
  then have fz: "fst z \<noteq> fst x"
    using z linked_okD(1) [OF pool_okD(3) [OF ok]] by (auto simp: image_iff)
  have mem: "x \<in> set (pl_lru p)" using xs(1) by simp
  have "pool_ok (removeLocked c (Some x) p)" by (rule remove_ok [OF ok mem])
  moreover have "shrinks p0 (removeLocked c (Some x) p)"
    by (rule shrinks_trans [OF sh remove_shrinks [OF ok mem]])
  moreover have "newest_fits z (removeLocked c (Some x) p)"
    using nf z fz by (auto simp: newest_fits_def)
  moreover have "length (filter (\<lambda>y. fst y \<noteq> fst x) (pl_lru p)) < length (pl_lru p)"
    using mem by (metis (mono_tags, lifting) length_filter_less)
  ultimately show thesis using that x by (simp add: evicting_def)
qed

section \<open>The three loops\<close>

lemma evicting_ok: "evicting p0 z p \<Longrightarrow> pool_ok p"
  by (simp add: evicting_def)

lemma evicting_limits:
  assumes "evicting p0 z p"
  shows "en_bytes (snd z) \<le> RuntimeBytes (pl_limits p)" "en_bytes (snd z) \<le> WorkspaceBytes (pl_limits p)"
    "en_bytes (snd z) \<le> NodeBytes (pl_limits p)" "0 < RuntimeEntries (pl_limits p)" "0 < WorkspaceEntries (pl_limits p)"
    "0 < NodeEntries (pl_limits p)" "0 \<le> RuntimeBytes (pl_limits p)" "0 \<le> WorkspaceBytes (pl_limits p)" "0 \<le> NodeBytes (pl_limits p)"
  using assms Validate_limits_pos [OF pool_okD(2)] by (force simp: evicting_def newest_fits_def)+

interpretation runtime_loop: eviction_loop "evicting p0 z" "runtime_over (scopeKey i)" "runtime_victim i"
  "removeLocked (Some ConstraintRuntime)" "\<lambda>p. length (pl_lru p)" for p0 z i
proof
  fix p
  assume ev: "evicting p0 z p" and over: "runtime_over (scopeKey i) p"
  then have ex: "exceeds (RuntimeEntries (pl_limits p)) (RuntimeBytes (pl_limits p)) (usage_where (\<lambda>e. en_scope e = scopeKey i) p)"
    using runtime_over_usage [OF evicting_ok [OF ev]] by simp
  have "runtime_victim i p = Some (find (\<lambda>x. en_scope (snd x) = scopeKey i) (rev (pl_lru p)))"
    unfolding runtime_victim_def oldestLocked_def by (rule scan_oldest_find) simp
  then show "\<exists>x. runtime_victim i p = Some x \<and> evicting p0 z (removeLocked (Some ConstraintRuntime) x p)
      \<and> length (pl_lru (removeLocked (Some ConstraintRuntime) x p)) < length (pl_lru p)"
    using victim_progress [OF ev ex evicting_limits(4) [OF ev] evicting_limits(7) [OF ev] evicting_limits(1) [OF ev] refl, of "Some ConstraintRuntime"] by metis
qed

interpretation workspace_loop: eviction_loop "evicting p0 z" "workspace_over w" "workspace_victim w"
  "removeLocked (Some ConstraintWorkspace)" "\<lambda>p. length (pl_lru p)" for p0 z w
proof
  fix p
  assume ev: "evicting p0 z p" and over: "workspace_over w p"
  then have ex: "exceeds (WorkspaceEntries (pl_limits p)) (WorkspaceBytes (pl_limits p)) (usage_where (\<lambda>e. entry_workspace p e = Some w) p)"
    using workspace_over_usage [OF evicting_ok [OF ev]] by simp
  have "workspace_victim w p = Some (find (\<lambda>x. entry_workspace p (snd x) = Some w) (rev (pl_lru p)))"
    unfolding workspace_victim_def oldestLocked_def
  proof (rule scan_oldest_find)
    fix x
    assume "x \<in> set (rev (pl_lru p))"
    then show "map_option (\<lambda>st. WorkspaceID (ss_id st) = w) (pl_scopes p (en_scope (snd x))) = Some (entry_workspace p (snd x) = Some w)"
      using pool_okD(4) [OF evicting_ok [OF ev], of x] by (auto simp: entry_ok_def entry_workspace_def)
  qed
  then show "\<exists>x. workspace_victim w p = Some x \<and> evicting p0 z (removeLocked (Some ConstraintWorkspace) x p)
      \<and> length (pl_lru (removeLocked (Some ConstraintWorkspace) x p)) < length (pl_lru p)"
    using victim_progress [OF ev ex evicting_limits(5) [OF ev] evicting_limits(8) [OF ev] evicting_limits(2) [OF ev] refl, of "Some ConstraintWorkspace"] by metis
qed

interpretation node_loop: eviction_loop "evicting p0 z" node_over node_victim
  "removeLocked (Some ConstraintNode)" "\<lambda>p. length (pl_lru p)" for p0 z
proof
  fix p
  assume ev: "evicting p0 z p" and over: "node_over p"
  then have ex: "exceeds (NodeEntries (pl_limits p)) (NodeBytes (pl_limits p)) (usage_where (\<lambda>_. True) p)"
    using node_over_usage [OF evicting_ok [OF ev]] by simp
  have "node_victim p = Some (find (\<lambda>x. True) (rev (pl_lru p)))"
    by (cases "pl_lru p" rule: rev_cases) (auto simp: node_victim_def)
  then show "\<exists>x. node_victim p = Some x \<and> evicting p0 z (removeLocked (Some ConstraintNode) x p)
      \<and> length (pl_lru (removeLocked (Some ConstraintNode) x p)) < length (pl_lru p)"
    using victim_progress [OF ev ex evicting_limits(6) [OF ev] evicting_limits(9) [OF ev] evicting_limits(3) [OF ev] refl, of "Some ConstraintNode"] by metis
qed

lemma workspaceLocked_evicting: "evicting p0 z p \<Longrightarrow> evicting p0 z (snd (workspaceLocked w p))"
proof -
  assume ev: "evicting p0 z p"
  let ?q = "snd (workspaceLocked w p)"
  have same: "pl_limits ?q = pl_limits p" "pl_closed ?q = pl_closed p" "pl_entries ?q = pl_entries p"
    "pl_lru ?q = pl_lru p" "pl_nextElement ?q = pl_nextElement p" "pl_scopes ?q = pl_scopes p"
    "pl_bytes ?q = pl_bytes p" "pl_heap ?q = pl_heap p" "pl_stores ?q = pl_stores p"
    "\<And>v. workspace_usage v ?q = workspace_usage v p"
    by (auto simp: workspaceLocked_def workspace_usage_def split: option.split)
  then have totals: "tally f ?q = tally f p" "usage_where P ?q = usage_where P p" "entry_workspace ?q = entry_workspace p" for f P
    by (simp_all add: tally_def usage_where_def entry_workspace_def fun_eq_iff)
  have "pool_ok ?q \<longleftrightarrow> pool_ok p"
    by (simp add: pool_ok_def linked_ok_def entry_ok_def scope_ok_def same totals)
  moreover have "shrinks p0 ?q \<longleftrightarrow> shrinks p0 p" by (simp add: shrinks_def holds_of_def same)
  moreover have "newest_fits z ?q \<longleftrightarrow> newest_fits z p" by (simp add: newest_fits_def same)
  ultimately show ?thesis using ev by (simp add: evicting_def)
qed

lemma enforce_returns:
  assumes ok: "pool_ok p" and z: "newest_fits z p"
  shows "\<exists>q. enforceLocked (scopeKey i) i p = Some q \<and> pool_ok q \<and> shrinks p q \<and> newest_fits z q
    \<and> \<not> runtime_over (scopeKey i) q \<and> \<not> workspace_over (WorkspaceID i) q \<and> \<not> node_over q"
proof -
  have e0: "evicting p z p" using ok z by (simp add: evicting_def)
  obtain p1 where p1: "evict_while (runtime_over (scopeKey i)) (runtime_victim i) (removeLocked (Some ConstraintRuntime)) p = Some p1"
    "evicting p z p1" "\<not> runtime_over (scopeKey i) p1"
    using runtime_loop.loop_returns [OF e0] by blast
  let ?p1 = "snd (workspaceLocked (WorkspaceID i) p1)"
  have e1: "evicting p z ?p1" by (rule workspaceLocked_evicting [OF p1(2)])
  have r1: "\<not> runtime_over (scopeKey i) ?p1"
    using p1(3) by (auto simp: runtime_over_def scope_Stats_def workspaceLocked_def split: option.splits)
  obtain p2 where p2: "evict_while (workspace_over (WorkspaceID i)) (workspace_victim (WorkspaceID i))
      (removeLocked (Some ConstraintWorkspace)) ?p1 = Some p2" "evicting ?p1 z p2" "\<not> workspace_over (WorkspaceID i) p2"
    using workspace_loop.loop_returns [of ?p1 z ?p1] e1 by (auto simp: evicting_def)
  obtain p3 where p3: "evict_while node_over node_victim (removeLocked (Some ConstraintNode)) p2 = Some p3"
    "evicting p2 z p3" "\<not> node_over p3"
    using node_loop.loop_returns [of p2 z p2] p2(2) by (auto simp: evicting_def)
  have s: "shrinks p ?p1" "shrinks ?p1 p2" "shrinks p2 p3"
    using e1 p2(2) p3(2) by (auto simp: evicting_def)
  have oks: "pool_ok ?p1" "pool_ok p2" "pool_ok p3" using e1 p2(2) p3(2) by (auto simp: evicting_def)
  have "\<not> runtime_over (scopeKey i) p3" "\<not> workspace_over (WorkspaceID i) p3"
    using r1 p2(3) over_mono [OF oks(1,2) s(2)] over_mono [OF oks(2,3) s(3)] by blast+
  moreover have "enforceLocked (scopeKey i) i p = Some p3"
    using p1(1) p2(1) p3(1) by (simp add: enforceLocked_def)
  moreover have "shrinks p p3" using s shrinks_trans by blast
  ultimately show ?thesis using p3(2,3) oks(3) by (auto simp: evicting_def)
qed

end
