(* ===== verification/Result_Cache_Operations.thy ===== *)
theory Result_Cache_Operations
  imports Result_Cache_Eviction
begin

text \<open>
  Every operation of the result cache keeps the accounting invariant and the limits; the
  executions of a pool whose clients acquire and release results concurrently.
\<close>

section \<open>Linking an entry\<close>

lemma link_fields [simp]:
  "pl_lru (link_entry e p) = (pl_nextElement p, e) # pl_lru p"
  "pl_nextElement (link_entry e p) = Suc (pl_nextElement p)"
  "pl_entries (link_entry e p) = (pl_entries p)(en_composite e \<mapsto> (pl_nextElement p, e))"
  "pl_bytes (link_entry e p) = pl_bytes p + en_bytes e"
  "pl_heap (link_entry e p) = pl_heap p" "pl_limits (link_entry e p) = pl_limits p"
  "pl_closed (link_entry e p) = pl_closed p" "pl_stores (link_entry e p) = pl_stores p"
  "pl_scopes (link_entry e p) = (case pl_scopes p (en_scope e) of None \<Rightarrow> pl_scopes p
     | Some st \<Rightarrow> (pl_scopes p)(en_scope e \<mapsto> st\<lparr>ss_entries := insert (en_composite e) (ss_entries st),
         ss_usage := add_usage 1 (en_bytes e) (ss_usage st)\<rparr>))"
  "workspace_usage w (link_entry e p) =
     (if entry_workspace p e = Some w then add_usage 1 (en_bytes e) (workspace_usage w p) else workspace_usage w p)"
  by (auto simp: link_entry_def Let_def entry_workspace_def split: option.split)

lemma link_workspace [simp]: "entry_workspace (link_entry e p) = entry_workspace p"
  by (auto simp: entry_workspace_def fun_eq_iff split: option.split)

lemma link_dom_scopes: "dom (pl_scopes (link_entry e p)) = dom (pl_scopes p)"
  by (auto split: option.split)

lemma link_usage:
  "usage_where P (link_entry e p) = (if P e then add_usage 1 (en_bytes e) (usage_where P p) else usage_where P p)"
  by (simp add: usage_where_def tally_def add_usage_def)

definition linkable :: "cache_entry \<Rightarrow> 'r pool \<Rightarrow> bool" where
  "linkable e p \<longleftrightarrow> entry_ok p e \<and> en_hold e \<notin> holds_of p"

lemma link_linked:
  assumes "linked_ok p" "pl_entries p (en_composite e) = None" "en_hold e \<notin> holds_of p"
  shows "linked_ok (link_entry e p)"
proof -
  note d = linked_okD [OF assms(1)]
  have "x \<in> set (pl_lru p) \<Longrightarrow> en_composite (snd x) \<noteq> en_composite e" for x
    using d(3) [of "en_composite e" x] assms(2) by auto
  then have "((pl_entries p)(en_composite e \<mapsto> (pl_nextElement p, e))) c = Some x \<longleftrightarrow>
      x \<in> set ((pl_nextElement p, e) # pl_lru p) \<and> en_composite (snd x) = c" for c x
    using d(3) [of c x] assms(2) by (cases "c = en_composite e") (force, auto)
  moreover have "pl_nextElement p \<notin> fst ` set (pl_lru p)" using d(2) by fastforce
  ultimately show ?thesis
    unfolding linked_ok_def link_fields
    using d(1,2,4) assms(3) by (auto simp: holds_of_def less_Suc_eq)
qed

lemma composites_Cons:
  "{g x |x. x \<in> set (y # ys) \<and> Q x} = (if Q y then insert (g y) {g x |x. x \<in> set ys \<and> Q x} else {g x |x. x \<in> set ys \<and> Q x})"
  by auto

lemma link_composites:
  "{en_composite (snd x) |x. x \<in> set (pl_lru (link_entry e p)) \<and> en_scope (snd x) = k}
   = (if en_scope e = k then insert (en_composite e) {en_composite (snd x) |x. x \<in> set (pl_lru p) \<and> en_scope (snd x) = k}
      else {en_composite (snd x) |x. x \<in> set (pl_lru p) \<and> en_scope (snd x) = k})"
  unfolding link_fields composites_Cons by simp

lemma link_scope:
  assumes ok: "pool_ok p" and st: "pl_scopes (link_entry e p) k = Some st'"
  shows "scope_ok (link_entry e p) k st'"
proof (cases "k = en_scope e")
  case True
  then obtain s0 where s0: "pl_scopes p k = Some s0"
    using st by (auto split: option.splits)
  have "scope_ok p k s0" by (rule pool_okD(5) [OF ok s0])
  moreover have "st' = s0\<lparr>ss_entries := insert (en_composite e) (ss_entries s0),
      ss_usage := add_usage 1 (en_bytes e) (ss_usage s0)\<rparr>"
    using st s0 True by simp
  ultimately show ?thesis
    using True unfolding scope_ok_def link_composites by (simp add: link_usage)
next
  case False
  then have "scope_ok p k st'" using st pool_okD(5) [OF ok] by (auto split: option.splits)
  then show ?thesis using False unfolding scope_ok_def link_composites by (simp add: link_usage)
qed

lemma link_ok:
  assumes ok: "pool_ok p" and e: "linkable e p" "pl_entries p (en_composite e) = None"
  shows "pool_ok (link_entry e p)"
  unfolding pool_ok_def
proof (intro conjI allI ballI impI)
  have eok: "entry_ok p e" using e(1) by (simp add: linkable_def)
  show "arrow_ok (pl_heap (link_entry e p))" "Validate_limits (pl_limits (link_entry e p)) = Inr ()"
    using pool_okD(1,2) [OF ok] by simp_all
  show "linked_ok (link_entry e p)"
    using link_linked pool_okD(3) [OF ok] e by (auto simp: linkable_def)
  have "entry_ok (link_entry e p) = entry_ok p"
    by (intro ext) (simp add: entry_ok_def link_dom_scopes del: link_fields(9))
  then show "entry_ok (link_entry e p) (snd x)" if "x \<in> set (pl_lru (link_entry e p))" for x
    using that eok pool_okD(4) [OF ok, of x] by auto
  show "scope_ok (link_entry e p) k st" if "pl_scopes (link_entry e p) k = Some st" for k st
    by (rule link_scope [OF ok that])
  show "workspace_usage w (link_entry e p) = usage_where (\<lambda>x. entry_workspace (link_entry e p) x = Some w) (link_entry e p)" for w
    using pool_okD(6) [OF ok, of w] by (simp add: link_usage)
  show "pl_bytes (link_entry e p) = tally en_bytes (link_entry e p)"
    using pool_okD(7) [OF ok] by (simp add: tally_def)
  show "pl_scopes (link_entry e p) = Map.empty" if "pl_closed (link_entry e p)"
    using pool_okD(8) [OF ok] that eok by (auto simp: entry_ok_def)
qed

lemma remove_key_props:
  assumes ok: "pool_ok p"
  shows "pool_ok (removeLocked None (pl_entries p c) p)" "shrinks p (removeLocked None (pl_entries p c) p)"
    "pl_lru (removeLocked None (pl_entries p c) p) = filter (\<lambda>x. en_composite (snd x) \<noteq> c) (pl_lru p)"
    "pl_entries (removeLocked None (pl_entries p c) p) c = None"
proof -
  let ?q = "removeLocked None (pl_entries p c) p"
  show "pool_ok ?q" by (rule remove_entry_ok [OF ok])
  note d = linked_okD [OF pool_okD(3) [OF ok]]
  have "shrinks p ?q \<and> pl_lru ?q = filter (\<lambda>x. en_composite (snd x) \<noteq> c) (pl_lru p) \<and> pl_entries ?q c = None"
  proof (cases "pl_entries p c")
    case None
    then have "\<forall>x\<in>set (pl_lru p). en_composite (snd x) \<noteq> c" using d(3) by (metis option.distinct(1))
    then show ?thesis using None by simp
  next
    case (Some x)
    then have x: "x \<in> set (pl_lru p)" "en_composite (snd x) = c" using d(3) by metis+
    have "fst y \<noteq> fst x \<longleftrightarrow> en_composite (snd y) \<noteq> c" if "y \<in> set (pl_lru p)" for y
      using that x Some d(3) [of c y] distinct_fst_eq [OF d(1) that x(1)] by auto
    then show ?thesis
      using Some x remove_shrinks [OF ok x(1)] by (simp cong: filter_cong)
  qed
  then show "shrinks p ?q" "pl_lru ?q = filter (\<lambda>x. en_composite (snd x) \<noteq> c) (pl_lru p)" "pl_entries ?q c = None"
    by auto
qed

lemma shrinks_linkable:
  assumes "shrinks p q" "pool_ok p" "linkable e p"
  shows "linkable e q"
proof -
  have "dom (pl_scopes q) = dom (pl_scopes p)"
    using shrinksD(7) [OF assms(1)] by (auto simp: dom_def) (metis option.map_disc_iff not_None_eq)+
  moreover have "holds_of q \<subseteq> holds_of p" by (rule shrinksD(9) [OF assms(1)])
  ultimately show ?thesis
    using assms(3) shrinksD(8) [OF assms(1)] by (auto simp: linkable_def entry_ok_def)
qed

lemma insert_ok:
  assumes ok: "pool_ok p" and e: "linkable e p"
  shows "pool_ok (insert_entry e p)"
  using link_ok [OF remove_key_props(1) [OF ok] shrinks_linkable [OF remove_key_props(2) [OF ok] ok e] remove_key_props(4) [OF ok]]
  by (simp add: insert_entry_def)

lemma insert_exceeds:
  assumes ok: "pool_ok p" and P: "\<not> P e" and ex: "exceeds n b (usage_where P (insert_entry e p))"
  shows "exceeds n b (usage_where P p)"
  using ex P exceeds_mono [OF ok remove_key_props(2) [OF ok]] by (simp add: insert_entry_def link_usage)

lemma heap_upd_ok:
  assumes ok: "pool_ok p" and h: "arrow_ok h" "\<And>l r. pins (pl_heap p) l r \<Longrightarrow> Some l \<in> holds_of p \<Longrightarrow> pins h l r"
  shows "pool_ok (p\<lparr>pl_heap := h\<rparr>)"
proof -
  have "entry_ok (p\<lparr>pl_heap := h\<rparr>) (snd x)" if "x \<in> set (pl_lru p)" for x
  proof -
    have "en_hold (snd x) \<in> holds_of p" using that by (auto simp: holds_of_def)
    then show ?thesis using pool_okD(4) [OF ok that] h(2) by (auto simp: entry_ok_def)
  qed
  moreover have "scope_ok (p\<lparr>pl_heap := h\<rparr>) k st \<longleftrightarrow> scope_ok p k st" for k st
    by (simp add: scope_ok_def usage_where_def tally_def)
  ultimately show ?thesis
    using pool_okD [OF ok] h(1)
    by (simp add: pool_ok_def linked_ok_def entry_workspace_def usage_where_def tally_def)
qed

lemma heap_upd_limits:
  "runtime_over k (p\<lparr>pl_heap := h\<rparr>) = runtime_over k p" "workspace_over w (p\<lparr>pl_heap := h\<rparr>) = workspace_over w p"
  "node_over (p\<lparr>pl_heap := h\<rparr>) = node_over p"
  by (simp_all add: runtime_over_def scope_Stats_def workspace_over_def node_over_def)

section \<open>Storing\<close>

lemma count_store_fields [simp]:
  "pool_ok (snd (count_store out p)) = pool_ok p" "within_limits (snd (count_store out p)) = within_limits p"
  "pl_heap (snd (count_store out p)) = pl_heap p" "pl_entries (snd (count_store out p)) = pl_entries p"
  "pl_scopes (snd (count_store out p)) = pl_scopes p" "pl_lru (snd (count_store out p)) = pl_lru p"
  "pl_closed (snd (count_store out p)) = pl_closed p" "holds_of (snd (count_store out p)) = holds_of p"
  "fst (count_store out p) = out"
  by (simp_all add: count_store_def pool_ok_def linked_ok_def entry_ok_def scope_ok_def usage_where_def tally_def
      entry_workspace_def within_limits_def runtime_over_def scope_Stats_def workspace_over_def node_over_def holds_of_def)

lemma metadataBytes_nonneg: "0 \<le> metadataBytes m"
  unfolding metadataBytes_def by (intro add_nonneg_nonneg sum_list_nonneg) auto

lemma acquire_heap_ok:
  assumes ok: "pool_ok p" and acq: "result_Acquire (Some r) (pl_heap p) = (Inr l, h)"
  shows "pool_ok (p\<lparr>pl_heap := h\<rparr>)" "Some l \<notin> holds_of p" "pins h l r"
proof -
  note a = result_Acquire_ok [OF pool_okD(1) [OF ok] acq]
  show "pool_ok (p\<lparr>pl_heap := h\<rparr>)" by (rule heap_upd_ok [OF ok a(1)]) (simp add: a(2))
  show "pins h l r" by (simp add: a(2))
  show "Some l \<notin> holds_of p"
  proof
    assume "Some l \<in> holds_of p"
    then obtain x where "x \<in> set (pl_lru p)" "en_hold (snd x) = Some l" by (auto simp: holds_of_def)
    then have "\<exists>r. pins (pl_heap p) l r" using pool_okD(4) [OF ok, of x] by (auto simp: entry_ok_def)
    with a(3) show False by blast
  qed
qed

lemma insert_limits:
  assumes ok: "pool_ok p" and e: "linkable e p" and lim: "within_limits p"
  shows "k \<noteq> en_scope e \<Longrightarrow> \<not> runtime_over k (insert_entry e p)"
    and "entry_workspace p e \<noteq> Some w \<Longrightarrow> \<not> workspace_over w (insert_entry e p)"
proof -
  have ok': "pool_ok (insert_entry e p)" by (rule insert_ok [OF ok e])
  have same: "pl_limits (insert_entry e p) = pl_limits p" "entry_workspace (insert_entry e p) = entry_workspace p"
    "dom (pl_scopes (insert_entry e p)) = dom (pl_scopes p)"
    by (simp_all add: insert_entry_def link_dom_scopes fun_eq_iff del: link_fields(9))
  show "\<not> runtime_over k (insert_entry e p)" if "k \<noteq> en_scope e"
    using insert_exceeds [OF ok, of "\<lambda>x. en_scope x = k" e] that lim
    by (auto simp: within_limits_def runtime_over_usage ok ok' same)
  show "\<not> workspace_over w (insert_entry e p)" if "entry_workspace p e \<noteq> Some w"
    using insert_exceeds [OF ok, of "\<lambda>x. entry_workspace p x = Some w" e] that lim
    by (auto simp: within_limits_def workspace_over_usage ok ok' same)
qed

lemma store_core:
  assumes ok: "pool_ok p" and lim: "within_limits p" and e: "linkable e p"
    and st: "pl_scopes p (en_scope e) = Some st"
    and fits: "en_bytes e \<le> RuntimeBytes (pl_limits p)" "en_bytes e \<le> WorkspaceBytes (pl_limits p)"
      "en_bytes e \<le> NodeBytes (pl_limits p)"
  shows "\<exists>q. enforceLocked (en_scope e) (ss_id st) (insert_entry e p) = Some q \<and> pool_ok q \<and> within_limits q
    \<and> shrinks (insert_entry e p) q \<and> newest_fits (pl_nextElement p, e) q"
proof -
  have key: "en_scope e = scopeKey (ss_id st)" using pool_okD(5) [OF ok st] by (simp add: scope_ok_def)
  have ok': "pool_ok (insert_entry e p)" by (rule insert_ok [OF ok e])
  have "newest_fits (pl_nextElement p, e) (insert_entry e p)"
    using fits by (simp add: newest_fits_def insert_entry_def)
  from enforce_returns [OF ok' this, of "ss_id st"] obtain q where
    q: "enforceLocked (en_scope e) (ss_id st) (insert_entry e p) = Some q" "pool_ok q" "shrinks (insert_entry e p) q"
    "newest_fits (pl_nextElement p, e) q" "\<not> runtime_over (en_scope e) q" "\<not> workspace_over (WorkspaceID (ss_id st)) q" "\<not> node_over q"
    by (auto simp: key)
  have "entry_workspace p e = Some (WorkspaceID (ss_id st))" using st by (simp add: entry_workspace_def)
  then have "within_limits q"
    using insert_limits [OF ok e lim] over_mono [OF ok' q(2,3)] q(5-7) unfolding within_limits_def by (metis option.inject)
  with q show ?thesis by blast
qed

definition stored_entry :: "string \<Rightarrow> string \<Rightarrow> nat \<Rightarrow> nat \<Rightarrow> cache_metadata \<Rightarrow> int \<Rightarrow> cache_entry" where
  "stored_entry skey key r l md b = \<lparr>en_composite = skey @ [NUL] @ key, en_key = key, en_scope = skey,
     en_result = Some r, en_hold = Some l, en_metadata = cloneMetadata md, en_bytes = b\<rparr>"

text \<open>The two ways \<open>StoreArrow\<close> ends: nothing but the outcome is counted, or the entry is linked and the limits are enforced.\<close>

lemma StoreArrow_cases:
  assumes ok: "pool_ok p" and lim: "within_limits p" and pos: "0 \<le> result_Bytes result (pl_heap p)"
  shows "(\<exists>out. out \<noteq> StoreStored \<and> (StoreArrow s key tok result md p = Some (count_store out p)
            \<or> StoreArrow s key tok result md p = Some (out, p)))
    \<or> (\<exists>skey st r l h e q. s = Some skey \<and> result = Some r \<and> pl_scopes p skey = Some st \<and> \<not> pl_closed p
        \<and> tok = ss_generation st \<and> result_Acquire (Some r) (pl_heap p) = (Inr l, h)
        \<and> e = stored_entry skey key r l md (entry_size key result md p) \<and> linkable e (p\<lparr>pl_heap := h\<rparr>)
        \<and> StoreArrow s key tok result md p = Some (count_store StoreStored q)
        \<and> pool_ok q \<and> within_limits q \<and> shrinks (insert_entry e (p\<lparr>pl_heap := h\<rparr>)) q
        \<and> newest_fits (pl_nextElement p, e) q)"
proof (cases "\<exists>skey st r l h. s = Some skey \<and> result = Some r \<and> pl_scopes p skey = Some st \<and> \<not> pl_closed p \<and> \<not> ss_closed st
    \<and> tok = ss_generation st \<and> result_Acquire (Some r) (pl_heap p) = (Inr l, h)
    \<and> \<not> (entry_size key result md p > RuntimeBytes (pl_limits p) \<or> entry_size key result md p > WorkspaceBytes (pl_limits p)
        \<or> entry_size key result md p > NodeBytes (pl_limits p))")
  case True
  then obtain skey st r l h where c: "s = Some skey" "result = Some r" "pl_scopes p skey = Some st" "\<not> pl_closed p"
    "\<not> ss_closed st" "tok = ss_generation st" "result_Acquire (Some r) (pl_heap p) = (Inr l, h)"
    and sz: "\<not> (entry_size key result md p > RuntimeBytes (pl_limits p) \<or> entry_size key result md p > WorkspaceBytes (pl_limits p)
        \<or> entry_size key result md p > NodeBytes (pl_limits p))"
    by blast
  define e where "e = stored_entry skey key r l md (entry_size key result md p)"
  let ?p = "p\<lparr>pl_heap := h\<rparr>"
  note a = acquire_heap_ok [OF ok c(7)]
  have "0 \<le> entry_size key result md p"
    using pos metadataBytes_nonneg [of md] by (simp add: entry_size_def)
  then have e: "linkable e ?p"
    using a(2,3) c(3) by (auto simp: linkable_def entry_ok_def e_def stored_entry_def holds_of_def)
  have "within_limits ?p" using lim by (simp add: within_limits_def heap_upd_limits)
  moreover have "pl_scopes ?p (en_scope e) = Some st" using c(3) by (simp add: e_def stored_entry_def)
  moreover have "en_bytes e \<le> RuntimeBytes (pl_limits ?p)" "en_bytes e \<le> WorkspaceBytes (pl_limits ?p)"
    "en_bytes e \<le> NodeBytes (pl_limits ?p)"
    using sz by (auto simp: e_def stored_entry_def)
  ultimately obtain q where q: "enforceLocked (en_scope e) (ss_id st) (insert_entry e ?p) = Some q" "pool_ok q" "within_limits q"
    "shrinks (insert_entry e ?p) q" "newest_fits (pl_nextElement p, e) q"
    using store_core [OF a(1) _ e] by auto
  have "StoreArrow s key tok result md p = Some (count_store StoreStored q)"
    using c sz q(1) by (simp add: StoreArrow_def Let_def e_def stored_entry_def)
  then show ?thesis using c e q e_def by blast
next
  case False
  have err: "result_Acquire result (pl_heap p) = (Inl x, h) \<Longrightarrow> p\<lparr>pl_heap := h\<rparr> = p" for x h
    using result_Acquire_error [of result "pl_heap p" x h] by simp
  show ?thesis
    using False err
    by (auto simp: StoreArrow_def Let_def split: option.splits sum.splits prod.splits intro: exI [of _ StoreClosed]
        exI [of _ StoreStale] exI [of _ StoreOversized])
qed

lemma StoreArrow_returns:
  assumes "pool_ok p" "within_limits p" "0 \<le> result_Bytes result (pl_heap p)"
  shows "\<exists>out q. StoreArrow s key tok result md p = Some (out, q) \<and> pool_ok q \<and> within_limits q"
  using StoreArrow_cases [OF assms, of s key tok md] assms
  by (metis count_store_fields(1,2) prod.collapse)

section \<open>Looking up\<close>

text \<open>Moving an element to the front changes the order of the list and no total.\<close>

lemma move_front_ok:
  assumes ok: "pool_ok p" and x: "x \<in> set (pl_lru p)"
  defines "q \<equiv> p\<lparr>pl_lru := x # filter (\<lambda>y. fst y \<noteq> fst x) (pl_lru p)\<rparr>"
  shows "pool_ok q" "within_limits p \<Longrightarrow> within_limits q" "set (pl_lru q) = set (pl_lru p)" "holds_of q = holds_of p"
proof -
  note d = linked_okD [OF pool_okD(3) [OF ok]]
  have same: "fst y = fst x \<longleftrightarrow> y = x" if "y \<in> set (pl_lru p)" for y
    using distinct_fst_eq [OF d(1) that x] .
  then show set: "set (pl_lru q) = set (pl_lru p)" using x by (auto simp: q_def simp del: split_paired_All)
  then show h: "holds_of q = holds_of p" by (simp add: holds_of_def)
  have flt: "filter (\<lambda>y. fst y \<noteq> fst x) (pl_lru p) = filter (\<lambda>y. y \<noteq> x) (pl_lru p)"
    using same by (auto intro: filter_cong)
  have dist2: "distinct (map fst (pl_lru q))" "distinct (map (\<lambda>x. en_hold (snd x)) (pl_lru q))"
  proof -
    have "distinct (pl_lru p)" using d(1) by (simp add: distinct_map)
    then have "distinct (pl_lru q)" by (simp add: q_def flt)
    then show "distinct (map fst (pl_lru q))" "distinct (map (\<lambda>x. en_hold (snd x)) (pl_lru q))"
      using d(1,4) unfolding distinct_map set by blast+
  qed
  have tal: "tally f q = tally f p" for f
    using sum_list_filter_out [OF d(1) x, of f] by (simp add: tally_def q_def)
  have use: "usage_where P q = usage_where P p" for P by (simp add: usage_where_def tal)
  have fields: "pl_heap q = pl_heap p" "pl_limits q = pl_limits p" "pl_scopes q = pl_scopes p" "pl_entries q = pl_entries p"
    "pl_nextElement q = pl_nextElement p" "pl_bytes q = pl_bytes p" "pl_closed q = pl_closed p" "pl_workspaces q = pl_workspaces p"
    by (simp_all add: q_def)
  have ew: "entry_workspace q = entry_workspace p" "\<And>w. workspace_usage w q = workspace_usage w p" "entry_ok q = entry_ok p"
    by (auto simp: entry_workspace_def workspace_usage_def entry_ok_def fields fun_eq_iff)
  show "pool_ok q"
    using pool_okD [OF ok] dist2 d(2,3)
    unfolding pool_ok_def linked_ok_def scope_ok_def set fields ew tal use by blast
  show "within_limits p \<Longrightarrow> within_limits q"
    by (simp add: within_limits_def runtime_over_def scope_Stats_def workspace_over_def node_over_def fields)
qed

lemma lookup_entry:
  assumes ok: "pool_ok p" and e: "pl_entries p c = Some x"
  obtains l r l' h where "x \<in> set (pl_lru p)" "en_hold (snd x) = Some l" "en_result (snd x) = Some r"
    "pins (pl_heap p) l r" "result_Acquire (Some r) (pl_heap p) = (Inr l', h)"
proof -
  have x: "x \<in> set (pl_lru p)" using linked_okD(3) [OF pool_okD(3) [OF ok]] e by metis
  then obtain l r where "en_hold (snd x) = Some l" "en_result (snd x) = Some r" "pins (pl_heap p) l r"
    using pool_okD(4) [OF ok x] by (auto simp: entry_ok_def)
  moreover obtain l' h where "result_Acquire (Some r) (pl_heap p) = (Inr l', h)"
    using arrow.acquire_pinned [OF pool_okD(1) [OF ok] \<open>pins (pl_heap p) l r\<close>] by blast
  ultimately show thesis using that x by blast
qed

text \<open>A lookup is a miss that changes nothing, or a hit on a linked entry with a fresh lease on its result.\<close>

lemma LookupArrow_cases:
  assumes ok: "pool_ok p"
  shows "(\<exists>out. LookupArrow s key p = (out, p) \<and> snd (snd (snd out)) = False)
    \<or> (\<exists>skey st x r l h. s = Some skey \<and> pl_scopes p skey = Some st \<and> pl_entries p (skey @ [NUL] @ key) = Some x
        \<and> x \<in> set (pl_lru p) \<and> en_result (snd x) = Some r \<and> result_Acquire (Some r) (pl_heap p) = (Inr l, h)
        \<and> LookupArrow s key p = ((None, Some \<lparr>el_data = Some l, el_metadata = cloneMetadata (en_metadata (snd x))\<rparr>,
              ss_generation st, True), p\<lparr>pl_heap := h, pl_lru := x # filter (\<lambda>y. fst y \<noteq> fst x) (pl_lru p)\<rparr>))"
proof (cases "\<exists>skey st x. s = Some skey \<and> pl_scopes p skey = Some st \<and> \<not> pl_closed p \<and> \<not> ss_closed st \<and> pl_entries p (skey @ [NUL] @ key) = Some x")
  case True
  then obtain skey st x where c: "s = Some skey" "pl_scopes p skey = Some st" "\<not> pl_closed p" "\<not> ss_closed st" "pl_entries p (skey @ [NUL] @ key) = Some x"
    by blast
  obtain l r l' h where "x \<in> set (pl_lru p)" "en_result (snd x) = Some r" "result_Acquire (Some r) (pl_heap p) = (Inr l', h)"
    using lookup_entry [OF ok c(5)] by metis
  with c show ?thesis by (cases x) (auto simp: LookupArrow_def)
next
  case False
  then show ?thesis by (auto simp: LookupArrow_def split: option.splits)
qed

lemma LookupArrow_ok:
  assumes ok: "pool_ok p"
  shows "pool_ok (snd (LookupArrow s key p))" "within_limits p \<Longrightarrow> within_limits (snd (LookupArrow s key p))"
proof -
  have "pool_ok (snd (LookupArrow s key p)) \<and> (within_limits p \<longrightarrow> within_limits (snd (LookupArrow s key p)))"
    using LookupArrow_cases [OF ok, of s key]
  proof (elim disjE exE conjE)
    fix x r l h out
    assume x: "x \<in> set (pl_lru p)" and a: "result_Acquire (Some r) (pl_heap p) = (Inr l, h)"
      and lk: "LookupArrow s key p = (out, p\<lparr>pl_heap := h, pl_lru := x # filter (\<lambda>y. fst y \<noteq> fst x) (pl_lru p)\<rparr>)"
    have "within_limits (p\<lparr>pl_heap := h\<rparr>) = within_limits p" by (simp add: within_limits_def heap_upd_limits)
    then show ?thesis
      using move_front_ok(1,2) [OF acquire_heap_ok(1) [OF ok a], of x] x lk by simp
  qed (use ok in simp)
  then show "pool_ok (snd (LookupArrow s key p))" "within_limits p \<Longrightarrow> within_limits (snd (LookupArrow s key p))"
    by auto
qed

section \<open>Deleting, invalidating and closing\<close>

lemma remove_composites_props:
  assumes "pool_ok p"
  shows "pool_ok (remove_composites order p) \<and> shrinks p (remove_composites order p)
    \<and> pl_lru (remove_composites order p) = filter (\<lambda>x. en_composite (snd x) \<notin> set order) (pl_lru p)"
  using assms
proof (induction order arbitrary: p)
  case (Cons c order)
  let ?q = "removeLocked None (pl_entries p c) p"
  note q = remove_key_props [OF Cons.prems, of c]
  have "remove_composites (c # order) p = remove_composites order ?q" by (simp add: remove_composites_def)
  then show ?case
    using Cons.IH [OF q(1)] shrinks_trans [OF q(2)] by (simp add: q(3) conj_commute)
qed (simp add: remove_composites_def)

lemma Delete_entry_props:
  assumes "pool_ok p"
  shows "pool_ok (Delete_entry s key p)" "shrinks p (Delete_entry s key p)"
  using assms by (auto simp: Delete_entry_def remove_key_props split: option.split)

definition enumerates :: "string list \<Rightarrow> string option \<Rightarrow> 'r pool \<Rightarrow> bool" where
  "enumerates order s p \<longleftrightarrow> distinct order \<and>
     set order = (case Option.bind s (pl_scopes p) of None \<Rightarrow> {} | Some st \<Rightarrow> ss_entries st)"

lemma scope_entries_iff:
  assumes ok: "pool_ok p" and st: "pl_scopes p k = Some st" and x: "x \<in> set (pl_lru p)"
  shows "en_composite (snd x) \<in> ss_entries st \<longleftrightarrow> en_scope (snd x) = k"
proof -
  note d = linked_okD(3) [OF pool_okD(3) [OF ok]]
  have "ss_entries st = {en_composite (snd y) |y. y \<in> set (pl_lru p) \<and> en_scope (snd y) = k}"
    using pool_okD(5) [OF ok st] by (simp add: scope_ok_def)
  then have "en_composite (snd x) \<in> ss_entries st \<longleftrightarrow>
      (\<exists>y. en_composite (snd x) = en_composite (snd y) \<and> y \<in> set (pl_lru p) \<and> en_scope (snd y) = k)"
    by (simp only: mem_Collect_eq)
  also have "\<dots> \<longleftrightarrow> en_scope (snd x) = k"
    using d [of "en_composite (snd x)"] x by (metis option.inject)
  finally show ?thesis .
qed

text \<open>Removing every composite of a scope, in whatever order, unlinks exactly the scope's entries.\<close>

lemma remove_scope_entries:
  assumes ok: "pool_ok p" and st: "pl_scopes p k = Some st" and ord: "set order = ss_entries st"
  shows "pl_lru (remove_composites order p) = filter (\<lambda>x. en_scope (snd x) \<noteq> k) (pl_lru p)"
  using remove_composites_props [OF ok, of order] scope_entries_iff [OF ok st]
  by (auto simp: ord intro!: filter_cong)

lemma Invalidate_props:
  assumes ok: "pool_ok p"
  shows "pool_ok (Invalidate order s p)" "within_limits p \<Longrightarrow> within_limits (Invalidate order s p)"
    "holds_of (Invalidate order s p) \<subseteq> holds_of p"
proof -
  let ?q = "remove_composites order p"
  let ?b = "\<lambda>k. ?q\<lparr>pl_scopes := (pl_scopes ?q)(k := map_option (\<lambda>st. st\<lparr>ss_generation := ss_generation st + 1\<rparr>) (pl_scopes ?q k))\<rparr>"
  have q: "pool_ok ?q" "shrinks p ?q" using remove_composites_props [OF ok] by blast+
  have dom: "dom (pl_scopes (?b k)) = dom (pl_scopes ?q)" for k by (auto split: if_splits)
  have ew: "entry_workspace (?b k) = entry_workspace ?q" for k
    by (auto simp: entry_workspace_def fun_eq_iff option.map_comp o_def)
  have eo: "entry_ok (?b k) = entry_ok ?q" for k
    unfolding entry_ok_def dom by simp
  have tal: "usage_where P (?b k) = usage_where P ?q" "tally f (?b k) = tally f ?q" for P f k
    by (simp_all add: usage_where_def tally_def)
  have so: "scope_ok (?b k) j st'" if get: "pl_scopes (?b k) j = Some st'" for k j st'
  proof -
    obtain st where "pl_scopes ?q j = Some st" "st' = (if j = k then st\<lparr>ss_generation := ss_generation st + 1\<rparr> else st)"
      using get by (auto split: if_splits)
    then show ?thesis using pool_okD(5) [OF q(1), of j st] by (simp add: scope_ok_def tal)
  qed
  have bok: "pool_ok (?b k)" for k
    using pool_okD [OF q(1)] so [of k] unfolding pool_ok_def tal ew eo
    by (auto simp: linked_ok_def)
  have lim: "within_limits p \<Longrightarrow> within_limits (?b k)" for k
  proof -
    have "scope_Stats (Some j) (?b k) = scope_Stats (Some j) ?q" for j
      by (auto simp: scope_Stats_def split: option.split)
    then show "within_limits p \<Longrightarrow> within_limits (?b k)"
      using within_limits_mono [OF ok q] by (auto simp: within_limits_def runtime_over_def workspace_over_def node_over_def)
  qed
  show "pool_ok (Invalidate order s p)" using ok bok by (auto simp: Invalidate_def Let_def split: option.split)
  show "within_limits p \<Longrightarrow> within_limits (Invalidate order s p)"
    using lim by (auto simp: Invalidate_def Let_def split: option.split)
  show "holds_of (Invalidate order s p) \<subseteq> holds_of p"
    using shrinksD(9) [OF q(2)] by (auto simp: Invalidate_def Let_def holds_of_def split: option.split)
qed

lemma scope_Close_props:
  assumes ok: "pool_ok p" and ord: "enumerates order s p"
  shows "pool_ok (scope_Close order s p)" "within_limits p \<Longrightarrow> within_limits (scope_Close order s p)"
proof -
  have "pool_ok (scope_Close order s p) \<and> (within_limits p \<longrightarrow> within_limits (scope_Close order s p))"
  proof (cases "\<exists>k st. s = Some k \<and> pl_scopes p k = Some st \<and> \<not> ss_closed st")
    case False
    then show ?thesis using ok by (auto simp: scope_Close_def split: option.split)
  next
    case True
    then obtain k st where c: "s = Some k" "pl_scopes p k = Some st" "\<not> ss_closed st" by blast
    let ?q = "remove_composites order p"
    let ?b = "?q\<lparr>pl_scopes := (pl_scopes ?q)(k := None)\<rparr>"
    have q: "pool_ok ?q" "shrinks p ?q" using remove_composites_props [OF ok] by blast+
    have gone: "en_scope (snd x) \<noteq> k" if "x \<in> set (pl_lru ?q)" for x
      using that remove_scope_entries [OF ok c(2), of order] ord c by (simp add: enumerates_def)
    have ew: "entry_workspace ?b (snd x) = entry_workspace ?q (snd x)" if "x \<in> set (pl_lru ?q)" for x
      using gone [OF that] by (simp add: entry_workspace_def)
    have eo: "entry_ok ?b (snd x)" if "x \<in> set (pl_lru ?q)" for x
      using gone [OF that] pool_okD(4) [OF q(1) that] by (simp add: entry_ok_def)
    have tal: "usage_where P ?b = usage_where P ?q" "tally f ?b = tally f ?q" for P f
      by (simp_all add: usage_where_def tally_def)
    have wu: "workspace_usage w ?b = usage_where (\<lambda>e. entry_workspace ?b e = Some w) ?b" for w
      using pool_okD(6) [OF q(1), of w] usage_where_cong [of ?b ?q "\<lambda>e. entry_workspace ?b e = Some w"
          "\<lambda>e. entry_workspace ?q e = Some w"] ew by simp
    have so: "scope_ok ?b j st'" if "pl_scopes ?b j = Some st'" for j st'
      using that pool_okD(5) [OF q(1), of j st'] by (auto simp: scope_ok_def tal split: if_splits)
    have bok: "pool_ok ?b"
      using pool_okD(1,2,3,7,8) [OF q(1)] so eo wu unfolding pool_ok_def tal by (simp add: linked_ok_def)
    have "\<not> runtime_over k ?b"
      using Validate_limits_pos [OF pool_okD(2) [OF bok]]
      by (simp add: runtime_over_def scope_Stats_def exceeds_def)
    moreover have "runtime_over j ?b \<Longrightarrow> j \<noteq> k \<Longrightarrow> runtime_over j ?q" for j
      by (simp add: runtime_over_def scope_Stats_def)
    ultimately have "within_limits p \<longrightarrow> within_limits ?b"
      using within_limits_mono [OF ok q] by (auto simp: within_limits_def workspace_over_def node_over_def)
    with bok show ?thesis using c by (simp add: scope_Close_def Let_def)
  qed
  then show "pool_ok (scope_Close order s p)" "within_limits p \<Longrightarrow> within_limits (scope_Close order s p)" by auto
qed

lemma fold_remove_props:
  assumes "pool_ok p" "set xs \<subseteq> set (pl_lru p)" "distinct xs"
  shows "pool_ok (fold (\<lambda>x. removeLocked None (Some x)) xs p) \<and> shrinks p (fold (\<lambda>x. removeLocked None (Some x)) xs p)
    \<and> set (pl_lru (fold (\<lambda>x. removeLocked None (Some x)) xs p)) = set (pl_lru p) - set xs"
  using assms
proof (induction xs arbitrary: p)
  case (Cons x xs)
  have x: "x \<in> set (pl_lru p)" using Cons.prems(2) by simp
  let ?q = "removeLocked None (Some x) p"
  have "fst y = fst x \<longleftrightarrow> y = x" if "y \<in> set (pl_lru p)" for y
    by (rule distinct_fst_eq [OF linked_okD(1) [OF pool_okD(3) [OF Cons.prems(1)]] that x])
  then have set: "set (pl_lru ?q) = set (pl_lru p) - {x}" by (auto simp del: split_paired_All)
  have "pool_ok ?q" "shrinks p ?q" by (rule remove_ok [OF Cons.prems(1) x], rule remove_shrinks [OF Cons.prems(1) x])
  moreover have "set xs \<subseteq> set (pl_lru ?q)" "distinct xs" using Cons.prems set by auto
  ultimately show ?case
    using Cons.IH [of ?q] shrinks_trans [of p ?q] set by auto
qed simp

lemma pool_Close_props:
  assumes ok: "pool_ok p"
  shows "pool_ok (pool_Close p)" "within_limits p \<Longrightarrow> within_limits (pool_Close p)"
    "\<not> pl_closed p \<Longrightarrow> pl_lru (pool_Close p) = [] \<and> pl_scopes (pool_Close p) = Map.empty"
proof -
  have "pool_ok (pool_Close p) \<and> (within_limits p \<longrightarrow> within_limits (pool_Close p))
    \<and> (\<not> pl_closed p \<longrightarrow> pl_lru (pool_Close p) = [] \<and> pl_scopes (pool_Close p) = Map.empty)"
  proof (cases "pl_closed p")
    case True
    then show ?thesis using ok by (simp add: pool_Close_def)
  next
    case False
    let ?c = "\<lambda>p. p\<lparr>pl_closed := True\<rparr>"
    have comm: "fold (\<lambda>x. removeLocked None (Some x)) xs (?c p) = ?c (fold (\<lambda>x. removeLocked None (Some x)) xs p)" for xs p
    proof (induction xs arbitrary: p)
      case (Cons x xs)
      have "removeLocked None (Some x) (?c p) = ?c (removeLocked None (Some x) p)"
        by (cases x) (simp add: removeLocked_def Let_def add_workspace_def workspaceLocked_def split: option.split)
      then show ?case using Cons by simp
    qed simp
    define q where "q = fold (\<lambda>x. removeLocked None (Some x)) (rev (pl_lru p)) p"
    have "distinct (rev (pl_lru p))" using linked_okD(1) [OF pool_okD(3) [OF ok]] by (simp add: distinct_map)
    then have q: "pool_ok q" "shrinks p q" "pl_lru q = []"
      using fold_remove_props [OF ok, of "rev (pl_lru p)"] by (auto simp: q_def)
    let ?b = "(?c q)\<lparr>pl_scopes := Map.empty\<rparr>"
    have close: "pool_Close p = ?b" using False by (simp add: pool_Close_def comm q_def)
    have "pl_entries q c = None" for c
      using linked_okD(3) [OF pool_okD(3) [OF q(1)], of c] q(3) by (cases "pl_entries q c") auto
    then have b: "pool_ok ?b"
      using pool_okD(1,2,3,6,7) [OF q(1)] q(3)
      by (simp add: pool_ok_def linked_ok_def usage_where_def tally_def)
    have "within_limits ?b"
      unfolding within_limits_def
      using Validate_limits_pos [OF pool_okD(2) [OF q(1)]] q(3)
      by (simp add: runtime_over_usage [OF b] workspace_over_usage [OF b] node_over_usage [OF b] usage_where_def tally_def exceeds_def)
    with b close q(3) show ?thesis by simp
  qed
  then show "pool_ok (pool_Close p)" "within_limits p \<Longrightarrow> within_limits (pool_Close p)"
    "\<not> pl_closed p \<Longrightarrow> pl_lru (pool_Close p) = [] \<and> pl_scopes (pool_Close p) = Map.empty"
    by auto
qed

lemma OpenScope_props:
  assumes ok: "pool_ok p"
  shows "pool_ok (snd (OpenScope i p))" "within_limits p \<Longrightarrow> within_limits (snd (OpenScope i p))"
proof -
  let ?k = "scopeKey i"
  let ?s = "\<lparr>ss_id = i, ss_generation = 0, ss_closed = False, ss_entries = {}, ss_usage = no_usage\<rparr>"
  let ?b = "p\<lparr>pl_scopes := (pl_scopes p)(?k \<mapsto> ?s)\<rparr>"
  have "pool_ok (snd (OpenScope i p)) \<and> (within_limits p \<longrightarrow> within_limits (snd (OpenScope i p)))"
  proof (cases "snd (OpenScope i p) = p")
    case True
    then show ?thesis using ok by simp
  next
    case False
    then have b: "snd (OpenScope i p) = ?b" and cl: "\<not> pl_closed p"
      by (auto simp: OpenScope_def Let_def scopeKey_def split: option.splits if_splits)
    have "\<not> ss_closed st" if "pl_scopes p ?k = Some st" for st
      using pool_okD(5) [OF ok that] by (simp add: scope_ok_def)
    then have none: "pl_scopes p ?k = None"
      using False by (cases "pl_scopes p ?k") (auto simp: OpenScope_def Let_def scopeKey_def split: if_splits)
    have away: "en_scope (snd x) \<noteq> ?k" if "x \<in> set (pl_lru p)" for x
      using pool_okD(4) [OF ok that] none by (auto simp: entry_ok_def)
    have tal: "usage_where P ?b = usage_where P p" "tally f ?b = tally f p" for P f
      by (simp_all add: usage_where_def tally_def)
    have ew: "entry_workspace ?b (snd x) = entry_workspace p (snd x)" "entry_ok ?b (snd x)" if "x \<in> set (pl_lru p)" for x
      using away [OF that] pool_okD(4) [OF ok that] by (simp_all add: entry_workspace_def entry_ok_def)
    have wu: "workspace_usage w ?b = usage_where (\<lambda>e. entry_workspace ?b e = Some w) ?b" for w
      using pool_okD(6) [OF ok, of w] usage_where_cong [of ?b p "\<lambda>e. entry_workspace ?b e = Some w"
          "\<lambda>e. entry_workspace p e = Some w"] ew(1) by simp
    have zero: "usage_where (\<lambda>e. en_scope e = ?k) p = no_usage"
      using away unfolding usage_where_def by (auto intro!: tally_zero)
    have new: "scope_ok ?b ?k ?s"
      using away by (auto simp: scope_ok_def zero)
    have so: "scope_ok ?b j st" if "pl_scopes ?b j = Some st" for j st
    proof (cases "j = ?k")
      case True
      then show ?thesis using that new by simp
    next
      case False
      then show ?thesis using that pool_okD(5) [OF ok, of j st] by (simp add: scope_ok_def)
    qed
    have bok: "pool_ok ?b"
      using pool_okD(1,2,3,7) [OF ok] so ew(2) wu cl unfolding pool_ok_def tal by (simp add: linked_ok_def)
    have "runtime_over j ?b \<Longrightarrow> j \<noteq> ?k \<Longrightarrow> runtime_over j p" for j
      by (simp add: runtime_over_def scope_Stats_def)
    moreover have "\<not> runtime_over ?k ?b"
      using Validate_limits_pos [OF pool_okD(2) [OF ok]] by (simp add: runtime_over_def scope_Stats_def exceeds_def)
    ultimately have "within_limits p \<longrightarrow> within_limits ?b"
      by (auto simp: within_limits_def workspace_over_def node_over_def)
    with bok b show ?thesis by simp
  qed
  then show "pool_ok (snd (OpenScope i p))" "within_limits p \<Longrightarrow> within_limits (snd (OpenScope i p))" by auto
qed

end
