(* ===== verification/Result_Cache_Theorems.thy ===== *)
theory Result_Cache_Theorems
  imports Result_Cache_Operations
begin

text \<open>
  Executions of the result cache and its properties: exact accounting within the limits,
  termination of the eviction, store and lookup, invalidation, isolation of scopes, and the
  independence of the leases that were handed out.
\<close>

section \<open>Executions\<close>

text \<open>One operation of the pool under its mutex.\<close>

inductive pool_operation :: "'r pool \<Rightarrow> 'r pool \<Rightarrow> bool" where
  open_scope: "pool_operation p (snd (OpenScope i p))"
| lookup: "pool_operation p (snd (LookupArrow s key p))"
| store: "StoreArrow s key token result metadata p = Some (out, q) \<Longrightarrow> pool_operation p q"
| delete: "pool_operation p (Delete_entry s key p)"
| invalidate: "enumerates order s p \<Longrightarrow> pool_operation p (Invalidate order s p)"
| close_scope: "enumerates order s p \<Longrightarrow> pool_operation p (scope_Close order s p)"
| close_pool: "pool_operation p (pool_Close p)"

text \<open>
  The pool's clients build, acquire and release results and coalesce executions, but never
  release the pool's own holds.
\<close>

inductive cache_step :: "'r arrow_lib \<Rightarrow> 'r pool \<Rightarrow> 'r pool \<Rightarrow> bool" for lib where
  operation: "pool_operation p q \<Longrightarrow> cache_step lib p q"
| client: "arrow_step lib (pl_heap p) h \<Longrightarrow>
    (\<And>l r. Some l \<in> holds_of p \<Longrightarrow> pins (pl_heap p) l r \<Longrightarrow> pins h l r) \<Longrightarrow>
    cache_step lib p (p\<lparr>pl_heap := h, pl_arrowFlights := a, pl_flights := f, pl_nextFlight := n\<rparr>)"

definition cache_ok :: "'r pool \<Rightarrow> bool" where
  "cache_ok p \<longleftrightarrow> pool_ok p \<and> within_limits p \<and> sizes_ok (pl_heap p)"

definition cache_reachable :: "'r arrow_lib \<Rightarrow> cache_limits \<Rightarrow> 'r pool \<Rightarrow> bool" where
  "cache_reachable lib limits p \<longleftrightarrow> (\<exists>p0. New_pool limits arrow_empty = Inr p0 \<and> (cache_step lib)\<^sup>*\<^sup>* p0 p)"

lemma New_pool_ok: "New_pool limits arrow_empty = Inr p \<Longrightarrow> cache_ok p"
  using arrow_empty_ok Validate_limits_pos [of limits]
  by (auto simp: cache_ok_def New_pool_def pool_ok_def linked_ok_def workspace_usage_def usage_where_def tally_def
      within_limits_def runtime_over_def scope_Stats_def workspace_over_def node_over_def exceeds_def
      sizes_ok_def arrow_empty_def)

lemma flight_fields_ok [simp]:
  "pool_ok (p\<lparr>pl_heap := h, pl_arrowFlights := a, pl_flights := f, pl_nextFlight := n\<rparr>) = pool_ok (p\<lparr>pl_heap := h\<rparr>)"
  "within_limits (p\<lparr>pl_heap := h, pl_arrowFlights := a, pl_flights := f, pl_nextFlight := n\<rparr>) = within_limits p"
  by (simp_all add: pool_ok_def linked_ok_def entry_ok_def scope_ok_def usage_where_def tally_def entry_workspace_def
      workspace_usage_def within_limits_def runtime_over_def scope_Stats_def workspace_over_def node_over_def)

text \<open>Every operation changes the store of results by acquiring and releasing only.\<close>

lemma acquire_path: "result_Acquire r h = (o', h') \<Longrightarrow> (arrow_step lib)\<^sup>*\<^sup>* h h'"
  using arrow_step.acquire_result [of lib h r] by (auto intro: r_into_rtranclp)

lemma store_path:
  assumes "pool_ok p" "within_limits p" "0 \<le> result_Bytes result (pl_heap p)"
    and "StoreArrow s key tok result md p = Some (out, q)"
  shows "(arrow_step lib)\<^sup>*\<^sup>* (pl_heap p) (pl_heap q)"
  using StoreArrow_cases [OF assms(1-3), of s key tok md]
proof (elim disjE exE conjE)
  fix r l h e q'
  assume acq: "result_Acquire (Some r) (pl_heap p) = (Inr l, h)"
    and st: "StoreArrow s key tok result md p = Some (count_store StoreStored q')"
    and sh: "shrinks (insert_entry e (p\<lparr>pl_heap := h\<rparr>)) q'"
  have ok: "pool_ok (p\<lparr>pl_heap := h\<rparr>)" by (rule acquire_heap_ok(1) [OF assms(1) acq])
  have "(arrow_step lib)\<^sup>*\<^sup>* (pl_heap p) h" by (rule acquire_path [OF acq])
  also have "(arrow_step lib)\<^sup>*\<^sup>* h (pl_heap (insert_entry e (p\<lparr>pl_heap := h\<rparr>)))"
    using shrinksD(10) [OF remove_key_props(2) [OF ok, of "en_composite e"]] by (simp add: insert_entry_def)
  also have "(arrow_step lib)\<^sup>*\<^sup>* \<dots> (pl_heap q')" by (rule shrinksD(10) [OF sh])
  finally show ?thesis using st assms(4) by (metis count_store_fields(3) option.inject snd_conv)
qed (use assms(4) in \<open>auto simp: count_store_def\<close>)

lemma lookup_path: "pool_ok p \<Longrightarrow> (arrow_step lib)\<^sup>*\<^sup>* (pl_heap p) (pl_heap (snd (LookupArrow s key p)))"
  using LookupArrow_cases [of p s key] acquire_path by fastforce

lemma fold_remove_heap:
  "(arrow_step lib)\<^sup>*\<^sup>* (pl_heap p) (pl_heap (fold (\<lambda>x. removeLocked None (Some x)) xs p))"
proof (induction xs arbitrary: p)
  case (Cons x xs)
  have "(arrow_step lib)\<^sup>*\<^sup>* (pl_heap p) (pl_heap (removeLocked None (Some x) p))"
    by (simp add: arrow_step.release_lease r_into_rtranclp)
  with Cons [of "removeLocked None (Some x) p"] show ?case by simp
qed simp

lemma operation_path:
  assumes "pool_operation p q" "cache_ok p"
  shows "(arrow_step lib)\<^sup>*\<^sup>* (pl_heap p) (pl_heap q)"
  using assms
proof (induction rule: pool_operation.induct)
  case (open_scope p i)
  have "pl_heap (snd (OpenScope i p)) = pl_heap p" by (auto simp: OpenScope_def Let_def)
  then show ?case by simp
next
  case (lookup p s key)
  then show ?case by (auto simp: cache_ok_def intro: lookup_path)
next
  case (store s key tok result md p out q)
  then show ?case by (auto simp: cache_ok_def sizesD intro: store_path)
next
  case (delete p s key)
  then show ?case by (auto simp: cache_ok_def intro: shrinksD(10) Delete_entry_props(2))
next
  case (invalidate order s p)
  then have "shrinks p (remove_composites order p)" using remove_composites_props by (auto simp: cache_ok_def)
  then show ?case using shrinksD(10) by (auto simp: Invalidate_def Let_def split: option.split)
next
  case (close_scope order s p)
  then have "shrinks p (remove_composites order p)" using remove_composites_props by (auto simp: cache_ok_def)
  then show ?case using shrinksD(10) by (auto simp: scope_Close_def Let_def split: option.split)
next
  case (close_pool p)
  show ?case using fold_remove_heap [of lib "p\<lparr>pl_closed := True\<rparr>"] by (simp add: pool_Close_def Let_def)
qed

lemma cache_step_path:
  "cache_step lib p q \<Longrightarrow> cache_ok p \<Longrightarrow> (arrow_step lib)\<^sup>*\<^sup>* (pl_heap p) (pl_heap q)"
  by (induction rule: cache_step.induct) (simp_all add: operation_path r_into_rtranclp)

lemma arrow_steps_sizes:
  "(arrow_step lib)\<^sup>*\<^sup>* h h' \<Longrightarrow> sizes_ok h \<Longrightarrow> (\<And>r. 0 \<le> lib_size lib r) \<Longrightarrow> sizes_ok h'"
  by (induction rule: rtranclp_induct) (auto intro: arrow_step_sizes)

lemma operation_ok:
  assumes "pool_operation p q" "cache_ok p"
  shows "pool_ok q \<and> within_limits q"
proof -
  have "pool_ok p" "within_limits p" "sizes_ok (pl_heap p)" using assms(2) by (auto simp: cache_ok_def)
  with assms(1) show ?thesis
  proof (induction rule: pool_operation.induct)
    case (store s key tok result md p out q)
    then show ?case using StoreArrow_returns [of p result s key tok md] sizesD(3) by fastforce
  qed (auto simp: OpenScope_props LookupArrow_ok Invalidate_props scope_Close_props pool_Close_props
        Delete_entry_props intro: within_limits_mono)
qed

lemma cache_step_ok:
  assumes step: "cache_step lib p q" and ok: "cache_ok p" and lib: "\<And>r. 0 \<le> lib_size lib r"
  shows "cache_ok q"
proof -
  have sz: "sizes_ok (pl_heap q)"
    using arrow_steps_sizes [OF cache_step_path [OF step ok] _ lib] ok by (simp add: cache_ok_def)
  have "pool_ok q \<and> within_limits q"
    using step ok
  proof (induction rule: cache_step.induct)
    case (operation p q)
    then show ?case by (rule operation_ok)
  next
    case (client p h a f n)
    then show ?case
      using heap_upd_ok [of p h] arrow_step_ok [OF client.hyps(1)] pool_okD(1) by (auto simp: cache_ok_def)
  qed
  with sz show ?thesis by (simp add: cache_ok_def)
qed

lemma cache_reachable_ok:
  assumes "cache_reachable lib limits p" "\<And>r. 0 \<le> lib_size lib r"
  shows "cache_ok p"
proof -
  obtain p0 where "New_pool limits arrow_empty = Inr p0" "(cache_step lib)\<^sup>*\<^sup>* p0 p"
    using assms(1) by (auto simp: cache_reachable_def)
  from this(2) show ?thesis
    by (induction rule: rtranclp_induct) (auto intro: New_pool_ok [OF \<open>New_pool limits arrow_empty = Inr p0\<close>] cache_step_ok assms(2))
qed

lemma cache_reachable_step:
  "cache_reachable lib limits p \<Longrightarrow> cache_step lib p q \<Longrightarrow> cache_reachable lib limits q"
  by (auto simp: cache_reachable_def intro: rtranclp.rtrancl_into_rtrancl)

lemma operation_limits: "pool_operation p q \<Longrightarrow> cache_ok p \<Longrightarrow> pl_limits q = pl_limits p"
proof (induction rule: pool_operation.induct)
  case (store s key tok result md p out q)
  then have "pool_ok p" "within_limits p" "0 \<le> result_Bytes result (pl_heap p)" by (auto simp: cache_ok_def sizesD)
  from StoreArrow_cases [OF this, of s key tok md] store show ?case
    by (auto simp: count_store_def insert_entry_def dest!: shrinksD(1))
next
  case (lookup p s key)
  then show ?case by (auto simp: LookupArrow_def split: option.splits prod.splits sum.splits)
next
  case (close_pool p)
  have "pl_limits (fold (\<lambda>x. removeLocked None (Some x)) xs q) = pl_limits q" for xs and q :: "'a pool"
    by (induction xs arbitrary: q) simp_all
  then show ?case by (simp add: pool_Close_def Let_def)
next
  case (invalidate order s p)
  then have "shrinks p (remove_composites order p)" using remove_composites_props by (auto simp: cache_ok_def)
  then show ?case using shrinksD(1) by (auto simp: Invalidate_def Let_def split: option.split)
next
  case (close_scope order s p)
  then have "shrinks p (remove_composites order p)" using remove_composites_props by (auto simp: cache_ok_def)
  then show ?case using shrinksD(1) by (auto simp: scope_Close_def Let_def split: option.split)
qed (auto simp: OpenScope_def Let_def Delete_entry_def split: option.split)

lemma cache_step_limits: "cache_step lib p q \<Longrightarrow> cache_ok p \<Longrightarrow> pl_limits q = pl_limits p"
  by (induction rule: cache_step.induct) (simp_all add: operation_limits)

lemma cache_reachable_limits:
  assumes "cache_reachable lib limits p" "\<And>r. 0 \<le> lib_size lib r"
  shows "pl_limits p = limits"
proof -
  obtain p0 where p0: "New_pool limits arrow_empty = Inr p0" and steps: "(cache_step lib)\<^sup>*\<^sup>* p0 p"
    using assms(1) by (auto simp: cache_reachable_def)
  have "cache_ok p \<and> pl_limits p = limits"
    using steps
  proof (induction rule: rtranclp_induct)
    case base
    then show ?case using New_pool_ok [OF p0] p0 by (auto simp: New_pool_def)
  next
    case (step y z)
    then show ?case using cache_step_ok [OF step.hyps(2) _ assms(2)] cache_step_limits [OF step.hyps(2)] by simp
  qed
  then show ?thesis by simp
qed

subsection \<open>A sample execution\<close>

definition sample_limits :: cache_limits where
  "sample_limits = \<lparr>RuntimeEntries = 1, RuntimeBytes = 200, WorkspaceEntries = 1, WorkspaceBytes = 200,
     NodeEntries = 2, NodeBytes = 300\<rparr>"

definition sample_scope :: scope_id where
  "sample_scope = \<lparr>WorkspaceID = ''w'', RuntimeID = ''r''\<rparr>"

definition sample_md :: cache_metadata where
  "sample_md = \<lparr>md_SQL = ''q'', md_TotalRows = 1, md_TotalRowsKnown = True, md_Warnings = []\<rparr>"

definition sample_key :: string where
  "sample_key = scopeKey sample_scope"

definition sample_open :: "nat pool" where
  "sample_open =
    (case New_pool sample_limits arrow_empty of
       Inr p \<Rightarrow> snd (OpenScope sample_scope (p\<lparr>pl_heap := sample_heap\<rparr>)))"

definition sample_stored :: "nat pool" where
  "sample_stored = snd (the (StoreArrow (Some sample_key) ''a'' 0 (Some 1) sample_md sample_open))"

lemma client_path:
  assumes "(arrow_step lib)\<^sup>*\<^sup>* (pl_heap p) h" "pl_lru p = []"
  shows "(cache_step lib)\<^sup>*\<^sup>* p (p\<lparr>pl_heap := h\<rparr>)"
  using assms(1)
proof (induction rule: rtranclp_induct)
  case base
  show ?case by simp
next
  case (step y z)
  have "cache_step lib (p\<lparr>pl_heap := y\<rparr>) (p\<lparr>pl_heap := z\<rparr>)"
    using cache_step.client [where lib = lib and p = "p\<lparr>pl_heap := y\<rparr>" and h = z and a = "pl_arrowFlights p"
        and f = "pl_flights p" and n = "pl_nextFlight p"]
      step.hyps(2) assms(2) by (simp add: holds_of_def)
  with step.IH show ?case by (rule rtranclp.rtrancl_into_rtrancl)
qed

lemma sample_open_reachable: "cache_reachable sample_lib sample_limits sample_open"
proof -
  obtain p0 :: "nat pool" where p0: "New_pool sample_limits arrow_empty = Inr p0" "pl_lru p0 = []" "pl_heap p0 = arrow_empty"
    by (simp add: New_pool_def Validate_limits_def sample_limits_def)
  have "(cache_step sample_lib)\<^sup>*\<^sup>* p0 (p0\<lparr>pl_heap := sample_heap\<rparr>)"
    using client_path [of sample_lib p0 sample_heap] sample_heap_reachable p0 by (simp add: arrow_reachable_def)
  also have "cache_step sample_lib (p0\<lparr>pl_heap := sample_heap\<rparr>) sample_open"
    unfolding sample_open_def p0 sum.case by (intro cache_step.operation pool_operation.open_scope)
  finally show ?thesis using p0(1) by (auto simp: cache_reachable_def)
qed

lemma sample_lib_sizes: "0 \<le> lib_size sample_lib r"
  by (simp add: sample_lib_def)

lemma sample_open_facts:
  "pl_scopes sample_open sample_key = Some \<lparr>ss_id = sample_scope, ss_generation = 0, ss_closed = False,
     ss_entries = {}, ss_usage = no_usage\<rparr>"
  "\<not> pl_closed sample_open" "pl_heap sample_open = sample_heap" "pl_limits sample_open = sample_limits"
  "pl_entries sample_open = Map.empty" "pl_lru sample_open = []"
  by (simp_all add: sample_open_def New_pool_def Validate_limits_def sample_limits_def OpenScope_def Let_def
      sample_scope_def sample_key_def scopeKey_def)

lemma sample_stored_eq:
  "StoreArrow (Some sample_key) ''a'' 0 (Some 1) sample_md sample_open = Some (StoreStored, sample_stored)"
proof -
  have ok: "cache_ok sample_open" by (rule cache_reachable_ok [OF sample_open_reachable sample_lib_sizes])
  have size: "entry_size ''a'' (Some 1) sample_md sample_open = 90"
    by (simp add: entry_size_def sample_open_facts metadataBytes_def sample_md_def sample_heap_eval result_Bytes_def)
  have acq: "\<exists>l h. result_Acquire (Some 1) sample_heap = (Inr l, h)"
    by (simp add: sample_heap_eval)
  obtain out q where q: "StoreArrow (Some sample_key) ''a'' 0 (Some 1) sample_md sample_open = Some (out, q)"
    using StoreArrow_returns ok by (fastforce simp: cache_ok_def sizesD)
  have "out = StoreStored"
    using q acq size by (auto simp: StoreArrow_def Let_def sample_open_facts sample_limits_def count_store_def)
  with q show ?thesis by (simp add: sample_stored_def)
qed

lemma sample_stored_reachable: "cache_reachable sample_lib sample_limits sample_stored"
  by (rule cache_reachable_step [OF sample_open_reachable cache_step.operation [OF pool_operation.store [OF sample_stored_eq]]])

section \<open>Properties\<close>

lemma usage_where_filter:
  "usage_where P p = \<lparr>us_entries = int (length (filter (\<lambda>x. P (snd x)) (pl_lru p))),
     us_bytes = (\<Sum>x\<leftarrow>filter (\<lambda>x. P (snd x)) (pl_lru p). en_bytes (snd x))\<rparr>"
proof -
  have "(\<Sum>x\<leftarrow>xs. if P (snd x) then 1 else 0) = int (length (filter (\<lambda>x. P (snd x)) xs))"
    "(\<Sum>x\<leftarrow>xs. if P (snd x) then en_bytes (snd x) else 0) = (\<Sum>x\<leftarrow>filter (\<lambda>x. P (snd x)) xs. en_bytes (snd x))"
    for xs :: "element list"
    by (induction xs) auto
  then show ?thesis by (simp add: usage_where_def tally_def)
qed

text \<open>
  C3. In every reachable state of the result cache the statistics it reports are exact and
  within the limits: the node's entry and byte counts are those of the linked entries and at
  most the node limits; the counts of every open scope are those of the entries stored through
  it and at most the runtime limits; the counts of every workspace are those of the entries of
  its scopes and at most the workspace limits.
\<close>

theorem cache_accounting_within_limits:
  assumes "cache_reachable lib limits p" "\<And>r. 0 \<le> lib_size lib r"
  defines "bytes_of \<equiv> \<lambda>xs. (\<Sum>x\<leftarrow>xs. en_bytes (snd x))"
  shows "cs_entries (pool_Stats p) = int (length (pl_lru p)) \<and> cs_entries (pool_Stats p) \<le> NodeEntries limits
    \<and> cs_bytes (pool_Stats p) = bytes_of (pl_lru p) \<and> cs_bytes (pool_Stats p) \<le> NodeBytes limits
    \<and> (\<forall>k sn. cs_scopes (pool_Stats p) k = Some sn \<longrightarrow>
         sn_entries sn = int (length (filter (\<lambda>x. en_scope (snd x) = k) (pl_lru p))) \<and> sn_entries sn \<le> RuntimeEntries limits
         \<and> sn_bytes sn = bytes_of (filter (\<lambda>x. en_scope (snd x) = k) (pl_lru p)) \<and> sn_bytes sn \<le> RuntimeBytes limits)
    \<and> (\<forall>w u. cs_workspaces (pool_Stats p) w = Some u \<longrightarrow>
         us_entries u = int (length (filter (\<lambda>x. entry_workspace p (snd x) = Some w) (pl_lru p))) \<and> us_entries u \<le> WorkspaceEntries limits
         \<and> us_bytes u = bytes_of (filter (\<lambda>x. entry_workspace p (snd x) = Some w) (pl_lru p)) \<and> us_bytes u \<le> WorkspaceBytes limits)"
proof -
  have ok: "pool_ok p" and lim: "within_limits p"
    using cache_reachable_ok [OF assms(1,2)] by (auto simp: cache_ok_def)
  have pl: "pl_limits p = limits" by (rule cache_reachable_limits [OF assms(1,2)])
  have node: "\<not> node_over p" and card: "card (dom (pl_entries p)) = length (pl_lru p)"
    using lim card_entries [OF pool_okD(3) [OF ok]] by (auto simp: within_limits_def)
  have bytes: "pl_bytes p = bytes_of (pl_lru p)"
    using pool_okD(7) [OF ok] by (simp add: tally_def bytes_of_def)
  have sc: "ss_usage st = usage_where (\<lambda>e. en_scope e = k) p"
      "\<not> exceeds (RuntimeEntries limits) (RuntimeBytes limits) (ss_usage st)" if "pl_scopes p k = Some st" for k st
    using pool_okD(5) [OF ok that] lim that by (auto simp: scope_ok_def within_limits_def runtime_over_def scope_Stats_def pl dest: spec [of _ k])
  have ws: "us_entries u = us_entries (usage_where (\<lambda>e. entry_workspace p e = Some w) p)"
      "us_bytes u = us_bytes (usage_where (\<lambda>e. entry_workspace p e = Some w) p)" "\<not> exceeds (WorkspaceEntries limits) (WorkspaceBytes limits) u"
      if "pl_workspaces p w = Some u" for w u
    using pool_okD(6) [OF ok, of w] lim that by (auto simp: workspace_usage_def within_limits_def workspace_over_def pl dest: spec [of _ w])
  show ?thesis
    using node bytes card sc ws
    by (auto simp: pool_Stats_def node_over_def pl exceeds_def usage_where_filter bytes_of_def not_less split: option.splits if_splits)
qed

theorem cache_accounting_within_limits_witness:
  "cs_entries (pool_Stats sample_stored) = int (length (pl_lru sample_stored)) \<and> cs_entries (pool_Stats sample_stored) \<le> 2"
  using cache_accounting_within_limits [OF sample_stored_reachable sample_lib_sizes] by (simp add: sample_limits_def)

text \<open>
  C11. \<open>StoreArrow\<close> always returns in reachable states: its three eviction loops end, never
  dereference a scope that is gone and never spin without a victim, whatever the request. An
  accepted result is then retrievable: the lookup of the same key through the same handle is a
  hit that returns the stored metadata and a new live lease on the stored result.
\<close>

theorem store_returns_and_lookup_hits:
  assumes "cache_reachable lib limits p" "\<And>r. 0 \<le> lib_size lib r"
  shows "\<exists>out q. StoreArrow s key token result metadata p = Some (out, q) \<and> (out = StoreStored \<longrightarrow>
    (\<exists>r l gen q'. result = Some r \<and> LookupArrow s key q =
       ((None, Some \<lparr>el_data = Some l, el_metadata = metadata\<rparr>, gen, True), q')
     \<and> gen = token \<and> pins (pl_heap q') l r \<and> (\<forall>x. \<not> pins (pl_heap q) l x)))"
proof -
  have ok: "pool_ok p" "within_limits p" "0 \<le> result_Bytes result (pl_heap p)"
    using cache_reachable_ok [OF assms] by (auto simp: cache_ok_def sizesD)
  show ?thesis using StoreArrow_cases [OF ok, of s key token metadata]
  proof (elim disjE exE conjE)
    fix skey st r l h e q
    assume c: "s = Some skey" "result = Some r" "pl_scopes p skey = Some st" "\<not> pl_closed p" "token = ss_generation st"
      and e: "e = stored_entry skey key r l metadata (entry_size key result metadata p)"
      and ret: "StoreArrow s key token result metadata p = Some (count_store StoreStored q)"
      and q: "pool_ok q" "shrinks (insert_entry e (p\<lparr>pl_heap := h\<rparr>)) q" "newest_fits (pl_nextElement p, e) q"
    let ?q = "snd (count_store StoreStored q)"
    have "(pl_nextElement p, e) \<in> set (pl_lru q)" using q(3) by (auto simp: newest_fits_def)
    then have ent: "pl_entries ?q (skey @ [NUL] @ key) = Some (pl_nextElement p, e)"
      using linked_okD(3) [OF pool_okD(3) [OF q(1)]] by (simp add: e stored_entry_def)
    have "\<exists>st'. pl_scopes (insert_entry e (p\<lparr>pl_heap := h\<rparr>)) skey = Some st' \<and> scope_ident st' = scope_ident st"
      using c(3) by (cases "pl_entries p (en_composite e)")
        (auto simp: insert_entry_def scope_ident_def e stored_entry_def split: option.splits)
    then obtain st' where st': "pl_scopes ?q skey = Some st'" "scope_ident st' = scope_ident st"
      using shrinksD(7) [OF q(2), of skey] by (auto simp: option.map_comp)
    have cl: "\<not> pl_closed ?q" using shrinksD(2) [OF q(2)] c(4) by (simp add: insert_entry_def)
    have okq: "pool_ok ?q" using q(1) by simp
    obtain l' h' where acq: "result_Acquire (Some r) (pl_heap ?q) = (Inr l', h')"
      by (rule lookup_entry [OF okq ent]) (auto simp: e stored_entry_def)
    have op: "\<not> ss_closed st'" using pool_okD(5) [OF okq st'(1)] by (simp add: scope_ok_def)
    have "LookupArrow s key ?q = ((None, Some \<lparr>el_data = Some l', el_metadata = metadata\<rparr>, token, True),
        ?q\<lparr>pl_heap := h', pl_lru := (pl_nextElement p, e) # filter (\<lambda>x. fst x \<noteq> pl_nextElement p) (pl_lru ?q)\<rparr>)"
      using c st' ent acq cl op by (simp add: LookupArrow_def e stored_entry_def scope_ident_def cloneMetadata_def)
    moreover have "pins h' l' r" "\<forall>x. \<not> pins (pl_heap ?q) l' x"
      using result_Acquire_ok(2,3) [OF pool_okD(1) [OF okq] acq] by auto
    ultimately show ?thesis using ret c(2) by (cases "count_store StoreStored q") (auto simp: count_store_def)
  qed (auto simp: count_store_def)
qed

theorem store_returns_and_lookup_hits_witness:
  "\<exists>l q'. LookupArrow (Some sample_key) ''a'' sample_stored = ((None, Some \<lparr>el_data = Some l, el_metadata = sample_md\<rparr>, 0, True), q')
     \<and> pins (pl_heap q') l 1"
  using store_returns_and_lookup_hits [OF sample_open_reachable sample_lib_sizes, of "Some sample_key" "''a''" 0 "Some 1" sample_md]
    sample_stored_eq by auto

subsection \<open>Scopes do not see each other's entries\<close>

definition nul_free :: "'r pool \<Rightarrow> bool" where
  "nul_free p \<longleftrightarrow> (\<forall>st\<in>ran (pl_scopes p). NUL \<notin> set (WorkspaceID (ss_id st)) \<and> NUL \<notin> set (RuntimeID (ss_id st)))"

lemma scopeKey_composite:
  assumes "scopeKey i @ [NUL] @ k = scopeKey j @ [NUL] @ k'"
    and "NUL \<notin> set (WorkspaceID i)" "NUL \<notin> set (RuntimeID i)" "NUL \<notin> set (WorkspaceID j)" "NUL \<notin> set (RuntimeID j)"
  shows "scopeKey i = scopeKey j \<and> k = k'"
proof -
  have "WorkspaceID i @ [NUL] @ (RuntimeID i @ [NUL] @ k) = WorkspaceID j @ [NUL] @ (RuntimeID j @ [NUL] @ k')"
    using assms(1) by (simp add: scopeKey_def)
  then have "WorkspaceID i = WorkspaceID j" "RuntimeID i @ [NUL] @ k = RuntimeID j @ [NUL] @ k'"
    using split_at_separator [OF _ assms(2,4)] by auto
  moreover from this(2) have "RuntimeID i = RuntimeID j" "k = k'"
    using split_at_separator [OF _ assms(3,5)] by auto
  ultimately show ?thesis by (simp add: scopeKey_def)
qed

lemma entry_isolated:
  assumes ok: "pool_ok p" and nf: "nul_free p" and st: "pl_scopes p k = Some st"
    and x: "x \<in> set (pl_lru p)" "en_composite (snd x) = k @ [NUL] @ key"
  shows "en_scope (snd x) = k \<and> en_key (snd x) = key"
proof -
  obtain sx where sx: "pl_scopes p (en_scope (snd x)) = Some sx"
    "en_composite (snd x) = en_scope (snd x) @ [NUL] @ en_key (snd x)"
    using pool_okD(4) [OF ok x(1)] by (auto simp: entry_ok_def)
  have keys: "en_scope (snd x) = scopeKey (ss_id sx)" "k = scopeKey (ss_id st)"
    using pool_okD(5) [OF ok sx(1)] pool_okD(5) [OF ok st] by (simp_all add: scope_ok_def)
  have "scopeKey (ss_id sx) @ [NUL] @ en_key (snd x) = scopeKey (ss_id st) @ [NUL] @ key"
    using x(2) sx(2) keys by simp
  moreover have "sx \<in> ran (pl_scopes p)" "st \<in> ran (pl_scopes p)" using sx(1) st by (auto intro: ranI)
  ultimately show ?thesis
    using scopeKey_composite nf keys unfolding nul_free_def by metis
qed

text \<open>
  C13. When the identifiers of the open scopes contain no NUL byte, a lookup through a scope's
  handle only ever returns an entry that was stored through that scope under that very key:
  a hit is on a linked entry whose scope and key are the ones asked for.
\<close>

theorem lookup_isolated:
  assumes "cache_reachable lib limits p" "\<And>r. 0 \<le> lib_size lib r" "nul_free p"
    and "LookupArrow (Some k) key p = ((err, Some el, gen, True), q)"
  shows "\<exists>x\<in>set (pl_lru p). en_scope (snd x) = k \<and> en_key (snd x) = key \<and> el_metadata el = en_metadata (snd x)
    \<and> (\<exists>l r. el_data el = Some l \<and> en_result (snd x) = Some r \<and> pins (pl_heap q) l r)"
proof -
  have ok: "pool_ok p" using cache_reachable_ok [OF assms(1,2)] by (simp add: cache_ok_def)
  from LookupArrow_cases [OF ok, of "Some k" key] obtain st x r l h where
    st: "pl_scopes p k = Some st" and x: "pl_entries p (k @ [NUL] @ key) = Some x" "x \<in> set (pl_lru p)" "en_result (snd x) = Some r"
    and acq: "result_Acquire (Some r) (pl_heap p) = (Inr l, h)"
    and lk: "LookupArrow (Some k) key p = ((None, Some \<lparr>el_data = Some l, el_metadata = cloneMetadata (en_metadata (snd x))\<rparr>,
              ss_generation st, True), p\<lparr>pl_heap := h, pl_lru := x # filter (\<lambda>y. fst y \<noteq> fst x) (pl_lru p)\<rparr>)"
    using assms(4) by auto
  have "en_composite (snd x) = k @ [NUL] @ key"
    using linked_okD(3) [OF pool_okD(3) [OF ok], of "k @ [NUL] @ key" x] x(1) by simp
  then have "en_scope (snd x) = k \<and> en_key (snd x) = key"
    by (rule entry_isolated [OF ok assms(3) st x(2)])
  moreover have "pins h l r" using result_Acquire_ok(2) [OF pool_okD(1) [OF ok] acq] by simp
  moreover have "el = \<lparr>el_data = Some l, el_metadata = cloneMetadata (en_metadata (snd x))\<rparr>" "pl_heap q = h"
    using lk assms(4) by auto
  ultimately show ?thesis using x by (intro bexI [of _ x]) (simp_all add: cloneMetadata_def)
qed

lemma sample_stored_lookup:
  "\<exists>el q. LookupArrow (Some sample_key) ''a'' sample_stored = ((None, Some el, 0, True), q)"
  "nul_free sample_stored" "pl_scopes sample_stored sample_key \<noteq> None"
proof -
  have ok: "pool_ok sample_open" "within_limits sample_open" "0 \<le> result_Bytes (Some 1) (pl_heap sample_open)"
    using cache_reachable_ok [OF sample_open_reachable sample_lib_sizes] by (auto simp: cache_ok_def sizesD)
  from StoreArrow_cases [OF ok, of "Some sample_key" "''a''" 0 sample_md]
  obtain l h e q where e: "e = stored_entry sample_key ''a'' 1 l sample_md (entry_size ''a'' (Some 1) sample_md sample_open)"
    and st: "StoreArrow (Some sample_key) ''a'' 0 (Some 1) sample_md sample_open = Some (count_store StoreStored q)"
    and q: "pool_ok q" "shrinks (insert_entry e (sample_open\<lparr>pl_heap := h\<rparr>)) q" "newest_fits (pl_nextElement sample_open, e) q"
    using sample_stored_eq by (auto simp: count_store_def)
  have qs: "sample_stored = snd (count_store StoreStored q)" using st by (simp add: sample_stored_def)
  let ?i = "insert_entry e (sample_open\<lparr>pl_heap := h\<rparr>)"
  have only: "pl_scopes ?i j = None" if "j \<noteq> sample_key" for j
    using that by (auto simp: insert_entry_def sample_open_facts e stored_entry_def sample_open_def New_pool_def Validate_limits_def
        sample_limits_def OpenScope_def Let_def sample_scope_def sample_key_def scopeKey_def)
  have mine: "map_option scope_ident (pl_scopes ?i sample_key) = Some (sample_scope, 0, False)"
    by (simp add: insert_entry_def sample_open_facts e stored_entry_def scope_ident_def)
  show "nul_free sample_stored"
    unfolding nul_free_def
  proof
    fix st
    assume "st \<in> ran (pl_scopes sample_stored)"
    then obtain j where j: "pl_scopes q j = Some st" by (auto simp: qs ran_def)
    then have "j = sample_key" using only shrinksD(7) [OF q(2), of j] by (cases "j = sample_key") auto
    then have "ss_id st = sample_scope" using j mine shrinksD(7) [OF q(2), of j] by (auto simp: scope_ident_def)
    then show "NUL \<notin> set (WorkspaceID (ss_id st)) \<and> NUL \<notin> set (RuntimeID (ss_id st))"
      by (simp add: sample_scope_def NUL_def)
  qed
  obtain s2 where s2: "pl_scopes q sample_key = Some s2" "scope_ident s2 = (sample_scope, 0, False)"
    using mine shrinksD(7) [OF q(2), of sample_key] by auto
  then show "pl_scopes sample_stored sample_key \<noteq> None" by (simp add: qs)
  have x: "(pl_nextElement sample_open, e) \<in> set (pl_lru q)" using q(3) by (auto simp: newest_fits_def)
  then have ent: "pl_entries q (sample_key @ [NUL] @ ''a'') = Some (pl_nextElement sample_open, e)"
    using linked_okD(3) [OF pool_okD(3) [OF q(1)], of "sample_key @ [NUL] @ ''a''"] by (simp add: e stored_entry_def)
  have cl: "\<not> pl_closed q" using shrinksD(2) [OF q(2)] by (simp add: insert_entry_def sample_open_facts)
  show "\<exists>el q. LookupArrow (Some sample_key) ''a'' sample_stored = ((None, Some el, 0, True), q)"
    by (rule lookup_entry [OF q(1) ent]) (use s2 ent cl in \<open>simp add: LookupArrow_def qs scope_ident_def\<close>)
qed

theorem lookup_isolated_witness:
  "\<exists>x\<in>set (pl_lru sample_stored). en_scope (snd x) = sample_key \<and> en_key (snd x) = ''a''"
  using sample_stored_lookup(1) lookup_isolated [OF sample_stored_reachable sample_lib_sizes sample_stored_lookup(2)] by blast



subsection \<open>Leases outlive the cache's own references\<close>

lemma shrinks_client_pins:
  "shrinks p q \<Longrightarrow> Some l \<notin> holds_of p \<Longrightarrow> pins (pl_heap q) l r \<longleftrightarrow> pins (pl_heap p) l r"
  using shrinksD(8) [of p q l r] by auto

lemma operation_client_pins:
  assumes "pool_operation p q" "cache_ok p" "Some l \<notin> holds_of p" "pins (pl_heap p) l r"
  shows "pins (pl_heap q) l r"
  using assms
proof (induction rule: pool_operation.induct)
  case (open_scope p i)
  then show ?case by (auto simp: OpenScope_def Let_def)
next
  case (lookup p s key)
  then have ok: "pool_ok p" by (simp add: cache_ok_def)
  from LookupArrow_cases [OF ok, of s key] lookup result_Acquire_ok(2) [OF pool_okD(1) [OF ok]] show ?case by auto
next
  case (store s key tok result md p out q)
  then have ok: "pool_ok p" "within_limits p" "0 \<le> result_Bytes result (pl_heap p)" by (auto simp: cache_ok_def sizesD)
  show ?case using StoreArrow_cases [OF ok, of s key tok md]
  proof (elim disjE exE conjE)
    fix skey r' l' h e q'
    assume acq: "result_Acquire (Some r') (pl_heap p) = (Inr l', h)" and sh: "shrinks (insert_entry e (p\<lparr>pl_heap := h\<rparr>)) q'"
      and eq: "StoreArrow s key tok result md p = Some (count_store StoreStored q')" and lk: "linkable e (p\<lparr>pl_heap := h\<rparr>)"
      and e: "e = stored_entry skey key r' l' md (entry_size key result md p)"
    note a = result_Acquire_ok [OF pool_okD(1) [OF ok(1)] acq]
    have ll: "l \<noteq> l'" using a(3) store.prems(3) by blast
    have okh: "pool_ok (p\<lparr>pl_heap := h\<rparr>)" by (rule acquire_heap_ok(1) [OF ok(1) acq])
    note sr = remove_key_props(2) [OF okh, of "en_composite e"]
    have "Some l \<notin> holds_of (p\<lparr>pl_heap := h\<rparr>)" using store.prems(2) by (simp add: holds_of_def)
    then have "pins (pl_heap (insert_entry e (p\<lparr>pl_heap := h\<rparr>))) l r"
      using shrinks_client_pins [OF sr] a(2) store.prems(3) by (simp add: insert_entry_def)
    moreover have "Some l \<notin> holds_of (insert_entry e (p\<lparr>pl_heap := h\<rparr>))"
      using shrinksD(9) [OF sr] store.prems(2) ll by (auto simp: insert_entry_def holds_of_def e stored_entry_def)
    ultimately have "pins (pl_heap q') l r" using shrinks_client_pins [OF sh] by simp
    then show ?thesis using eq store.hyps by (metis count_store_fields(3) option.inject snd_conv)
  qed (use store in \<open>auto simp: count_store_def\<close>)
next
  case (delete p s key)
  then have "shrinks p (Delete_entry s key p)" by (simp add: cache_ok_def Delete_entry_props)
  then show ?case using shrinks_client_pins delete.prems by blast
next
  case (invalidate order s p)
  then have "shrinks p (remove_composites order p)" using remove_composites_props by (auto simp: cache_ok_def)
  then show ?case using shrinks_client_pins invalidate.prems by (fastforce simp: Invalidate_def Let_def split: option.split)
next
  case (close_scope order s p)
  then have "shrinks p (remove_composites order p)" using remove_composites_props by (auto simp: cache_ok_def)
  then show ?case using shrinks_client_pins close_scope.prems by (fastforce simp: scope_Close_def Let_def split: option.split)
next
  case (close_pool p)
  then have ok: "pool_ok p" by (simp add: cache_ok_def)
  have heap: "pl_heap (fold (\<lambda>x. removeLocked None (Some x)) xs (p\<lparr>pl_closed := c\<rparr>)) = pl_heap (fold (\<lambda>x. removeLocked None (Some x)) xs p)" for xs p c
  proof (induction xs arbitrary: p)
    case (Cons x xs)
    have "removeLocked None (Some x) (p\<lparr>pl_closed := c\<rparr>) = (removeLocked None (Some x) p)\<lparr>pl_closed := c\<rparr>"
      by (cases x) (simp add: removeLocked_def Let_def add_workspace_def workspaceLocked_def split: option.split)
    then show ?case using Cons by simp
  qed simp
  have "distinct (rev (pl_lru p))" using linked_okD(1) [OF pool_okD(3) [OF ok]] by (simp add: distinct_map)
  then have "shrinks p (fold (\<lambda>x. removeLocked None (Some x)) (rev (pl_lru p)) p)"
    using fold_remove_props [OF ok, of "rev (pl_lru p)"] by simp
  then show ?case
    using shrinks_client_pins close_pool.prems by (fastforce simp: pool_Close_def Let_def heap)
qed

text \<open>
  No operation of the cache revokes a lease it or anyone else handed out: after any
  operation (a store that evicts, an invalidation, closing the scope or the whole pool) a lease
  that is not one of the cache's own holds still pins its result and shows the same schema,
  records and sizes.
\<close>

theorem cache_never_revokes_leases:
  assumes "cache_reachable lib limits p" "\<And>r. 0 \<le> lib_size lib r"
    and "pool_operation p q" "pins (pl_heap p) l r" "Some l \<notin> holds_of p"
  shows "pins (pl_heap q) l r
    \<and> map_option result_view (lease_result (Some l) (pl_heap q)) = map_option result_view (lease_result (Some l) (pl_heap p))"
proof -
  have ok: "cache_ok p" by (rule cache_reachable_ok [OF assms(1,2)])
  then have h: "arrow_ok (pl_heap p)" using pool_okD(1) by (auto simp: cache_ok_def)
  have "pins (pl_heap q) l r" by (rule operation_client_pins [OF assms(3) ok assms(5,4)])
  moreover have "l < ah_next (pl_heap p)"
    using arrow_invD(1) [OF h, of l] assms(4) by (cases "l < ah_next (pl_heap p)") (auto simp: pins_def)
  ultimately show ?thesis
    using lease_view_steps [OF operation_path [OF assms(3) ok, of lib] h] by blast
qed

theorem cache_never_revokes_leases_witness: "pins (pl_heap (pool_Close sample_open)) 2 1"
proof -
  have "pins (pl_heap sample_open) 2 1" "Some 2 \<notin> holds_of sample_open"
    by (simp_all add: sample_open_facts holds_of_def sample_heap_eval pins_def)
  then show ?thesis
    using cache_never_revokes_leases [OF sample_open_reachable sample_lib_sizes pool_operation.close_pool] by blast
qed

end
