(* ===== verification/Result_Flights.thy ===== *)
theory Result_Flights
  imports Result_Cache_Theorems
begin

text \<open>
  Coalesced executions (\<open>CoalesceArrow\<close>, \<open>joinArrowFlight\<close> and \<open>leaveArrowFlight\<close> of
  \<open>resultcache/pool.go\<close>). A flight is an object of \<open>pl_flights\<close>; \<open>pl_arrowFlights\<close> maps a key to
  its running flight. The goroutine that runs \<open>execute\<close> is the operation \<open>complete_flight\<close>,
  applied to the value and error \<open>execute\<close> returned and to the owner's context error. A
  caller's turn of the loop in \<open>CoalesceArrow\<close> is \<open>joinArrowFlight\<close>, then \<open>leaveArrowFlight\<close>
  when its context ends first, or \<open>receive_flight\<close> when the flight is done. In an execution the
  list \<open>regs\<close> has one occurrence of a flight for every caller between joining and leaving.
\<close>

section \<open>Operations\<close>

record flight_value =
  fv_data :: "nat option"
  fv_metadata :: cache_metadata
  fv_cached :: bool

record flight_lease =
  fle_data :: nat
  fle_metadata :: cache_metadata
  fle_cached :: bool

datatype receive_outcome =
    Retry
  | Failed cache_error bool bool
  | Shared flight_lease bool bool

definition no_metadata :: cache_metadata where
  "no_metadata = \<lparr>md_SQL = [], md_TotalRows = 0, md_TotalRowsKnown = False, md_Warnings = []\<rparr>"

definition new_flight :: arrow_flight where
  "new_flight = \<lparr>fl_waiters = 1, fl_shared = False, fl_complete = False, fl_data = None,
     fl_metadata = no_metadata, fl_cached = False, fl_err = None\<rparr>"

definition joinArrowFlight :: "string \<Rightarrow> 'r pool \<Rightarrow> (nat \<times> bool) \<times> 'r pool" where
  "joinArrowFlight key p =
    (case pl_arrowFlights p key of
       Some f \<Rightarrow> ((f, False), p\<lparr>pl_flights := (pl_flights p)(f := map_option
          (\<lambda>fl. fl\<lparr>fl_waiters := fl_waiters fl + 1, fl_shared := True\<rparr>) (pl_flights p f))\<rparr>)
     | None \<Rightarrow>
         ((pl_nextFlight p, True), p\<lparr>pl_nextFlight := Suc (pl_nextFlight p),
            pl_flights := (pl_flights p)(pl_nextFlight p \<mapsto> new_flight),
            pl_arrowFlights := (pl_arrowFlights p)(key \<mapsto> pl_nextFlight p)\<rparr>))"

definition complete_flight ::
  "string \<Rightarrow> nat \<Rightarrow> flight_value \<Rightarrow> cache_error option \<Rightarrow> string option \<Rightarrow> 'r pool \<Rightarrow> 'r pool" where
  "complete_flight key f v err ownerErr p =
    (case pl_flights p f of
       None \<Rightarrow> p
     | Some fl \<Rightarrow>
         let err = (case ownerErr of Some e \<Rightarrow> Some (OwnerCanceled e) | None \<Rightarrow> err);
             release = (fl_waiters fl = 0 \<and> fv_data v \<noteq> None);
             fl = fl\<lparr>fl_data := (if release then None else fv_data v), fl_metadata := fv_metadata v,
                     fl_cached := fv_cached v, fl_err := err, fl_complete := True\<rparr>;
             p = p\<lparr>pl_flights := (pl_flights p)(f \<mapsto> fl), pl_arrowFlights := (pl_arrowFlights p)(key := None)\<rparr> in
         if release then p\<lparr>pl_heap := lease_Release (fv_data v) (pl_heap p)\<rparr> else p)"

definition leaveArrowFlight :: "nat option \<Rightarrow> 'r pool \<Rightarrow> 'r pool" where
  "leaveArrowFlight fo p =
    (case Option.bind fo (pl_flights p) of
       None \<Rightarrow> p
     | Some fl \<Rightarrow>
         let waiters = fl_waiters fl - 1;
             release = (waiters = 0 \<and> fl_complete fl \<and> fl_data fl \<noteq> None);
             p = p\<lparr>pl_flights := (pl_flights p)(the fo \<mapsto> fl\<lparr>fl_waiters := waiters,
                     fl_data := (if release then None else fl_data fl)\<rparr>)\<rparr> in
         if release then p\<lparr>pl_heap := lease_Release (fl_data fl) (pl_heap p)\<rparr> else p)"

text \<open>What a caller does once the flight is done: read it, acquire its own lease, leave.\<close>

definition receive_flight :: "nat \<Rightarrow> bool \<Rightarrow> string option \<Rightarrow> 'r pool \<Rightarrow> receive_outcome \<times> 'r pool" where
  "receive_flight f owner ctxErr p =
    (case pl_flights p f of
       None \<Rightarrow> (Failed NoFlightData owner False, p)
     | Some fl \<Rightarrow>
         (case fl_err fl of
            Some e \<Rightarrow>
              let p = leaveArrowFlight (Some f) p in
              (if ctxErr = None \<and> (case e of OwnerCanceled _ \<Rightarrow> True | _ \<Rightarrow> False) then Retry
               else Failed e owner (fl_shared fl), p)
          | None \<Rightarrow>
              (case fl_data fl of
                 None \<Rightarrow> (Failed NoFlightData owner (fl_shared fl), leaveArrowFlight (Some f) p)
               | Some d \<Rightarrow>
                   (case lease_Acquire (Some d) (pl_heap p) of
                      (Inl e, h) \<Rightarrow> (Failed (ResultError e) owner (fl_shared fl), leaveArrowFlight (Some f) (p\<lparr>pl_heap := h\<rparr>))
                    | (Inr l, h) \<Rightarrow>
                        (Shared \<lparr>fle_data = l, fle_metadata = cloneMetadata (fl_metadata fl), fle_cached = fl_cached fl\<rparr>
                           owner (fl_shared fl),
                         leaveArrowFlight (Some f) (p\<lparr>pl_heap := h\<rparr>))))))"

section \<open>Executions of callers\<close>

definition flight_data :: "'r pool \<Rightarrow> nat set" where
  "flight_data p = {d. \<exists>f fl. pl_flights p f = Some fl \<and> fl_data fl = Some d}"

inductive flight_step :: "'r pool \<times> nat list \<Rightarrow> 'r pool \<times> nat list \<Rightarrow> bool" where
  join: "joinArrowFlight key p = ((f, owner), q) \<Longrightarrow> flight_step (p, regs) (q, f # regs)"
| complete: "pl_arrowFlights p key = Some f \<Longrightarrow>
    (\<And>d. fv_data v = Some d \<Longrightarrow> (\<exists>r. pins (pl_heap p) d r) \<and> d \<notin> flight_data p) \<Longrightarrow>
    flight_step (p, regs) (complete_flight key f v err ownerErr p, regs)"
| cancel: "f \<in> set regs \<Longrightarrow> flight_step (p, regs) (leaveArrowFlight (Some f) p, remove1 f regs)"
| receive: "f \<in> set regs \<Longrightarrow> pl_flights p f = Some fl \<Longrightarrow> fl_complete fl \<Longrightarrow>
    flight_step (p, regs) (snd (receive_flight f owner ctxErr p), remove1 f regs)"
| other: "arrow_ok h \<Longrightarrow> (\<And>d r. d \<in> flight_data p \<Longrightarrow> pins (pl_heap p) d r \<Longrightarrow> pins h d r) \<Longrightarrow>
    flight_step (p, regs) (p\<lparr>pl_heap := h\<rparr>, regs)"

definition flight_ok :: "'r pool \<Rightarrow> nat list \<Rightarrow> nat \<Rightarrow> arrow_flight \<Rightarrow> bool" where
  "flight_ok p regs f fl \<longleftrightarrow> f < pl_nextFlight p \<and> fl_waiters fl = int (count_list regs f)
     \<and> (fl_complete fl \<longleftrightarrow> (\<forall>key. pl_arrowFlights p key \<noteq> Some f))
     \<and> (\<forall>d. fl_data fl = Some d \<longrightarrow> fl_complete fl \<and> 0 < fl_waiters fl \<and> (\<exists>r. pins (pl_heap p) d r))"

definition flights_ok :: "'r pool \<Rightarrow> nat list \<Rightarrow> bool" where
  "flights_ok p regs \<longleftrightarrow> arrow_ok (pl_heap p) \<and> set regs \<subseteq> dom (pl_flights p)
     \<and> (\<forall>key f. pl_arrowFlights p key = Some f \<longrightarrow> f \<in> dom (pl_flights p))
     \<and> (\<forall>k k' f. pl_arrowFlights p k = Some f \<longrightarrow> pl_arrowFlights p k' = Some f \<longrightarrow> k = k')
     \<and> (\<forall>f fl. pl_flights p f = Some fl \<longrightarrow> flight_ok p regs f fl)
     \<and> (\<forall>f fl f' fl' d. pl_flights p f = Some fl \<longrightarrow> pl_flights p f' = Some fl' \<longrightarrow>
          fl_data fl = Some d \<longrightarrow> fl_data fl' = Some d \<longrightarrow> f = f')"

lemma flights_okD:
  assumes "flights_ok p regs"
  shows "arrow_ok (pl_heap p)" "f \<in> set regs \<Longrightarrow> \<exists>fl. pl_flights p f = Some fl"
    and "pl_arrowFlights p key = Some f \<Longrightarrow> \<exists>fl. pl_flights p f = Some fl"
    and "pl_arrowFlights p k = Some f \<Longrightarrow> pl_arrowFlights p k' = Some f \<Longrightarrow> k = k'"
    and "pl_flights p f = Some fl \<Longrightarrow> flight_ok p regs f fl"
    and "pl_flights p f = Some fl \<Longrightarrow> pl_flights p f' = Some fl' \<Longrightarrow> fl_data fl = Some d \<Longrightarrow> fl_data fl' = Some d \<Longrightarrow> f = f'"
  using assms unfolding flights_ok_def by blast+

lemma join_ok:
  assumes ok: "flights_ok p regs" and j: "joinArrowFlight key p = ((f, owner), q)"
  shows "flights_ok q (f # regs)"
proof (cases "pl_arrowFlights p key")
  case None
  have nf: "pl_flights p (pl_nextFlight p) = None"
    using flights_okD(5) [OF ok, of "pl_nextFlight p"] by (cases "pl_flights p (pl_nextFlight p)") (auto simp: flight_ok_def)
  then have fresh: "pl_arrowFlights p k \<noteq> Some (pl_nextFlight p)" "pl_nextFlight p \<notin> set regs" for k
    using flights_okD(2,3) [OF ok] by fastforce+
  have q: "f = pl_nextFlight p" "q = p\<lparr>pl_nextFlight := Suc (pl_nextFlight p),
      pl_flights := (pl_flights p)(pl_nextFlight p \<mapsto> new_flight), pl_arrowFlights := (pl_arrowFlights p)(key \<mapsto> pl_nextFlight p)\<rparr>"
    using j None by (auto simp: joinArrowFlight_def)
  have "flight_ok q (f # regs) g fl" if "pl_flights q g = Some fl" for g fl
  proof (cases "g = f")
    case True
    then show ?thesis using that fresh by (auto simp: q flight_ok_def new_flight_def count_list_0_iff)
  next
    case False
    then have g: "pl_flights p g = Some fl" using that by (simp add: q)
    have "(\<forall>k. pl_arrowFlights q k \<noteq> Some g) \<longleftrightarrow> (\<forall>k. pl_arrowFlights p k \<noteq> Some g)"
      using False None by (simp add: q) (metis option.distinct(1))
    then show ?thesis using flights_okD(5) [OF ok g] False unfolding flight_ok_def by (auto simp: q)
  qed
  moreover have "g = g'" if "pl_flights q g = Some fl" "pl_flights q g' = Some fl'" "fl_data fl = Some d" "fl_data fl' = Some d" for g g' fl fl' d
    using that flights_okD(6) [OF ok, of g fl g' fl' d] by (auto simp: q new_flight_def split: if_splits)
  moreover have "arrow_ok (pl_heap q)" "set (f # regs) \<subseteq> dom (pl_flights q)"
    using flights_okD(1,2) [OF ok] by (auto simp: q)
  moreover have "g \<in> dom (pl_flights q)" if "pl_arrowFlights q k = Some g" for k g
    using that flights_okD(3) [OF ok, of k g] by (auto simp: q split: if_splits)
  moreover have "k = k'" if "pl_arrowFlights q k = Some g" "pl_arrowFlights q k' = Some g" for k k' g
    using that flights_okD(4) [OF ok, of k g k'] fresh(1) by (auto simp: q split: if_splits)
  ultimately show ?thesis
    unfolding flights_ok_def by (intro conjI allI impI) blast+
next
  case (Some f0)
  then obtain fl0 where fl0: "pl_flights p f0 = Some fl0" using flights_okD(3) [OF ok] by blast
  let ?fl = "fl0\<lparr>fl_waiters := fl_waiters fl0 + 1, fl_shared := True\<rparr>"
  have q: "f = f0" "q = p\<lparr>pl_flights := (pl_flights p)(f0 \<mapsto> ?fl)\<rparr>"
    using j Some fl0 by (auto simp: joinArrowFlight_def)
  have "flight_ok q (f # regs) g fl" if "pl_flights q g = Some fl" for g fl
    using that flights_okD(5) [OF ok, of g] fl0 by (cases "g = f0") (auto simp: q flight_ok_def)
  moreover have "g = g'" if "pl_flights q g = Some fl" "pl_flights q g' = Some fl'" "fl_data fl = Some d" "fl_data fl' = Some d" for g g' fl fl' d
    using that flights_okD(6) [OF ok fl0, of g' fl' d] flights_okD(6) [OF ok _ fl0, of g fl d] flights_okD(6) [OF ok, of g fl g' fl' d]
    by (auto simp: q split: if_splits)
  moreover have "arrow_ok (pl_heap q)" "set (f # regs) \<subseteq> dom (pl_flights q)"
    using flights_okD(1,2) [OF ok] by (auto simp: q)
  moreover have "g \<in> dom (pl_flights q)" if "pl_arrowFlights q k = Some g" for k g
    using that flights_okD(3) [OF ok, of k g] by (auto simp: q)
  moreover have "k = k'" if "pl_arrowFlights q k = Some g" "pl_arrowFlights q k' = Some g" for k k' g
    using that flights_okD(4) [OF ok, of k g k'] by (simp add: q)
  ultimately show ?thesis
    unfolding flights_ok_def by (intro conjI allI impI) blast+
qed

text \<open>The effect of dropping a flight's reference, by its last waiter or by the completion.\<close>

lemma flight_update_ok:
  assumes ok: "flights_ok p regs" and fl: "pl_flights p f = Some fl" and f': "flight_ok q regs' f fl'"
    and q: "pl_flights q = (pl_flights p)(f \<mapsto> fl')" "pl_nextFlight q = pl_nextFlight p"
    and keys: "\<And>k g. g \<noteq> f \<Longrightarrow> pl_arrowFlights q k = Some g \<longleftrightarrow> pl_arrowFlights p k = Some g"
      "\<And>k. pl_arrowFlights q k = Some f \<Longrightarrow> pl_arrowFlights p k = Some f"
    and regs: "\<And>g. g \<noteq> f \<Longrightarrow> count_list regs' g = count_list regs g"
    and heap: "arrow_ok (pl_heap q)"
      "\<And>g gl d r. g \<noteq> f \<Longrightarrow> pl_flights p g = Some gl \<Longrightarrow> fl_data gl = Some d \<Longrightarrow> pins (pl_heap p) d r \<Longrightarrow> pins (pl_heap q) d r"
    and data: "\<And>d g gl. fl_data fl' = Some d \<Longrightarrow> g \<noteq> f \<Longrightarrow> pl_flights p g = Some gl \<Longrightarrow> fl_data gl \<noteq> Some d"
  shows "flights_ok q regs'"
proof -
  have others: "flight_ok q regs' g gl" if g: "g \<noteq> f" "pl_flights p g = Some gl" for g gl
    using flights_okD(5) [OF ok g(2)] keys(1) [OF g(1)] regs [OF g(1)] heap(2) [OF g] unfolding flight_ok_def q(2) by metis
  have sub: "g \<in> dom (pl_flights q)" if "g \<in> set regs'" for g
    using that regs [of g] flights_okD(2) [OF ok, of g] count_list_0_iff [of regs' g] count_list_0_iff [of regs g]
    by (cases "g = f") (auto simp: q)
  have "pl_arrowFlights q k = Some g \<Longrightarrow> pl_arrowFlights p k = Some g" for k g
    using keys by (cases "g = f") auto
  moreover have "g = g'" if "pl_flights q g = Some gl" "pl_flights q g' = Some gl'" "fl_data gl = Some d" "fl_data gl' = Some d" for g g' gl gl' d
    using that flights_okD(6) [OF ok, of g gl g' gl' d] data [of d g gl] data [of d g' gl'] by (auto simp: q split: if_splits)
  moreover have "flight_ok q regs' g gl" if "pl_flights q g = Some gl" for g gl
    using that others f' by (cases "g = f") (auto simp: q)
  moreover have "k = k'" if "pl_arrowFlights q k = Some g" "pl_arrowFlights q k' = Some g" for k k' g
    using that calculation(1) flights_okD(4) [OF ok] by blast
  moreover have "g \<in> dom (pl_flights q)" if "pl_arrowFlights q k = Some g" for k g
    using flights_okD(3) [OF ok calculation(1) [OF that]] by (auto simp: q(1))
  ultimately show ?thesis
    using heap(1) sub unfolding flights_ok_def by (intro conjI subsetI allI impI) blast+
qed

lemma other_data_pins:
  assumes ok: "flights_ok p regs" and fl: "pl_flights p f = Some fl" "fl_data fl = Some d"
    and g: "g \<noteq> f" "pl_flights p g = Some gl" "fl_data gl = Some e" "pins (pl_heap p) e r"
  shows "pins (lease_Release (Some d) (pl_heap p)) e r"
  using flights_okD(6) [OF ok fl(1) g(2) fl(2)] g by (auto simp: flights_okD(1) [OF ok])

lemma leave_ok:
  assumes ok: "flights_ok p regs" and f: "f \<in> set regs"
  shows "flights_ok (leaveArrowFlight (Some f) p) (remove1 f regs)"
proof -
  obtain fl where fl: "pl_flights p f = Some fl" using flights_okD(2) [OF ok f] by blast
  note fok = flights_okD(5) [OF ok fl]
  have cnt: "count_list (remove1 f regs) g = count_list regs g - (if g = f then 1 else 0)" for g
    by (induction regs) auto
  have pos: "0 < count_list regs f" using f count_list_0_iff [of regs f] by auto
  let ?q = "leaveArrowFlight (Some f) p"
  define fl' where "fl' = fl\<lparr>fl_waiters := fl_waiters fl - 1,
    fl_data := (if fl_waiters fl - 1 = 0 \<and> fl_complete fl \<and> fl_data fl \<noteq> None then None else fl_data fl)\<rparr>"
  have q: "pl_flights ?q = (pl_flights p)(f \<mapsto> fl')" "pl_nextFlight ?q = pl_nextFlight p" "pl_arrowFlights ?q = pl_arrowFlights p"
    using fl by (simp_all add: leaveArrowFlight_def Let_def fl'_def)
  have heap: "pl_heap ?q = (if fl_waiters fl - 1 = 0 \<and> fl_complete fl \<and> fl_data fl \<noteq> None
      then lease_Release (fl_data fl) (pl_heap p) else pl_heap p)"
    using fl by (auto simp: leaveArrowFlight_def Let_def)
  have "flight_ok ?q (remove1 f regs) f fl'"
    using fok pos unfolding flight_ok_def q heap by (auto simp: fl'_def cnt of_nat_diff)
  then show ?thesis
  proof (rule flight_update_ok [OF ok fl])
    show "arrow_ok (pl_heap ?q)" using flights_okD(1) [OF ok] by (auto simp: heap lease_Release_ok)
    show "pins (pl_heap ?q) d r" if "g \<noteq> f" "pl_flights p g = Some gl" "fl_data gl = Some d" "pins (pl_heap p) d r" for g gl d r
      using that other_data_pins [OF ok fl _ that] by (auto simp: heap)
    show "fl_data gl \<noteq> Some d" if "fl_data fl' = Some d" "g \<noteq> f" "pl_flights p g = Some gl" for d g gl
      using that flights_okD(6) [OF ok fl that(3)] by (auto simp: fl'_def split: if_splits)
  qed (simp_all add: q cnt)
qed

lemma complete_ok:
  assumes ok: "flights_ok p regs" and key: "pl_arrowFlights p key = Some f"
    and v: "\<And>d. fv_data v = Some d \<Longrightarrow> (\<exists>r. pins (pl_heap p) d r) \<and> d \<notin> flight_data p"
  shows "flights_ok (complete_flight key f v err ownerErr p) regs"
proof -
  obtain fl where fl: "pl_flights p f = Some fl" using flights_okD(3) [OF ok key] by blast
  note fok = flights_okD(5) [OF ok fl]
  let ?q = "complete_flight key f v err ownerErr p"
  let ?rel = "fl_waiters fl = 0 \<and> fv_data v \<noteq> None"
  define fl' where "fl' = fl\<lparr>fl_data := (if ?rel then None else fv_data v), fl_metadata := fv_metadata v,
    fl_cached := fv_cached v, fl_err := (case ownerErr of Some e \<Rightarrow> Some (OwnerCanceled e) | None \<Rightarrow> err), fl_complete := True\<rparr>"
  have q: "pl_flights ?q = (pl_flights p)(f \<mapsto> fl')" "pl_nextFlight ?q = pl_nextFlight p"
    "pl_arrowFlights ?q = (pl_arrowFlights p)(key := None)"
    "pl_heap ?q = (if ?rel then lease_Release (fv_data v) (pl_heap p) else pl_heap p)"
    using fl by (auto simp: complete_flight_def Let_def fl'_def)
  have only: "pl_arrowFlights ?q k \<noteq> Some f" for k
    using flights_okD(4) [OF ok key] by (auto simp: q)
  have nonneg: "0 \<le> fl_waiters fl" using fok by (simp add: flight_ok_def)
  have "flight_ok ?q regs f fl'"
    using fok v nonneg only unfolding flight_ok_def q(2,4) by (auto simp: fl'_def)
  then show ?thesis
  proof (rule flight_update_ok [OF ok fl])
    show "arrow_ok (pl_heap ?q)" using flights_okD(1) [OF ok] by (simp add: q lease_Release_ok)
    show "pins (pl_heap ?q) d r" if "g \<noteq> f" "pl_flights p g = Some gl" "fl_data gl = Some d" "pins (pl_heap p) d r" for g gl d r
      using that v flights_okD(1) [OF ok] by (cases "fv_data v") (auto simp: q flight_data_def)
    show "fl_data gl \<noteq> Some d" if "fl_data fl' = Some d" "g \<noteq> f" "pl_flights p g = Some gl" for d g gl
      using that v [of d] by (auto simp: fl'_def flight_data_def split: if_splits)
    show "pl_arrowFlights ?q k = Some f \<Longrightarrow> pl_arrowFlights p k = Some f" for k using only by blast
    show "pl_arrowFlights ?q k = Some g \<longleftrightarrow> pl_arrowFlights p k = Some g" if "g \<noteq> f" for k g
      using key that by (auto simp: q)
  qed (simp_all add: q)
qed

lemma heap_ok_flights:
  assumes ok: "flights_ok p regs" and h: "arrow_ok h" "\<And>d r. d \<in> flight_data p \<Longrightarrow> pins (pl_heap p) d r \<Longrightarrow> pins h d r"
  shows "flights_ok (p\<lparr>pl_heap := h\<rparr>) regs"
proof -
  have "flight_ok (p\<lparr>pl_heap := h\<rparr>) regs f fl" if "pl_flights p f = Some fl" for f fl
    using flights_okD(5) [OF ok that] h(2) that by (fastforce simp: flight_ok_def flight_data_def)
  then show ?thesis
    using flights_okD(2,3,4,6) [OF ok] h(1) unfolding flights_ok_def by (simp add: subset_iff domIff)
qed

lemma lease_Acquire_props:
  assumes ok: "arrow_ok h" and acq: "lease_Acquire (Some d) h = (Inr l, h')" and d: "pins h d r"
  shows "arrow_ok h'" "pins h' l' x \<longleftrightarrow> l' = l \<and> x = r \<or> pins h l' x" "\<not> pins h l x"
proof -
  have "result_Acquire (Some r) h = (Inr l, h')"
    using acq d by (auto simp: lease_Acquire_def pins_def)
  from result_Acquire_ok [OF ok this] show "arrow_ok h'" "pins h' l' x \<longleftrightarrow> l' = l \<and> x = r \<or> pins h l' x" "\<not> pins h l x" .
qed

lemma lease_Acquire_pinned: "arrow_ok h \<Longrightarrow> pins h d r \<Longrightarrow> \<exists>l h'. lease_Acquire (Some d) h = (Inr l, h')"
  using arrow.acquire_pinned [of h d r] by (auto simp: lease_Acquire_def pins_def)

lemma receive_shape:
  assumes ok: "flights_ok p regs" and fl: "pl_flights p f = Some fl"
  shows "\<exists>out h. receive_flight f owner ctxErr p = (out, leaveArrowFlight (Some f) (p\<lparr>pl_heap := h\<rparr>))
    \<and> arrow_ok h \<and> (\<forall>d r. pins (pl_heap p) d r \<longrightarrow> pins h d r)
    \<and> (\<forall>d r. fl_err fl = None \<longrightarrow> fl_data fl = Some d \<longrightarrow> pins (pl_heap p) d r \<longrightarrow>
        (\<exists>l. out = Shared \<lparr>fle_data = l, fle_metadata = fl_metadata fl, fle_cached = fl_cached fl\<rparr> owner (fl_shared fl)
          \<and> pins h l r \<and> (\<forall>x. \<not> pins (pl_heap p) l x)))"
proof (cases "\<exists>d. fl_err fl = None \<and> fl_data fl = Some d")
  case True
  then obtain d where d: "fl_err fl = None" "fl_data fl = Some d" by blast
  have aok: "arrow_ok (pl_heap p)" by (rule flights_okD(1) [OF ok])
  obtain r where r: "pins (pl_heap p) d r"
    using flights_okD(5) [OF ok fl] d by (auto simp: flight_ok_def)
  obtain l h where acq: "lease_Acquire (Some d) (pl_heap p) = (Inr l, h)"
    using lease_Acquire_pinned [OF aok r] by blast
  note a = lease_Acquire_props [OF aok acq r]
  have "receive_flight f owner ctxErr p = (Shared \<lparr>fle_data = l, fle_metadata = fl_metadata fl, fle_cached = fl_cached fl\<rparr>
      owner (fl_shared fl), leaveArrowFlight (Some f) (p\<lparr>pl_heap := h\<rparr>))"
    using fl d acq by (simp add: receive_flight_def cloneMetadata_def)
  moreover have "r' = r" if "pins (pl_heap p) d r'" for r' using pins_unique [OF that r] .
  ultimately show ?thesis using a d by auto
next
  case False
  have "p\<lparr>pl_heap := pl_heap p\<rparr> = p" by simp
  then show ?thesis
    using False fl flights_okD(1) [OF ok]
    by (auto simp: receive_flight_def Let_def split: option.split intro!: exI [of _ "pl_heap p"])
qed

lemma receive_ok:
  assumes ok: "flights_ok p regs" and f: "f \<in> set regs"
  shows "flights_ok (snd (receive_flight f owner ctxErr p)) (remove1 f regs)"
proof -
  obtain fl where fl: "pl_flights p f = Some fl" using flights_okD(2) [OF ok f] by blast
  from receive_shape [OF ok fl, of owner ctxErr] obtain out h where
    q: "receive_flight f owner ctxErr p = (out, leaveArrowFlight (Some f) (p\<lparr>pl_heap := h\<rparr>))" "arrow_ok h"
    "\<forall>d r. pins (pl_heap p) d r \<longrightarrow> pins h d r" by metis
  have "flights_ok (p\<lparr>pl_heap := h\<rparr>) regs" by (rule heap_ok_flights [OF ok q(2)]) (use q(3) in blast)
  from leave_ok [OF this f] q(1) show ?thesis by simp
qed

lemma flight_step_ok:
  "flight_step s t \<Longrightarrow> flights_ok (fst s) (snd s) \<Longrightarrow> flights_ok (fst t) (snd t)"
proof (induction rule: flight_step.induct)
  case (join key p f owner q regs)
  then show ?case by (auto intro: join_ok)
next
  case (complete p key f v regs err ownerErr)
  then show ?case by (auto intro!: complete_ok)
next
  case (cancel f regs p)
  then show ?case by (auto intro: leave_ok)
next
  case (receive f regs p fl owner ctxErr)
  then show ?case by (auto intro: receive_ok)
next
  case (other h p regs)
  then show ?case by (auto intro: heap_ok_flights)
qed

definition flight_reachable :: "'r pool \<Rightarrow> nat list \<Rightarrow> bool" where
  "flight_reachable p regs \<longleftrightarrow> (\<exists>p0. arrow_ok (pl_heap p0) \<and> pl_arrowFlights p0 = Map.empty
     \<and> pl_flights p0 = Map.empty \<and> flight_step\<^sup>*\<^sup>* (p0, []) (p, regs))"

lemma flight_reachable_ok: "flight_reachable p regs \<Longrightarrow> flights_ok p regs"
proof -
  assume "flight_reachable p regs"
  then obtain p0 where p0: "arrow_ok (pl_heap p0)" "pl_arrowFlights p0 = Map.empty" "pl_flights p0 = Map.empty"
    and st: "flight_step\<^sup>*\<^sup>* (p0, []) (p, regs)" by (auto simp: flight_reachable_def)
  have "flights_ok p0 []" using p0 by (simp add: flights_ok_def)
  with st have "flights_ok (fst (p, regs)) (snd (p, regs))"
    by (induction rule: rtranclp_induct) (auto intro: flight_step_ok)
  then show ?thesis by simp
qed

subsection \<open>A finished flight keeps its value for its waiters\<close>

definition delivers :: "nat \<Rightarrow> 'r pool \<Rightarrow> nat \<Rightarrow> cache_metadata \<Rightarrow> bool \<Rightarrow> cache_error option \<Rightarrow> bool" where
  "delivers f p d md c err \<longleftrightarrow> (\<exists>fl. pl_flights p f = Some fl \<and> fl_complete fl \<and> fl_data fl = Some d
     \<and> fl_metadata fl = md \<and> fl_cached fl = c \<and> fl_err fl = err)"

lemma delivers_heap [simp]: "delivers f (p\<lparr>pl_heap := h\<rparr>) d md c err = delivers f p d md c err"
  by (simp add: delivers_def)

lemma leave_delivers:
  assumes "flights_ok p regs" "g \<in> set regs" "delivers f p d md c err" "f \<in> set (remove1 g regs)"
  shows "delivers f (leaveArrowFlight (Some g) p) d md c err"
proof -
  obtain fl where fl: "pl_flights p f = Some fl" "fl_complete fl" "fl_data fl = Some d" "fl_metadata fl = md" "fl_cached fl = c" "fl_err fl = err"
    using assms(3) by (auto simp: delivers_def)
  obtain gl where gl: "pl_flights p g = Some gl" using flights_okD(2) [OF assms(1,2)] by blast
  have "fl_waiters fl - 1 \<noteq> 0" if "g = f"
  proof -
    have "count_list (remove1 f regs) f = count_list regs f - 1" for regs :: "nat list"
      by (induction regs) auto
    moreover have "0 < count_list (remove1 f regs) f" using assms(4) that by (metis count_list_0_iff gr0I)
    ultimately have "1 < count_list regs f" by (metis zero_less_diff)
    then show ?thesis using flights_okD(5) [OF assms(1) fl(1)] by (simp add: flight_ok_def)
  qed
  then show ?thesis using fl gl by (cases "g = f") (auto simp: delivers_def leaveArrowFlight_def Let_def)
qed

lemma flight_step_delivers:
  assumes "flight_step s t" "flights_ok (fst s) (snd s)" "delivers f (fst s) d md c err" "f \<in> set (snd t)"
  shows "f \<in> set (snd s) \<and> delivers f (fst t) d md c err"
  using assms
proof (induction rule: flight_step.induct)
  case (join key p g owner q regs)
  then have ok: "flights_ok p regs" and del: "delivers f p d md c err" by auto
  obtain fl where fl: "pl_flights p f = Some fl" "fl_complete fl" using del by (auto simp: delivers_def)
  have "f < pl_nextFlight p" "\<forall>k. pl_arrowFlights p k \<noteq> Some f" using flights_okD(5) [OF ok fl(1)] fl(2) by (auto simp: flight_ok_def)
  then have "f \<noteq> g" "pl_flights q f = pl_flights p f" using join.hyps by (auto simp: joinArrowFlight_def split: option.splits)
  with join.prems del show ?case by (auto simp: delivers_def)
next
  case (complete p key g v regs e ownerErr)
  then have ok: "flights_ok p regs" and del: "delivers f p d md c err" by auto
  obtain fl where fl: "pl_flights p f = Some fl" "fl_complete fl" using del by (auto simp: delivers_def)
  have "g \<noteq> f" using flights_okD(5) [OF ok fl(1)] fl(2) complete.hyps(1) by (auto simp: flight_ok_def)
  then have "pl_flights (complete_flight key g v e ownerErr p) f = pl_flights p f"
    by (simp add: complete_flight_def Let_def split: option.split)
  with complete.prems del show ?case by (auto simp: delivers_def)
next
  case (cancel g regs p)
  then show ?case using leave_delivers [of p regs g f] notin_set_remove1 by fastforce
next
  case (receive g regs p gl owner ctxErr)
  then have ok: "flights_ok p regs" and del: "delivers f p d md c err" by auto
  obtain out h where q: "receive_flight g owner ctxErr p = (out, leaveArrowFlight (Some g) (p\<lparr>pl_heap := h\<rparr>))"
    "arrow_ok h" "\<forall>d r. pins (pl_heap p) d r \<longrightarrow> pins h d r"
    using receive_shape [OF ok receive.hyps(2), of owner ctxErr] by metis
  have "flights_ok (p\<lparr>pl_heap := h\<rparr>) regs" by (rule heap_ok_flights [OF ok q(2)]) (use q(3) in blast)
  from leave_delivers [OF this receive.hyps(1)] del receive.prems(3) q(1) show ?case
    using notin_set_remove1 by fastforce
qed (simp add: delivers_def)

definition finished :: "nat \<Rightarrow> 'r pool \<Rightarrow> bool" where
  "finished f p \<longleftrightarrow> (\<exists>fl. pl_flights p f = Some fl \<and> fl_complete fl)"

lemma leave_finished: "finished f p \<Longrightarrow> finished f (leaveArrowFlight g (p\<lparr>pl_heap := h\<rparr>))"
  by (auto simp: finished_def leaveArrowFlight_def Let_def split: option.split Option.bind_splits)

text \<open>A finished flight stays finished and gets no new callers.\<close>

lemma flight_step_finished:
  assumes "flight_step s t" "flights_ok (fst s) (snd s)" "finished f (fst s)"
  shows "finished f (fst t) \<and> (f \<in> set (snd t) \<longrightarrow> f \<in> set (snd s))"
  using assms
proof (induction rule: flight_step.induct)
  case (join key p g owner q regs)
  then obtain fl where fl: "pl_flights p f = Some fl" "fl_complete fl" and ok: "flights_ok p regs" by (auto simp: finished_def)
  have "f < pl_nextFlight p" "\<forall>k. pl_arrowFlights p k \<noteq> Some f" using flights_okD(5) [OF ok fl(1)] fl(2) by (auto simp: flight_ok_def)
  then have "f \<noteq> g" "pl_flights q f = pl_flights p f" using join.hyps by (auto simp: joinArrowFlight_def split: option.splits)
  with fl show ?case by (auto simp: finished_def)
next
  case (complete p key g v regs e ownerErr)
  then show ?case by (auto simp: finished_def complete_flight_def Let_def split: option.split)
next
  case (cancel g regs p)
  then show ?case using leave_finished [of f p "Some g" "pl_heap p"] notin_set_remove1 by fastforce
next
  case (receive g regs p gl owner ctxErr)
  then have ok: "flights_ok p regs" by simp
  obtain out h where "receive_flight g owner ctxErr p = (out, leaveArrowFlight (Some g) (p\<lparr>pl_heap := h\<rparr>))"
    using receive_shape [OF ok receive.hyps(2), of owner ctxErr] by metis
  then show ?case using leave_finished [of f p "Some g" h] receive.prems(2) notin_set_remove1 by fastforce
qed (simp add: finished_def)

lemma flight_steps_delivers:
  assumes "flight_step\<^sup>*\<^sup>* s t" "flights_ok (fst s) (snd s)" "delivers f (fst s) d md c err" "f \<in> set (snd t)"
  shows "delivers f (fst t) d md c err"
proof -
  have "flights_ok (fst t) (snd t) \<and> finished f (fst t) \<and> (f \<in> set (snd t) \<longrightarrow> delivers f (fst t) d md c err)"
    using assms(1)
  proof (induction rule: rtranclp_induct)
    case base
    then show ?case using assms(2,3) by (auto simp: delivers_def finished_def)
  next
    case (step y z)
    then show ?case
      using flight_step_ok [OF step.hyps(2)] flight_step_delivers [OF step.hyps(2)] flight_step_finished [OF step.hyps(2)] by blast
  qed
  then show ?thesis using assms(4) by simp
qed

section \<open>Properties\<close>

text \<open>
  C16. A coalesced execution gives every caller that is still waiting its own lease on the one
  result: once the execution has completed with a result and without an error, and whatever the
  other callers do in between (join, cancel, receive, release their leases), a registered
  caller that receives the flight obtains a new live lease on that result with the metadata of
  the execution.
\<close>

theorem coalesced_result_delivered:
  assumes "flight_reachable p regs" "pl_arrowFlights p key = Some f"
    and "fv_data v = Some d" "pins (pl_heap p) d r" "d \<notin> flight_data p"
    and "flight_step\<^sup>*\<^sup>* (complete_flight key f v None None p, regs) (q, regs')" "f \<in> set regs'"
  shows "\<exists>l s q'. receive_flight f owner ctxErr q =
      (Shared \<lparr>fle_data = l, fle_metadata = fv_metadata v, fle_cached = fv_cached v\<rparr> owner s, q')
    \<and> (\<exists>x. pins (pl_heap q) d x \<and> pins (pl_heap q') l x) \<and> (\<forall>x. \<not> pins (pl_heap q) l x)"
proof -
  have ok: "flights_ok p regs" by (rule flight_reachable_ok [OF assms(1)])
  let ?c = "complete_flight key f v None None p"
  obtain fl where fl: "pl_flights p f = Some fl" using flights_okD(3) [OF ok assms(2)] by blast
  have okc: "flights_ok ?c regs" by (rule complete_ok [OF ok assms(2)]) (use assms(3-5) in auto)
  have fin: "finished f ?c" using fl by (auto simp: finished_def complete_flight_def Let_def)
  have "flights_ok q regs' \<and> (f \<in> set regs' \<longrightarrow> f \<in> set regs)"
    using assms(6)
  proof -
    have "flights_ok (fst t) (snd t) \<and> finished f (fst t) \<and> (f \<in> set (snd t) \<longrightarrow> f \<in> set regs)"
      if "flight_step\<^sup>*\<^sup>* (?c, regs) t" for t
      using that
    proof (induction rule: rtranclp_induct)
      case base
      then show ?case using okc fin by simp
    next
      case (step y z)
      then show ?case using flight_step_ok [OF step.hyps(2)] flight_step_finished [OF step.hyps(2)] by blast
    qed
    from this [OF assms(6)] show ?thesis by simp
  qed
  then have okq: "flights_ok q regs'" and freg: "f \<in> set regs" using assms(7) by auto
  have "0 < fl_waiters fl"
    using flights_okD(5) [OF ok fl] freg count_list_0_iff [of regs f] by (auto simp: flight_ok_def)
  then have "delivers f ?c d (fv_metadata v) (fv_cached v) None"
    using fl assms(3) by (simp add: delivers_def complete_flight_def Let_def)
  then have "delivers f q d (fv_metadata v) (fv_cached v) None"
    using flight_steps_delivers [OF assms(6)] okc assms(7) by simp
  then obtain fl2 where fl2: "pl_flights q f = Some fl2" "fl_data fl2 = Some d" "fl_metadata fl2 = fv_metadata v"
    "fl_cached fl2 = fv_cached v" "fl_err fl2 = None" by (auto simp: delivers_def)
  obtain x where x: "pins (pl_heap q) d x"
    using flights_okD(5) [OF okq fl2(1)] fl2(2) by (auto simp: flight_ok_def)
  obtain out h where rc: "receive_flight f owner ctxErr q = (out, leaveArrowFlight (Some f) (q\<lparr>pl_heap := h\<rparr>))" "arrow_ok h"
    and out: "\<forall>d r. fl_err fl2 = None \<longrightarrow> fl_data fl2 = Some d \<longrightarrow> pins (pl_heap q) d r \<longrightarrow>
        (\<exists>l. out = Shared \<lparr>fle_data = l, fle_metadata = fl_metadata fl2, fle_cached = fl_cached fl2\<rparr> owner (fl_shared fl2)
          \<and> pins h l r \<and> (\<forall>x. \<not> pins (pl_heap q) l x))"
    using receive_shape [OF okq fl2(1), of owner ctxErr] by (elim exE conjE)
  obtain l where l: "out = Shared \<lparr>fle_data = l, fle_metadata = fv_metadata v, fle_cached = fv_cached v\<rparr> owner (fl_shared fl2)"
    and h: "arrow_ok h" "pins h l x" "\<forall>x. \<not> pins (pl_heap q) l x"
    using out x fl2 rc(2) by fastforce
  have "l \<noteq> d" using h(3) x by blast
  then have "pins (pl_heap (leaveArrowFlight (Some f) (q\<lparr>pl_heap := h\<rparr>))) l x"
    using h(1,2) fl2(1,2) by (auto simp: leaveArrowFlight_def Let_def)
  with rc(1) l x h(3) show ?thesis by blast
qed

definition sample_value :: flight_value where
  "sample_value = \<lparr>fv_data = Some 2, fv_metadata = sample_md, fv_cached = False\<rparr>"

definition sample_joined :: "nat pool" where
  "sample_joined = snd (joinArrowFlight ''k'' sample_open)"

lemma sample_joined_facts:
  "joinArrowFlight ''k'' sample_open = ((0, True), sample_joined)"
  "pl_arrowFlights sample_joined ''k'' = Some 0" "pl_flights sample_joined = [0 \<mapsto> new_flight]"
  "pl_heap sample_joined = sample_heap" "flight_data sample_joined = {}" "pins sample_heap 2 1"
  by (simp_all add: sample_joined_def joinArrowFlight_def flight_data_def new_flight_def pins_def sample_heap_eval
      sample_open_def New_pool_def Validate_limits_def sample_limits_def OpenScope_def Let_def sample_scope_def)

lemma sample_joined_reachable: "flight_reachable sample_joined [0]"
  unfolding flight_reachable_def
proof (intro exI [of _ sample_open] conjI)
  show "arrow_ok (pl_heap sample_open)" using arrow_reachable_ok [OF sample_heap_reachable] by (simp add: sample_open_facts)
  show "pl_arrowFlights sample_open = Map.empty" "pl_flights sample_open = Map.empty"
    by (simp_all add: sample_open_def New_pool_def Validate_limits_def sample_limits_def OpenScope_def Let_def sample_scope_def)
  show "flight_step\<^sup>*\<^sup>* (sample_open, []) (sample_joined, [0])"
    by (rule r_into_rtranclp) (rule flight_step.join [OF sample_joined_facts(1)])
qed

theorem coalesced_result_delivered_witness:
  "\<exists>l s q'. receive_flight 0 True None (complete_flight ''k'' 0 sample_value None None sample_joined) =
      (Shared \<lparr>fle_data = l, fle_metadata = sample_md, fle_cached = False\<rparr> True s, q')"
  using coalesced_result_delivered [OF sample_joined_reachable sample_joined_facts(2), of sample_value 2 1 _ "[0]" True None, OF _ _ _ rtranclp.rtrancl_refl]
    sample_joined_facts by (auto simp: sample_value_def)



end
