(* ===== verification/Deployment_Candidate.thy ===== *)
theory Deployment_Candidate
  imports LeapView_Prelude
begin

text \<open>
  Private project candidates, \<open>internal/deployment/candidate.go\<close>: the record, its validation and
  its transitions. A \<open>time.Time\<close> is the number of nanoseconds since the zero time, so \<open>IsZero\<close>
  is equality with 0 and \<open>UTC\<close>, which only changes the location, is the identity. The digest
  parser of \<open>github.com/opencontainers/go-digest\<close> is not part of the repository: it is the
  argument \<open>oci\<close>, which maps a string to the algorithm and the canonical text of a digest, or
  to nothing; no property of it is assumed.

  The second half states the abstract life cycle, a relation on the five states, and shows
  that every transition of the code refines it.
\<close>

section \<open>Data\<close>

type_synonym go_time = int

type_synonym oci_parser = "string \<Rightarrow> (string \<times> string) option"

datatype candidate_status =
  CandidatePreparing | CandidateReady | CandidateFailed | CandidateCancelled | CandidateExpired

record candidate =
  cd_ID :: string
  cd_ProjectID :: string
  cd_Key :: string
  cd_TargetID :: string
  cd_Environment :: string
  cd_OwnerID :: string
  cd_BaseGeneration :: string
  cd_ArtifactDigest :: string
  cd_ProvenanceDigest :: string
  cd_Status :: candidate_status
  cd_FailureReason :: string
  cd_ExpiresAt :: go_time
  cd_CreatedAt :: go_time
  cd_UpdatedAt :: go_time
  cd_ReadyAt :: go_time
  cd_CancelledAt :: go_time
  cd_ExpiredAt :: go_time
  cd_Revision :: int

record candidate_start =
  cs_ID :: string
  cs_ProjectID :: string
  cs_Key :: string
  cs_TargetID :: string
  cs_Environment :: string
  cs_OwnerID :: string
  cs_BaseGeneration :: string
  cs_ArtifactDigest :: string
  cs_ExpiresAt :: go_time
  cs_Now :: go_time

datatype candidate_error =
    ErrCandidateNotFound | ErrCandidateConflict | ErrCandidateQuota | ErrCandidateInvalid
  | ErrCandidateUnavailable | ErrCandidateOther string

section \<open>Validation\<close>

definition ValidateSHA256Identity :: "oci_parser \<Rightarrow> string \<Rightarrow> bool" where
  "ValidateSHA256Identity oci value =
    (case oci value of
       None \<Rightarrow> False
     | Some (algorithm, text) \<Rightarrow> algorithm = ''sha256'' \<and> text = value)"

definition canonicalCandidateDigest :: "oci_parser \<Rightarrow> string \<Rightarrow> bool" where
  "canonicalCandidateDigest oci value = ValidateSHA256Identity oci (trim_space value)"

definition key_char :: "char \<Rightarrow> bool" where
  "key_char c \<longleftrightarrow> is_lower c \<or> is_upper c \<or> is_digit c \<or> c \<in> set ''._:/-''"

text \<open>The loop ranges over runes; every rune it accepts is one byte, so it accepts exactly the
  strings all of whose bytes are accepted.\<close>

definition canonicalCandidateKey :: "string \<Rightarrow> bool" where
  "canonicalCandidateKey value \<longleftrightarrow>
     \<not> (length value < 1 \<or> length value > 128) \<and> list_all key_char value"

definition canonicalCandidateFailureCode :: "string \<Rightarrow> bool" where
  "canonicalCandidateFailureCode value \<longleftrightarrow>
     \<not> (length value = 0 \<or> length value > 64)
     \<and> list_all (\<lambda>c. is_upper c \<or> is_digit c \<or> c = CHR ''_'') value"

definition normalizeCandidateKey :: "string \<Rightarrow> string" where
  "normalizeCandidateKey value = (let value = trim_space value in if value = [] then ''default'' else value)"

definition blank :: "string \<Rightarrow> bool" where
  "blank s \<longleftrightarrow> trim_space s = []"

definition Validate_candidate :: "oci_parser \<Rightarrow> candidate \<Rightarrow> candidate_error + unit" where
  "Validate_candidate oci c =
    (if blank (cd_ID c) \<or> blank (cd_ProjectID c) \<or> \<not> canonicalCandidateKey (cd_Key c)
        \<or> blank (cd_TargetID c) \<or> blank (cd_Environment c) \<or> blank (cd_OwnerID c)
        \<or> blank (cd_BaseGeneration c) \<or> \<not> canonicalCandidateDigest oci (cd_ArtifactDigest c)
        \<or> cd_Revision c < 1 \<or> cd_CreatedAt c = 0 \<or> cd_UpdatedAt c = 0 \<or> cd_ExpiresAt c = 0
     then Inl ErrCandidateInvalid
     else case cd_Status c of
       CandidateReady \<Rightarrow> ensure (canonicalCandidateDigest oci (cd_ProvenanceDigest c)) ErrCandidateInvalid
     | _ \<Rightarrow> ensure (blank (cd_ProvenanceDigest c)) ErrCandidateInvalid)"

definition Terminal :: "candidate \<Rightarrow> bool" where
  "Terminal c \<longleftrightarrow> cd_Status c = CandidateCancelled \<or> cd_Status c = CandidateExpired"

section \<open>Creation and transitions\<close>

definition NewCandidate :: "oci_parser \<Rightarrow> candidate_start \<Rightarrow> candidate_error + candidate" where
  "NewCandidate oci input =
    (let input = input\<lparr>cs_ID := trim_space (cs_ID input), cs_ProjectID := trim_space (cs_ProjectID input),
           cs_Key := normalizeCandidateKey (cs_Key input), cs_TargetID := trim_space (cs_TargetID input),
           cs_Environment := trim_space (cs_Environment input), cs_OwnerID := trim_space (cs_OwnerID input),
           cs_BaseGeneration := trim_space (cs_BaseGeneration input),
           cs_ArtifactDigest := trim_space (cs_ArtifactDigest input)\<rparr> in
     if cs_ID input = [] \<or> cs_ProjectID input = [] \<or> cs_TargetID input = [] \<or> cs_Environment input = []
        \<or> cs_OwnerID input = [] \<or> cs_BaseGeneration input = [] then Inl ErrCandidateInvalid
     else if \<not> canonicalCandidateDigest oci (cs_ArtifactDigest input) then Inl ErrCandidateInvalid
     else if cs_Now input = 0 \<or> \<not> cs_ExpiresAt input > cs_Now input then Inl ErrCandidateInvalid
     else
       let candidate = \<lparr>cd_ID = cs_ID input, cd_ProjectID = cs_ProjectID input, cd_Key = cs_Key input,
             cd_TargetID = cs_TargetID input, cd_Environment = cs_Environment input,
             cd_OwnerID = cs_OwnerID input, cd_BaseGeneration = cs_BaseGeneration input,
             cd_ArtifactDigest = cs_ArtifactDigest input, cd_ProvenanceDigest = [],
             cd_Status = CandidatePreparing, cd_FailureReason = [], cd_ExpiresAt = cs_ExpiresAt input,
             cd_CreatedAt = cs_Now input, cd_UpdatedAt = cs_Now input, cd_ReadyAt = 0,
             cd_CancelledAt = 0, cd_ExpiredAt = 0, cd_Revision = 1\<rparr> in
       case Validate_candidate oci candidate of Inl e \<Rightarrow> Inl e | Inr _ \<Rightarrow> Inr candidate)"

definition advance :: "go_time \<Rightarrow> candidate \<Rightarrow> candidate" where
  "advance now c = c\<lparr>cd_UpdatedAt := now, cd_Revision := wrap_int64 (cd_Revision c + 1)\<rparr>"

definition ReplaceArtifact ::
  "oci_parser \<Rightarrow> string \<Rightarrow> string \<Rightarrow> go_time \<Rightarrow> go_time \<Rightarrow> candidate \<Rightarrow> candidate_error + candidate" where
  "ReplaceArtifact oci expectedDigest nextDigest now expiresAt c =
    (let expectedDigest = trim_space expectedDigest; nextDigest = trim_space nextDigest in
     if Terminal c then Inl ErrCandidateConflict
     else if expectedDigest \<noteq> cd_ArtifactDigest c then Inl ErrCandidateConflict
     else if \<not> canonicalCandidateDigest oci nextDigest then Inl ErrCandidateInvalid
     else if now = 0 \<or> \<not> expiresAt > now then Inl ErrCandidateInvalid
     else if nextDigest = cd_ArtifactDigest c \<and> cd_Status c = CandidatePreparing then Inr c
     else Inr (advance now (c\<lparr>cd_ArtifactDigest := nextDigest, cd_ProvenanceDigest := [],
            cd_Status := CandidatePreparing, cd_FailureReason := [], cd_ReadyAt := 0,
            cd_ExpiresAt := expiresAt\<rparr>)))"

definition MarkReady ::
  "oci_parser \<Rightarrow> string \<Rightarrow> string \<Rightarrow> go_time \<Rightarrow> candidate \<Rightarrow> candidate_error + candidate" where
  "MarkReady oci artifactDigest provenanceDigest now c =
    (let artifactDigest = trim_space artifactDigest; provenanceDigest = trim_space provenanceDigest in
     if Terminal c then Inl ErrCandidateConflict
     else if artifactDigest \<noteq> cd_ArtifactDigest c then Inl ErrCandidateConflict
     else if cd_Status c = CandidateReady then
       (if provenanceDigest \<noteq> cd_ProvenanceDigest c then Inl ErrCandidateConflict else Inr c)
     else if cd_Status c \<noteq> CandidatePreparing then Inl ErrCandidateConflict
     else if \<not> canonicalCandidateDigest oci provenanceDigest then Inl ErrCandidateInvalid
     else Inr (advance now (c\<lparr>cd_Status := CandidateReady, cd_ProvenanceDigest := provenanceDigest,
            cd_FailureReason := [], cd_ReadyAt := now\<rparr>)))"

definition MarkFailed :: "string \<Rightarrow> string \<Rightarrow> go_time \<Rightarrow> candidate \<Rightarrow> candidate_error + candidate" where
  "MarkFailed artifactDigest failureCode now c =
    (let artifactDigest = trim_space artifactDigest; failureCode = trim_space failureCode in
     if Terminal c then Inl ErrCandidateConflict
     else if artifactDigest \<noteq> cd_ArtifactDigest c then Inl ErrCandidateConflict
     else if \<not> canonicalCandidateFailureCode failureCode then Inl ErrCandidateInvalid
     else if cd_Status c = CandidateFailed \<and> cd_FailureReason c = failureCode then Inr c
     else if cd_Status c \<noteq> CandidatePreparing then Inl ErrCandidateConflict
     else Inr (advance now (c\<lparr>cd_Status := CandidateFailed, cd_ProvenanceDigest := [],
            cd_FailureReason := failureCode, cd_ReadyAt := 0\<rparr>)))"

definition Retry_candidate :: "go_time \<Rightarrow> go_time \<Rightarrow> candidate \<Rightarrow> candidate_error + candidate" where
  "Retry_candidate now expiresAt c =
    (if cd_Status c = CandidatePreparing then Inr c
     else if cd_Status c \<noteq> CandidateFailed then Inl ErrCandidateConflict
     else if now = 0 \<or> \<not> expiresAt > now then Inl ErrCandidateInvalid
     else Inr (advance now (c\<lparr>cd_Status := CandidatePreparing, cd_ProvenanceDigest := [],
            cd_FailureReason := [], cd_ReadyAt := 0, cd_ExpiresAt := expiresAt\<rparr>)))"

definition Cancel_candidate :: "go_time \<Rightarrow> candidate \<Rightarrow> candidate_error + candidate" where
  "Cancel_candidate now c =
    (if cd_Status c = CandidateCancelled then Inr c
     else if cd_Status c = CandidateExpired then Inl ErrCandidateConflict
     else Inr (advance now (c\<lparr>cd_Status := CandidateCancelled, cd_ProvenanceDigest := [],
            cd_CancelledAt := now, cd_FailureReason := [], cd_ReadyAt := 0\<rparr>)))"

definition Expire_candidate :: "go_time \<Rightarrow> candidate \<Rightarrow> candidate_error + candidate \<times> bool" where
  "Expire_candidate now c =
    (if now = 0 then Inl ErrCandidateInvalid
     else if Terminal c \<or> now < cd_ExpiresAt c then Inr (c, False)
     else Inr (advance now (c\<lparr>cd_Status := CandidateExpired, cd_ProvenanceDigest := [],
            cd_ExpiredAt := now, cd_FailureReason := [], cd_ReadyAt := 0\<rparr>), True))"

section \<open>All transitions together\<close>

datatype transition =
    TReplace string string go_time go_time | TReady string string go_time | TFail string string go_time
  | TRetry go_time go_time | TCancel go_time | TExpire go_time

fun transition_time :: "transition \<Rightarrow> go_time" where
  "transition_time (TReplace _ _ now _) = now"
| "transition_time (TReady _ _ now) = now"
| "transition_time (TFail _ _ now) = now"
| "transition_time (TRetry now _) = now"
| "transition_time (TCancel now) = now"
| "transition_time (TExpire now) = now"

fun apply_transition :: "oci_parser \<Rightarrow> transition \<Rightarrow> candidate \<Rightarrow> candidate_error + candidate" where
  "apply_transition oci (TReplace expected next now expiry) c = ReplaceArtifact oci expected next now expiry c"
| "apply_transition oci (TReady artifact provenance now) c = MarkReady oci artifact provenance now c"
| "apply_transition oci (TFail artifact code now) c = MarkFailed artifact code now c"
| "apply_transition oci (TRetry now expiry) c = Retry_candidate now expiry c"
| "apply_transition oci (TCancel now) c = Cancel_candidate now c"
| "apply_transition oci (TExpire now) c = (case Expire_candidate now c of Inl e \<Rightarrow> Inl e | Inr (c', _) \<Rightarrow> Inr c')"

lemmas transition_defs = ReplaceArtifact_def MarkReady_def MarkFailed_def Retry_candidate_def
  Cancel_candidate_def Expire_candidate_def Let_def

text \<open>The abstract life cycle.\<close>

inductive lifecycle :: "candidate_status \<Rightarrow> candidate_status \<Rightarrow> bool" where
  same: "lifecycle s s"
| replace: "s \<in> {CandidatePreparing, CandidateReady, CandidateFailed} \<Longrightarrow> lifecycle s CandidatePreparing"
| ready: "lifecycle CandidatePreparing CandidateReady"
| fail: "lifecycle CandidatePreparing CandidateFailed"
| cancel: "s \<in> {CandidatePreparing, CandidateReady, CandidateFailed} \<Longrightarrow> lifecycle s CandidateCancelled"
| expire: "s \<in> {CandidatePreparing, CandidateReady, CandidateFailed} \<Longrightarrow> lifecycle s CandidateExpired"

inductive_simps lifecycle_cancelled: "lifecycle CandidateCancelled s"
inductive_simps lifecycle_expired: "lifecycle CandidateExpired s"

definition same_identity :: "candidate \<Rightarrow> candidate \<Rightarrow> bool" where
  "same_identity c c' \<longleftrightarrow> cd_ID c' = cd_ID c \<and> cd_ProjectID c' = cd_ProjectID c \<and> cd_Key c' = cd_Key c
     \<and> cd_TargetID c' = cd_TargetID c \<and> cd_Environment c' = cd_Environment c \<and> cd_OwnerID c' = cd_OwnerID c
     \<and> cd_BaseGeneration c' = cd_BaseGeneration c \<and> cd_CreatedAt c' = cd_CreatedAt c"

lemma same_identity_refl [simp]: "same_identity c c"
  by (simp add: same_identity_def)

lemma transition_status:
  assumes "apply_transition oci t c = Inr c'"
  shows "lifecycle (cd_Status c) (cd_Status c')"
  using assms
  by (cases t; cases "cd_Status c")
    (auto simp: transition_defs advance_def Terminal_def split: if_splits intro: lifecycle.intros)

lemma transition_identity:
  assumes "apply_transition oci t c = Inr c'"
  shows "same_identity c c'"
  using assms by (cases t) (auto simp: transition_defs advance_def same_identity_def split: if_splits)

lemma transition_revision:
  assumes "apply_transition oci t c = Inr c'"
  shows "c' = c \<or> cd_Revision c' = wrap_int64 (cd_Revision c + 1) \<and> cd_UpdatedAt c' = transition_time t"
  using assms by (cases t) (auto simp: transition_defs advance_def split: if_splits)

lemma transition_conflict_terminal:
  assumes "Terminal c" "apply_transition oci t c = Inr c'"
  shows "c' = c"
  using assms by (cases t) (auto simp: transition_defs Terminal_def split: if_splits)

lemma blank_Nil [simp]: "blank []"
  by (simp add: blank_def)

lemma Validate_candidate_iff:
  "Validate_candidate oci c = Inr u \<longleftrightarrow>
     \<not> (blank (cd_ID c) \<or> blank (cd_ProjectID c) \<or> \<not> canonicalCandidateKey (cd_Key c)
        \<or> blank (cd_TargetID c) \<or> blank (cd_Environment c) \<or> blank (cd_OwnerID c)
        \<or> blank (cd_BaseGeneration c) \<or> \<not> canonicalCandidateDigest oci (cd_ArtifactDigest c)
        \<or> cd_Revision c < 1 \<or> cd_CreatedAt c = 0 \<or> cd_UpdatedAt c = 0 \<or> cd_ExpiresAt c = 0)
     \<and> (if cd_Status c = CandidateReady then canonicalCandidateDigest oci (cd_ProvenanceDigest c)
        else blank (cd_ProvenanceDigest c))"
  by (auto simp: Validate_candidate_def split: candidate_status.splits)

lemma canonicalCandidateDigest_trim [simp]:
  "canonicalCandidateDigest oci (trim_space d) = canonicalCandidateDigest oci d"
  by (simp add: canonicalCandidateDigest_def)

lemma transition_valid:
  assumes v: "Validate_candidate oci c = Inr ()" and t: "apply_transition oci t c = Inr c'"
    and time: "0 < transition_time t" and rev: "cd_Revision c < max_int64"
  shows "Validate_candidate oci c' = Inr ()"
proof -
  have "wrap_int64 (cd_Revision c + 1) = cd_Revision c + 1"
    using v rev by (intro wrap_int64_id) (auto simp: Validate_candidate_iff max_int64_def)
  then show ?thesis
    using assms
    by (cases t) (auto simp: transition_defs advance_def Validate_candidate_iff split: if_splits)
qed

end
