(* ===== verification/Text_Order.thy ===== *)
theory Text_Order
  imports LeapView_Prelude
begin

text \<open>
  The order of Go strings, byte by byte (\<open><=\<close> on strings, \<open>BINARY\<close> collation in SQLite), and
  \<open>sort.Strings\<close>.
\<close>

section \<open>Comparison\<close>

fun text_le :: "string \<Rightarrow> string \<Rightarrow> bool" where
  "text_le [] _ = True"
| "text_le (_ # _) [] = False"
| "text_le (a # as) (b # bs) =
    (let x = of_char a :: nat; y = of_char b in if x = y then text_le as bs else x < y)"

lemma text_le_refl [simp]: "text_le s s"
  by (induction s) auto

lemma text_le_Nil [simp]: "text_le s [] \<longleftrightarrow> s = []"
  by (cases s) auto

lemma text_le_antisym: "text_le a b \<Longrightarrow> text_le b a \<Longrightarrow> a = b"
  by (induction a b rule: text_le.induct) (auto simp: Let_def split: if_splits)

lemma text_le_trans: "text_le a b \<Longrightarrow> text_le b c \<Longrightarrow> text_le a c"
proof (induction a b arbitrary: c rule: text_le.induct)
  case (3 x xs y ys)
  then show ?case by (cases c) (auto simp: Let_def split: if_splits)
qed auto

lemma text_le_total: "text_le a b \<or> text_le b a"
proof (induction a b rule: text_le.induct)
  case (3 a as b bs)
  have "(of_char a :: nat) = of_char b \<or> (of_char a :: nat) < of_char b \<or> (of_char b :: nat) < of_char a" by linarith
  then show ?case using 3 by (auto simp: Let_def)
qed auto

section \<open>Sorting\<close>

fun insert_text :: "string \<Rightarrow> string list \<Rightarrow> string list" where
  "insert_text s [] = [s]"
| "insert_text s (t # ts) = (if text_le s t then s # t # ts else t # insert_text s ts)"

text \<open>\<open>sort.Strings\<close>.\<close>

definition sort_strings :: "string list \<Rightarrow> string list" where
  "sort_strings ss = foldr insert_text ss []"

lemma insert_text_set: "set (insert_text s ts) = insert s (set ts)"
  by (induction ts) auto

lemma insert_text_length: "length (insert_text s ts) = Suc (length ts)"
  by (induction ts) auto

lemma insert_text_distinct: "distinct (insert_text s ts) \<longleftrightarrow> distinct ts \<and> s \<notin> set ts"
  by (induction ts) (auto simp: insert_text_set)

lemma insert_text_sorted: "sorted_wrt text_le ts \<Longrightarrow> sorted_wrt text_le (insert_text s ts)"
proof (induction ts)
  case (Cons t ts)
  then show ?case using text_le_total [of s t] by (auto simp: insert_text_set intro: text_le_trans)
qed simp

lemma sort_strings_props: "set (sort_strings ss) = set ss" "distinct (sort_strings ss) = distinct ss" "sorted_wrt text_le (sort_strings ss)"
  by (induction ss) (auto simp: sort_strings_def insert_text_set insert_text_distinct intro: insert_text_sorted)

lemma sort_strings_Nil [simp]: "sort_strings ss = [] \<longleftrightarrow> ss = []"
  using sort_strings_props(1) [of ss] by (metis empty_set set_empty)

end
