(* ===== verification/Versioned_Store.thy ===== *)
theory Versioned_Store
  imports Deployment_Candidate Text_Order
begin

text \<open>
  What the SQLite repositories share: the order of times kept as RFC 3339 text, \<open>ORDER BY \<dots> DESC
  LIMIT 1\<close>, and the contract of a table whose rows carry a revision and are updated by
  compare-and-set on it.

  The date and time part of the text of a UTC time has a fixed width, so texts compare by the
  second first and then by the text of the fraction, which has its trailing zeros cut off.
\<close>

section \<open>Texts of times\<close>

fun digits :: "nat \<Rightarrow> int \<Rightarrow> string" where
  "digits 0 n = []"
| "digits (Suc k) n = char_of (nat (48 + n div 10 ^ k mod 10)) # digits k n"

fun cut_zeros :: "string \<Rightarrow> string" where
  "cut_zeros [] = []"
| "cut_zeros (c # cs) = (case cut_zeros cs of [] \<Rightarrow> (if c = CHR ''0'' then [] else [c]) | ds \<Rightarrow> c # ds)"

text \<open>The end of the RFC 3339 text of a UTC time after the seconds.\<close>

definition fraction_text :: "go_time \<Rightarrow> string" where
  "fraction_text t = (case cut_zeros (digits 9 (t mod 10 ^ 9)) of [] \<Rightarrow> ''Z'' | ds \<Rightarrow> ''.'' @ ds @ ''Z'')"

definition time_text_le :: "go_time \<Rightarrow> go_time \<Rightarrow> bool" where
  "time_text_le a b \<longleftrightarrow> a div 10 ^ 9 < b div 10 ^ 9
     \<or> a div 10 ^ 9 = b div 10 ^ 9 \<and> text_le (fraction_text a) (fraction_text b)"

lemma time_text_le_refl [simp]: "time_text_le t t"
  by (simp add: time_text_le_def)

lemma time_text_le_seconds: "a div 10 ^ 9 < b div 10 ^ 9 \<Longrightarrow> time_text_le a b"
  by (simp add: time_text_le_def)

section \<open>Selecting the latest row\<close>

text \<open>\<open>ORDER BY \<dots> DESC LIMIT 1\<close>.\<close>

fun latest_by :: "('a \<Rightarrow> 'a \<Rightarrow> bool) \<Rightarrow> 'a list \<Rightarrow> 'a option" where
  "latest_by newer [] = None"
| "latest_by newer (x # xs) =
    (case latest_by newer xs of None \<Rightarrow> Some x | Some y \<Rightarrow> if newer y x then Some y else Some x)"

lemma latest_by_mem: "latest_by newer xs = Some x \<Longrightarrow> x \<in> set xs"
  by (induction xs arbitrary: x) (auto split: option.splits if_splits)

lemma latest_by_None [simp]: "latest_by newer xs = None \<longleftrightarrow> xs = []"
  by (cases xs) (auto split: option.splits)

section \<open>Compare-and-set on a revision\<close>

text \<open>\<open>rows_advance\<close>: every row is still there, unchanged or with a higher revision.\<close>

definition rows_advance :: "('r \<Rightarrow> 'k) \<Rightarrow> ('r \<Rightarrow> int) \<Rightarrow> 'r list \<Rightarrow> 'r list \<Rightarrow> bool" where
  "rows_advance key vrev rs rs' \<longleftrightarrow> (\<forall>r\<in>set rs. \<exists>r'\<in>set rs'. key r' = key r \<and> (r' = r \<or> vrev r < vrev r'))"

lemma rows_advance_refl [simp]: "rows_advance key vrev rs rs"
  by (auto simp: rows_advance_def)

lemma rows_advance_trans: "rows_advance key vrev a b \<Longrightarrow> rows_advance key vrev b c \<Longrightarrow> rows_advance key vrev a c"
  unfolding rows_advance_def by (metis order_less_trans)

lemma rows_advance_append: "rows_advance key vrev rs (rs @ xs)"
  by (auto simp: rows_advance_def)

lemma rows_advance_update:
  assumes "i < length rs" "key r = key (rs ! i)" "vrev (rs ! i) < vrev r"
  shows "rows_advance key vrev rs (rs[i := r])"
  unfolding rows_advance_def
proof
  fix x assume "x \<in> set rs"
  then obtain j where j: "j < length rs" "rs ! j = x" by (auto simp: in_set_conv_nth)
  then have "rs[i := r] ! j \<in> set (rs[i := r])" by simp
  then show "\<exists>r'\<in>set (rs[i := r]). key r' = key x \<and> (r' = x \<or> vrev x < vrev r')"
    using assms j by (cases "i = j") auto
qed

locale versioned_store =
  fixes rows :: "'db \<Rightarrow> 'r list" and key :: "'r \<Rightarrow> 'k" and vrev :: "'r \<Rightarrow> int" and merge :: "'r \<Rightarrow> 'r \<Rightarrow> 'r"
    and save :: "'r \<Rightarrow> int \<Rightarrow> 'db \<Rightarrow> ('e + 'r) \<times> 'db"
  assumes save_ok: "save c n db = (Inr s, db') \<Longrightarrow> s = c \<and> vrev c = wrap_int64 (n + 1) \<and> 0 < n
      \<and> (\<exists>i<length (rows db). key (rows db ! i) = key c \<and> vrev (rows db ! i) = n
          \<and> rows db' = (rows db)[i := merge c (rows db ! i)])"
    and save_error: "save c n db = (Inl e, db') \<Longrightarrow> db' = db"
    and merge_key: "key (merge c r) = key r"
    and merge_rev: "vrev (merge c r) = vrev c"
begin

lemma save_rev:
  assumes "save c n db = (Inr s, db')" "n < max_int64"
  shows "vrev c = n + 1"
proof -
  have "0 < n" "vrev c = wrap_int64 (n + 1)" using save_ok [OF assms(1)] by auto
  moreover from this have "wrap_int64 (n + 1) = n + 1" using assms(2) by (intro wrap_int64_id) (auto simp: max_int64_def)
  ultimately show ?thesis by simp
qed

lemma save_keys: "save c n db = (res, db') \<Longrightarrow> map key (rows db') = map key (rows db)"
proof (cases res)
  case (Inl e)
  moreover assume "save c n db = (res, db')"
  ultimately show ?thesis using save_error by blast
next
  case (Inr s)
  moreover assume "save c n db = (res, db')"
  ultimately obtain i where "i < length (rows db)" "rows db' = (rows db)[i := merge c (rows db ! i)]"
    using save_ok by blast
  then show ?thesis by (simp add: map_update merge_key list_update_same_conv)
qed

lemma save_advance:
  assumes "save c n db = (res, db')" "n < max_int64"
  shows "rows_advance key vrev (rows db) (rows db')"
proof (cases res)
  case (Inl e)
  then show ?thesis using assms save_error [of c n db e db'] by simp
next
  case (Inr s)
  then obtain i where i: "i < length (rows db)" "vrev (rows db ! i) = n" "rows db' = (rows db)[i := merge c (rows db ! i)]"
    using save_ok assms(1) by blast
  have "vrev (merge c (rows db ! i)) = n + 1" using save_rev assms Inr merge_rev by simp
  then show ?thesis using i merge_key by (simp add: rows_advance_update)
qed

lemma save_stored:
  assumes "save c n db = (Inr s, db')" "n < max_int64"
  shows "\<exists>r\<in>set (rows db'). key r = key c \<and> vrev r = n + 1"
proof -
  obtain i where i: "i < length (rows db)" "key (rows db ! i) = key c" "rows db' = (rows db)[i := merge c (rows db ! i)]"
    using save_ok assms(1) by blast
  moreover have "merge c (rows db ! i) \<in> set (rows db')" using i set_update_memI by simp
  ultimately show ?thesis using save_rev [OF assms] merge_rev merge_key by metis
qed

text \<open>Of two saves that expect the same revision of a row, at most one succeeds.\<close>

lemma save_exclusive:
  assumes first: "save c n db = (Inr s, db')" and n: "n < max_int64"
    and adv: "rows_advance key vrev (rows db') (rows db2)" and dist: "distinct (map key (rows db2))"
    and same: "key c' = key c"
  shows "\<exists>e. save c' n db2 = (Inl e, db2)"
proof -
  obtain r where r: "r \<in> set (rows db')" "key r = key c" "vrev r = n + 1" using save_stored [OF first n] by blast
  then obtain r' where r': "r' \<in> set (rows db2)" "key r' = key c" "n < vrev r'"
    using adv unfolding rows_advance_def by force
  show ?thesis
  proof (cases "save c' n db2")
    case (Pair res db3)
    show ?thesis
    proof (cases res)
      case (Inl e)
      then show ?thesis using Pair save_error by blast
    next
      case (Inr x)
      then obtain i where "i < length (rows db2)" "key (rows db2 ! i) = key c'" "vrev (rows db2 ! i) = n"
        using save_ok Pair by blast
      then have "rows db2 ! i = r'" using dist r' same by (auto simp: distinct_map inj_on_def)
      then show ?thesis using r' \<open>vrev (rows db2 ! i) = n\<close> by simp
    qed
  qed
qed

end

end
