(* ===== verification/Candidate_Store.thy ===== *)
theory Candidate_Store
  imports Deployment_Candidate Versioned_Store
begin

text \<open>
  The candidate repository, \<open>internal/deployment/sqlite/candidate_repository.go\<close>, on the table
  \<open>project_candidates\<close>: the statements of \<open>sqlite/queries/deployment.sql\<close> it runs, the primary
  key and the unique index on active sessions, and the repository methods. Each method runs one
  statement or one transaction and is one function on the database; database errors other than
  violations of these two constraints are not modelled (in particular, owners are principals
  that exist and are not deleted).

  A row holds the times themselves: the RFC 3339 text of a UTC time determines the time, and
  the zero time is stored as NULL where the column allows it. Where a statement compares the
  texts, the comparison is the text one (\<open>time_text_le\<close>).
\<close>

section \<open>Tables and statements\<close>

record candidate_db =
  db_candidates :: "candidate list"
  db_activeGeneration :: "string \<Rightarrow> string \<Rightarrow> string option"

definition active_status :: "candidate_status \<Rightarrow> bool" where
  "active_status s \<longleftrightarrow> s = CandidatePreparing \<or> s = CandidateReady \<or> s = CandidateFailed"

definition session_of :: "candidate \<Rightarrow> string \<times> string \<times> string \<times> string" where
  "session_of c = (cd_TargetID c, cd_ProjectID c, cd_OwnerID c, cd_Key c)"

definition candidate_newer :: "candidate \<Rightarrow> candidate \<Rightarrow> bool" where
  "candidate_newer a b \<longleftrightarrow> \<not> time_text_le (cd_CreatedAt a) (cd_CreatedAt b)
     \<or> time_text_le (cd_CreatedAt b) (cd_CreatedAt a) \<and> \<not> text_le (cd_ID a) (cd_ID b)"

definition GetProjectCandidate :: "string \<Rightarrow> candidate_db \<Rightarrow> candidate option" where
  "GetProjectCandidate i db = find (\<lambda>c. cd_ID c = i) (db_candidates db)"

definition GetActiveProjectCandidateSession ::
  "string \<times> string \<times> string \<times> string \<Rightarrow> candidate_db \<Rightarrow> candidate option" where
  "GetActiveProjectCandidateSession s db =
     latest_by candidate_newer (filter (\<lambda>c. session_of c = s \<and> active_status (cd_Status c)) (db_candidates db))"

definition CountActiveProjectCandidatesForOwner :: "string \<Rightarrow> candidate_db \<Rightarrow> int" where
  "CountActiveProjectCandidatesForOwner owner db =
     int (length (filter (\<lambda>c. cd_OwnerID c = owner \<and> active_status (cd_Status c)) (db_candidates db)))"

definition violates :: "candidate \<Rightarrow> candidate list \<Rightarrow> bool" where
  "violates c rows \<longleftrightarrow> (\<exists>r\<in>set rows. cd_ID r = cd_ID c)
     \<or> active_status (cd_Status c) \<and> (\<exists>r\<in>set rows. active_status (cd_Status r) \<and> session_of r = session_of c)"

definition CreateProjectCandidate :: "candidate \<Rightarrow> candidate_db \<Rightarrow> candidate_db option" where
  "CreateProjectCandidate c db =
    (if violates c (db_candidates db) then None
     else Some (db\<lparr>db_candidates := db_candidates db @ [c]\<rparr>))"

text \<open>The columns the update statement sets; the others stay.\<close>

definition updated_row :: "candidate \<Rightarrow> candidate \<Rightarrow> candidate" where
  "updated_row c r = r\<lparr>cd_ArtifactDigest := cd_ArtifactDigest c, cd_ProvenanceDigest := cd_ProvenanceDigest c,
     cd_Status := cd_Status c, cd_FailureReason := cd_FailureReason c, cd_ExpiresAt := cd_ExpiresAt c,
     cd_UpdatedAt := cd_UpdatedAt c, cd_ReadyAt := cd_ReadyAt c, cd_CancelledAt := cd_CancelledAt c,
     cd_ExpiredAt := cd_ExpiredAt c, cd_Revision := cd_Revision c\<rparr>"

text \<open>An update reports how many rows it changed, or a constraint violation (\<open>None\<close>).\<close>

definition UpdateProjectCandidate :: "candidate \<Rightarrow> int \<Rightarrow> candidate_db \<Rightarrow> (nat \<times> candidate_db) option" where
  "UpdateProjectCandidate c expected db =
    (case index_where (\<lambda>r. cd_ID r = cd_ID c \<and> cd_Revision r = expected) (db_candidates db) of
       None \<Rightarrow> Some (0, db)
     | Some i \<Rightarrow>
         let rows = db_candidates db; row = updated_row c (rows ! i) in
         if violates row (delete_at i rows) then None
         else Some (1, db\<lparr>db_candidates := rows[i := row]\<rparr>))"

definition expire_row :: "go_time \<Rightarrow> candidate \<Rightarrow> candidate" where
  "expire_row now r = r\<lparr>cd_Status := CandidateExpired, cd_ProvenanceDigest := [], cd_FailureReason := [],
     cd_ReadyAt := 0, cd_ExpiredAt := now, cd_UpdatedAt := now, cd_Revision := cd_Revision r + 1\<rparr>"

definition expirable :: "string \<Rightarrow> go_time \<Rightarrow> candidate \<Rightarrow> bool" where
  "expirable target now r \<longleftrightarrow> cd_TargetID r = target \<and> active_status (cd_Status r)
     \<and> time_text_le (cd_ExpiresAt r) now"

definition ExpireProjectCandidates :: "string \<Rightarrow> go_time \<Rightarrow> candidate_db \<Rightarrow> int \<times> candidate_db" where
  "ExpireProjectCandidates target now db =
    (int (length (filter (expirable target now) (db_candidates db))),
     db\<lparr>db_candidates := map (\<lambda>r. if expirable target now r then expire_row now r else r) (db_candidates db)\<rparr>)"

definition supersede_row :: "go_time \<Rightarrow> candidate \<Rightarrow> candidate" where
  "supersede_row now r = r\<lparr>cd_Status := CandidateCancelled,
     cd_FailureReason := ''candidate base generation superseded'', cd_CancelledAt := now,
     cd_UpdatedAt := now, cd_Revision := cd_Revision r + 1\<rparr>"

definition CancelSupersededProjectCandidate :: "string \<Rightarrow> go_time \<Rightarrow> candidate_db \<Rightarrow> nat \<times> candidate_db" where
  "CancelSupersededProjectCandidate i now db =
    (let hit = (\<lambda>r. cd_ID r = i \<and> active_status (cd_Status r)) in
     (length (filter hit (db_candidates db)),
      db\<lparr>db_candidates := map (\<lambda>r. if hit r then supersede_row now r else r) (db_candidates db)\<rparr>))"

section \<open>Repository methods\<close>

definition CandidateBaseGenerationEmpty :: string where
  "CandidateBaseGenerationEmpty = ''empty''"

definition mapCandidate :: "oci_parser \<Rightarrow> candidate \<Rightarrow> candidate_error + candidate" where
  "mapCandidate oci row = bind_res (Validate_candidate oci row) (\<lambda>_. Inr row)"

definition sameCandidateStart :: "candidate \<Rightarrow> candidate \<Rightarrow> bool" where
  "sameCandidateStart existing c \<longleftrightarrow> cd_ProjectID existing = cd_ProjectID c \<and> cd_TargetID existing = cd_TargetID c
     \<and> cd_Environment existing = cd_Environment c \<and> cd_OwnerID existing = cd_OwnerID c
     \<and> cd_Key existing = cd_Key c \<and> cd_BaseGeneration existing = cd_BaseGeneration c
     \<and> cd_ArtifactDigest existing = cd_ArtifactDigest c"

definition ActiveCandidateBaseGeneration :: "string \<Rightarrow> string \<Rightarrow> candidate_db \<Rightarrow> candidate_error + string" where
  "ActiveCandidateBaseGeneration project environment db =
    (if blank project \<or> blank environment then Inl (ErrCandidateOther ''project and environment are required'')
     else Inr (case db_activeGeneration db (trim_space project) (trim_space environment) of
                 None \<Rightarrow> CandidateBaseGenerationEmpty | Some g \<Rightarrow> g))"

text \<open>The insertion at the end of \<open>StartCandidate\<close>; a transaction that fails is rolled back.\<close>

definition insert_started :: "candidate \<Rightarrow> int \<Rightarrow> candidate_db \<Rightarrow> candidate_db
    \<Rightarrow> (candidate_error + candidate \<times> bool) \<times> candidate_db" where
  "insert_started c maxActive db0 db =
    (if CountActiveProjectCandidatesForOwner (cd_OwnerID c) db \<ge> maxActive then (Inl ErrCandidateQuota, db0)
     else case CreateProjectCandidate c db of
       None \<Rightarrow> (Inl ErrCandidateConflict, db0)
     | Some db' \<Rightarrow> (Inr (c, False), db'))"

definition StartCandidate ::
  "oci_parser \<Rightarrow> candidate \<Rightarrow> int \<Rightarrow> candidate_db \<Rightarrow> (candidate_error + candidate \<times> bool) \<times> candidate_db" where
  "StartCandidate oci c maxActive db0 =
    (if maxActive \<le> 0 then (Inl (ErrCandidateOther ''positive quota is required''), db0)
     else
       let now = cd_CreatedAt c;
           db = snd (ExpireProjectCandidates (cd_TargetID c) now db0);
           base = (case db_activeGeneration db (cd_ProjectID c) (cd_Environment c) of
                     None \<Rightarrow> CandidateBaseGenerationEmpty | Some g \<Rightarrow> g);
           c = c\<lparr>cd_BaseGeneration := base\<rparr> in
       case GetActiveProjectCandidateSession (session_of c) db of
         None \<Rightarrow> insert_started c maxActive db0 db
       | Some row \<Rightarrow>
           (case mapCandidate oci row of
              Inl e \<Rightarrow> (Inl e, db0)
            | Inr existing \<Rightarrow>
                if sameCandidateStart existing c then (Inr (existing, True), db0)
                else if cd_BaseGeneration existing \<noteq> cd_BaseGeneration c then
                  (case CancelSupersededProjectCandidate (cd_ID existing) now db of
                     (changed, db) \<Rightarrow>
                       if changed \<noteq> 1 then (Inl ErrCandidateConflict, db0)
                       else insert_started c maxActive db0 db)
                else (Inl ErrCandidateConflict, db0)))"

definition ActiveCandidate ::
  "oci_parser \<Rightarrow> string \<Rightarrow> string \<Rightarrow> string \<Rightarrow> string \<Rightarrow> candidate_db \<Rightarrow> candidate_error + candidate" where
  "ActiveCandidate oci target project owner key db =
    (case GetActiveProjectCandidateSession (target, project, owner, key) db of
       None \<Rightarrow> Inl ErrCandidateNotFound
     | Some row \<Rightarrow> mapCandidate oci row)"

definition CandidateByID :: "oci_parser \<Rightarrow> string \<Rightarrow> candidate_db \<Rightarrow> candidate_error + candidate" where
  "CandidateByID oci i db =
    (if blank i then Inl ErrCandidateNotFound
     else case GetProjectCandidate (trim_space i) db of
       None \<Rightarrow> Inl ErrCandidateNotFound
     | Some row \<Rightarrow> mapCandidate oci row)"

definition SaveCandidate :: "candidate \<Rightarrow> int \<Rightarrow> candidate_db \<Rightarrow> (candidate_error + candidate) \<times> candidate_db" where
  "SaveCandidate c expected db =
    (if cd_ID c = [] \<or> expected \<le> 0 \<or> cd_Revision c \<noteq> wrap_int64 (expected + 1) then (Inl ErrCandidateConflict, db)
     else case UpdateProjectCandidate c expected db of
       None \<Rightarrow> (Inl (ErrCandidateOther ''constraint''), db)
     | Some (count, db') \<Rightarrow> if count \<noteq> 1 then (Inl ErrCandidateConflict, db') else (Inr c, db'))"

definition ExpireCandidates :: "string \<Rightarrow> go_time \<Rightarrow> candidate_db \<Rightarrow> (candidate_error + int) \<times> candidate_db" where
  "ExpireCandidates target now db =
    (if blank target \<or> now = 0 then (Inl (ErrCandidateOther ''target and time are required''), db)
     else case ExpireProjectCandidates (trim_space target) now db of (n, db') \<Rightarrow> (Inr n, db'))"

section \<open>The table as a versioned store\<close>

interpretation cand: versioned_store db_candidates cd_ID cd_Revision updated_row SaveCandidate
proof unfold_locales
  fix c n db s db'
  assume "SaveCandidate c n db = (Inr s, db')"
  then show "s = c \<and> cd_Revision c = wrap_int64 (n + 1) \<and> 0 < n \<and> (\<exists>i<length (db_candidates db).
      cd_ID (db_candidates db ! i) = cd_ID c \<and> cd_Revision (db_candidates db ! i) = n
      \<and> db_candidates db' = (db_candidates db)[i := updated_row c (db_candidates db ! i)])"
    by (auto simp: SaveCandidate_def UpdateProjectCandidate_def Let_def index_where_Some split: if_splits option.splits)
      blast
next
  fix c n db e db'
  assume "SaveCandidate c n db = (Inl e, db')"
  then show "db' = db"
    by (auto simp: SaveCandidate_def UpdateProjectCandidate_def Let_def split: if_splits option.splits)
qed (simp_all add: updated_row_def)

end
