(* ===== verification/Candidate_Service.thy ===== *)
theory Candidate_Service
  imports Candidate_Store
begin

text \<open>
  The candidate service, \<open>internal/deployment/candidate_service.go\<close>. A service method makes
  several repository calls, and other processes may write to the database between them: the
  methods take functions \<open>env\<close> on the database that stand for what happened in between. The
  clock readings, the generated identifier and the audit sink are arguments; the audit events
  and the calls to the runtime life cycle are recorded in the world.
\<close>

record candidate_event =
  ev_Action :: string
  ev_CandidateID :: string
  ev_ProjectID :: string
  ev_TargetID :: string
  ev_PrincipalID :: string
  ev_Status :: candidate_status
  ev_Metadata :: "(string \<times> string) list"

record candidate_service =
  sv_targetID :: string
  sv_canonicalOrigin :: string
  sv_environment :: string
  sv_lifetime :: int
  sv_maxActivePerOwner :: int
  sv_audit :: "(candidate_event \<Rightarrow> candidate_error option) option"
  sv_runtime :: bool
  sv_oci :: oci_parser

record candidate_world =
  w_db :: candidate_db
  w_events :: "candidate_event list"
  w_retired :: "string list"
  w_reaped :: "go_time list"

record start_request =
  sr_ProjectID :: string
  sr_OwnerID :: string
  sr_ArtifactDigest :: string
  sr_Key :: string

record candidate_scope =
  sc_ProjectID :: string
  sc_CandidateID :: string
  sc_OwnerID :: string
  sc_TargetID :: string

record start_result =
  st_Candidate :: candidate
  st_PreviewURL :: string
  st_Resumed :: bool

definition defaultCandidateLifetime :: int where
  "defaultCandidateLifetime = 8 * 3600 * 10 ^ 9"

definition defaultCandidateQuota :: int where
  "defaultCandidateQuota = 4"

text \<open>The defaults \<open>NewCandidateService\<close> fills in; the origin is already canonical.\<close>

definition NewCandidateService :: "candidate_service \<Rightarrow> candidate_error + candidate_service" where
  "NewCandidateService config =
    (let config = config\<lparr>sv_targetID := trim_space (sv_targetID config),
           sv_environment := trim_space (sv_environment config)\<rparr> in
     if sv_targetID config = [] \<or> sv_environment config = []
     then Inl (ErrCandidateOther ''candidate target and environment are required'')
     else Inr (config\<lparr>sv_lifetime := (if sv_lifetime config \<le> 0 then defaultCandidateLifetime else sv_lifetime config),
            sv_maxActivePerOwner := (if sv_maxActivePerOwner config \<le> 0 then defaultCandidateQuota
               else sv_maxActivePerOwner config)\<rparr>))"

text \<open>\<open>url.PathEscape\<close>.\<close>

definition hex_digit :: "nat \<Rightarrow> char" where
  "hex_digit n = ''0123456789ABCDEF'' ! n"

definition path_safe :: "char \<Rightarrow> bool" where
  "path_safe c \<longleftrightarrow> is_lower c \<or> is_upper c \<or> is_digit c \<or> c \<in> set ''-_.~$&+=:@''"

definition path_escape :: "string \<Rightarrow> string" where
  "path_escape s = concat (map (\<lambda>c. if path_safe c then [c]
     else [CHR ''%'', hex_digit (of_char c div 16), hex_digit (of_char c mod 16)]) s)"

definition PreviewURL :: "candidate_service \<Rightarrow> string \<Rightarrow> string" where
  "PreviewURL sv i = sv_canonicalOrigin sv @ ''/candidates/'' @ path_escape (trim_space i)"

definition record_event ::
  "candidate_service \<Rightarrow> string \<Rightarrow> candidate \<Rightarrow> (string \<times> string) list \<Rightarrow> candidate_world
    \<Rightarrow> candidate_error option \<times> candidate_world" where
  "record_event sv action c extra w =
    (case sv_audit sv of
       None \<Rightarrow> (None, w)
     | Some audit \<Rightarrow>
         let ev = \<lparr>ev_Action = action, ev_CandidateID = cd_ID c, ev_ProjectID = cd_ProjectID c,
               ev_TargetID = cd_TargetID c, ev_PrincipalID = cd_OwnerID c, ev_Status = cd_Status c,
               ev_Metadata = [(''baseGeneration'', cd_BaseGeneration c), (''candidateKey'', cd_Key c),
                 (''environment'', cd_Environment c), (''projectId'', cd_ProjectID c)] @ extra\<rparr> in
         (audit ev, w\<lparr>w_events := w_events w @ [ev]\<rparr>))"

definition retire :: "candidate_service \<Rightarrow> string \<Rightarrow> candidate_world \<Rightarrow> candidate_world" where
  "retire sv i w = (if sv_runtime sv then w\<lparr>w_retired := w_retired w @ [i]\<rparr> else w)"

definition Start ::
  "candidate_service \<Rightarrow> go_time \<Rightarrow> (candidate_error + string) \<Rightarrow> (candidate_db \<Rightarrow> candidate_db) \<Rightarrow> start_request
    \<Rightarrow> candidate_world \<Rightarrow> (candidate_error + start_result) \<times> candidate_world" where
  "Start sv now newID env request w =
    (case ActiveCandidateBaseGeneration (trim_space (sr_ProjectID request)) (sv_environment sv) (w_db w) of
       Inl e \<Rightarrow> (Inl e, w)
     | Inr base \<Rightarrow>
    case newID of
       Inl e \<Rightarrow> (Inl e, w)
     | Inr i \<Rightarrow>
    case NewCandidate (sv_oci sv) \<lparr>cs_ID = i, cs_ProjectID = sr_ProjectID request, cs_Key = sr_Key request,
           cs_TargetID = sv_targetID sv, cs_Environment = sv_environment sv, cs_OwnerID = sr_OwnerID request,
           cs_BaseGeneration = base, cs_ArtifactDigest = sr_ArtifactDigest request,
           cs_ExpiresAt = now + sv_lifetime sv, cs_Now = now\<rparr> of
       Inl e \<Rightarrow> (Inl e, w)
     | Inr c \<Rightarrow>
    case StartCandidate (sv_oci sv) c (sv_maxActivePerOwner sv) (env (w_db w)) of
       (Inl e, db) \<Rightarrow> (Inl e, w\<lparr>w_db := db\<rparr>)
     | (Inr (c, resumed), db) \<Rightarrow>
         (case record_event sv (if resumed then ''candidate.resumed'' else ''candidate.started'') c
                 [(''resumed'', if resumed then ''true'' else ''false'')] (w\<lparr>w_db := db\<rparr>) of
            (Some e, w) \<Rightarrow> (Inl e, w)
          | (None, w) \<Rightarrow> (Inr \<lparr>st_Candidate = c, st_PreviewURL = PreviewURL sv (cd_ID c), st_Resumed = resumed\<rparr>, w)))"

definition owns :: "candidate_service \<Rightarrow> candidate \<Rightarrow> candidate_scope \<Rightarrow> bool" where
  "owns sv c scope \<longleftrightarrow>
    (let target = trim_space (sc_TargetID scope);
         target = (if target = [] then sv_targetID sv else target) in
     trim_space (sc_CandidateID scope) = cd_ID c \<and> trim_space (sc_ProjectID scope) = cd_ProjectID c
     \<and> trim_space (sc_OwnerID scope) = cd_OwnerID c \<and> target = sv_targetID sv \<and> cd_TargetID c = sv_targetID sv)"

text \<open>\<open>expireOnRead\<close>: at most two attempts, each with its own interference before the save.\<close>

fun expire_attempts ::
  "nat \<Rightarrow> candidate_service \<Rightarrow> go_time \<Rightarrow> (nat \<Rightarrow> candidate_db \<Rightarrow> candidate_db) \<Rightarrow> candidate \<Rightarrow> candidate_world
    \<Rightarrow> (candidate_error + candidate) \<times> candidate_world" where
  "expire_attempts 0 sv now env c w = (Inl ErrCandidateConflict, w)"
| "expire_attempts (Suc n) sv now env c w =
    (case Expire_candidate now c of
       Inl e \<Rightarrow> (Inl e, w)
     | Inr (expired, changed) \<Rightarrow>
         if \<not> changed then (Inr expired, w)
         else case SaveCandidate expired (cd_Revision c) (env (Suc n) (w_db w)) of
           (Inr saved, db) \<Rightarrow>
             (case record_event sv ''candidate.expired'' saved [] (w\<lparr>w_db := db\<rparr>) of
                (Some e, w) \<Rightarrow> (Inl e, w)
              | (None, w) \<Rightarrow> (Inr saved, retire sv (cd_ID saved) w))
         | (Inl e, db) \<Rightarrow>
             if e \<noteq> ErrCandidateConflict then (Inl e, w\<lparr>w_db := db\<rparr>)
             else (case CandidateByID (sv_oci sv) (cd_ID c) db of
                     Inl e \<Rightarrow> (Inl e, w\<lparr>w_db := db\<rparr>)
                   | Inr c \<Rightarrow> expire_attempts n sv now env c (w\<lparr>w_db := db\<rparr>)))"

definition expireOnRead where
  "expireOnRead = expire_attempts 2"

definition Get_candidate ::
  "candidate_service \<Rightarrow> go_time \<Rightarrow> (nat \<Rightarrow> candidate_db \<Rightarrow> candidate_db) \<Rightarrow> candidate_scope \<Rightarrow> candidate_world
    \<Rightarrow> (candidate_error + candidate) \<times> candidate_world" where
  "Get_candidate sv now env scope w =
    (case CandidateByID (sv_oci sv) (trim_space (sc_CandidateID scope)) (w_db w) of
       Inl e \<Rightarrow> (Inl e, w)
     | Inr c \<Rightarrow> if \<not> owns sv c scope then (Inl ErrCandidateNotFound, w) else expireOnRead sv now env c w)"

definition GetOwned ::
  "candidate_service \<Rightarrow> go_time \<Rightarrow> (nat \<Rightarrow> candidate_db \<Rightarrow> candidate_db) \<Rightarrow> string \<Rightarrow> string \<Rightarrow> candidate_world
    \<Rightarrow> (candidate_error + candidate) \<times> candidate_world" where
  "GetOwned sv now env i owner w =
    (case CandidateByID (sv_oci sv) (trim_space i) (w_db w) of
       Inl e \<Rightarrow> (Inl e, w)
     | Inr c \<Rightarrow>
         if cd_TargetID c \<noteq> sv_targetID sv \<or> cd_OwnerID c \<noteq> trim_space owner then (Inl ErrCandidateNotFound, w)
         else expireOnRead sv now env c w)"

definition Review ::
  "candidate_service \<Rightarrow> go_time \<Rightarrow> (nat \<Rightarrow> candidate_db \<Rightarrow> candidate_db) \<Rightarrow> string \<Rightarrow> string \<Rightarrow> candidate_world
    \<Rightarrow> (candidate_error + candidate) \<times> candidate_world" where
  "Review sv now env project i w =
    (case CandidateByID (sv_oci sv) (trim_space i) (w_db w) of
       Inl e \<Rightarrow> (Inl e, w)
     | Inr c \<Rightarrow>
         if cd_TargetID c \<noteq> sv_targetID sv \<or> cd_ProjectID c \<noteq> trim_space project then (Inl ErrCandidateNotFound, w)
         else expireOnRead sv now env c w)"

text \<open>\<open>mutate\<close>: read (and expire), apply the transition, save what was read, record. The
  interference with number 0 comes between the read and the save.\<close>

definition mutate ::
  "candidate_service \<Rightarrow> go_time \<Rightarrow> (nat \<Rightarrow> candidate_db \<Rightarrow> candidate_db) \<Rightarrow> candidate_scope \<Rightarrow> string
    \<Rightarrow> (candidate \<Rightarrow> candidate_error + candidate) \<Rightarrow> candidate_world
    \<Rightarrow> (candidate_error + candidate) \<times> candidate_world" where
  "mutate sv now env scope action transition w =
    (case Get_candidate sv now env scope w of
       (Inl e, w) \<Rightarrow> (Inl e, w)
     | (Inr current, w) \<Rightarrow>
    case transition current of
       Inl e \<Rightarrow> (Inl e, w)
     | Inr next \<Rightarrow>
         if next = current then (Inr current, w)
         else case SaveCandidate next (cd_Revision current) (env 0 (w_db w)) of
           (Inl e, db) \<Rightarrow> (Inl e, w\<lparr>w_db := db\<rparr>)
         | (Inr saved, db) \<Rightarrow>
             (case record_event sv action saved [] (w\<lparr>w_db := db\<rparr>) of
                (Some e, w) \<Rightarrow> (Inl e, w)
              | (None, w) \<Rightarrow> (Inr saved, w)))"

definition ReplaceArtifact_service where
  "ReplaceArtifact_service sv now now' env scope expected next =
     mutate sv now env scope ''candidate.artifact_replaced''
       (apply_transition (sv_oci sv) (TReplace expected next now' (now' + sv_lifetime sv)))"

definition MarkReady_service where
  "MarkReady_service sv now now' env scope artifact provenance =
     mutate sv now env scope ''candidate.ready'' (apply_transition (sv_oci sv) (TReady artifact provenance now'))"

definition MarkFailed_service where
  "MarkFailed_service sv now now' env scope artifact code =
     mutate sv now env scope ''candidate.failed'' (apply_transition (sv_oci sv) (TFail artifact code now'))"

definition Retry_service where
  "Retry_service sv now now' env scope =
     mutate sv now env scope ''candidate.retried'' (apply_transition (sv_oci sv) (TRetry now' (now' + sv_lifetime sv)))"

definition Cancel_service where
  "Cancel_service sv now now' env scope w =
    (case mutate sv now env scope ''candidate.cancelled'' (apply_transition (sv_oci sv) (TCancel now')) w of
       (Inl e, w) \<Rightarrow> (Inl e, w)
     | (Inr c, w) \<Rightarrow> (Inr c, retire sv (cd_ID c) w))"

definition candidateScopeForService :: "candidate \<Rightarrow> candidate_scope" where
  "candidateScopeForService c = \<lparr>sc_ProjectID = cd_ProjectID c, sc_CandidateID = cd_ID c,
     sc_OwnerID = cd_OwnerID c, sc_TargetID = cd_TargetID c\<rparr>"

definition CancelActive where
  "CancelActive sv now now' env project owner key w =
    (case ActiveCandidate (sv_oci sv) (sv_targetID sv) (trim_space project) (trim_space owner)
            (normalizeCandidateKey key) (w_db w) of
       Inl e \<Rightarrow> (Inl e, w)
     | Inr c \<Rightarrow> Cancel_service sv now now' env (candidateScopeForService c) w)"

definition Reconcile :: "candidate_service \<Rightarrow> go_time \<Rightarrow> candidate_world \<Rightarrow> (candidate_error + int) \<times> candidate_world" where
  "Reconcile sv now w =
    (case ExpireCandidates (sv_targetID sv) now (w_db w) of
       (Inl e, db) \<Rightarrow> (Inl e, w\<lparr>w_db := db\<rparr>)
     | (Inr n, db) \<Rightarrow>
         (Inr n, let w = w\<lparr>w_db := db\<rparr> in if sv_runtime sv then w\<lparr>w_reaped := w_reaped w @ [now]\<rparr> else w))"

end
