(* ===== verification/Candidate_Safety.thy ===== *)
theory Candidate_Safety
  imports Candidate_Service
begin

text \<open>
  The invariant of the candidate table, the history of its rows, and what they give the
  service: a transition is saved on the row it was computed from or not at all.
\<close>

section \<open>The table invariant\<close>

definition active_rows :: "candidate_db \<Rightarrow> candidate list" where
  "active_rows db = filter (\<lambda>c. active_status (cd_Status c)) (db_candidates db)"

definition db_ok :: "int \<Rightarrow> candidate_db \<Rightarrow> bool" where
  "db_ok quota db \<longleftrightarrow> distinct (map cd_ID (db_candidates db)) \<and> distinct (map session_of (active_rows db))
     \<and> (\<forall>owner. CountActiveProjectCandidatesForOwner owner db \<le> quota)"

lemma count_active_rows:
  "CountActiveProjectCandidatesForOwner owner db = int (length (filter (\<lambda>c. cd_OwnerID c = owner) (active_rows db)))"
  by (simp add: CountActiveProjectCandidatesForOwner_def active_rows_def conj_commute)

text \<open>Updating rows in place, without reviving a terminal row, keeps the invariant.\<close>

definition row_change :: "candidate \<Rightarrow> candidate \<Rightarrow> bool" where
  "row_change r r' \<longleftrightarrow> cd_ID r' = cd_ID r \<and> session_of r' = session_of r \<and> cd_OwnerID r' = cd_OwnerID r
     \<and> (active_status (cd_Status r') \<longrightarrow> active_status (cd_Status r))"

lemma row_change_refl [simp]: "row_change r r"
  by (simp add: row_change_def)

lemma filter_active_subseq:
  assumes "list_all2 row_change rs rs'"
  shows "subseq (map session_of (filter (\<lambda>c. active_status (cd_Status c)) rs'))
           (map session_of (filter (\<lambda>c. active_status (cd_Status c)) rs))"
    and "length (filter (\<lambda>c. cd_OwnerID c = owner \<and> active_status (cd_Status c)) rs')
           \<le> length (filter (\<lambda>c. cd_OwnerID c = owner \<and> active_status (cd_Status c)) rs)"
    and "map cd_ID rs' = map cd_ID rs"
  using assms by (induction rule: list_all2_induct) (auto simp: row_change_def)

lemma rows_change_ok:
  assumes ok: "db_ok quota db" and ch: "list_all2 row_change (db_candidates db) rs"
  shows "db_ok quota (db\<lparr>db_candidates := rs\<rparr>)"
proof -
  note f = filter_active_subseq [OF ch]
  have "CountActiveProjectCandidatesForOwner owner (db\<lparr>db_candidates := rs\<rparr>) \<le> quota" for owner
  proof -
    have "CountActiveProjectCandidatesForOwner owner db \<le> quota" using ok by (simp add: db_ok_def)
    then show ?thesis using f(2) [of owner] by (simp add: CountActiveProjectCandidatesForOwner_def)
  qed
  moreover have "distinct (map session_of (active_rows (db\<lparr>db_candidates := rs\<rparr>)))"
    using ok f(1) by (auto simp: db_ok_def active_rows_def subseq_conv_nths)
  ultimately show ?thesis using ok f(3) by (simp add: db_ok_def)
qed

lemma list_all2_map_self: "(\<And>r. r \<in> set rs \<Longrightarrow> P r (f r)) \<Longrightarrow> list_all2 P rs (map f rs)"
  by (simp add: list_all2_conv_all_nth)

lemma expire_row_change: "row_change r (if expirable t now r then expire_row now r else r)"
  by (simp add: row_change_def expire_row_def session_of_def active_status_def)

lemma expire_ok: "db_ok quota db \<Longrightarrow> db_ok quota (snd (ExpireProjectCandidates t now db))"
  unfolding ExpireProjectCandidates_def snd_conv
  by (rule rows_change_ok, assumption, rule list_all2_map_self, rule expire_row_change)

lemma supersede_ok: "db_ok quota db \<Longrightarrow> db_ok quota (snd (CancelSupersededProjectCandidate i now db))"
  unfolding CancelSupersededProjectCandidate_def Let_def snd_conv
  by (rule rows_change_ok, assumption, rule list_all2_map_self)
    (simp add: row_change_def supersede_row_def session_of_def active_status_def)

lemma create_ok:
  assumes ok: "db_ok quota db" and c: "CreateProjectCandidate c db = Some db'"
    and q: "CountActiveProjectCandidatesForOwner (cd_OwnerID c) db < quota"
  shows "db_ok quota db'"
proof -
  have db': "db' = db\<lparr>db_candidates := db_candidates db @ [c]\<rparr>" and nv: "\<not> violates c (db_candidates db)"
    using c by (auto simp: CreateProjectCandidate_def split: if_splits)
  have act: "active_rows db' = active_rows db @ (if active_status (cd_Status c) then [c] else [])"
    by (simp add: db' active_rows_def)
  have "CountActiveProjectCandidatesForOwner owner db' \<le> quota" for owner
    using ok q by (auto simp: count_active_rows act db_ok_def)
  moreover have "distinct (map session_of (active_rows db'))"
    unfolding act using ok nv by (auto simp: db_ok_def violates_def active_rows_def)
  ultimately show ?thesis using ok nv by (auto simp: db_ok_def db' violates_def)
qed

section \<open>The history of a row\<close>

text \<open>\<open>later db db'\<close>: every row of \<open>db\<close> is still there, unchanged or with a higher revision.\<close>

definition later :: "candidate_db \<Rightarrow> candidate_db \<Rightarrow> bool" where
  "later db db' \<longleftrightarrow> (\<forall>r\<in>set (db_candidates db). \<exists>r'\<in>set (db_candidates db'). same_identity r r'
     \<and> (r' = r \<or> cd_Revision r < cd_Revision r'))"

lemma same_identity_trans: "same_identity a b \<Longrightarrow> same_identity b c \<Longrightarrow> same_identity a c"
  by (simp add: same_identity_def)

lemma same_identity_ID: "same_identity r r' \<Longrightarrow> cd_ID r' = cd_ID r"
  by (simp add: same_identity_def)

lemma later_subset: "set (db_candidates db) \<subseteq> set (db_candidates db') \<Longrightarrow> later db db'"
  unfolding later_def using same_identity_refl by blast

lemma later_refl [simp]: "later db db"
  by (simp add: later_subset)

lemma later_trans: "later a b \<Longrightarrow> later b c \<Longrightarrow> later a c"
  unfolding later_def by (metis order_less_trans same_identity_trans)

lemma later_rows:
  assumes "list_all2 (\<lambda>r r'. same_identity r r' \<and> (r' = r \<or> cd_Revision r < cd_Revision r')) (db_candidates db) rs"
  shows "later db (db\<lparr>db_candidates := rs\<rparr>)"
  using assms unfolding later_def list_all2_conv_all_nth by (auto simp: in_set_conv_nth Bex_def) (metis nth_mem)

lemma expire_later: "later db (snd (ExpireProjectCandidates t now db))"
  unfolding ExpireProjectCandidates_def snd_conv
  by (rule later_rows, rule list_all2_map_self) (simp add: expire_row_def same_identity_def)

lemma supersede_later: "later db (snd (CancelSupersededProjectCandidate i now db))"
  unfolding CancelSupersededProjectCandidate_def Let_def snd_conv
  by (rule later_rows, rule list_all2_map_self) (simp add: supersede_row_def same_identity_def)

lemma create_later: "CreateProjectCandidate c db = Some db' \<Longrightarrow> later db db'"
  by (rule later_subset) (auto simp: CreateProjectCandidate_def split: if_splits)

lemma insert_started_props:
  assumes ok: "db_ok quota db" "db_ok quota db0" and lt: "later db0 db"
    and r: "insert_started c quota db0 db = (res, db')"
  shows "db_ok quota db'" "later db0 db'" "res = Inr (c', b) \<Longrightarrow> c' = c \<and> \<not> b \<and> c \<in> set (db_candidates db')"
proof -
  have "db_ok quota db' \<and> later db0 db' \<and> (res = Inr (c', b) \<longrightarrow> c' = c \<and> \<not> b \<and> c \<in> set (db_candidates db'))"
    using r create_ok [OF ok(1), of c] create_later [of c db] later_trans [OF lt] ok(2)
    by (auto simp: insert_started_def CreateProjectCandidate_def split: option.splits if_splits)
  then show "db_ok quota db'" "later db0 db'" "res = Inr (c', b) \<Longrightarrow> c' = c \<and> \<not> b \<and> c \<in> set (db_candidates db')" by auto
qed

text \<open>\<open>StartCandidate\<close> leaves the database alone, or inserts after expiring and perhaps superseding.\<close>

lemma StartCandidate_shape:
  assumes "StartCandidate oci c quota db = (res, db')"
  obtains "db' = db"
  | b where "insert_started (c\<lparr>cd_BaseGeneration := b\<rparr>) quota db (snd (ExpireProjectCandidates (cd_TargetID c) (cd_CreatedAt c) db)) = (res, db')"
  | b i where "insert_started (c\<lparr>cd_BaseGeneration := b\<rparr>) quota db (snd (CancelSupersededProjectCandidate i (cd_CreatedAt c)
      (snd (ExpireProjectCandidates (cd_TargetID c) (cd_CreatedAt c) db)))) = (res, db')"
proof -
  let ?e = "snd (ExpireProjectCandidates (cd_TargetID c) (cd_CreatedAt c) db)"
  define b where "b = (case db_activeGeneration ?e (cd_ProjectID c) (cd_Environment c) of
    None \<Rightarrow> CandidateBaseGenerationEmpty | Some g \<Rightarrow> g)"
  have eq: "StartCandidate oci c quota db = (if quota \<le> 0 then (Inl (ErrCandidateOther ''positive quota is required''), db)
     else case GetActiveProjectCandidateSession (session_of (c\<lparr>cd_BaseGeneration := b\<rparr>)) ?e of
         None \<Rightarrow> insert_started (c\<lparr>cd_BaseGeneration := b\<rparr>) quota db ?e
       | Some row \<Rightarrow>
           (case mapCandidate oci row of
              Inl e \<Rightarrow> (Inl e, db)
            | Inr existing \<Rightarrow>
                if sameCandidateStart existing (c\<lparr>cd_BaseGeneration := b\<rparr>) then (Inr (existing, True), db)
                else if cd_BaseGeneration existing \<noteq> b then
                  (case CancelSupersededProjectCandidate (cd_ID existing) (cd_CreatedAt c) ?e of
                     (changed, d) \<Rightarrow> if changed \<noteq> 1 then (Inl ErrCandidateConflict, db)
                       else insert_started (c\<lparr>cd_BaseGeneration := b\<rparr>) quota db d)
                else (Inl ErrCandidateConflict, db)))"
    by (simp add: StartCandidate_def Let_def b_def cong: if_cong option.case_cong sum.case_cong)
  show thesis
  proof (cases "GetActiveProjectCandidateSession (session_of (c\<lparr>cd_BaseGeneration := b\<rparr>)) ?e")
    case None
    then show thesis using assms eq that(1,2) by (auto split: if_splits)
  next
    case (Some row)
    show thesis
    proof (cases "mapCandidate oci row")
      case (Inl e)
      then show thesis using assms eq that(1) Some by (auto split: if_splits)
    next
      case (Inr existing)
      obtain k d where cs: "CancelSupersededProjectCandidate (cd_ID existing) (cd_CreatedAt c) ?e = (k, d)" by fastforce
      then have "d = snd (CancelSupersededProjectCandidate (cd_ID existing) (cd_CreatedAt c) ?e)" by simp
      then show thesis using assms eq that(1) that(3) [of b "cd_ID existing"] Some Inr cs by (auto split: if_splits)
    qed
  qed
qed

lemma StartCandidate_props:
  assumes ok: "db_ok quota db" and r: "StartCandidate oci c quota db = (res, db')"
  shows "db_ok quota db'" "later db db'"
proof -
  let ?e = "snd (ExpireProjectCandidates (cd_TargetID c) (cd_CreatedAt c) db)"
  have e: "db_ok quota ?e" "later db ?e" using expire_ok [OF ok] expire_later by auto
  have s: "db_ok quota (snd (CancelSupersededProjectCandidate i n ?e))" "later db (snd (CancelSupersededProjectCandidate i n ?e))" for i n
    using supersede_ok [OF e(1)] later_trans [OF e(2) supersede_later] by auto
  have "db_ok quota db' \<and> later db db'"
    using r
  proof (cases rule: StartCandidate_shape)
    case 1
    then show ?thesis using ok by simp
  next
    case (2 b)
    then show ?thesis using insert_started_props(1,2) [OF e(1) ok e(2)] by blast
  next
    case (3 b i)
    then show ?thesis using insert_started_props(1,2) [OF s(1) ok s(2)] by blast
  qed
  then show "db_ok quota db'" "later db db'" by auto
qed

section \<open>Saving a transition\<close>

lemma update_hit:
  assumes ok: "db_ok quota db" and r: "r \<in> set (db_candidates db)" "cd_ID c = cd_ID r"
  shows "UpdateProjectCandidate c (cd_Revision r) db =
    (let i = the (index_where (\<lambda>x. x = r) (db_candidates db)); rows = db_candidates db; row = updated_row c r in
     if violates row (delete_at i rows) then None else Some (1, db\<lparr>db_candidates := rows[i := row]\<rparr>))"
    and "\<exists>i. index_where (\<lambda>x. x = r) (db_candidates db) = Some i \<and> i < length (db_candidates db) \<and> db_candidates db ! i = r"
proof -
  have uniq: "x = r" if "x \<in> set (db_candidates db)" "cd_ID x = cd_ID r" for x
    using ok r(1) that by (auto simp: db_ok_def distinct_map inj_on_def)
  obtain i where i: "index_where (\<lambda>x. x = r) (db_candidates db) = Some i"
    using r(1) index_where_None [of "\<lambda>x. x = r" "db_candidates db"] by (cases "index_where (\<lambda>x. x = r) (db_candidates db)") auto
  then show "\<exists>i. index_where (\<lambda>x. x = r) (db_candidates db) = Some i \<and> i < length (db_candidates db) \<and> db_candidates db ! i = r"
    by (auto simp: index_where_Some)
  have hit: "index_where (\<lambda>x. cd_ID x = cd_ID c \<and> cd_Revision x = cd_Revision r) (db_candidates db) = Some i"
    using i uniq r(2) by (auto simp: index_where_Some)
  have "db_candidates db ! i = r" using i by (simp add: index_where_Some)
  then show "UpdateProjectCandidate c (cd_Revision r) db =
    (let i = the (index_where (\<lambda>x. x = r) (db_candidates db)); rows = db_candidates db; row = updated_row c r in
     if violates row (delete_at i rows) then None else Some (1, db\<lparr>db_candidates := rows[i := row]\<rparr>))"
    by (simp add: UpdateProjectCandidate_def Let_def hit i)
qed

lemma updated_row_same: "same_identity r c \<Longrightarrow> updated_row c r = c"
  by (simp add: updated_row_def same_identity_def)

lemma lifecycle_active: "lifecycle s s' \<Longrightarrow> active_status s' \<Longrightarrow> active_status s"
  by (induction rule: lifecycle.induct) (auto simp: active_status_def)

text \<open>Saving what a transition made of a row that is still there replaces exactly that row.\<close>

lemma save_transition:
  assumes ok: "db_ok quota db" and r: "r \<in> set (db_candidates db)" "cd_ID r \<noteq> []"
    and t: "apply_transition oci t r = Inr c" "c \<noteq> r" and rev: "0 < cd_Revision r" "cd_Revision r < max_int64"
  shows "\<exists>db'. SaveCandidate c (cd_Revision r) db = (Inr c, db') \<and> db_ok quota db' \<and> later db db'
    \<and> set (db_candidates db') = insert c (set (db_candidates db) - {r})"
proof -
  have same: "same_identity r c" by (rule transition_identity [OF t(1)])
  have wrap: "wrap_int64 (cd_Revision r + 1) = cd_Revision r + 1"
    using rev by (intro wrap_int64_id) (auto simp: max_int64_def)
  have crev: "cd_Revision c = cd_Revision r + 1" using transition_revision [OF t(1)] t(2) wrap by simp
  have ids: "cd_ID c = cd_ID r" using same by (simp add: same_identity_def)
  obtain i where i: "index_where (\<lambda>x. x = r) (db_candidates db) = Some i" "i < length (db_candidates db)" "db_candidates db ! i = r"
    using update_hit(2) [OF ok r(1) ids] by blast
  have rc: "row_change r c"
    using same lifecycle_active [OF transition_status [OF t(1)]] by (auto simp: row_change_def same_identity_def session_of_def)
  have dist: "distinct (db_candidates db)" using ok by (auto simp: db_ok_def distinct_map)
  have others: "set (delete_at i (db_candidates db)) = set (db_candidates db) - {r}"
    using set_delete_at [OF dist i(2)] i(3) by simp
  have "cd_ID x \<noteq> cd_ID c" if "x \<in> set (db_candidates db) - {r}" for x
    using ok r(1) that ids by (auto simp: db_ok_def distinct_map inj_on_def)
  moreover have "session_of x \<noteq> session_of c" if "x \<in> set (db_candidates db) - {r}" "active_status (cd_Status x)" "active_status (cd_Status c)" for x
    using ok r(1) that rc by (auto simp: db_ok_def distinct_map inj_on_def row_change_def active_rows_def)
  ultimately have nv: "\<not> violates c (delete_at i (db_candidates db))"
    unfolding violates_def others by auto
  let ?db = "db\<lparr>db_candidates := (db_candidates db)[i := c]\<rparr>"
  have "SaveCandidate c (cd_Revision r) db = (Inr c, ?db)"
    using ids r(2) rev crev wrap update_hit(1) [OF ok r(1) ids] i nv updated_row_same [OF same]
    by (simp add: SaveCandidate_def Let_def)
  moreover have "list_all2 row_change (db_candidates db) ((db_candidates db)[i := c])"
    using rc i by (auto simp: list_all2_conv_all_nth nth_list_update)
  then have "db_ok quota ?db" by (rule rows_change_ok [OF ok])
  moreover have "later db ?db"
    by (rule later_rows) (use i same crev in \<open>auto simp: list_all2_conv_all_nth nth_list_update\<close>)
  moreover have "set (db_candidates ?db) = insert c (set (db_candidates db) - {r})"
    using set_update_distinct [OF dist i(2)] i(3) by simp
  ultimately show ?thesis by blast
qed

text \<open>If the row has moved on since it was read, the save is refused and changes nothing.\<close>

lemma save_stale:
  assumes ok: "db_ok quota db" and lt: "later db0 db" and r: "r \<in> set (db_candidates db0)" "r \<notin> set (db_candidates db)"
    and c: "cd_ID c = cd_ID r"
  shows "SaveCandidate c (cd_Revision r) db = (Inl ErrCandidateConflict, db)"
proof -
  obtain r' where r': "r' \<in> set (db_candidates db)" "cd_ID r' = cd_ID r" "cd_Revision r < cd_Revision r'"
    using lt r same_identity_ID unfolding later_def by metis
  have "x = r'" if "x \<in> set (db_candidates db)" "cd_ID x = cd_ID r" for x
    using ok r'(1,2) that by (auto simp: db_ok_def distinct_map inj_on_def)
  then have "index_where (\<lambda>x. cd_ID x = cd_ID c \<and> cd_Revision x = cd_Revision r) (db_candidates db) = None"
    using c r'(3) by (auto simp: index_where_None)
  then show ?thesis by (simp add: SaveCandidate_def UpdateProjectCandidate_def)
qed

end
