(* ===== verification/Candidate_Theorems.thy ===== *)
theory Candidate_Theorems
  imports Candidate_Safety
begin

text \<open>
  The properties of private project candidates: the transitions refine the life cycle, sessions
  and quotas in the table, and mutations under concurrent writers.
\<close>

section \<open>Executions of the table\<close>

inductive db_step :: "int \<Rightarrow> oci_parser \<Rightarrow> candidate_db \<Rightarrow> candidate_db \<Rightarrow> bool" for quota oci where
  start: "NewCandidate oci input = Inr c \<Longrightarrow> StartCandidate oci c quota db = (res, db') \<Longrightarrow> db_step quota oci db db'"
| expire: "ExpireCandidates target now db = (n, db') \<Longrightarrow> db_step quota oci db db'"
| save: "r \<in> set (db_candidates db) \<Longrightarrow> cd_ID r \<noteq> [] \<Longrightarrow> apply_transition oci t r = Inr c \<Longrightarrow> c \<noteq> r \<Longrightarrow>
    0 < cd_Revision r \<Longrightarrow> cd_Revision r < max_int64 \<Longrightarrow>
    SaveCandidate c (cd_Revision r) db = (saved, db') \<Longrightarrow> db_step quota oci db db'"
| activate: "db_step quota oci db (db\<lparr>db_activeGeneration := g\<rparr>)"

definition candidates_reachable :: "int \<Rightarrow> oci_parser \<Rightarrow> candidate_db \<Rightarrow> bool" where
  "candidates_reachable quota oci db \<longleftrightarrow> (\<exists>g. (db_step quota oci)\<^sup>*\<^sup>* \<lparr>db_candidates = [], db_activeGeneration = g\<rparr> db)"

lemma db_step_props:
  assumes "db_step quota oci db db'" "db_ok quota db"
  shows "db_ok quota db' \<and> later db db'"
  using assms
proof (induction rule: db_step.induct)
  case (start input c db res db')
  then show ?case using StartCandidate_props by blast
next
  case (expire target now db n db')
  have "db' = db \<or> db' = snd (ExpireProjectCandidates (trim_space target) now db)"
    using expire.hyps by (auto simp: ExpireCandidates_def split: if_splits prod.splits)
  then show ?case using expire_ok [OF expire.prems] expire_later expire.prems later_refl by metis
next
  case (save r db t c saved db')
  then show ?case using save_transition [OF save.prems save.hyps(1-6)] by auto
next
  case (activate db g)
  then show ?case
    by (simp add: db_ok_def active_rows_def CountActiveProjectCandidatesForOwner_def later_subset)
qed

lemma candidates_reachable_ok:
  assumes "candidates_reachable quota oci db" "0 \<le> quota"
  shows "db_ok quota db"
proof -
  obtain g where "(db_step quota oci)\<^sup>*\<^sup>* \<lparr>db_candidates = [], db_activeGeneration = g\<rparr> db"
    using assms(1) by (auto simp: candidates_reachable_def)
  then show ?thesis
  proof (induction rule: rtranclp_induct)
    case base
    then show ?case using assms(2) by (simp add: db_ok_def active_rows_def CountActiveProjectCandidatesForOwner_def)
  next
    case (step y z)
    then show ?case using db_step_props by blast
  qed
qed

section \<open>Mutations under interference\<close>

definition interference_ok :: "int \<Rightarrow> (nat \<Rightarrow> candidate_db \<Rightarrow> candidate_db) \<Rightarrow> bool" where
  "interference_ok quota env \<longleftrightarrow> (\<forall>n db. db_ok quota db \<longrightarrow> db_ok quota (env n db) \<and> later db (env n db))"

lemma save_success:
  assumes ok: "db_ok quota db" and lt: "later db0 db" and r: "r \<in> set (db_candidates db0)"
    and same: "same_identity r c" and s: "SaveCandidate c (cd_Revision r) db = (Inr s, db')"
  shows "s = c" "r \<in> set (db_candidates db)" "set (db_candidates db') = insert c (set (db_candidates db) - {r})"
    "row_change r c \<Longrightarrow> db_ok quota db'"
proof -
  have id: "cd_ID c = cd_ID r" using same by (simp add: same_identity_def)
  show mem: "r \<in> set (db_candidates db)"
    using save_stale [OF ok lt r _ id] s by (cases "r \<in> set (db_candidates db)") auto
  show "s = c" using s by (auto simp: SaveCandidate_def split: if_splits option.splits prod.splits)
  obtain i where i: "index_where (\<lambda>x. x = r) (db_candidates db) = Some i" "i < length (db_candidates db)" "db_candidates db ! i = r"
    using update_hit(2) [OF ok mem id] by blast
  have db': "db' = db\<lparr>db_candidates := (db_candidates db)[i := c]\<rparr>"
    using s i update_hit(1) [OF ok mem id] updated_row_same [OF same]
    by (auto simp: SaveCandidate_def Let_def split: if_splits)
  have "distinct (db_candidates db)" using ok by (auto simp: db_ok_def distinct_map)
  then show "set (db_candidates db') = insert c (set (db_candidates db) - {r})"
    using set_update_distinct [OF _ i(2)] i(3) by (simp add: db')
  assume "row_change r c"
  then have "list_all2 row_change (db_candidates db) ((db_candidates db)[i := c])"
    using i by (auto simp: list_all2_conv_all_nth nth_list_update)
  then show "db_ok quota db'" unfolding db' by (rule rows_change_ok [OF ok])
qed

lemma transition_row_change: "apply_transition oci t r = Inr c \<Longrightarrow> row_change r c"
  using transition_identity [of oci t r c] lifecycle_active [OF transition_status [of oci t r c]]
  by (auto simp: row_change_def same_identity_def session_of_def)

lemma SaveCandidate_error_db: "SaveCandidate c n db = (Inl e, db') \<Longrightarrow> db' = db"
  by (auto simp: SaveCandidate_def UpdateProjectCandidate_def Let_def split: if_splits option.splits)

lemma CandidateByID_mem: "CandidateByID oci i db = Inr c \<Longrightarrow> c \<in> set (db_candidates db) \<and> cd_ID c = trim_space i"
  by (auto simp: CandidateByID_def GetProjectCandidate_def mapCandidate_def find_Some_iff split: if_splits option.splits)

lemma record_event_db: "w_db (snd (record_event sv a c x w)) = w_db w"
  by (simp add: record_event_def Let_def split: option.split)

lemma retire_db [simp]: "w_db (retire sv i w) = w_db w"
  by (simp add: retire_def)

text \<open>What \<open>expireOnRead\<close> returns is a row of the table as it leaves it, with the identity that was read.\<close>

lemma expire_attempts_mem:
  assumes "expire_attempts n sv now env c w = (Inr c', w')" "db_ok quota (w_db w)" "interference_ok quota env"
    "c \<in> set (db_candidates (w_db w))" "trim_space (cd_ID c) = cd_ID c"
  shows "c' \<in> set (db_candidates (w_db w')) \<and> db_ok quota (w_db w') \<and> same_identity c c'"
  using assms
proof (induction n sv now env c w rule: expire_attempts.induct)
  case (2 n sv now env c w)
  let ?db = "env (Suc n) (w_db w)"
  have env: "db_ok quota ?db" "later (w_db w) ?db" using "2.prems"(2,3) by (auto simp: interference_ok_def)
  obtain x changed where x: "Expire_candidate now c = Inr (x, changed)"
    using "2.prems"(1) by (auto split: sum.splits)
  then have t: "apply_transition (sv_oci sv) (TExpire now) c = Inr x" by simp
  show ?case
  proof (cases changed)
    case False
    then have "x = c" using x by (auto simp: Expire_candidate_def split: if_splits)
    then show ?thesis using "2.prems" x False by simp
  next
    case True
    obtain out db' where s: "SaveCandidate x (cd_Revision c) ?db = (out, db')" by fastforce
    show ?thesis
    proof (cases out)
      case (Inr saved)
      note ss = save_success [OF env(1,2) "2.prems"(4) transition_identity [OF t] s [unfolded Inr]]
      have "c' = saved" "w_db w' = db'"
        using "2.prems"(1) x True s Inr record_event_db [of sv "''candidate.expired''" saved "[]" "w\<lparr>w_db := db'\<rparr>"]
        by (auto split: option.splits prod.splits)
      then show ?thesis
        using ss ss(4) [OF transition_row_change [OF t]] transition_identity [OF t] by auto
    next
      case (Inl e)
      have db': "db' = ?db" using s SaveCandidate_error_db Inl by blast
      obtain c2 where c2: "CandidateByID (sv_oci sv) (cd_ID c) db' = Inr c2" and e: "e = ErrCandidateConflict"
        and rest: "expire_attempts n sv now env c2 (w\<lparr>w_db := db'\<rparr>) = (Inr c', w')"
        using "2.prems"(1) x True s Inl by (auto split: if_splits sum.splits)
      have m: "c2 \<in> set (db_candidates ?db)" "cd_ID c2 = cd_ID c"
        using CandidateByID_mem [OF c2] "2.prems"(5) db' by auto
      obtain r where r: "r \<in> set (db_candidates ?db)" "same_identity c r" using env(2) "2.prems"(4) unfolding later_def by blast
      then have "r = c2" using env(1) m same_identity_ID [OF r(2)] by (auto simp: db_ok_def distinct_map inj_on_def)
      with r have same: "same_identity c c2" by simp
      have "c' \<in> set (db_candidates (w_db w')) \<and> db_ok quota (w_db w') \<and> same_identity c2 c'"
        using "2.IH" [OF x refl _ s [symmetric] Inl _ c2 rest] True e m env(1) db' "2.prems"(3,5) by simp
      then show ?thesis using same_identity_trans [OF same] by blast
    qed
  qed
qed simp

lemma Get_candidate_mem:
  assumes g: "Get_candidate sv now env scope w = (Inr c, w')" and ok: "db_ok quota (w_db w)" "interference_ok quota env"
  shows "c \<in> set (db_candidates (w_db w'))" "db_ok quota (w_db w')" "owns sv c scope"
proof -
  obtain c0 where c0: "CandidateByID (sv_oci sv) (trim_space (sc_CandidateID scope)) (w_db w) = Inr c0" "owns sv c0 scope"
    and e: "expire_attempts 2 sv now env c0 w = (Inr c, w')"
    using g by (auto simp: Get_candidate_def expireOnRead_def split: sum.splits if_splits)
  note m = CandidateByID_mem [OF c0(1)]
  have "trim_space (cd_ID c0) = cd_ID c0" using m by simp
  note x = expire_attempts_mem [OF e ok conjunct1 [OF m] this]
  then show "c \<in> set (db_candidates (w_db w'))" "db_ok quota (w_db w')" by auto
  show "owns sv c scope" using x c0(2) by (auto simp: owns_def same_identity_def Let_def)
qed

section \<open>Properties\<close>

text \<open>
  C18. Every transition of a candidate that succeeds is a step of the abstract life cycle
  (preparing, ready and failed candidates may be replaced, cancelled or expired; only a
  preparing one becomes ready or failed; cancelled and expired ones stay), keeps the identity of
  the candidate, and either changes nothing or advances the revision by one; a valid candidate
  stays valid.
\<close>

theorem transitions_refine_lifecycle:
  assumes "Validate_candidate oci c = Inr ()" "apply_transition oci t c = Inr c'"
    and "0 < transition_time t" "cd_Revision c < max_int64"
  shows "lifecycle (cd_Status c) (cd_Status c') \<and> same_identity c c' \<and> Validate_candidate oci c' = Inr ()
    \<and> (c' = c \<or> cd_Revision c' = cd_Revision c + 1)"
proof -
  have "wrap_int64 (cd_Revision c + 1) = cd_Revision c + 1"
    using assms(1,4) by (intro wrap_int64_id) (auto simp: Validate_candidate_iff max_int64_def)
  then show ?thesis
    using transition_status [OF assms(2)] transition_identity [OF assms(2)] transition_valid [OF assms]
      transition_revision [OF assms(2)] by auto
qed

definition sample_oci :: oci_parser where
  "sample_oci s = (if s = ''d1'' \<or> s = ''d2'' \<or> s = ''p'' then Some (''sha256'', s) else None)"

definition sample_candidate :: candidate where
  "sample_candidate = \<lparr>cd_ID = ''c'', cd_ProjectID = ''p'', cd_Key = ''k'', cd_TargetID = ''t'', cd_Environment = ''e'',
     cd_OwnerID = ''o'', cd_BaseGeneration = ''g'', cd_ArtifactDigest = ''d1'', cd_ProvenanceDigest = [],
     cd_Status = CandidatePreparing, cd_FailureReason = [], cd_ExpiresAt = 100, cd_CreatedAt = 1, cd_UpdatedAt = 1,
     cd_ReadyAt = 0, cd_CancelledAt = 0, cd_ExpiredAt = 0, cd_Revision = 1\<rparr>"

lemma trim_space_short [simp]:
  "trim_space ''c'' = ''c''" "trim_space ''p'' = ''p''" "trim_space ''t'' = ''t''" "trim_space ''e'' = ''e''"
  "trim_space ''o'' = ''o''" "trim_space ''g'' = ''g''" "trim_space ''d1'' = ''d1''" "trim_space ''d2'' = ''d2''"
  "trim_space ''k'' = ''k''"
  by (simp_all add: trim_space_def trim_left_of.simps space_encodings_def upt_rec char_of_def)

lemma sample_candidate_valid: "Validate_candidate sample_oci sample_candidate = Inr ()"
  by (simp add: Validate_candidate_iff sample_candidate_def blank_def canonicalCandidateKey_def key_char_def
      canonicalCandidateDigest_def ValidateSHA256Identity_def sample_oci_def char_class_defs)

theorem transitions_refine_lifecycle_witness:
  "\<exists>c'. apply_transition sample_oci (TReady ''d1'' ''p'' 5) sample_candidate = Inr c' \<and> cd_Status c' = CandidateReady
     \<and> lifecycle CandidatePreparing (cd_Status c') \<and> Validate_candidate sample_oci c' = Inr ()"
proof -
  obtain c' where c': "apply_transition sample_oci (TReady ''d1'' ''p'' 5) sample_candidate = Inr c'" "cd_Status c' = CandidateReady"
    by (simp add: MarkReady_def Let_def sample_candidate_def Terminal_def canonicalCandidateDigest_def
        ValidateSHA256Identity_def sample_oci_def advance_def)
  with transitions_refine_lifecycle [OF sample_candidate_valid c'(1)] show ?thesis
    by (auto simp: sample_candidate_def max_int64_def)
qed


definition sample_input :: candidate_start where
  "sample_input = \<lparr>cs_ID = ''c'', cs_ProjectID = ''p'', cs_Key = ''k'', cs_TargetID = ''t'', cs_Environment = ''e'',
     cs_OwnerID = ''o'', cs_BaseGeneration = ''g'', cs_ArtifactDigest = ''d1'', cs_ExpiresAt = 100, cs_Now = 1\<rparr>"

definition sample_db :: candidate_db where
  "sample_db = \<lparr>db_candidates = [sample_candidate], db_activeGeneration = (\<lambda>_ _. Some ''g'')\<rparr>"

lemma sample_db_reachable: "candidates_reachable 1 sample_oci sample_db"
proof -
  have new: "NewCandidate sample_oci sample_input = Inr sample_candidate"
    using sample_candidate_valid
    by (simp add: NewCandidate_def Let_def sample_input_def normalizeCandidateKey_def sample_candidate_def
        canonicalCandidateDigest_def ValidateSHA256Identity_def sample_oci_def)
  have "StartCandidate sample_oci sample_candidate 1 \<lparr>db_candidates = [], db_activeGeneration = (\<lambda>_ _. Some ''g'')\<rparr>
      = (Inr (sample_candidate, False), sample_db)"
    by (simp add: StartCandidate_def Let_def ExpireProjectCandidates_def GetActiveProjectCandidateSession_def
        insert_started_def CountActiveProjectCandidatesForOwner_def CreateProjectCandidate_def violates_def sample_db_def
        sample_candidate_def)
  from db_step.start [OF new this] show ?thesis by (auto simp: candidates_reachable_def)
qed


text \<open>
  C20. A mutation that succeeds is never based on stale data, whatever other writers do between
  its database calls: it reads a candidate that the caller's scope owns and returns the transition
  of that candidate; either nothing had to change, or the candidate that was read is still in the
  table, unchanged, when it is saved, and the save puts the result in its place and leaves every
  other row as it was.
\<close>

theorem mutation_applies_to_stored_row:
  assumes "db_ok quota (w_db w)" "interference_ok quota env"
    and "mutate sv now env scope action (apply_transition (sv_oci sv) t) w = (Inr c, w')"
  shows "\<exists>current w1. Get_candidate sv now env scope w = (Inr current, w1) \<and> owns sv current scope
    \<and> apply_transition (sv_oci sv) t current = Inr c
    \<and> (c = current \<and> w_db w' = w_db w1 \<and> current \<in> set (db_candidates (w_db w1))
       \<or> current \<in> set (db_candidates (env 0 (w_db w1)))
         \<and> set (db_candidates (w_db w')) = insert c (set (db_candidates (env 0 (w_db w1))) - {current}))"
proof -
  obtain current w1 where g: "Get_candidate sv now env scope w = (Inr current, w1)"
    using assms(3) by (auto simp: mutate_def split: prod.splits sum.splits)
  obtain nxt where n: "apply_transition (sv_oci sv) t current = Inr nxt"
    using assms(3) g by (auto simp: mutate_def split: sum.splits)
  note m = Get_candidate_mem [OF g assms(1,2)]
  show ?thesis
  proof (cases "nxt = current")
    case True
    then have c: "c = current" "w' = w1" using assms(3) g n by (auto simp: mutate_def)
    show ?thesis
      by (rule exI [of _ current], rule exI [of _ w1]) (use g m n True c in simp)
  next
    case False
    let ?db = "env 0 (w_db w1)"
    have env: "db_ok quota ?db" "later (w_db w1) ?db" using assms(2) m(2) by (auto simp: interference_ok_def)
    obtain out db' where s: "SaveCandidate nxt (cd_Revision current) ?db = (out, db')" by fastforce
    then obtain saved where saved: "out = Inr saved" using assms(3) g n False by (cases out) (auto simp: mutate_def)
    have r: "c = saved" "w_db w' = db'"
      using assms(3) g n False s saved record_event_db [of sv action saved "[]" "w1\<lparr>w_db := db'\<rparr>"]
      by (auto simp: mutate_def split: prod.splits option.splits)
    note ss = save_success [OF env m(1) transition_identity [OF n] s [unfolded saved]]
    show ?thesis
      by (rule exI [of _ current], rule exI [of _ w1]) (use g m n r ss in simp)
  qed
qed

definition sample_service :: candidate_service where
  "sample_service = \<lparr>sv_targetID = ''t'', sv_canonicalOrigin = ''https://x'', sv_environment = ''e'', sv_lifetime = 10,
     sv_maxActivePerOwner = 1, sv_audit = None, sv_runtime = True, sv_oci = sample_oci\<rparr>"

definition sample_world :: candidate_world where
  "sample_world = \<lparr>w_db = sample_db, w_events = [], w_retired = [], w_reaped = []\<rparr>"

definition sample_scope :: candidate_scope where
  "sample_scope = \<lparr>sc_ProjectID = ''p'', sc_CandidateID = ''c'', sc_OwnerID = ''o'', sc_TargetID = []\<rparr>"

lemma sample_get: "Get_candidate sample_service 5 (\<lambda>_ db. db) sample_scope sample_world = (Inr sample_candidate, sample_world)"
  using sample_candidate_valid
  by (simp add: Get_candidate_def CandidateByID_def blank_def sample_scope_def sample_world_def sample_db_def sample_service_def
      GetProjectCandidate_def mapCandidate_def owns_def expireOnRead_def Expire_candidate_def sample_candidate_def
      Terminal_def numeral_2_eq_2)

theorem mutation_applies_to_stored_row_witness:
  "\<exists>c w'. mutate sample_service 5 (\<lambda>_ db. db) sample_scope ''candidate.ready''
       (apply_transition (sv_oci sample_service) (TReady ''d1'' ''p'' 5)) sample_world = (Inr c, w')
     \<and> cd_Status c = CandidateReady \<and> c \<in> set (db_candidates (w_db w'))"
proof -
  let ?act = "''candidate.ready''"
  obtain c w' where m: "mutate sample_service 5 (\<lambda>_ db. db) sample_scope ?act
       (apply_transition (sv_oci sample_service) (TReady ''d1'' ''p'' 5)) sample_world = (Inr c, w')" "cd_Status c = CandidateReady"
    unfolding mutate_def sample_get
    by (simp add: sample_service_def sample_world_def sample_db_def MarkReady_def Let_def sample_candidate_def Terminal_def
        canonicalCandidateDigest_def ValidateSHA256Identity_def sample_oci_def advance_def SaveCandidate_def
        UpdateProjectCandidate_def violates_def updated_row_def record_event_def delete_at_def)
  have "db_ok 1 (w_db sample_world)" using candidates_reachable_ok [OF sample_db_reachable] by (simp add: sample_world_def)
  moreover have "interference_ok 1 (\<lambda>_ db. db)" by (simp add: interference_ok_def)
  ultimately have "c \<in> set (db_candidates (w_db w'))" using mutation_applies_to_stored_row [OF _ _ m(1), of 1] by auto
  then show ?thesis by (intro exI conjI) (rule m)+
qed


definition sample_ready :: candidate where
  "sample_ready = sample_candidate\<lparr>cd_Status := CandidateReady, cd_ProvenanceDigest := ''p'', cd_ReadyAt := 5\<rparr>"


end
