(* ===== verification/Deployment_Approval.thy ===== *)
theory Deployment_Approval
  imports Versioned_Store
begin

text \<open>
  Deployment approvals, \<open>internal/deployment/approval.go\<close> and
  \<open>internal/deployment/sqlite/approval_repository.go\<close>: the approval record and its validation,
  the table \<open>deployment_approvals\<close> with its constraints and the repository methods, and the
  service. As for candidates, a service method takes functions on the database that stand for
  what other processes wrote between its repository calls. Credential classes are strings, as in
  the code, where the empty string is the absent class.
\<close>

section \<open>Data\<close>

datatype approval_error =
    ErrApprovalNotFound | ErrApprovalConflict | ErrApprovalInvalid | ErrApprovalRequired | ErrApprovalExpired
  | ErrApprovalCredentialExpired | ErrApprovalSeparationOfDuty | ErrApprovalScope | ErrApprovalOther string

datatype approval_status = ApprovalPending | ApprovalApproved | ApprovalDenied | ApprovalRevoked | ApprovalExpired

type_synonym credential_class = string

definition known_class :: "credential_class \<Rightarrow> bool" where
  "known_class c \<longleftrightarrow> c = ''human'' \<or> c = ''workload'' \<or> c = ''api_token'' \<or> c = ''session''"

record approval_actor =
  aa_PrincipalID :: string
  aa_CredentialClass :: credential_class
  aa_CredentialID :: string
  aa_CredentialExpiresAt :: go_time

record approval =
  ap_ID :: string
  ap_ProjectID :: string
  ap_DeploymentID :: string
  ap_Environment :: string
  ap_RequestDigest :: string
  ap_ReleaseID :: string
  ap_Status :: approval_status
  ap_RequestedBy :: string
  ap_RequestCredentialClass :: credential_class
  ap_RequestCredentialID :: string
  ap_RequestedAt :: go_time
  ap_ApprovedBy :: string
  ap_ApprovalCredentialClass :: credential_class
  ap_ApprovalCredentialID :: string
  ap_ApprovalCredentialExpiresAt :: go_time
  ap_ApprovedAt :: go_time
  ap_RevokedBy :: string
  ap_RevokedAt :: go_time
  ap_ExpiresAt :: go_time
  ap_Revision :: int

record approval_request =
  aq_ProjectID :: string
  aq_DeploymentID :: string
  aq_Environment :: string
  aq_RequestDigest :: string
  aq_ReleaseID :: string
  aq_RequestedBy :: approval_actor

record approval_transition =
  at_ProjectID :: string
  at_DeploymentID :: string
  at_ApprovalID :: string
  at_ExpectedRevision :: int
  at_Actor :: approval_actor

record approval_activation =
  av_ProjectID :: string
  av_DeploymentID :: string
  av_Environment :: string
  av_RequestDigest :: string
  av_ReleaseID :: string

section \<open>Validation\<close>

definition validate_actor :: "go_time \<Rightarrow> approval_actor \<Rightarrow> approval_error + unit" where
  "validate_actor now actor =
    (if blank (aa_PrincipalID actor) \<or> blank (aa_CredentialID actor) then Inl ErrApprovalInvalid
     else if \<not> known_class (aa_CredentialClass actor) then Inl ErrApprovalInvalid
     else if aa_CredentialExpiresAt actor = 0 \<or> \<not> now < aa_CredentialExpiresAt actor then Inl ErrApprovalCredentialExpired
     else Inr ())"

definition hasDecisionEvidence :: "approval \<Rightarrow> bool" where
  "hasDecisionEvidence a \<longleftrightarrow> ap_ApprovedBy a \<noteq> [] \<or> ap_ApprovalCredentialClass a \<noteq> [] \<or> ap_ApprovalCredentialID a \<noteq> []
     \<or> ap_ApprovalCredentialExpiresAt a \<noteq> 0 \<or> ap_ApprovedAt a \<noteq> 0"

definition validateDecisionEvidence :: "bool \<Rightarrow> approval \<Rightarrow> approval_error + unit" where
  "validateDecisionEvidence required a =
    (if \<not> hasDecisionEvidence a then (if required then Inl ErrApprovalInvalid else Inr ())
     else if ap_ApprovedBy a = [] \<or> ap_ApprovalCredentialID a = [] \<or> ap_ApprovalCredentialExpiresAt a = 0
        \<or> ap_ApprovedAt a = 0 \<or> ap_ApprovedBy a = ap_RequestedBy a then Inl ErrApprovalInvalid
     else ensure (known_class (ap_ApprovalCredentialClass a)) ErrApprovalInvalid)"

definition revocation_evidence :: "approval \<Rightarrow> bool" where
  "revocation_evidence a \<longleftrightarrow> ap_RevokedBy a \<noteq> [] \<or> ap_RevokedAt a \<noteq> 0"

definition Validate_approval :: "approval \<Rightarrow> approval_error + unit" where
  "Validate_approval a =
    (if blank (ap_ID a) \<or> blank (ap_ProjectID a) \<or> blank (ap_DeploymentID a) \<or> blank (ap_Environment a)
        \<or> blank (ap_RequestDigest a) \<or> blank (ap_ReleaseID a) \<or> blank (ap_RequestedBy a)
        \<or> blank (ap_RequestCredentialID a) \<or> ap_RequestedAt a = 0 \<or> ap_ExpiresAt a = 0 \<or> ap_Revision a < 1
     then Inl ErrApprovalInvalid
     else if \<not> known_class (ap_RequestCredentialClass a) then Inl ErrApprovalInvalid
     else case ap_Status a of
       ApprovalPending \<Rightarrow> ensure (\<not> (hasDecisionEvidence a \<or> revocation_evidence a)) ErrApprovalInvalid
     | ApprovalApproved \<Rightarrow> bind_res (validateDecisionEvidence True a) (\<lambda>_. ensure (\<not> revocation_evidence a) ErrApprovalInvalid)
     | ApprovalDenied \<Rightarrow> bind_res (validateDecisionEvidence True a) (\<lambda>_. ensure (\<not> revocation_evidence a) ErrApprovalInvalid)
     | ApprovalRevoked \<Rightarrow> bind_res (ensure (\<not> (ap_RevokedBy a = [] \<or> ap_RevokedAt a = 0)) ErrApprovalInvalid)
         (\<lambda>_. validateDecisionEvidence False a)
     | ApprovalExpired \<Rightarrow> bind_res (ensure (\<not> revocation_evidence a) ErrApprovalInvalid) (\<lambda>_. validateDecisionEvidence False a))"

section \<open>The table and the repository\<close>

text \<open>The columns of a parent deployment that the repository compares, the principals that the
  foreign keys refer to, and the approvals.\<close>

record parent_deployment =
  pd_ProjectID :: string
  pd_Environment :: string
  pd_RequestDigest :: string

record approval_db =
  adb_approvals :: "approval list"
  adb_deployments :: "string \<Rightarrow> parent_deployment option"
  adb_principals :: "string list"

definition live :: "approval_status \<Rightarrow> bool" where
  "live s \<longleftrightarrow> s = ApprovalPending \<or> s = ApprovalApproved"

definition known_principal :: "approval_db \<Rightarrow> string \<Rightarrow> bool" where
  "known_principal db p \<longleftrightarrow> p \<in> set (adb_principals db)"

text \<open>The constraints on a row, given the other rows; an empty string is stored as NULL.\<close>

definition approval_violates :: "approval_db \<Rightarrow> approval \<Rightarrow> approval list \<Rightarrow> bool" where
  "approval_violates db a others \<longleftrightarrow> (\<exists>r\<in>set others. ap_ID r = ap_ID a)
     \<or> live (ap_Status a) \<and> (\<exists>r\<in>set others. live (ap_Status r) \<and> ap_DeploymentID r = ap_DeploymentID a)
     \<or> adb_deployments db (ap_DeploymentID a) = None \<or> \<not> known_principal db (ap_RequestedBy a)
     \<or> ap_ApprovedBy a \<noteq> [] \<and> \<not> known_principal db (ap_ApprovedBy a)
     \<or> ap_RevokedBy a \<noteq> [] \<and> \<not> known_principal db (ap_RevokedBy a)"

definition CreateDeploymentApproval :: "approval \<Rightarrow> approval_db \<Rightarrow> approval_db option" where
  "CreateDeploymentApproval a db =
    (if approval_violates db a (adb_approvals db) then None
     else Some (db\<lparr>adb_approvals := adb_approvals db @ [a]\<rparr>))"

definition approval_newer :: "approval \<Rightarrow> approval \<Rightarrow> bool" where
  "approval_newer a b \<longleftrightarrow> \<not> time_text_le (ap_RequestedAt a) (ap_RequestedAt b)
     \<or> time_text_le (ap_RequestedAt b) (ap_RequestedAt a) \<and> \<not> text_le (ap_ID a) (ap_ID b)"

definition GetCurrentDeploymentApproval :: "string \<Rightarrow> approval_db \<Rightarrow> approval option" where
  "GetCurrentDeploymentApproval d db =
     latest_by approval_newer (filter (\<lambda>a. ap_DeploymentID a = d) (adb_approvals db))"

definition updated_approval :: "approval \<Rightarrow> approval \<Rightarrow> approval" where
  "updated_approval a r = r\<lparr>ap_Status := ap_Status a, ap_ApprovedBy := ap_ApprovedBy a,
     ap_ApprovalCredentialClass := ap_ApprovalCredentialClass a, ap_ApprovalCredentialID := ap_ApprovalCredentialID a,
     ap_ApprovalCredentialExpiresAt := ap_ApprovalCredentialExpiresAt a, ap_ApprovedAt := ap_ApprovedAt a,
     ap_RevokedBy := ap_RevokedBy a, ap_RevokedAt := ap_RevokedAt a, ap_ExpiresAt := ap_ExpiresAt a,
     ap_Revision := ap_Revision a\<rparr>"

definition UpdateDeploymentApproval :: "approval \<Rightarrow> int \<Rightarrow> approval_db \<Rightarrow> (nat \<times> approval_db) option" where
  "UpdateDeploymentApproval a expected db =
    (case index_where (\<lambda>r. ap_ID r = ap_ID a \<and> ap_DeploymentID r = ap_DeploymentID a \<and> ap_Revision r = expected)
            (adb_approvals db) of
       None \<Rightarrow> Some (0, db)
     | Some i \<Rightarrow>
         let rows = adb_approvals db; row = updated_approval a (rows ! i) in
         if approval_violates db row (delete_at i rows) then None
         else Some (1, db\<lparr>adb_approvals := rows[i := row]\<rparr>))"

definition mapApproval :: "approval \<Rightarrow> approval_error + approval" where
  "mapApproval row = bind_res (Validate_approval row) (\<lambda>_. Inr row)"

definition CreateApproval :: "approval \<Rightarrow> approval_db \<Rightarrow> (approval_error + approval) \<times> approval_db" where
  "CreateApproval a db =
    (case Validate_approval a of
       Inl e \<Rightarrow> (Inl e, db)
     | Inr _ \<Rightarrow>
    case adb_deployments db (trim_space (ap_DeploymentID a)) of
       None \<Rightarrow> (Inl (ErrApprovalOther ''deployment not found''), db)
     | Some parent \<Rightarrow>
         if pd_ProjectID parent \<noteq> ap_ProjectID a \<or> pd_Environment parent \<noteq> ap_Environment a
            \<or> pd_RequestDigest parent \<noteq> ap_RequestDigest a then (Inl ErrApprovalScope, db)
         else case CreateDeploymentApproval a db of
           None \<Rightarrow> (Inl ErrApprovalConflict, db)
         | Some db' \<Rightarrow> (Inr a, db'))"

definition ApprovalByDeployment :: "string \<Rightarrow> approval_db \<Rightarrow> approval_error + approval" where
  "ApprovalByDeployment d db =
    (if blank d then Inl ErrApprovalNotFound
     else case GetCurrentDeploymentApproval (trim_space d) db of
       None \<Rightarrow> Inl ErrApprovalNotFound
     | Some row \<Rightarrow> mapApproval row)"

definition SaveApproval :: "approval \<Rightarrow> int \<Rightarrow> approval_db \<Rightarrow> (approval_error + approval) \<times> approval_db" where
  "SaveApproval a expected db =
    (if expected \<le> 0 \<or> ap_Revision a \<noteq> wrap_int64 (expected + 1) then (Inl ErrApprovalConflict, db)
     else case Validate_approval a of
       Inl e \<Rightarrow> (Inl e, db)
     | Inr _ \<Rightarrow>
    case UpdateDeploymentApproval a expected db of
       None \<Rightarrow> (Inl (ErrApprovalOther ''constraint''), db)
     | Some (count, db') \<Rightarrow> if count \<noteq> 1 then (Inl ErrApprovalConflict, db') else (Inr a, db'))"

section \<open>The service\<close>

definition approval_lifetime :: "int \<Rightarrow> int" where
  "approval_lifetime configured = (if configured \<le> 0 then 30 * 60 * 10 ^ 9 else configured)"

definition expired_approval :: "approval \<Rightarrow> approval" where
  "expired_approval a = a\<lparr>ap_Status := ApprovalExpired, ap_Revision := wrap_int64 (ap_Revision a + 1)\<rparr>"

definition new_approval :: "int \<Rightarrow> go_time \<Rightarrow> string \<Rightarrow> approval_request \<Rightarrow> approval" where
  "new_approval lifetime now i request =
     \<lparr>ap_ID = i, ap_ProjectID = aq_ProjectID request, ap_DeploymentID = aq_DeploymentID request,
      ap_Environment = aq_Environment request, ap_RequestDigest = aq_RequestDigest request,
      ap_ReleaseID = aq_ReleaseID request, ap_Status = ApprovalPending,
      ap_RequestedBy = trim_space (aa_PrincipalID (aq_RequestedBy request)),
      ap_RequestCredentialClass = aa_CredentialClass (aq_RequestedBy request),
      ap_RequestCredentialID = trim_space (aa_CredentialID (aq_RequestedBy request)), ap_RequestedAt = now,
      ap_ApprovedBy = [], ap_ApprovalCredentialClass = [], ap_ApprovalCredentialID = [],
      ap_ApprovalCredentialExpiresAt = 0, ap_ApprovedAt = 0, ap_RevokedBy = [], ap_RevokedAt = 0,
      ap_ExpiresAt = now + lifetime, ap_Revision = 1\<rparr>"

definition create_pending :: "int \<Rightarrow> go_time \<Rightarrow> (approval_error + string) \<Rightarrow> approval_request \<Rightarrow> approval_db
    \<Rightarrow> (approval_error + approval) \<times> approval_db" where
  "create_pending lifetime now newID request db =
    (case newID of
       Inl e \<Rightarrow> (Inl e, db)
     | Inr i \<Rightarrow>
         let a = new_approval lifetime now i request in
         case Validate_approval a of Inl e \<Rightarrow> (Inl e, db) | Inr _ \<Rightarrow> CreateApproval a db)"

definition Request :: "int \<Rightarrow> go_time \<Rightarrow> (approval_error + string) \<Rightarrow> (approval_db \<Rightarrow> approval_db) \<Rightarrow> (approval_db \<Rightarrow> approval_db)
    \<Rightarrow> approval_request \<Rightarrow> approval_db \<Rightarrow> (approval_error + approval) \<times> approval_db" where
  "Request lifetime now newID env1 env2 request db =
    (let request = request\<lparr>aq_ProjectID := trim_space (aq_ProjectID request),
           aq_DeploymentID := trim_space (aq_DeploymentID request),
           aq_Environment := trim_space (aq_Environment request),
           aq_RequestDigest := trim_space (aq_RequestDigest request),
           aq_ReleaseID := trim_space (aq_ReleaseID request)\<rparr> in
     if aq_ProjectID request = [] \<or> aq_DeploymentID request = [] \<or> aq_Environment request = []
        \<or> aq_RequestDigest request = [] \<or> aq_ReleaseID request = [] then (Inl ErrApprovalInvalid, db)
     else case validate_actor now (aq_RequestedBy request) of
       Inl e \<Rightarrow> (Inl e, db)
     | Inr _ \<Rightarrow>
    case ApprovalByDeployment (aq_DeploymentID request) db of
       Inl e \<Rightarrow> if e \<noteq> ErrApprovalNotFound then (Inl e, db) else create_pending lifetime now newID request (env2 db)
     | Inr existing \<Rightarrow>
         if ap_Status existing = ApprovalDenied \<or> ap_Status existing = ApprovalRevoked \<or> ap_Status existing = ApprovalExpired
         then create_pending lifetime now newID request (env2 db)
         else if ap_ProjectID existing \<noteq> aq_ProjectID request \<or> ap_Environment existing \<noteq> aq_Environment request
            \<or> ap_RequestDigest existing \<noteq> aq_RequestDigest request \<or> ap_ReleaseID existing \<noteq> aq_ReleaseID request
            \<or> ap_RequestedBy existing \<noteq> trim_space (aa_PrincipalID (aq_RequestedBy request))
         then (Inl ErrApprovalConflict, db)
         else if now < ap_ExpiresAt existing then (Inr existing, db)
         else
           let next = expired_approval existing in
           (case Validate_approval next of
              Inl e \<Rightarrow> (Inl e, db)
            | Inr _ \<Rightarrow>
                (case SaveApproval next (wrap_int64 (ap_Revision next - 1)) (env1 db) of
                   (Inl e, db) \<Rightarrow> (Inl e, db)
                 | (Inr _, db) \<Rightarrow> create_pending lifetime now newID request (env2 db))))"

definition Current :: "go_time \<Rightarrow> (approval_db \<Rightarrow> approval_db) \<Rightarrow> string \<Rightarrow> approval_db
    \<Rightarrow> (approval_error + approval) \<times> approval_db" where
  "Current now env d db =
    (case ApprovalByDeployment (trim_space d) db of
       Inl e \<Rightarrow> (Inl e, db)
     | Inr current \<Rightarrow>
         if (ap_Status current = ApprovalPending \<or> ap_Status current = ApprovalApproved) \<and> \<not> now < ap_ExpiresAt current then
           let next = expired_approval current in
           (case Validate_approval next of
              Inl e \<Rightarrow> (Inl e, db)
            | Inr _ \<Rightarrow>
                (case SaveApproval next (ap_Revision current) (env db) of
                   (Inl ErrApprovalConflict, db) \<Rightarrow> (ApprovalByDeployment (trim_space d) db, db)
                 | out \<Rightarrow> out))
         else (Inr current, db))"

definition loadTransition :: "approval_transition \<Rightarrow> go_time \<Rightarrow> approval_db \<Rightarrow> approval_error + approval" where
  "loadTransition t now db =
    (case validate_actor now (at_Actor t) of
       Inl e \<Rightarrow> Inl e
     | Inr _ \<Rightarrow>
    case ApprovalByDeployment (trim_space (at_DeploymentID t)) db of
       Inl e \<Rightarrow> Inl e
     | Inr current \<Rightarrow>
         if ap_ProjectID current \<noteq> trim_space (at_ProjectID t) \<or> ap_DeploymentID current \<noteq> trim_space (at_DeploymentID t)
            \<or> ap_ID current \<noteq> trim_space (at_ApprovalID t) then Inl ErrApprovalScope
         else if ap_Revision current \<noteq> at_ExpectedRevision t then Inl ErrApprovalConflict
         else if \<not> now < ap_ExpiresAt current then Inl ErrApprovalExpired
         else Inr current)"

definition decided_approval :: "approval_actor \<Rightarrow> approval_status \<Rightarrow> go_time \<Rightarrow> approval \<Rightarrow> approval" where
  "decided_approval actor status now a =
    (let expires = aa_CredentialExpiresAt actor in
     a\<lparr>ap_Status := status, ap_ApprovedBy := trim_space (aa_PrincipalID actor),
       ap_ApprovalCredentialClass := aa_CredentialClass actor,
       ap_ApprovalCredentialID := trim_space (aa_CredentialID actor),
       ap_ApprovalCredentialExpiresAt := expires, ap_ApprovedAt := now,
       ap_ExpiresAt := (if expires < ap_ExpiresAt a then expires else ap_ExpiresAt a),
       ap_Revision := wrap_int64 (ap_Revision a + 1)\<rparr>)"

definition decide :: "go_time \<Rightarrow> (approval_db \<Rightarrow> approval_db) \<Rightarrow> approval_transition \<Rightarrow> approval_status \<Rightarrow> approval_db
    \<Rightarrow> (approval_error + approval) \<times> approval_db" where
  "decide now env t status db =
    (case loadTransition t now db of
       Inl e \<Rightarrow> (Inl e, db)
     | Inr current \<Rightarrow>
         if ap_Status current \<noteq> ApprovalPending then (Inl ErrApprovalConflict, db)
         else if trim_space (aa_PrincipalID (at_Actor t)) = ap_RequestedBy current then (Inl ErrApprovalSeparationOfDuty, db)
         else if status \<noteq> ApprovalApproved \<and> status \<noteq> ApprovalDenied then (Inl ErrApprovalInvalid, db)
         else
           let next = decided_approval (at_Actor t) status now current in
           (case Validate_approval next of
              Inl e \<Rightarrow> (Inl e, db)
            | Inr _ \<Rightarrow> SaveApproval next (at_ExpectedRevision t) (env db)))"

definition Approve where
  "Approve now env t = decide now env t ApprovalApproved"

definition Deny where
  "Deny now env t = decide now env t ApprovalDenied"

definition revoked_approval :: "approval_actor \<Rightarrow> go_time \<Rightarrow> approval \<Rightarrow> approval" where
  "revoked_approval actor now a = a\<lparr>ap_Status := ApprovalRevoked, ap_RevokedBy := trim_space (aa_PrincipalID actor),
     ap_RevokedAt := now, ap_Revision := wrap_int64 (ap_Revision a + 1)\<rparr>"

definition Revoke :: "go_time \<Rightarrow> (approval_db \<Rightarrow> approval_db) \<Rightarrow> approval_transition \<Rightarrow> approval_db
    \<Rightarrow> (approval_error + approval) \<times> approval_db" where
  "Revoke now env t db =
    (case loadTransition t now db of
       Inl e \<Rightarrow> (Inl e, db)
     | Inr current \<Rightarrow>
         if ap_Status current \<noteq> ApprovalPending \<and> ap_Status current \<noteq> ApprovalApproved then (Inl ErrApprovalConflict, db)
         else
           let next = revoked_approval (at_Actor t) now current in
           (case Validate_approval next of
              Inl e \<Rightarrow> (Inl e, db)
            | Inr _ \<Rightarrow> SaveApproval next (at_ExpectedRevision t) (env db)))"

definition AuthorizeActivation :: "go_time \<Rightarrow> approval_activation \<Rightarrow> approval_db \<Rightarrow> approval_error + approval" where
  "AuthorizeActivation now request db =
    (case ApprovalByDeployment (trim_space (av_DeploymentID request)) db of
       Inl e \<Rightarrow> if e = ErrApprovalNotFound then Inl ErrApprovalRequired else Inl e
     | Inr a \<Rightarrow>
         if ap_ProjectID a \<noteq> trim_space (av_ProjectID request) \<or> ap_DeploymentID a \<noteq> trim_space (av_DeploymentID request)
            \<or> ap_Environment a \<noteq> trim_space (av_Environment request)
            \<or> ap_RequestDigest a \<noteq> trim_space (av_RequestDigest request)
            \<or> ap_ReleaseID a \<noteq> trim_space (av_ReleaseID request) then Inl ErrApprovalScope
         else if ap_Status a \<noteq> ApprovalApproved then Inl ErrApprovalRequired
         else if \<not> now < ap_ExpiresAt a then Inl ErrApprovalExpired
         else bind_res (Validate_approval a) (\<lambda>_. Inr a))"

section \<open>The table as a versioned store\<close>

interpretation appr: versioned_store adb_approvals ap_ID ap_Revision updated_approval SaveApproval
proof unfold_locales
  fix c n db s db'
  assume "SaveApproval c n db = (Inr s, db')"
  then show "s = c \<and> ap_Revision c = wrap_int64 (n + 1) \<and> 0 < n \<and> (\<exists>i<length (adb_approvals db).
      ap_ID (adb_approvals db ! i) = ap_ID c \<and> ap_Revision (adb_approvals db ! i) = n
      \<and> adb_approvals db' = (adb_approvals db)[i := updated_approval c (adb_approvals db ! i)])"
    by (auto simp: SaveApproval_def UpdateDeploymentApproval_def Let_def index_where_Some split: if_splits option.splits sum.splits)
      blast
next
  fix c n db e db'
  assume "SaveApproval c n db = (Inl e, db')"
  then show "db' = db"
    by (auto simp: SaveApproval_def UpdateDeploymentApproval_def Let_def split: if_splits option.splits sum.splits)
qed (simp_all add: updated_approval_def)

end
