(* ===== verification/Approval_Safety.thy ===== *)
theory Approval_Safety
  imports Deployment_Approval
begin

text \<open>
  Interleaved executions of the approval service. The state is the database together with the
  databases there have been, because a method may save what it made of a row it read earlier.
  The invariant of the table, the abstract life cycle of an approval and the history of a row.
\<close>

section \<open>Executions\<close>

inductive approval_step :: "int \<Rightarrow> approval_db \<times> approval_db set \<Rightarrow> approval_db \<times> approval_db set \<Rightarrow> bool" for lifetime where
  create: "create_pending lifetime now newID request db = (Inr a, db')
    \<Longrightarrow> approval_step lifetime (db, hist) (db', insert db' hist)"
| decide: "db0 \<in> hist \<Longrightarrow> decide now (\<lambda>_. db) t status db0 = (Inr a, db')
    \<Longrightarrow> approval_step lifetime (db, hist) (db', insert db' hist)"
| revoke: "db0 \<in> hist \<Longrightarrow> Revoke now (\<lambda>_. db) t db0 = (Inr a, db')
    \<Longrightarrow> approval_step lifetime (db, hist) (db', insert db' hist)"
| expire: "db0 \<in> hist \<Longrightarrow> ApprovalByDeployment d db0 = Inr r \<Longrightarrow> live (ap_Status r)
    \<Longrightarrow> SaveApproval (expired_approval r) (ap_Revision r) db = (Inr a, db')
    \<Longrightarrow> approval_step lifetime (db, hist) (db', insert db' hist)"
| others: "db' = db\<lparr>adb_deployments := d, adb_principals := p\<rparr>
    \<Longrightarrow> approval_step lifetime (db, hist) (db', insert db' hist)"

definition approvals_reachable :: "int \<Rightarrow> approval_db \<Rightarrow> approval_db set \<Rightarrow> bool" where
  "approvals_reachable lifetime db hist \<longleftrightarrow> (\<exists>db0. adb_approvals db0 = [] \<and> (approval_step lifetime)\<^sup>*\<^sup>* (db0, {db0}) (db, hist))"

section \<open>The life cycle\<close>

inductive approval_lifecycle :: "approval_status \<Rightarrow> approval_status \<Rightarrow> bool" where
  same: "approval_lifecycle s s"
| pending: "approval_lifecycle ApprovalPending s"
| approved: "s \<in> {ApprovalRevoked, ApprovalExpired} \<Longrightarrow> approval_lifecycle ApprovalApproved s"

inductive_simps approval_lifecycle_simps [simp]:
  "approval_lifecycle ApprovalPending s" "approval_lifecycle ApprovalApproved s" "approval_lifecycle ApprovalDenied s"
  "approval_lifecycle ApprovalRevoked s" "approval_lifecycle ApprovalExpired s"

lemma approval_lifecycle_refl [simp]: "approval_lifecycle s s"
  by (rule same)

lemma approval_lifecycle_trans: "approval_lifecycle a b \<Longrightarrow> approval_lifecycle b c \<Longrightarrow> approval_lifecycle a c"
  by (cases a; cases b) auto

lemma approval_lifecycle_live: "approval_lifecycle a b \<Longrightarrow> live b \<Longrightarrow> live a"
  by (cases a; cases b) (auto simp: live_def)

definition same_request :: "approval \<Rightarrow> approval \<Rightarrow> bool" where
  "same_request a b \<longleftrightarrow> ap_ID b = ap_ID a \<and> ap_ProjectID b = ap_ProjectID a \<and> ap_DeploymentID b = ap_DeploymentID a
     \<and> ap_Environment b = ap_Environment a \<and> ap_RequestDigest b = ap_RequestDigest a \<and> ap_ReleaseID b = ap_ReleaseID a
     \<and> ap_RequestedBy b = ap_RequestedBy a \<and> ap_RequestCredentialClass b = ap_RequestCredentialClass a
     \<and> ap_RequestCredentialID b = ap_RequestCredentialID a \<and> ap_RequestedAt b = ap_RequestedAt a"

lemma same_request_trans: "same_request a b \<Longrightarrow> same_request b c \<Longrightarrow> same_request a c"
  by (simp add: same_request_def)

definition becomes :: "approval \<Rightarrow> approval \<Rightarrow> bool" where
  "becomes a b \<longleftrightarrow> same_request a b \<and> approval_lifecycle (ap_Status a) (ap_Status b) \<and> ap_ExpiresAt b \<le> ap_ExpiresAt a
     \<and> (b = a \<or> ap_Revision a < ap_Revision b)"

lemma becomes_refl [simp]: "becomes a a"
  by (simp add: becomes_def same_request_def)

lemma becomes_trans: "becomes a b \<Longrightarrow> becomes b c \<Longrightarrow> becomes a c"
  unfolding becomes_def using approval_lifecycle_trans same_request_trans by (metis order_trans order_less_trans)

lemma updated_approval_same: "same_request r c \<Longrightarrow> updated_approval c r = c"
  by (simp add: updated_approval_def same_request_def)

section \<open>The invariant\<close>

definition approval_ok :: "int \<Rightarrow> approval \<Rightarrow> bool" where
  "approval_ok lifetime a \<longleftrightarrow> Validate_approval a = Inr () \<and> ap_Revision a \<le> max_int64
     \<and> ap_ExpiresAt a \<le> ap_RequestedAt a + lifetime
     \<and> (hasDecisionEvidence a \<longrightarrow> ap_ExpiresAt a \<le> ap_ApprovalCredentialExpiresAt a \<and> ap_ApprovedAt a < ap_ExpiresAt a)"

definition live_deployments :: "approval_db \<Rightarrow> string list" where
  "live_deployments db = map ap_DeploymentID (filter (\<lambda>a. live (ap_Status a)) (adb_approvals db))"

definition table_ok :: "int \<Rightarrow> approval_db \<Rightarrow> bool" where
  "table_ok lifetime db \<longleftrightarrow> (\<forall>a\<in>set (adb_approvals db). approval_ok lifetime a)
     \<and> distinct (map ap_ID (adb_approvals db)) \<and> distinct (live_deployments db)"

definition precedes :: "approval_db \<Rightarrow> approval_db \<Rightarrow> bool" where
  "precedes db0 db \<longleftrightarrow> (\<forall>r\<in>set (adb_approvals db0). \<exists>r'\<in>set (adb_approvals db). becomes r r')"

lemma precedes_refl [simp]: "precedes db db"
  unfolding precedes_def by (blast intro: becomes_refl)

lemma precedes_trans: "precedes a b \<Longrightarrow> precedes b c \<Longrightarrow> precedes a c"
  unfolding precedes_def by (meson becomes_trans)

definition system_ok :: "int \<Rightarrow> approval_db \<times> approval_db set \<Rightarrow> bool" where
  "system_ok lifetime s \<longleftrightarrow> table_ok lifetime (fst s) \<and> fst s \<in> snd s
     \<and> (\<forall>db0\<in>snd s. table_ok lifetime db0 \<and> precedes db0 (fst s))"

lemma system_okI:
  assumes "system_ok lifetime (db, hist)" "table_ok lifetime db'" "precedes db db'"
  shows "system_ok lifetime (db', insert db' hist)"
  using assms precedes_trans by (auto simp: system_ok_def)

lemma table_ok_unique:
  "table_ok lifetime db \<Longrightarrow> a \<in> set (adb_approvals db) \<Longrightarrow> b \<in> set (adb_approvals db) \<Longrightarrow> ap_ID a = ap_ID b \<Longrightarrow> a = b"
  by (auto simp: table_ok_def distinct_map inj_on_def)

lemma Validate_approval_iff:
  "Validate_approval a = Inr u \<longleftrightarrow>
     \<not> (blank (ap_ID a) \<or> blank (ap_ProjectID a) \<or> blank (ap_DeploymentID a) \<or> blank (ap_Environment a)
        \<or> blank (ap_RequestDigest a) \<or> blank (ap_ReleaseID a) \<or> blank (ap_RequestedBy a)
        \<or> blank (ap_RequestCredentialID a) \<or> ap_RequestedAt a = 0 \<or> ap_ExpiresAt a = 0 \<or> ap_Revision a < 1)
     \<and> known_class (ap_RequestCredentialClass a)
     \<and> (hasDecisionEvidence a \<longrightarrow> \<not> (ap_ApprovedBy a = [] \<or> ap_ApprovalCredentialID a = []
          \<or> ap_ApprovalCredentialExpiresAt a = 0 \<or> ap_ApprovedAt a = 0 \<or> ap_ApprovedBy a = ap_RequestedBy a)
          \<and> known_class (ap_ApprovalCredentialClass a) \<and> ap_Status a \<noteq> ApprovalPending)
     \<and> (ap_Status a = ApprovalApproved \<or> ap_Status a = ApprovalDenied \<longrightarrow> hasDecisionEvidence a)
     \<and> (if ap_Status a = ApprovalRevoked then ap_RevokedBy a \<noteq> [] \<and> ap_RevokedAt a \<noteq> 0 else \<not> revocation_evidence a)"
  by (cases "ap_Status a") (auto simp: Validate_approval_def validateDecisionEvidence_def)

section \<open>Every step keeps it\<close>

lemma save_row:
  assumes ok: "system_ok lifetime (db, hist)" and r: "db0 \<in> hist" "r \<in> set (adb_approvals db0)"
    and c: "same_request r c" and s: "SaveApproval c (ap_Revision r) db = (Inr s, db')"
  obtains i where "i < length (adb_approvals db)" "adb_approvals db ! i = r" "adb_approvals db' = (adb_approvals db)[i := c]"
    "ap_Revision r < ap_Revision c" "ap_Revision c \<le> max_int64"
proof -
  obtain r' where r': "r' \<in> set (adb_approvals db)" "becomes r r'"
    using ok r unfolding system_ok_def precedes_def by auto
  obtain i where i: "i < length (adb_approvals db)" "ap_ID (adb_approvals db ! i) = ap_ID c"
    "ap_Revision (adb_approvals db ! i) = ap_Revision r" "adb_approvals db' = (adb_approvals db)[i := updated_approval c (adb_approvals db ! i)]"
    using appr.save_ok [OF s] by blast
  have "adb_approvals db ! i = r'"
    using ok i(1,2) r' c by (intro table_ok_unique [of lifetime db]) (auto simp: system_ok_def becomes_def same_request_def)
  then have ir: "adb_approvals db ! i = r" using i(3) r'(2) by (auto simp: becomes_def)
  have "ap_Revision r \<le> max_int64" using ok r unfolding system_ok_def table_ok_def approval_ok_def by auto
  moreover have pos: "0 < ap_Revision r" "ap_Revision c = wrap_int64 (ap_Revision r + 1)" using appr.save_ok [OF s] by auto
  moreover have "1 \<le> ap_Revision c"
    using s by (auto simp: SaveApproval_def Validate_approval_iff split: if_splits sum.splits)
  ultimately have "ap_Revision r < max_int64" by (cases "ap_Revision r = max_int64") (auto simp: max_int64_def wrap_int64_def)
  then have "ap_Revision c = ap_Revision r + 1" using appr.save_rev [OF s] by simp
  then show thesis using that [OF i(1) ir] i(4) ir updated_approval_same [OF c] \<open>ap_Revision r < max_int64\<close> by simp
qed

lemma save_step:
  assumes ok: "system_ok lifetime (db, hist)" and r: "db0 \<in> hist" "r \<in> set (adb_approvals db0)"
    and c: "same_request r c" "approval_lifecycle (ap_Status r) (ap_Status c)" "ap_ExpiresAt c \<le> ap_ExpiresAt r"
    and new: "ap_Revision c \<le> max_int64 \<Longrightarrow> approval_ok lifetime c"
    and s: "SaveApproval c (ap_Revision r) db = (Inr s, db')"
  shows "system_ok lifetime (db', insert db' hist)"
proof -
  obtain i where i: "i < length (adb_approvals db)" "adb_approvals db ! i = r" "adb_approvals db' = (adb_approvals db)[i := c]"
    and rev: "ap_Revision r < ap_Revision c" "ap_Revision c \<le> max_int64"
    by (rule save_row [OF ok r c(1) s])
  have bec: "becomes r c" using c rev by (simp add: becomes_def)
  have all2: "list_all2 becomes (adb_approvals db) (adb_approvals db')"
    unfolding i(3) using bec i by (auto simp: list_all2_conv_all_nth nth_list_update)
  then have "precedes db db'" unfolding precedes_def list_all2_conv_all_nth by (metis in_set_conv_nth)
  moreover have "table_ok lifetime db'"
  proof -
    have t: "table_ok lifetime db" using ok by (simp add: system_ok_def)
    have "list_all2 (\<lambda>a b. ap_DeploymentID b = ap_DeploymentID a \<and> (live (ap_Status b) \<longrightarrow> live (ap_Status a)))
        (adb_approvals db) (adb_approvals db')"
      by (rule list_all2_mono [OF all2]) (auto simp: becomes_def same_request_def dest: approval_lifecycle_live)
    then have "subseq (live_deployments db') (live_deployments db)"
      unfolding live_deployments_def by (rule filter_map_subseq)
    then have "distinct (live_deployments db')" using t subseq_distinct unfolding table_ok_def by blast
    moreover have "map ap_ID (adb_approvals db') = map ap_ID (adb_approvals db)" using appr.save_keys [OF s] .
    ultimately show ?thesis using t new [OF rev(2)] unfolding table_ok_def i(3) by (auto dest: set_update_subset_insert [THEN subsetD])
  qed
  ultimately show ?thesis using system_okI [OF ok] by blast
qed

lemma create_step:
  assumes ok: "system_ok lifetime (db, hist)" and c: "create_pending lifetime now newID request db = (Inr a, db')"
  shows "system_ok lifetime (db', insert db' hist)"
proof -
  obtain i where v: "Validate_approval (new_approval lifetime now i request) = Inr ()"
    and a: "CreateApproval (new_approval lifetime now i request) db = (Inr a, db')"
    using c by (auto simp: create_pending_def Let_def split: sum.splits)
  let ?a = "new_approval lifetime now i request"
  have db': "db' = db\<lparr>adb_approvals := adb_approvals db @ [?a]\<rparr>" and nv: "\<not> approval_violates db ?a (adb_approvals db)"
    using a by (auto simp: CreateApproval_def CreateDeploymentApproval_def split: sum.splits option.splits if_splits)
  have "approval_ok lifetime ?a"
    using v by (simp add: approval_ok_def) (simp add: new_approval_def hasDecisionEvidence_def max_int64_def)
  moreover have "table_ok lifetime db" using ok by (simp add: system_ok_def)
  moreover have "live_deployments db' = live_deployments db @ [ap_DeploymentID ?a]"
    by (simp add: live_deployments_def db' new_approval_def live_def)
  ultimately have "table_ok lifetime db'"
    using nv unfolding table_ok_def
    by (auto simp: db' approval_violates_def live_deployments_def)
  moreover have "precedes db db'" unfolding precedes_def db' by (auto intro: becomes_refl)
  ultimately show ?thesis using system_okI [OF ok] by blast
qed

lemma ApprovalByDeployment_mem:
  "ApprovalByDeployment d db = Inr a \<Longrightarrow> a \<in> set (adb_approvals db) \<and> ap_DeploymentID a = trim_space d \<and> Validate_approval a = Inr ()"
  by (auto simp: ApprovalByDeployment_def GetCurrentDeploymentApproval_def mapApproval_def split: if_splits option.splits
      dest!: latest_by_mem)

lemma decide_result:
  assumes "decide now env t status db0 = (Inr a, db')"
  obtains r where "loadTransition t now db0 = Inr r" "ap_Status r = ApprovalPending" "status = ApprovalApproved \<or> status = ApprovalDenied"
    "trim_space (aa_PrincipalID (at_Actor t)) \<noteq> ap_RequestedBy r" "a = decided_approval (at_Actor t) status now r"
    "Validate_approval a = Inr ()" "SaveApproval a (at_ExpectedRevision t) (env db0) = (Inr a, db')"
proof -
  have "\<exists>r. loadTransition t now db0 = Inr r \<and> ap_Status r = ApprovalPending \<and> (status = ApprovalApproved \<or> status = ApprovalDenied)
    \<and> trim_space (aa_PrincipalID (at_Actor t)) \<noteq> ap_RequestedBy r \<and> Validate_approval (decided_approval (at_Actor t) status now r) = Inr ()
    \<and> SaveApproval (decided_approval (at_Actor t) status now r) (at_ExpectedRevision t) (env db0) = (Inr a, db')"
    using assms by (auto simp: decide_def Let_def split: sum.splits if_splits)
  then show thesis using that appr.save_ok by metis
qed

lemma Revoke_result:
  assumes "Revoke now env t db0 = (Inr a, db')"
  obtains r where "loadTransition t now db0 = Inr r" "live (ap_Status r)" "a = revoked_approval (at_Actor t) now r"
    "Validate_approval a = Inr ()" "SaveApproval a (at_ExpectedRevision t) (env db0) = (Inr a, db')"
proof -
  have "\<exists>r. loadTransition t now db0 = Inr r \<and> live (ap_Status r) \<and> Validate_approval (revoked_approval (at_Actor t) now r) = Inr ()
    \<and> SaveApproval (revoked_approval (at_Actor t) now r) (at_ExpectedRevision t) (env db0) = (Inr a, db')"
    using assms by (auto simp: Revoke_def Let_def live_def split: sum.splits if_splits)
  then show thesis using that appr.save_ok by metis
qed

lemma loadTransition_result:
  assumes "loadTransition t now db = Inr r"
  shows "r \<in> set (adb_approvals db)" "ap_Revision r = at_ExpectedRevision t" "now < ap_ExpiresAt r" "validate_actor now (at_Actor t) = Inr ()"
    "ap_ID r = trim_space (at_ApprovalID t)"
  using assms by (auto simp: loadTransition_def split: sum.splits if_splits dest: ApprovalByDeployment_mem)

lemma system_step:
  assumes "approval_step lifetime s s'" "system_ok lifetime s"
  shows "system_ok lifetime s'"
  using assms
proof (induction rule: approval_step.induct)
  case (create now newID request db a db' hist)
  then show ?case using create_step by blast
next
  case (decide db0 hist now db t status a db')
  obtain r where r: "loadTransition t now db0 = Inr r" "ap_Status r = ApprovalPending" "a = decided_approval (at_Actor t) status now r"
    "Validate_approval a = Inr ()" "SaveApproval a (at_ExpectedRevision t) db = (Inr a, db')"
    using decide_result [OF decide.hyps(2)] by metis
  note l = loadTransition_result [OF r(1)]
  have "approval_ok lifetime r" using decide l(1) by (auto simp: system_ok_def table_ok_def)
  then have "approval_ok lifetime a" if "ap_Revision a \<le> max_int64"
    using that r(4) l(3,4)
    by (simp add: approval_ok_def) (auto simp: r(3) decided_approval_def Let_def validate_actor_def split: if_splits)
  moreover have "same_request r a" "ap_ExpiresAt a \<le> ap_ExpiresAt r" by (simp_all add: r(3) decided_approval_def Let_def same_request_def)
  ultimately show ?case using save_step [OF decide.prems decide.hyps(1) l(1)] r(2,5) l(2) by simp
next
  case (revoke db0 hist now db t a db')
  obtain r where r: "loadTransition t now db0 = Inr r" "live (ap_Status r)" "a = revoked_approval (at_Actor t) now r"
    "Validate_approval a = Inr ()" "SaveApproval a (at_ExpectedRevision t) db = (Inr a, db')"
    using Revoke_result [OF revoke.hyps(2)] by metis
  note l = loadTransition_result [OF r(1)]
  have "approval_ok lifetime r" using revoke l(1) by (auto simp: system_ok_def table_ok_def)
  then have "approval_ok lifetime a" if "ap_Revision a \<le> max_int64"
    using that r(4) by (simp add: approval_ok_def) (auto simp: r(3) revoked_approval_def hasDecisionEvidence_def)
  moreover have "same_request r a" "ap_ExpiresAt a \<le> ap_ExpiresAt r" "approval_lifecycle (ap_Status r) (ap_Status a)"
    using r(2) by (auto simp: r(3) revoked_approval_def same_request_def live_def)
  ultimately show ?case using save_step [OF revoke.prems revoke.hyps(1) l(1)] r(5) l(2) by simp
next
  case (expire db0 hist d r db a db')
  have mem: "r \<in> set (adb_approvals db0)" using ApprovalByDeployment_mem [OF expire.hyps(2)] by simp
  have "Validate_approval (expired_approval r) = Inr ()"
    using expire.hyps(4) by (auto simp: SaveApproval_def split: if_splits sum.splits)
  moreover have "approval_ok lifetime r" using expire mem by (auto simp: system_ok_def table_ok_def)
  ultimately have "approval_ok lifetime (expired_approval r)" if "ap_Revision (expired_approval r) \<le> max_int64"
    using that by (simp add: approval_ok_def) (auto simp: expired_approval_def hasDecisionEvidence_def)
  moreover have "same_request r (expired_approval r)" "ap_ExpiresAt (expired_approval r) \<le> ap_ExpiresAt r"
    "approval_lifecycle (ap_Status r) (ap_Status (expired_approval r))"
    using expire.hyps(3) by (auto simp: expired_approval_def same_request_def live_def)
  ultimately show ?case using save_step [OF expire.prems expire.hyps(1) mem] expire.hyps(4) by simp
next
  case (others db' p d db hist)
  then have "table_ok lifetime db'" "precedes db db'"
    by (auto simp: system_ok_def table_ok_def live_deployments_def precedes_def intro: becomes_refl)
  then show ?case using system_okI [OF others.prems] by simp
qed

lemma approvals_reachable_ok:
  assumes "approvals_reachable lifetime db hist"
  shows "system_ok lifetime (db, hist)"
proof -
  obtain db0 where db0: "adb_approvals db0 = []" "(approval_step lifetime)\<^sup>*\<^sup>* (db0, {db0}) (db, hist)"
    using assms by (auto simp: approvals_reachable_def)
  from db0(2) show ?thesis
  proof (induction rule: rtranclp_induct)
    case base
    then show ?case using db0(1) by (simp add: system_ok_def table_ok_def live_deployments_def)
  next
    case (step y z)
    then show ?case using system_step by blast
  qed
qed

end
