(* ===== verification/Approval_Theorems.thy ===== *)
theory Approval_Theorems
  imports Approval_Safety
begin

text \<open>
  The properties of deployment approvals: separation of duties, what an authorised activation
  rests on, the history of an approval, and decisions that race.
\<close>

section \<open>A sample execution\<close>

definition sample_actor :: "string \<Rightarrow> approval_actor" where
  "sample_actor p = \<lparr>aa_PrincipalID = p, aa_CredentialClass = ''human'', aa_CredentialID = ''k'', aa_CredentialExpiresAt = 50\<rparr>"

definition sample_approval_request :: approval_request where
  "sample_approval_request = \<lparr>aq_ProjectID = ''p'', aq_DeploymentID = ''d'', aq_Environment = ''e'', aq_RequestDigest = ''g'',
     aq_ReleaseID = ''r'', aq_RequestedBy = sample_actor ''u''\<rparr>"

definition sample_approvals0 :: approval_db where
  "sample_approvals0 = \<lparr>adb_approvals = [],
     adb_deployments = (\<lambda>_. Some \<lparr>pd_ProjectID = ''p'', pd_Environment = ''e'', pd_RequestDigest = ''g''\<rparr>),
     adb_principals = [''u'', ''v'']\<rparr>"

definition sample_pending :: approval where
  "sample_pending = new_approval 100 10 ''a'' sample_approval_request"

definition sample_approvals1 :: approval_db where
  "sample_approvals1 = sample_approvals0\<lparr>adb_approvals := [sample_pending]\<rparr>"

definition sample_transition :: approval_transition where
  "sample_transition = \<lparr>at_ProjectID = ''p'', at_DeploymentID = ''d'', at_ApprovalID = ''a'', at_ExpectedRevision = 1,
     at_Actor = sample_actor ''v''\<rparr>"

definition sample_approved :: approval where
  "sample_approved = decided_approval (sample_actor ''v'') ApprovalApproved 20 sample_pending"

definition sample_approvals2 :: approval_db where
  "sample_approvals2 = sample_approvals0\<lparr>adb_approvals := [sample_approved]\<rparr>"

lemmas sample_approval_defs = sample_actor_def sample_approval_request_def sample_approvals0_def sample_pending_def
  sample_approvals1_def sample_transition_def sample_approved_def sample_approvals2_def new_approval_def
  decided_approval_def Let_def

lemma trim_space_sample [simp]:
  "trim_space ''a'' = ''a''" "trim_space ''p'' = ''p''" "trim_space ''d'' = ''d''" "trim_space ''e'' = ''e''"
  "trim_space ''g'' = ''g''" "trim_space ''r'' = ''r''" "trim_space ''u'' = ''u''" "trim_space ''v'' = ''v''" "trim_space ''k'' = ''k''"
  by (simp_all add: trim_space_visible visible_def)

lemma sample_approval_valid: "Validate_approval sample_pending = Inr ()" "Validate_approval sample_approved = Inr ()"
  by (simp_all add: Validate_approval_iff sample_approval_defs blank_def known_class_def hasDecisionEvidence_def
      revocation_evidence_def wrap_int64_def)

lemma sample_created: "create_pending 100 10 (Inr ''a'') sample_approval_request sample_approvals0 = (Inr sample_pending, sample_approvals1)"
  unfolding create_pending_def sum.case Let_def sample_pending_def [symmetric] CreateApproval_def sample_approval_valid
  by (simp add: CreateDeploymentApproval_def approval_violates_def known_principal_def sample_approval_defs)

lemma sample_decided: "decide 20 (\<lambda>_. sample_approvals1) sample_transition ApprovalApproved sample_approvals1 = (Inr sample_approved, sample_approvals2)"
proof -
  have "ApprovalByDeployment ''d'' sample_approvals1 = Inr sample_pending"
    using sample_approval_valid(1) by (simp add: ApprovalByDeployment_def blank_def GetCurrentDeploymentApproval_def sample_approvals1_def mapApproval_def)
      (simp add: sample_approval_defs mapApproval_def)
  then have "loadTransition sample_transition 20 sample_approvals1 = Inr sample_pending"
    by (simp add: loadTransition_def validate_actor_def sample_transition_def sample_actor_def blank_def known_class_def)
      (simp add: sample_approval_defs)
  moreover have "decided_approval (at_Actor sample_transition) ApprovalApproved 20 sample_pending = sample_approved"
    by (simp add: sample_approved_def sample_transition_def)
  moreover have "SaveApproval sample_approved 1 sample_approvals1 = (Inr sample_approved, sample_approvals2)"
    using sample_approval_valid(2)
    by (simp add: SaveApproval_def UpdateDeploymentApproval_def sample_approvals1_def)
      (simp add: sample_approval_defs wrap_int64_def updated_approval_def approval_violates_def known_principal_def delete_at_def)
  ultimately show ?thesis
    using sample_approval_valid(2) by (simp add: decide_def Let_def) (simp add: sample_approval_defs)
qed

lemma sample_approvals_reachable:
  "approvals_reachable 100 sample_approvals2 {sample_approvals2, sample_approvals1, sample_approvals0}"
proof -
  have "approval_step 100 (sample_approvals0, {sample_approvals0}) (sample_approvals1, {sample_approvals1, sample_approvals0})"
    by (rule approval_step.create [OF sample_created])
  moreover have "approval_step 100 (sample_approvals1, {sample_approvals1, sample_approvals0})
      (sample_approvals2, {sample_approvals2, sample_approvals1, sample_approvals0})"
    by (rule approval_step.decide [OF _ sample_decided]) simp
  moreover have "adb_approvals sample_approvals0 = []" by (simp add: sample_approvals0_def)
  ultimately show ?thesis unfolding approvals_reachable_def by (meson converse_rtranclp_into_rtranclp rtranclp.rtrancl_refl)
qed

section \<open>Properties\<close>

text \<open>
  C4. In every reachable state of the approvals table, whatever service calls interleave, an
  approved or denied approval carries the complete evidence of its decision by a principal other
  than the one that requested it, identifiers are unique, and a deployment has at most one
  approval that is pending or approved.
\<close>

theorem approvals_separate_duties:
  assumes "approvals_reachable lifetime db hist"
  shows "(\<forall>a\<in>set (adb_approvals db). ap_Status a \<in> {ApprovalApproved, ApprovalDenied} \<longrightarrow>
      ap_ApprovedBy a \<noteq> [] \<and> ap_ApprovedBy a \<noteq> ap_RequestedBy a \<and> ap_ApprovalCredentialID a \<noteq> []
      \<and> known_class (ap_ApprovalCredentialClass a) \<and> ap_ApprovedAt a \<noteq> 0)
    \<and> distinct (map ap_ID (adb_approvals db))
    \<and> distinct (map ap_DeploymentID (filter (\<lambda>a. ap_Status a \<in> {ApprovalPending, ApprovalApproved}) (adb_approvals db)))"
proof -
  have t: "table_ok lifetime db" using approvals_reachable_ok [OF assms] by (simp add: system_ok_def)
  then have "Validate_approval a = Inr ()" if "a \<in> set (adb_approvals db)" for a
    using that by (simp add: table_ok_def approval_ok_def)
  then show ?thesis using t
    by (auto simp: Validate_approval_iff table_ok_def live_deployments_def live_def)
qed

theorem approvals_separate_duties_witness:
  "ap_Status sample_approved = ApprovalApproved \<and> ap_ApprovedBy sample_approved \<noteq> ap_RequestedBy sample_approved"
proof -
  have "sample_approved \<in> set (adb_approvals sample_approvals2)" by (simp add: sample_approvals2_def)
  moreover have "ap_Status sample_approved = ApprovalApproved" by (simp add: sample_approval_defs)
  ultimately show ?thesis using approvals_separate_duties [OF sample_approvals_reachable] by simp
qed

text \<open>
  C22. An activation is authorised only by an approval of exactly this project, deployment,
  environment, request digest and release that is in the table, is approved by a principal other
  than the requester, and is in force: the request was made less than the lifetime ago and the
  credential that approved it has not expired. No other approval of the deployment is pending or
  approved.
\<close>

theorem activation_rests_on_approval:
  assumes "approvals_reachable lifetime db hist" "AuthorizeActivation now request db = Inr a"
  shows "a \<in> set (adb_approvals db) \<and> ap_Status a = ApprovalApproved
    \<and> ap_ProjectID a = trim_space (av_ProjectID request) \<and> ap_DeploymentID a = trim_space (av_DeploymentID request)
    \<and> ap_Environment a = trim_space (av_Environment request) \<and> ap_RequestDigest a = trim_space (av_RequestDigest request)
    \<and> ap_ReleaseID a = trim_space (av_ReleaseID request)
    \<and> ap_ApprovedBy a \<noteq> ap_RequestedBy a \<and> ap_ApprovedBy a \<noteq> []
    \<and> now < ap_RequestedAt a + lifetime \<and> now < ap_ApprovalCredentialExpiresAt a
    \<and> (\<forall>b\<in>set (adb_approvals db). ap_DeploymentID b = ap_DeploymentID a \<and> live (ap_Status b) \<longrightarrow> b = a)"
proof -
  have a: "ApprovalByDeployment (trim_space (av_DeploymentID request)) db = Inr a" "ap_Status a = ApprovalApproved" "now < ap_ExpiresAt a"
    and scope: "ap_ProjectID a = trim_space (av_ProjectID request) \<and> ap_DeploymentID a = trim_space (av_DeploymentID request)
      \<and> ap_Environment a = trim_space (av_Environment request) \<and> ap_RequestDigest a = trim_space (av_RequestDigest request)
      \<and> ap_ReleaseID a = trim_space (av_ReleaseID request)"
    using assms(2) by (auto simp: AuthorizeActivation_def split: sum.splits if_splits)
  have t: "table_ok lifetime db" using approvals_reachable_ok [OF assms(1)] by (simp add: system_ok_def)
  have mem: "a \<in> set (adb_approvals db)" using ApprovalByDeployment_mem [OF a(1)] by simp
  then have ok: "approval_ok lifetime a" using t by (simp add: table_ok_def)
  then have ev: "hasDecisionEvidence a" "ap_ApprovedBy a \<noteq> ap_RequestedBy a" "ap_ApprovedBy a \<noteq> []"
    using a(2) by (auto simp: approval_ok_def Validate_approval_iff)
  have "b = a" if "b \<in> set (adb_approvals db)" "ap_DeploymentID b = ap_DeploymentID a" "live (ap_Status b)" for b
    using t that mem a(2) by (auto simp: table_ok_def live_deployments_def distinct_map inj_on_def live_def)
  moreover have "now < ap_RequestedAt a + lifetime" "now < ap_ApprovalCredentialExpiresAt a"
    using ok ev(1) a(3) by (auto simp: approval_ok_def)
  ultimately show ?thesis using scope mem ev(2,3) a(2) by blast
qed

theorem activation_rests_on_approval_witness:
  "\<exists>request. AuthorizeActivation 30 request sample_approvals2 = Inr sample_approved
     \<and> ap_ApprovedBy sample_approved \<noteq> ap_RequestedBy sample_approved"
proof -
  let ?q = "\<lparr>av_ProjectID = ''p'', av_DeploymentID = ''d'', av_Environment = ''e'', av_RequestDigest = ''g'', av_ReleaseID = ''r''\<rparr>"
  have "ApprovalByDeployment ''d'' sample_approvals2 = Inr sample_approved"
    using sample_approval_valid(2) by (simp add: ApprovalByDeployment_def blank_def GetCurrentDeploymentApproval_def sample_approvals2_def mapApproval_def)
      (simp add: sample_approval_defs mapApproval_def)
  then have "AuthorizeActivation 30 ?q sample_approvals2 = Inr sample_approved"
    using sample_approval_valid(2) by (simp add: AuthorizeActivation_def) (simp add: sample_approval_defs)
  then show ?thesis using activation_rests_on_approval [OF sample_approvals_reachable] by blast
qed

text \<open>
  C23. What an approval was requested for never changes, and its state only moves forward: every
  row the table ever held is still there under its identifier, with the same project, deployment,
  environment, digest, release and requester, an expiry that is not later, either unchanged or at
  a higher revision; a denied, revoked or expired approval is never revived, and an approved one
  is only ever revoked or expired.
\<close>

theorem approval_history_preserved:
  assumes "approvals_reachable lifetime db hist" "db0 \<in> hist" "r \<in> set (adb_approvals db0)"
  shows "\<exists>r'\<in>set (adb_approvals db). same_request r r' \<and> approval_lifecycle (ap_Status r) (ap_Status r')
    \<and> ap_ExpiresAt r' \<le> ap_ExpiresAt r \<and> (r' = r \<or> ap_Revision r < ap_Revision r')"
  using approvals_reachable_ok [OF assms(1)] assms(2,3) unfolding system_ok_def precedes_def becomes_def by auto

theorem approval_history_preserved_witness:
  "\<exists>r'\<in>set (adb_approvals sample_approvals2). same_request sample_pending r' \<and> approval_lifecycle ApprovalPending (ap_Status r')"
proof -
  have "sample_pending \<in> set (adb_approvals sample_approvals1)" by (simp add: sample_approvals1_def)
  moreover have "ap_Status sample_pending = ApprovalPending" by (simp add: sample_approval_defs)
  ultimately show ?thesis using approval_history_preserved [OF sample_approvals_reachable, of sample_approvals1 sample_pending] by fastforce
qed

text \<open>
  C24. Racing decisions: once an approval or denial with some expected revision has been saved, no
  other approval, denial or revocation of the same approval with the same expected revision
  succeeds, however early it read the approval and whatever was written in between; it fails
  and leaves the table as it is.
\<close>

theorem decisions_exclusive:
  assumes "approvals_reachable lifetime db2 hist" "db1 \<in> hist" "at_ExpectedRevision t < max_int64"
    and "decide now env t status db0 = (Inr a, db1)"
    and "at_ExpectedRevision t' = at_ExpectedRevision t" "trim_space (at_ApprovalID t') = trim_space (at_ApprovalID t)"
  shows "(\<forall>b db'. decide now' (\<lambda>_. db2) t' status' dbr \<noteq> (Inr b, db')) \<and> (\<forall>b db'. Revoke now' (\<lambda>_. db2) t' dbr \<noteq> (Inr b, db'))"
proof -
  obtain r where r: "loadTransition t now db0 = Inr r" "a = decided_approval (at_Actor t) status now r"
    and s: "SaveApproval a (at_ExpectedRevision t) (env db0) = (Inr a, db1)"
    by (rule decide_result [OF assms(4)]) blast
  have ida: "ap_ID a = trim_space (at_ApprovalID t)"
    using loadTransition_result(5) [OF r(1)] by (simp add: r(2) decided_approval_def Let_def)
  have sys: "system_ok lifetime (db2, hist)" by (rule approvals_reachable_ok [OF assms(1)])
  then have adv: "rows_advance ap_ID ap_Revision (adb_approvals db1) (adb_approvals db2)"
    using assms(2) unfolding system_ok_def precedes_def becomes_def same_request_def rows_advance_def by fastforce
  have dist: "distinct (map ap_ID (adb_approvals db2))" using sys by (simp add: system_ok_def table_ok_def)
  have lost: "SaveApproval c (at_ExpectedRevision t') db2 \<noteq> (Inr b, db')" if "ap_ID c = trim_space (at_ApprovalID t')" for c b db'
    using appr.save_exclusive [OF s assms(3) adv dist, of c] that ida assms(5,6) by auto
  have "decide now' (\<lambda>_. db2) t' status' dbr \<noteq> (Inr b, db')" for b db'
  proof
    assume "decide now' (\<lambda>_. db2) t' status' dbr = (Inr b, db')"
    then obtain q where q: "loadTransition t' now' dbr = Inr q" "b = decided_approval (at_Actor t') status' now' q"
      "SaveApproval b (at_ExpectedRevision t') db2 = (Inr b, db')" by (rule decide_result) blast
    have "ap_ID b = trim_space (at_ApprovalID t')"
      using loadTransition_result(5) [OF q(1)] by (simp add: q(2) decided_approval_def Let_def)
    then show False using lost q(3) by blast
  qed
  moreover have "Revoke now' (\<lambda>_. db2) t' dbr \<noteq> (Inr b, db')" for b db'
  proof
    assume "Revoke now' (\<lambda>_. db2) t' dbr = (Inr b, db')"
    then obtain q where q: "loadTransition t' now' dbr = Inr q" "b = revoked_approval (at_Actor t') now' q"
      "SaveApproval b (at_ExpectedRevision t') db2 = (Inr b, db')" by (rule Revoke_result) blast
    have "ap_ID b = trim_space (at_ApprovalID t')"
      using loadTransition_result(5) [OF q(1)] by (simp add: q(2) revoked_approval_def)
    then show False using lost q(3) by blast
  qed
  ultimately show ?thesis by blast
qed

theorem decisions_exclusive_witness:
  "\<forall>b db'. decide 21 (\<lambda>_. sample_approvals2) sample_transition ApprovalDenied sample_approvals1 \<noteq> (Inr b, db')"
proof -
  have "at_ExpectedRevision sample_transition < max_int64" by (simp add: sample_transition_def max_int64_def)
  from decisions_exclusive [OF sample_approvals_reachable _ this sample_decided]
  show ?thesis by simp
qed

end
