(* ===== verification/Go_Time.thy ===== *)
theory Go_Time
  imports Versioned_Store "HOL-Library.Monad_Syntax"
begin

text \<open>
  What the repository uses of Go's package \<open>time\<close>: the proleptic Gregorian calendar, \<open>Date\<close> with
  its normalisation of months, \<open>AddDate\<close>, \<open>Weekday\<close>, and the layouts \<open>2006-01-02\<close> and
  \<open>RFC3339Nano\<close>, parsed and formatted. A time is the number of nanoseconds since the zero time,
  January 1 of year 1, 00:00:00 UTC. Years are unbounded integers here.
\<close>

section \<open>The calendar\<close>

definition leap :: "int \<Rightarrow> bool" where
  "leap y \<longleftrightarrow> 4 dvd y \<and> (\<not> 100 dvd y \<or> 400 dvd y)"

definition month_days :: "int \<Rightarrow> int \<Rightarrow> int" where
  "month_days y m = (if m = 2 then (if leap y then 29 else 28) else if m \<in> {4, 6, 9, 11} then 30 else 31)"

text \<open>Days from January 1 of year 0 to January 1 of year \<open>y\<close>.\<close>

definition year_start :: "int \<Rightarrow> int" where
  "year_start y = 365 * y + (y + 3) div 4 - (y + 99) div 100 + (y + 399) div 400"

definition month_start :: "int \<Rightarrow> int \<Rightarrow> int" where
  "month_start y m = [0, 31, 59, 90, 120, 151, 181, 212, 243, 273, 304, 334] ! nat (m - 1) + (if leap y \<and> m > 2 then 1 else 0)"

definition year_length :: "int \<Rightarrow> int" where
  "year_length y = (if leap y then 366 else 365)"

lemma div_step: "0 < k \<Longrightarrow> (y + k) div k - (y + (k - 1)) div k = (if k dvd y then 1 else (0::int))"
proof -
  assume k: "0 < k"
  have y: "y = k * (y div k) + y mod k" by simp
  have "(y + k) div k = y div k + 1" using k by (intro div_add_self2) simp
  moreover have "(y + (k - 1)) div k = y div k + (if k dvd y then 0 else 1)"
  proof -
    have "(y + (k - 1)) div k = (k * (y div k) + (y mod k + (k - 1))) div k" using y by (simp add: algebra_simps)
    also have "\<dots> = y div k + (y mod k + (k - 1)) div k" by (rule div_mult_self4) (use k in simp)
    also have "(y mod k + (k - 1)) div k = (if y mod k = 0 then 0 else 1)"
    proof (cases "y mod k = 0")
      case False
      then have "0 < y mod k" "y mod k < k" using k pos_mod_sign [OF k, of y] pos_mod_bound [OF k, of y] by auto
      then have "(y mod k + (k - 1)) div k = ((y mod k - 1) + k) div k" by (simp add: algebra_simps)
      also have "\<dots> = (y mod k - 1) div k + 1" by (rule div_add_self2) (use k in simp)
      also have "(y mod k - 1) div k = 0" using \<open>0 < y mod k\<close> \<open>y mod k < k\<close> by (intro div_pos_pos_trivial) auto
      finally show ?thesis using False by simp
    qed (use k in auto)
    finally show ?thesis by (simp add: dvd_eq_mod_eq_0)
  qed
  ultimately show ?thesis by simp
qed

lemma leap_sum:
  assumes "R \<longrightarrow> Q" "Q \<longrightarrow> P" "a - a' = (if P then 1 else (0::int))" "b - b' = (if Q then 1 else 0)" "c - c' = (if R then 1 else 0)"
  shows "365 * y + 365 + a - b + c = 365 * y + a' - b' + c' + (if P \<and> (\<not> Q \<or> R) then 366 else 365)"
  using assms by (auto split: if_splits)

lemma year_start_Suc: "year_start (y + 1) = year_start y + year_length y"
proof -
  have d: "(y + 4) div 4 - (y + 3) div 4 = (if 4 dvd y then 1 else 0)"
    "(y + 100) div 100 - (y + 99) div 100 = (if 100 dvd y then 1 else 0)"
    "(y + 400) div 400 - (y + 399) div 400 = (if 400 dvd y then 1 else 0)"
    using div_step [of 4 y] div_step [of 100 y] div_step [of 400 y] by simp_all
  have imp: "400 dvd y \<longrightarrow> 100 dvd y" "100 dvd y \<longrightarrow> 4 dvd y"
    by (auto intro: dvd_trans [of _ 400] dvd_trans [of _ 100])
  have "year_start (y + 1) = 365 * y + 365 + (y + 4) div 4 - (y + 100) div 100 + (y + 400) div 400"
    by (simp add: year_start_def add.commute)
  then show ?thesis
    unfolding year_start_def [of y] year_length_def leap_def using leap_sum [OF imp d, of y] by presburger
qed

lemma year_start_era: "year_start (400 * e + y) = 146097 * e + year_start y"
proof -
  have "(400 * e + y + 3) div 4 = 100 * e + (y + 3) div 4" "(400 * e + y + 99) div 100 = 4 * e + (y + 99) div 100"
    "(400 * e + y + 399) div 400 = e + (y + 399) div 400"
    using div_mult_self2 [of 4 "y + 3" "100 * e"] div_mult_self2 [of 100 "y + 99" "4 * e"] div_mult_self2 [of 400 "y + 399" e]
    by (simp_all add: algebra_simps)
  then show ?thesis by (simp add: year_start_def)
qed

lemma year_length_pos: "365 \<le> year_length y" "year_length y \<le> 366"
  by (simp_all add: year_length_def)

lemma year_start_mono: "y \<le> y' \<Longrightarrow> year_start y + 365 * (y' - y) \<le> year_start y'"
proof (induction rule: int_ge_induct)
  case (step i)
  then show ?case using year_start_Suc [of i] year_length_pos [of i] by simp
qed simp

lemma year_start_upper: "y \<le> y' \<Longrightarrow> year_start y' \<le> year_start y + 366 * (y' - y)"
proof (induction rule: int_ge_induct)
  case (step i)
  then show ?case using year_start_Suc [of i] year_length_pos [of i] by simp
qed simp

function find_year :: "int \<Rightarrow> int \<Rightarrow> int" where
  "find_year z y = (if z < year_start (y + 1) then y else find_year z (y + 1))"
  by pat_completeness auto
termination
proof (relation "measure (\<lambda>(z, y). nat (z - year_start y + 1))")
  fix z y assume "\<not> z < year_start (y + 1)"
  then show "((z, y + 1), z, y) \<in> measure (\<lambda>(z, y). nat (z - year_start y + 1))"
    using year_start_Suc [of y] year_length_pos [of y] by simp
qed simp

declare find_year.simps [simp del]

lemma find_year_range:
  "year_start y \<le> z \<Longrightarrow> year_start (find_year z y) \<le> z \<and> z < year_start (find_year z y + 1)"
proof (induction z y rule: find_year.induct)
  case (1 z y)
  then show ?case by (cases "z < year_start (y + 1)") (simp_all add: find_year.simps [of z y])
qed

text \<open>The year of the day \<open>z\<close>, counted from January 1 of year 0.\<close>

definition year_of :: "int \<Rightarrow> int" where
  "year_of z = (let e = z div 146097; r = z mod 146097 in 400 * e + find_year r (r div 366))"

lemma year_of_range: "year_start (year_of z) \<le> z \<and> z < year_start (year_of z + 1)"
proof -
  let ?e = "z div 146097" and ?r = "z mod 146097"
  have "0 \<le> ?r" by simp
  have "0 \<le> ?r div 366" by (simp add: pos_imp_zdiv_nonneg_iff)
  then have "year_start (?r div 366) \<le> year_start 0 + 366 * (?r div 366 - 0)" by (rule year_start_upper)
  also have "\<dots> \<le> ?r" by (simp add: year_start_def)
  finally have "year_start (find_year ?r (?r div 366)) \<le> ?r \<and> ?r < year_start (find_year ?r (?r div 366) + 1)"
    by (rule find_year_range)
  moreover have "z = 146097 * ?e + ?r" by (rule mult_div_mod_eq [symmetric])
  moreover have "year_start (year_of z) = 146097 * ?e + year_start (find_year ?r (?r div 366))"
    "year_start (year_of z + 1) = 146097 * ?e + year_start (find_year ?r (?r div 366) + 1)"
    using year_start_era [of ?e "find_year ?r (?r div 366)"] year_start_era [of ?e "find_year ?r (?r div 366) + 1"]
    unfolding year_of_def Let_def by (simp_all only: add.assoc)
  ultimately show ?thesis by linarith
qed

lemma year_of_unique:
  assumes "year_start y \<le> z" "z < year_start (y + 1)"
  shows "year_of z = y"
proof (rule ccontr)
  assume "year_of z \<noteq> y"
  then consider "year_of z + 1 \<le> y" | "y + 1 \<le> year_of z" by linarith
  then show False
  proof cases
    case 1
    then show False using year_start_mono [OF 1] year_of_range [of z] assms by auto
  next
    case 2
    then show False using year_start_mono [OF 2] year_of_range [of z] assms by auto
  qed
qed

definition month_of :: "int \<Rightarrow> int \<Rightarrow> int" where
  "month_of y n = the (find (\<lambda>m. month_start y m \<le> n) [12, 11, 10, 9, 8, 7, 6, 5, 4, 3, 2, 1])"

lemma month_start_values:
  "month_start y 1 = 0" "month_start y 2 = 31" "month_start y 3 = 59 + (if leap y then 1 else 0)"
  "month_start y 4 = 90 + (if leap y then 1 else 0)" "month_start y 5 = 120 + (if leap y then 1 else 0)"
  "month_start y 6 = 151 + (if leap y then 1 else 0)" "month_start y 7 = 181 + (if leap y then 1 else 0)"
  "month_start y 8 = 212 + (if leap y then 1 else 0)" "month_start y 9 = 243 + (if leap y then 1 else 0)"
  "month_start y 10 = 273 + (if leap y then 1 else 0)" "month_start y 11 = 304 + (if leap y then 1 else 0)"
  "month_start y 12 = 334 + (if leap y then 1 else 0)"
  by (simp_all add: month_start_def)

lemma months_cases:
  assumes "1 \<le> (m::int)" "m \<le> 12"
  obtains "m = 1" | "m = 2" | "m = 3" | "m = 4" | "m = 5" | "m = 6" | "m = 7" | "m = 8" | "m = 9" | "m = 10" | "m = 11" | "m = 12"
proof -
  have "m = 1 \<or> m = 2 \<or> m = 3 \<or> m = 4 \<or> m = 5 \<or> m = 6 \<or> m = 7 \<or> m = 8 \<or> m = 9 \<or> m = 10 \<or> m = 11 \<or> m = 12"
    using assms by presburger
  then show thesis using that by blast
qed

lemma month_start_Suc:
  assumes "1 \<le> m" "m \<le> 12"
  shows "month_start y m + month_days y m = (if m = 12 then year_length y else month_start y (m + 1))"
  using assms by (cases rule: months_cases) (simp_all add: month_start_values month_days_def year_length_def)

lemma month_start_step:
  assumes "1 \<le> m" "m \<le> m'" "m' \<le> 12"
  shows "month_start y m \<le> month_start y m'"
  using assms(2,3)
proof (induction rule: int_ge_induct)
  case (step i)
  then show ?case using month_start_Suc [of i y] assms(1) by (auto simp: month_days_def split: if_splits)
qed simp

lemma month_list: "[12, 11, 10, 9, 8, 7, 6, 5, 4, 3, 2, 1] = map (\<lambda>i. 12 - int i) [0..<12]"
  by (simp add: upt_rec)

lemma month_of_eq:
  assumes "1 \<le> m" "m \<le> 12" "month_start y m \<le> n" "n < month_start y m + month_days y m"
  shows "month_of y n = m"
proof -
  have later: "\<not> month_start y k \<le> n" if "m < k" "k \<le> 12" for k
    using assms that month_start_Suc [OF assms(1,2), of y] month_start_step [of "m + 1" k y] by (auto split: if_splits)
  have "find (\<lambda>k. month_start y k \<le> n) (map (\<lambda>i. 12 - int i) [0..<12]) = Some m"
    unfolding find_Some_iff using assms later by (intro exI [of _ "nat (12 - m)"]) auto
  then show ?thesis by (simp only: month_of_def month_list option.sel)
qed

lemma month_of_start:
  assumes "1 \<le> m" "m \<le> 12" "1 \<le> d" "d \<le> month_days y m"
  shows "month_of y (month_start y m + d - 1) = m"
  using assms by (intro month_of_eq) auto

lemma month_of_range:
  assumes "0 \<le> n" "n < year_length y"
  shows "1 \<le> month_of y n \<and> month_of y n \<le> 12 \<and> month_start y (month_of y n) \<le> n
    \<and> n < month_start y (month_of y n) + month_days y (month_of y n)"
proof -
  have "\<exists>m. 1 \<le> m \<and> m \<le> 12 \<and> month_start y m \<le> n \<and> n < month_start y m + month_days y m"
  proof (rule ccontr)
    assume none: "\<nexists>m. 1 \<le> m \<and> m \<le> 12 \<and> month_start y m \<le> n \<and> n < month_start y m + month_days y m"
    have "month_start y m \<le> n" if "1 \<le> m" "m \<le> 12" for m
      using that
    proof (induction rule: int_ge_induct)
      case base
      then show ?case using assms(1) by (simp add: month_start_values)
    next
      case (step i)
      then show ?case using none month_start_Suc [of i y] by force
    qed
    from this [of 12] show False using none assms(2) month_start_Suc [of 12 y] by force
  qed
  then show ?thesis using month_of_eq by metis
qed

section \<open>Dates and times in UTC\<close>

definition day_number :: "int \<Rightarrow> int \<Rightarrow> int \<Rightarrow> int" where
  "day_number y m d = year_start y + month_start y m + d - 1"

definition civil_of :: "int \<Rightarrow> int \<times> int \<times> int" where
  "civil_of z = (let y = year_of z; n = z - year_start y; m = month_of y n in (y, m, n - month_start y m + 1))"

definition valid_civil :: "int \<Rightarrow> int \<Rightarrow> int \<Rightarrow> bool" where
  "valid_civil y m d \<longleftrightarrow> 1 \<le> m \<and> m \<le> 12 \<and> 1 \<le> d \<and> d \<le> month_days y m"

lemma civil_of_day_number:
  assumes "valid_civil y m d"
  shows "civil_of (day_number y m d) = (y, m, d)"
proof -
  have m: "1 \<le> m" "m \<le> 12" "1 \<le> d" "d \<le> month_days y m" using assms by (auto simp: valid_civil_def)
  have "0 \<le> month_start y m" "month_start y m + month_days y m \<le> year_length y"
    using m(1,2) by (cases rule: months_cases; simp add: month_start_values month_days_def year_length_def)+
  then have "year_of (day_number y m d) = y"
    using m by (intro year_of_unique) (auto simp: day_number_def year_start_Suc)
  moreover have "day_number y m d - year_start y = month_start y m + d - 1" by (simp add: day_number_def)
  ultimately show ?thesis using month_of_start [OF m] by (simp add: civil_of_def Let_def)
qed

lemma civil_of_valid:
  assumes "civil_of z = (y, m, d)"
  shows "valid_civil y m d" "day_number y m d = z"
proof -
  have "0 \<le> z - year_start (year_of z)" "z - year_start (year_of z) < year_length (year_of z)"
    using year_of_range [of z] by (auto simp: year_start_Suc)
  from month_of_range [OF this] show "valid_civil y m d" "day_number y m d = z"
    using assms by (auto simp: civil_of_def Let_def valid_civil_def day_number_def)
qed

text \<open>\<open>time.Date\<close> in UTC: months are normalised into the year, the rest is linear. The zero time
  is day 366 of the count from year 0.\<close>

definition second_ns :: int where
  "second_ns = 10 ^ 9"

definition day_ns :: int where
  "day_ns = 86400 * 10 ^ 9"

definition Date :: "int \<Rightarrow> int \<Rightarrow> int \<Rightarrow> int \<Rightarrow> int \<Rightarrow> int \<Rightarrow> int \<Rightarrow> go_time" where
  "Date y m d h mi s ns =
    (let y' = y + (m - 1) div 12; m' = (m - 1) mod 12 + 1 in
     (day_number y' m' d - 366) * day_ns + (h * 3600 + mi * 60 + s) * second_ns + ns)"

definition day_of_time :: "go_time \<Rightarrow> int" where
  "day_of_time t = t div day_ns + 366"

definition civil_time :: "go_time \<Rightarrow> int \<times> int \<times> int" where
  "civil_time t = civil_of (day_of_time t)"

definition clock_seconds :: "go_time \<Rightarrow> int" where
  "clock_seconds t = t mod day_ns div second_ns"

definition Weekday :: "go_time \<Rightarrow> int" where
  "Weekday t = (t div day_ns + 1) mod 7"

lemma Date_valid:
  assumes "1 \<le> m" "m \<le> 12"
  shows "Date y m d h mi s ns = (day_number y m d - 366) * day_ns + (h * 3600 + mi * 60 + s) * second_ns + ns"
proof -
  have "(m - 1) div 12 = 0" "(m - 1) mod 12 = m - 1" using assms by simp_all
  then show ?thesis by (simp add: Date_def)
qed

lemma Date_civil_time:
  assumes "valid_civil y m d" "0 \<le> n" "n < day_ns"
  shows "civil_time ((day_number y m d - 366) * day_ns + n) = (y, m, d)"
proof -
  have "((day_number y m d - 366) * day_ns + n) div day_ns = day_number y m d - 366"
    using assms(2,3) by (simp add: day_ns_def)
  then show ?thesis using civil_of_day_number [OF assms(1)] by (simp add: civil_time_def day_of_time_def)
qed

section \<open>Texts\<close>

definition digit_val :: "char \<Rightarrow> int" where
  "digit_val c = int (of_char c) - 48"

text \<open>Exactly \<open>n\<close> digits.\<close>

fun num :: "nat \<Rightarrow> string \<Rightarrow> (int \<times> string) option" where
  "num 0 s = Some (0, s)"
| "num (Suc n) [] = None"
| "num (Suc n) (c # s) =
    (if is_digit c then (case num n s of None \<Rightarrow> None | Some (v, r) \<Rightarrow> Some (digit_val c * 10 ^ n + v, r)) else None)"

definition lit :: "char \<Rightarrow> string \<Rightarrow> string option" where
  "lit c s = (case s of [] \<Rightarrow> None | x # r \<Rightarrow> if x = c then Some r else None)"

definition parse_civil :: "string \<Rightarrow> ((int \<times> int \<times> int) \<times> string) option" where
  "parse_civil s = do {
     (y, s) \<leftarrow> num 4 s; s \<leftarrow> lit (CHR ''-'') s; (m, s) \<leftarrow> num 2 s; s \<leftarrow> lit (CHR ''-'') s; (d, s) \<leftarrow> num 2 s;
     if valid_civil y m d then Some ((y, m, d), s) else None }"

text \<open>The layout \<open>2006-01-02\<close>.\<close>

definition parse_date :: "string \<Rightarrow> (int \<times> int \<times> int) option" where
  "parse_date s = (case parse_civil s of Some (c, []) \<Rightarrow> Some c | _ \<Rightarrow> None)"

text \<open>The year is padded to four digits, with a sign in front when it is negative.\<close>

fun digit_count :: "nat \<Rightarrow> nat" where
  "digit_count n = (if n < 10 then 1 else Suc (digit_count (n div 10)))"

declare digit_count.simps [simp del]

definition year_text :: "int \<Rightarrow> string" where
  "year_text y = (if y < 0 then ''-'' else []) @ digits (max 4 (digit_count (nat \<bar>y\<bar>))) \<bar>y\<bar>"

definition date_text :: "int \<times> int \<times> int \<Rightarrow> string" where
  "date_text c = (case c of (y, m, d) \<Rightarrow> year_text y @ ''-'' @ digits 2 m @ ''-'' @ digits 2 d)"

text \<open>The layout \<open>RFC3339Nano\<close>. The parser accepts an hour of one digit, a comma before the
  fraction and offsets up to 24:60; digits of the fraction after the ninth are dropped.\<close>

definition parse_hour :: "string \<Rightarrow> (int \<times> string) option" where
  "parse_hour s = (case num 2 s of Some r \<Rightarrow> Some r | None \<Rightarrow> num 1 s)"

definition parse_fraction :: "string \<Rightarrow> int \<times> string" where
  "parse_fraction s =
    (case s of
       c # d # r \<Rightarrow>
         if (c = CHR ''.'' \<or> c = CHR '','') \<and> is_digit d then
           (let ds = takeWhile is_digit (d # r); kept = take 9 ds in
            (case num (length kept) kept of Some (v, _) \<Rightarrow> v * 10 ^ (9 - length kept) | None \<Rightarrow> 0,
             dropWhile is_digit (d # r)))
         else (0, s)
     | _ \<Rightarrow> (0, s))"

definition parse_zone :: "string \<Rightarrow> int option" where
  "parse_zone s =
    (if s = ''Z'' then Some 0
     else case s of
       [] \<Rightarrow> None
     | sign # r \<Rightarrow> do {
         (h, r) \<leftarrow> num 2 r; r \<leftarrow> lit (CHR '':'') r; (m, r) \<leftarrow> num 2 r;
         if r = [] \<and> h \<le> 24 \<and> m \<le> 60 \<and> (sign = CHR ''+'' \<or> sign = CHR ''-'')
         then Some ((if sign = CHR ''-'' then -1 else 1) * (h * 60 + m) * 60) else None })"

definition parse_timestamp :: "string \<Rightarrow> go_time option" where
  "parse_timestamp s = do {
     ((y, mo, d), s) \<leftarrow> parse_civil s; s \<leftarrow> lit (CHR ''T'') s;
     (h, s) \<leftarrow> parse_hour s; s \<leftarrow> lit (CHR '':'') s; (mi, s) \<leftarrow> num 2 s; s \<leftarrow> lit (CHR '':'') s; (sec, s) \<leftarrow> num 2 s;
     if h < 24 \<and> mi < 60 \<and> sec < 60 then
       (case parse_fraction s of (ns, s) \<Rightarrow> do { zone \<leftarrow> parse_zone s; Some (Date y mo d h mi (sec - zone) ns) })
     else None }"

definition timestamp_text :: "go_time \<Rightarrow> string" where
  "timestamp_text t =
    (let s = clock_seconds t in
     date_text (civil_time t) @ ''T'' @ digits 2 (s div 3600) @ '':'' @ digits 2 (s div 60 mod 60) @ '':'' @ digits 2 (s mod 60)
       @ fraction_text t)"

definition four_digit_year :: "go_time \<Rightarrow> bool" where
  "four_digit_year t \<longleftrightarrow> 0 \<le> fst (civil_time t) \<and> fst (civil_time t) \<le> 9999"

subsection \<open>Reading back what was printed\<close>

lemma digit_char: "0 \<le> k \<Longrightarrow> k \<le> 9 \<Longrightarrow> is_digit (char_of (nat (48 + k))) \<and> digit_val (char_of (nat (48 + k))) = k"
  by (simp add: char_class_defs digit_val_def nat_add_distrib)

lemma digits_mod: "n \<le> m \<Longrightarrow> digits n (v mod 10 ^ m) = digits n v"
proof (induction n)
  case (Suc n)
  then obtain k where m: "m = n + Suc k" using less_iff_Suc_add [of n m] by auto
  have "v mod 10 ^ m = 10 ^ n * (v div 10 ^ n mod 10 ^ Suc k) + v mod 10 ^ n"
    unfolding m power_add by (rule zmod_zmult2_eq) simp
  then have "v mod 10 ^ m div 10 ^ n = v div 10 ^ n mod 10 ^ Suc k" by simp
  then have "v mod 10 ^ m div 10 ^ n mod 10 = v div 10 ^ n mod 10" by (simp add: mod_mod_cancel)
  then show ?case using Suc by simp
qed simp

lemma num_digits: "0 \<le> v \<Longrightarrow> v < 10 ^ n \<Longrightarrow> num n (digits n v @ r) = Some (v, r)"
proof (induction n arbitrary: v)
  case (Suc n)
  have "digits n v = digits n (v mod 10 ^ n)" by (simp add: digits_mod)
  moreover have "num n (digits n (v mod 10 ^ n) @ r) = Some (v mod 10 ^ n, r)" by (rule Suc.IH) simp_all
  moreover have "0 \<le> v div 10 ^ n" using Suc.prems(1) by (simp add: pos_imp_zdiv_nonneg_iff)
  moreover have "v div 10 ^ n < 10"
  proof (rule ccontr)
    assume "\<not> v div 10 ^ n < 10"
    then have "10 ^ n * 10 \<le> 10 ^ n * (v div 10 ^ n)" by (intro mult_left_mono) auto
    also have "\<dots> \<le> v" using mult_div_mod_eq [of "10 ^ n" v] by (metis add_increasing2 order_refl pos_mod_sign zero_less_numeral zero_less_power)
    finally show False using Suc.prems(2) by simp
  qed
  moreover have "v div 10 ^ n * 10 ^ n + v mod 10 ^ n = v" by (rule div_mult_mod_eq)
  ultimately show ?case using digit_char [of "v div 10 ^ n"] by simp
qed simp

lemma digits_digit: "0 \<le> v \<Longrightarrow> list_all is_digit (digits n v)"
proof (induction n)
  case (Suc n)
  then show ?case using digit_char [of "v div 10 ^ n mod 10"] by simp
qed simp

lemma digits_length [simp]: "length (digits n v) = n"
  by (induction n) simp_all

lemma cut_zeros_split: "\<exists>k. s = cut_zeros s @ replicate k CHR ''0''"
proof (induction s)
  case (Cons c s)
  then obtain k where k: "s = cut_zeros s @ replicate k CHR ''0''" by blast
  show ?case
  proof (cases "cut_zeros s")
    case Nil
    then have "c # s = cut_zeros (c # s) @ replicate (if c = CHR ''0'' then Suc k else k) CHR ''0''" using k by simp
    then show ?thesis by blast
  next
    case (Cons a as)
    then show ?thesis using k by (auto intro!: exI [of _ k])
  qed
qed simp

lemma num_zeros: "num k (replicate k CHR ''0'') = Some (0, [])"
  by (induction k) (simp_all add: char_class_defs digit_val_def)

lemma num_append_zeros:
  "num (length a + k) (a @ replicate k CHR ''0'') = map_option (\<lambda>(v, _). (v * 10 ^ k, [])) (num (length a) a)"
  by (induction a) (auto simp: num_zeros power_add algebra_simps split: option.splits)

lemma num_exact: "num (length s) s = Some (v, r) \<Longrightarrow> r = []"
  by (induction s arbitrary: v) (auto split: if_splits option.splits)

lemma parse_fraction_digits:
  assumes "a = d # r" "list_all is_digit a" "length a \<le> 9" "num (length a) a = Some (v, [])"
  shows "parse_fraction (CHR ''.'' # a @ ''Z'') = (v * 10 ^ (9 - length a), ''Z'')"
proof -
  have "takeWhile is_digit (r @ ''Z'') = r" "dropWhile is_digit (r @ ''Z'') = ''Z''" "take 8 r = r" "is_digit d"
    using assms(1-3) by (simp_all add: takeWhile_append dropWhile_append list_all_iff char_class_defs)
  then show ?thesis using assms by (simp add: parse_fraction_def Let_def del: num.simps)
qed

lemma parse_fraction_text: "parse_fraction (fraction_text t) = (t mod 10 ^ 9, ''Z'')"
proof -
  let ?n = "t mod 10 ^ 9"
  let ?a = "cut_zeros (digits 9 ?n)"
  obtain k where k: "digits 9 ?n = ?a @ replicate k CHR ''0''" using cut_zeros_split by blast
  then have len: "length ?a + k = 9" using digits_length [of 9 ?n] by (metis length_append length_replicate)
  have "num 9 (digits 9 ?n @ []) = Some (?n, [])" by (rule num_digits) simp_all
  then have "num (length ?a + k) (?a @ replicate k CHR ''0'') = Some (?n, [])" unfolding len k [symmetric] by simp
  from this [unfolded num_append_zeros] obtain v r where vr: "num (length ?a) ?a = Some (v, r)" "v * 10 ^ k = ?n"
    by (cases "num (length ?a) ?a") (auto simp del: num.simps)
  then have v: "num (length ?a) ?a = Some (v, [])" "v * 10 ^ k = ?n" using num_exact [OF vr(1)] by simp_all
  have dig: "list_all is_digit ?a" using digits_digit [of ?n 9] k by (metis list_all_append pos_mod_sign zero_less_numeral zero_less_power)
  show ?thesis
  proof (cases ?a)
    case Nil
    then have "?n = 0" using v by simp
    then show ?thesis using Nil by (simp add: fraction_text_def parse_fraction_def)
  next
    case (Cons d r)
    have "length ?a \<le> 9" "9 - length ?a = k" using len by auto
    then show ?thesis using parse_fraction_digits [OF Cons dig _ v(1)] v(2) Cons by (simp add: fraction_text_def del: num.simps)
  qed
qed

lemma parse_civil_text:
  assumes "valid_civil y m d" "0 \<le> y" "y \<le> 9999"
  shows "parse_civil (date_text (y, m, d) @ r) = Some ((y, m, d), r)"
proof -
  have m: "0 \<le> m" "m < 10 ^ 2" "0 \<le> d" "d < 10 ^ 2" using assms(1) by (auto simp: valid_civil_def month_days_def split: if_splits)
  have "digit_count (nat y) \<le> 4"
    using assms(2,3) by (simp add: digit_count.simps [of "nat y"] digit_count.simps [of "nat y div 10"] digit_count.simps [of "nat y div 10 div 10"]
      digit_count.simps [of "nat y div 10 div 10 div 10"])
  then have "year_text y = digits 4 y" using assms(2) by (simp add: year_text_def)
  then show ?thesis
    using assms m num_digits [of y 4] num_digits [of m 2] num_digits [of d 2]
    by (simp add: parse_civil_def date_text_def lit_def del: digits.simps num.simps)
qed

theorem date_text_read_back:
  "valid_civil y m d \<Longrightarrow> 0 \<le> y \<Longrightarrow> y \<le> 9999 \<Longrightarrow> parse_date (date_text (y, m, d)) = Some (y, m, d)"
  using parse_civil_text [of y m d "[]"] by (simp add: parse_date_def)

lemma clock_split: "(s::int) div 3600 * 3600 + s div 60 mod 60 * 60 + s mod 60 = s"
proof -
  have "s div 3600 = s div 60 div 60" using zdiv_zmult2_eq [of 60 s 60] by simp
  moreover have "s div 60 div 60 * 60 + s div 60 mod 60 = s div 60" by (rule div_mult_mod_eq)
  moreover have "s div 60 * 60 + s mod 60 = s" by (rule div_mult_mod_eq)
  ultimately show ?thesis by linarith
qed

lemma time_split:
  "t = (day_of_time t - 366) * day_ns + (clock_seconds t div 3600 * 3600 + clock_seconds t div 60 mod 60 * 60 + clock_seconds t mod 60) * second_ns
     + t mod 10 ^ 9"
proof -
  let ?n = "t mod day_ns"
  have "?n mod 10 ^ 9 = t mod 10 ^ 9" by (rule mod_mod_cancel) (simp add: day_ns_def)
  then have n: "?n = clock_seconds t * second_ns + t mod 10 ^ 9"
    unfolding clock_seconds_def second_ns_def by (metis div_mult_mod_eq)
  have "clock_seconds t div 3600 * 3600 + clock_seconds t div 60 mod 60 * 60 + clock_seconds t mod 60 = clock_seconds t"
    by (rule clock_split)
  moreover have "t = t div day_ns * day_ns + ?n" by simp
  ultimately show ?thesis using n by (simp add: day_of_time_def)
qed

lemma clock_seconds_range: "0 \<le> clock_seconds t" "clock_seconds t < 86400"
proof -
  have "0 \<le> t mod day_ns" "t mod day_ns < 86400 * second_ns" by (simp_all add: day_ns_def second_ns_def)
  then show "0 \<le> clock_seconds t" "clock_seconds t < 86400"
    unfolding clock_seconds_def by (simp_all add: second_ns_def pos_imp_zdiv_nonneg_iff)
qed

theorem timestamp_text_read_back:
  assumes "four_digit_year t"
  shows "parse_timestamp (timestamp_text t) = Some t"
proof -
  obtain y m d where c: "civil_time t = (y, m, d)" by (metis prod_cases3)
  then have v: "valid_civil y m d" "day_number y m d = day_of_time t" using civil_of_valid unfolding civil_time_def by blast+
  have y: "0 \<le> y" "y \<le> 9999" using assms c by (auto simp: four_digit_year_def)
  define h mi sec where hms: "h = clock_seconds t div 3600" "mi = clock_seconds t div 60 mod 60" "sec = clock_seconds t mod 60"
  have s: "0 \<le> h" "h < 24" "0 \<le> mi" "mi < 60" "0 \<le> sec" "sec < 60"
    using clock_seconds_range [of t] by (simp_all add: hms pos_imp_zdiv_nonneg_iff)
  have n: "num 2 (digits 2 h @ r) = Some (h, r)" "num 2 (digits 2 mi @ r) = Some (mi, r)" "num 2 (digits 2 sec @ r) = Some (sec, r)" for r
    using s by (auto intro!: num_digits)
  have date: "Date y m d h mi sec (t mod 10 ^ 9) = t"
    using v time_split [of t] by (simp add: hms Date_valid valid_civil_def)
  have shape: "timestamp_text t = date_text (y, m, d) @ ''T'' @ digits 2 h @ '':'' @ digits 2 mi @ '':'' @ digits 2 sec @ fraction_text t"
    unfolding timestamp_text_def Let_def c hms ..
  have lt: "lit (CHR ''T'') (''T'' @ r) = Some r" "lit (CHR '':'') ('':'' @ r) = Some r" for r by (simp_all add: lit_def)
  show ?thesis
    unfolding parse_timestamp_def shape parse_civil_text [OF v(1) y] bind.bind_lunit prod.case lt parse_hour_def n option.case
      parse_fraction_text parse_zone_def
    using s date by simp
qed

end
