(* ===== verification/Filter_Value.thy ===== *)
theory Filter_Value
  imports Go_Time Complex_Main
begin

text \<open>
  Filter values, \<open>internal/dashboard/filter/model.go\<close>: the typed values of dashboard filters, their
  canonical text, and their order. String types of the code with named constants are datatypes
  with one more constructor for any other string. The dynamic value of a filter value is a string,
  a boolean or something else. Integers and decimals are arbitrary precision texts; the order of
  decimals compares rational numbers.
\<close>

section \<open>Data\<close>

datatype filter_error = ErrStaleRevision | ErrBindingLocked | ErrFilter string

datatype value_kind =
    ValueString | ValueBoolean | ValueInteger | ValueDecimal | ValueDate | ValueTimestamp | ValueKindOther string

datatype any_value = AnyString string | AnyBool bool | AnyOther string

record filter_value =
  fv_Kind :: value_kind
  fv_Value :: any_value

section \<open>Integers\<close>

definition all_digits :: "string \<Rightarrow> bool" where
  "all_digits s \<longleftrightarrow> s \<noteq> [] \<and> list_all is_digit s"

definition digits_value :: "string \<Rightarrow> int" where
  "digits_value s = (case num (length s) s of None \<Rightarrow> 0 | Some (v, _) \<Rightarrow> v)"

text \<open>\<open>big.Int.SetString\<close> in base 10, and \<open>String\<close>.\<close>

definition parse_bigint :: "string \<Rightarrow> int option" where
  "parse_bigint s =
    (case s of
       [] \<Rightarrow> None
     | c # r \<Rightarrow>
         if c = CHR ''-'' then (if all_digits r then Some (- digits_value r) else None)
         else if c = CHR ''+'' then (if all_digits r then Some (digits_value r) else None)
         else if all_digits s then Some (digits_value s) else None)"

definition nat_text :: "int \<Rightarrow> string" where
  "nat_text n = digits (digit_count (nat n)) n"

definition bigint_text :: "int \<Rightarrow> string" where
  "bigint_text n = (if n < 0 then ''-'' @ nat_text (- n) else nat_text n)"

section \<open>Decimals\<close>

definition strip_sign :: "string \<Rightarrow> bool \<times> string" where
  "strip_sign s =
    (case s of
       [] \<Rightarrow> (False, [])
     | c # r \<Rightarrow> if c = CHR ''-'' then (True, r) else if c = CHR ''+'' then (False, r) else (False, s))"

definition decimal_whole :: "string \<Rightarrow> bool" where
  "decimal_whole w \<longleftrightarrow> all_digits w \<and> (w = ''0'' \<or> hd w \<noteq> CHR ''0'')"

text \<open>\<open>strings.Cut\<close> at the first point.\<close>

definition cut_point :: "string \<Rightarrow> string \<times> string \<times> bool" where
  "cut_point s =
    (case dropWhile (\<lambda>c. c \<noteq> CHR ''.'') s of
       [] \<Rightarrow> (s, [], False)
     | _ # f \<Rightarrow> (takeWhile (\<lambda>c. c \<noteq> CHR ''.'') s, f, True))"

text \<open>The pattern an optional sign, a whole part without leading zeros, an optional fraction.\<close>

definition decimalPattern :: "string \<Rightarrow> bool" where
  "decimalPattern s =
    (case cut_point (snd (strip_sign s)) of
       (whole, fraction, hasFraction) \<Rightarrow> decimal_whole whole \<and> (hasFraction \<longrightarrow> all_digits fraction))"

definition canonicalDecimal :: "string \<Rightarrow> string" where
  "canonicalDecimal value =
    (case strip_sign value of
       (negative, value) \<Rightarrow>
         case cut_point value of
           (whole, fraction, hasFraction) \<Rightarrow>
             let whole = dropWhile (\<lambda>c. c = CHR ''0'') whole;
                 whole = (if whole = [] then ''0'' else whole);
                 fraction = (if hasFraction then cut_zeros fraction else fraction);
                 sign = (if negative \<and> \<not> (whole = ''0'' \<and> fraction = []) then ''-'' else []) in
             if fraction = [] then sign @ whole else sign @ whole @ ''.'' @ fraction)"

text \<open>The number a decimal text stands for.\<close>

definition decimal_value :: "string \<Rightarrow> rat" where
  "decimal_value s =
    (case strip_sign s of
       (negative, s) \<Rightarrow>
         case cut_point s of
           (whole, fraction, _) \<Rightarrow>
             (if negative then -1 else 1) * (of_int (digits_value whole) + of_int (digits_value fraction) / 10 ^ length fraction))"

section \<open>Canonical values\<close>

definition canonicalValue :: "filter_value \<Rightarrow> value_kind \<Rightarrow> filter_error + filter_value" where
  "canonicalValue value want =
    (if fv_Kind value \<noteq> want then Inl (ErrFilter ''kind mismatch'')
     else case want of
       ValueString \<Rightarrow> (case fv_Value value of AnyString _ \<Rightarrow> Inr value | _ \<Rightarrow> Inl (ErrFilter ''string''))
     | ValueBoolean \<Rightarrow> (case fv_Value value of AnyBool _ \<Rightarrow> Inr value | _ \<Rightarrow> Inl (ErrFilter ''boolean''))
     | ValueInteger \<Rightarrow>
         (case fv_Value value of
            AnyString s \<Rightarrow>
              (case parse_bigint s of
                 None \<Rightarrow> Inl (ErrFilter ''invalid integer'')
               | Some n \<Rightarrow> Inr \<lparr>fv_Kind = want, fv_Value = AnyString (bigint_text n)\<rparr>)
          | _ \<Rightarrow> Inl (ErrFilter ''integer''))
     | ValueDecimal \<Rightarrow>
         (case fv_Value value of
            AnyString s \<Rightarrow>
              if decimalPattern s then Inr \<lparr>fv_Kind = want, fv_Value = AnyString (canonicalDecimal s)\<rparr>
              else Inl (ErrFilter ''invalid decimal'')
          | _ \<Rightarrow> Inl (ErrFilter ''invalid decimal''))
     | ValueDate \<Rightarrow>
         (case fv_Value value of
            AnyString s \<Rightarrow>
              (case parse_date s of
                 None \<Rightarrow> Inl (ErrFilter ''invalid date'')
               | Some c \<Rightarrow> Inr \<lparr>fv_Kind = want, fv_Value = AnyString (date_text c)\<rparr>)
          | _ \<Rightarrow> Inl (ErrFilter ''date''))
     | ValueTimestamp \<Rightarrow>
         (case fv_Value value of
            AnyString s \<Rightarrow>
              (case parse_timestamp s of
                 None \<Rightarrow> Inl (ErrFilter ''invalid timestamp'')
               | Some t \<Rightarrow> Inr \<lparr>fv_Kind = want, fv_Value = AnyString (timestamp_text t)\<rparr>)
          | _ \<Rightarrow> Inl (ErrFilter ''timestamp''))
     | ValueKindOther _ \<Rightarrow> Inl (ErrFilter ''unsupported kind''))"

definition value_text :: "filter_value \<Rightarrow> string" where
  "value_text v = (case fv_Value v of AnyString s \<Rightarrow> s | AnyBool b \<Rightarrow> (if b then ''true'' else ''false'') | AnyOther s \<Rightarrow> s)"

definition cmp :: "bool \<Rightarrow> bool \<Rightarrow> int" where
  "cmp lt eq = (if lt then -1 else if eq then 0 else 1)"

definition text_cmp :: "string \<Rightarrow> string \<Rightarrow> int" where
  "text_cmp a b = cmp (text_le a b \<and> a \<noteq> b) (a = b)"

definition compareValues :: "filter_value \<Rightarrow> filter_value \<Rightarrow> int" where
  "compareValues left right =
    (case fv_Kind left of
       ValueInteger \<Rightarrow>
         let a = the (parse_bigint (value_text left)); b = the (parse_bigint (value_text right)) in cmp (a < b) (a = b)
     | ValueDecimal \<Rightarrow>
         let a = decimal_value (value_text left); b = decimal_value (value_text right) in cmp (a < b) (a = b)
     | _ \<Rightarrow> text_cmp (value_text left) (value_text right))"

text \<open>Values are unique by their JSON text, which is equality of values whose strings are valid
  UTF-8; they are then sorted. No two of them compare as equal, so every sorting algorithm
  gives the same result; this one inserts.\<close>

fun insert_value :: "filter_value \<Rightarrow> filter_value list \<Rightarrow> filter_value list" where
  "insert_value v [] = [v]"
| "insert_value v (w # ws) = (if compareValues v w < 0 then v # w # ws else w # insert_value v ws)"

definition sort_values :: "filter_value list \<Rightarrow> filter_value list" where
  "sort_values vs = foldr insert_value vs []"

fun canonical_all :: "filter_value list \<Rightarrow> value_kind \<Rightarrow> filter_error + filter_value list" where
  "canonical_all [] kind = Inr []"
| "canonical_all (v # vs) kind =
    (case canonicalValue v kind of
       Inl e \<Rightarrow> Inl e
     | Inr c \<Rightarrow> (case canonical_all vs kind of Inl e \<Rightarrow> Inl e | Inr cs \<Rightarrow> Inr (c # cs)))"

definition canonicalValues :: "filter_value list \<Rightarrow> value_kind \<Rightarrow> filter_error + filter_value list" where
  "canonicalValues values kind =
    (case canonical_all values kind of Inl e \<Rightarrow> Inl e | Inr cs \<Rightarrow> Inr (sort_values (remdups cs)))"

section \<open>Canonical texts are read back\<close>

lemma digit_count_bound: "n < 10 ^ digit_count n"
proof (induction n rule: digit_count.induct)
  case (1 n)
  show ?case
  proof (cases "n < 10")
    case True
    then show ?thesis by (simp add: digit_count.simps)
  next
    case False
    have "n div 10 < 10 ^ digit_count (n div 10)" using 1 False by simp
    then show ?thesis using False by (simp add: digit_count.simps [of n])
  qed
qed

lemma digit_count_pos: "0 < digit_count n"
  by (simp add: digit_count.simps)

lemma digits_value_digits: "0 \<le> v \<Longrightarrow> v < 10 ^ n \<Longrightarrow> digits_value (digits n v) = v"
  using num_digits [of v n "[]"] by (simp add: digits_value_def)

lemma all_digits_digits: "0 \<le> v \<Longrightarrow> 0 < n \<Longrightarrow> all_digits (digits n v)"
  using digits_digit [of v n] digits_length [of n v] unfolding all_digits_def by (metis list.size(3) not_gr_zero)

lemma nat_text_props: "0 \<le> n \<Longrightarrow> all_digits (nat_text n) \<and> digits_value (nat_text n) = n"
proof -
  assume n: "0 \<le> n"
  have "int (nat n) < int (10 ^ digit_count (nat n))" using digit_count_bound [of "nat n"] by (simp only: of_nat_less_iff)
  then have "n < 10 ^ digit_count (nat n)" using n by simp
  then show ?thesis using n all_digits_digits [OF n digit_count_pos] digits_value_digits [OF n] by (simp add: nat_text_def)
qed

lemma all_digits_hd: "all_digits s \<Longrightarrow> \<exists>c r. s = c # r \<and> is_digit c"
  by (cases s) (auto simp: all_digits_def)

lemma parse_bigint_text [simp]: "parse_bigint (bigint_text n) = Some n"
proof (cases "n < 0")
  case True
  then show ?thesis using nat_text_props [of "- n"] by (simp add: bigint_text_def parse_bigint_def)
next
  case False
  then have p: "all_digits (nat_text n)" "digits_value (nat_text n) = n" using nat_text_props [of n] by auto
  then obtain c r where "nat_text n = c # r" "is_digit c" using all_digits_hd by blast
  then show ?thesis using False p by (auto simp: bigint_text_def parse_bigint_def char_class_defs)
qed

subsection \<open>Digit strings\<close>

lemma digits_value_Nil [simp]: "digits_value [] = 0"
  by (simp add: digits_value_def)

lemma num_all: "list_all is_digit s \<Longrightarrow> num (length s) s = Some (digits_value s, [])"
proof -
  assume "list_all is_digit s"
  then have "\<exists>v. num (length s) s = Some (v, [])" by (induction s) auto
  then show ?thesis by (auto simp: digits_value_def)
qed

lemma digits_value_Cons: "list_all is_digit (c # s) \<Longrightarrow> digits_value (c # s) = digit_val c * 10 ^ length s + digits_value s"
  using num_all [of "c # s"] num_all [of s] by simp

lemma digit_val_range: "is_digit c \<Longrightarrow> 0 \<le> digit_val c \<and> digit_val c \<le> 9"
  by (auto simp: char_class_defs digit_val_def)

lemma digit_val_inj: "digit_val a = digit_val b \<Longrightarrow> a = b"
  by (simp add: digit_val_def)

lemma digits_value_range: "list_all is_digit s \<Longrightarrow> 0 \<le> digits_value s \<and> digits_value s < 10 ^ length s"
proof (induction s)
  case (Cons c s)
  then have "0 \<le> digit_val c" "digit_val c \<le> 9" using digit_val_range by simp_all
  then have "0 \<le> digit_val c * 10 ^ length s" "digit_val c * 10 ^ length s \<le> 9 * 10 ^ length s"
    by (auto intro: mult_right_mono)
  moreover have "digits_value (c # s) = digit_val c * 10 ^ length s + digits_value s" using Cons.prems by (rule digits_value_Cons)
  moreover have "0 \<le> digits_value s" "digits_value s < 10 ^ length s" using Cons by auto
  moreover have "10 ^ length (c # s) = 10 * (10 ^ length s :: int)" by simp
  ultimately show ?case by linarith
qed simp

lemma digits_value_inj:
  assumes "list_all is_digit s" "list_all is_digit t" "length s = length t" "digits_value s = digits_value t"
  shows "s = t"
  using assms(3,1,2,4)
proof (induction rule: list_induct2)
  case (Cons c s d t)
  let ?k = "10 ^ length s :: int"
  have v: "digit_val c * ?k + digits_value s = digit_val d * ?k + digits_value t"
    using Cons digits_value_Cons [of c s] digits_value_Cons [of d t] by simp
  have "0 \<le> digits_value s" "digits_value s < ?k" "0 \<le> digits_value t" "digits_value t < ?k"
    using Cons digits_value_range [of s] digits_value_range [of t] by auto
  then have "(digit_val c * ?k + digits_value s) div ?k = digit_val c" "(digit_val d * ?k + digits_value t) div ?k = digit_val d"
    by simp_all
  then have "digit_val c = digit_val d" using arg_cong [OF v, of "\<lambda>x. x div ?k"] by simp
  then have cd: "c = d" by (rule digit_val_inj)
  then have "digits_value s = digits_value t" using v by simp
  then show ?case using cd Cons.IH Cons.prems by simp
qed simp

lemma digits_value_zeros: "list_all is_digit s \<Longrightarrow> digits_value (s @ replicate k CHR ''0'') = digits_value s * 10 ^ k"
proof -
  assume "list_all is_digit s"
  then have "num (length (s @ replicate k CHR ''0'')) (s @ replicate k CHR ''0'') = Some (digits_value s * 10 ^ k, [])"
    unfolding length_append length_replicate num_append_zeros using num_all by simp
  then show ?thesis unfolding digits_value_def [of "s @ replicate k CHR ''0''"] by simp
qed

lemma digits_value_lower: "list_all is_digit (c # s) \<Longrightarrow> c \<noteq> CHR ''0'' \<Longrightarrow> 10 ^ length s \<le> digits_value (c # s)"
proof -
  assume d: "list_all is_digit (c # s)" and c: "c \<noteq> CHR ''0''"
  then have "digit_val c \<noteq> 0" using digit_val_inj [of c "CHR ''0''"] by (auto simp: digit_val_def)
  then have "1 \<le> digit_val c" using d digit_val_range [of c] by auto
  then have "1 * 10 ^ length s \<le> digit_val c * 10 ^ length s" by (intro mult_right_mono) auto
  moreover have "0 \<le> digits_value s" using digits_value_range [of s] d by simp
  ultimately show ?thesis using digits_value_Cons [OF d] by linarith
qed

lemma decimal_whole_inj:
  assumes "decimal_whole a" "decimal_whole b" "digits_value a = digits_value b"
  shows "a = b"
proof -
  have len: "length u \<le> length v" if u: "decimal_whole u" and v: "decimal_whole v" and eq: "digits_value u = digits_value v" for u v
  proof (cases "u = ''0''")
    case True
    then show ?thesis using v by (cases v) (auto simp: decimal_whole_def all_digits_def)
  next
    case False
    then obtain c s where u': "u = c # s" "c \<noteq> CHR ''0''" using u by (cases u) (auto simp: decimal_whole_def all_digits_def)
    have dig: "list_all is_digit u" "list_all is_digit v" using u v by (auto simp: decimal_whole_def all_digits_def)
    have "10 ^ length s \<le> digits_value v" using digits_value_lower [of c s] u' dig(1) eq by simp
    also have "\<dots> < 10 ^ length v" using digits_value_range [OF dig(2)] by simp
    finally have "length s < length v" by (metis one_less_numeral_iff power_less_imp_less_exp semiring_norm(76))
    then show ?thesis using u' by simp
  qed
  have "length a = length b" using len assms by (metis le_antisym)
  then show ?thesis using digits_value_inj assms unfolding decimal_whole_def all_digits_def by blast
qed

definition no_trailing_zero :: "string \<Rightarrow> bool" where
  "no_trailing_zero f \<longleftrightarrow> list_all is_digit f \<and> (f = [] \<or> last f \<noteq> CHR ''0'')"

definition fraction_value :: "string \<Rightarrow> rat" where
  "fraction_value f = of_int (digits_value f) / 10 ^ length f"

lemma fraction_value_range: "list_all is_digit f \<Longrightarrow> 0 \<le> fraction_value f \<and> fraction_value f < 1"
proof -
  assume "list_all is_digit f"
  then have "0 \<le> digits_value f" "digits_value f < 10 ^ length f" using digits_value_range by auto
  then have "0 \<le> (of_int (digits_value f) :: rat)" "(of_int (digits_value f) :: rat) < of_int (10 ^ length f)"
    by (simp_all only: of_int_0_le_iff of_int_less_iff)
  then show ?thesis by (simp add: fraction_value_def)
qed

lemma fraction_value_zeros: "list_all is_digit f \<Longrightarrow> fraction_value (f @ replicate k CHR ''0'') = fraction_value f"
  by (simp add: fraction_value_def digits_value_zeros power_add)

lemma fraction_value_inj_le:
  assumes "no_trailing_zero f" "no_trailing_zero g" "fraction_value f = fraction_value g" "length f \<le> length g"
  shows "f = g"
proof -
  let ?f = "f @ replicate (length g - length f) CHR ''0''"
  have dig: "list_all is_digit f" "list_all is_digit g" using assms(1,2) by (auto simp: no_trailing_zero_def)
  have zero: "is_digit CHR ''0''" by (simp add: char_class_defs)
  have "fraction_value ?f = fraction_value g" using assms(3) fraction_value_zeros [OF dig(1)] by simp
  then have "(of_int (digits_value ?f) :: rat) = of_int (digits_value g)" using assms(4) by (simp add: fraction_value_def)
  then have "digits_value ?f = digits_value g" by (simp only: of_int_eq_iff)
  moreover have "list_all is_digit ?f" using dig(1) zero by (auto simp: list_all_iff)
  moreover have "length ?f = length g" using assms(4) by simp
  ultimately have "?f = g" using digits_value_inj dig(2) by blast
  then show ?thesis using assms(2) by (cases "length g - length f") (auto simp: no_trailing_zero_def last_replicate split: if_splits)
qed

lemma fraction_value_inj:
  "no_trailing_zero f \<Longrightarrow> no_trailing_zero g \<Longrightarrow> fraction_value f = fraction_value g \<Longrightarrow> f = g"
  using fraction_value_inj_le [of f g] fraction_value_inj_le [of g f] by (cases "length f \<le> length g") auto

subsection \<open>Canonical decimals\<close>

definition build_decimal :: "bool \<Rightarrow> string \<Rightarrow> string \<Rightarrow> string" where
  "build_decimal neg w f = (if neg then ''-'' else []) @ w @ (if f = [] then [] else ''.'' @ f)"

lemma digit_not_point: "list_all is_digit w \<Longrightarrow> takeWhile (\<lambda>c. c \<noteq> CHR ''.'') (w @ r) = w @ takeWhile (\<lambda>c. c \<noteq> CHR ''.'') r
    \<and> dropWhile (\<lambda>c. c \<noteq> CHR ''.'') (w @ r) = dropWhile (\<lambda>c. c \<noteq> CHR ''.'') r"
  by (induction w) (auto simp: char_class_defs)

lemma build_decimal_parts:
  assumes "all_digits w"
  shows "strip_sign (build_decimal neg w f) = (neg, build_decimal False w f)"
    and "cut_point (build_decimal False w f) = (w, f, f \<noteq> [])"
proof -
  obtain c r where w: "w = c # r" "is_digit c" using all_digits_hd [OF assms] by blast
  then have "c \<noteq> CHR ''-''" "c \<noteq> CHR ''+''" by (auto simp: char_class_defs)
  then show "strip_sign (build_decimal neg w f) = (neg, build_decimal False w f)"
    by (simp add: build_decimal_def strip_sign_def w)
  have "list_all is_digit w" using assms by (simp add: all_digits_def)
  from digit_not_point [OF this] show "cut_point (build_decimal False w f) = (w, f, f \<noteq> [])"
    by (auto simp: build_decimal_def cut_point_def dest: spec [of _ "[]"])
qed

lemma decimalPattern_parts:
  assumes "decimalPattern s"
  obtains neg w f hf where "strip_sign s = (neg, snd (strip_sign s))" "cut_point (snd (strip_sign s)) = (w, f, hf)"
    "decimal_whole w" "list_all is_digit f" "\<not> hf \<Longrightarrow> f = []"
proof -
  obtain w f hf where c: "cut_point (snd (strip_sign s)) = (w, f, hf)" by (metis prod_cases3)
  then have "\<not> hf \<longrightarrow> f = []" by (auto simp: cut_point_def split: list.splits)
  then show thesis using that [of "fst (strip_sign s)" w f hf] assms c by (auto simp: decimalPattern_def all_digits_def)
qed

lemma whole_kept:
  assumes "decimal_whole w"
  shows "(if dropWhile (\<lambda>c. c = CHR ''0'') w = [] then ''0'' else dropWhile (\<lambda>c. c = CHR ''0'') w) = w"
  using assms by (cases w) (auto simp: decimal_whole_def all_digits_def)

lemma cut_zeros_id: "no_trailing_zero f \<Longrightarrow> cut_zeros f = f"
  by (induction f) (auto simp: no_trailing_zero_def split: list.splits if_splits)

lemma cut_zeros_no_trailing: "list_all is_digit f \<Longrightarrow> no_trailing_zero (cut_zeros f)"
proof -
  assume dig: "list_all is_digit f"
  have "cut_zeros f = [] \<or> last (cut_zeros f) \<noteq> CHR ''0''" by (induction f) (auto split: list.splits)
  moreover have "list_all is_digit (cut_zeros f)" using dig cut_zeros_split [of f] by (metis list_all_append)
  ultimately show ?thesis by (simp add: no_trailing_zero_def)
qed

lemma canonicalDecimal_shape:
  assumes "strip_sign s = (neg, r)" "cut_point r = (w, f, hf)" "decimal_whole w" "\<not> hf \<Longrightarrow> f = []"
  shows "canonicalDecimal s = build_decimal (neg \<and> \<not> (w = ''0'' \<and> cut_zeros f = [])) w (cut_zeros f)"
proof -
  have "(if hf then cut_zeros f else f) = cut_zeros f" using assms(4) by auto
  then show ?thesis using assms(1,2) whole_kept [OF assms(3)] by (simp add: canonicalDecimal_def Let_def build_decimal_def)
qed

definition canonical_decimal :: "string \<Rightarrow> bool" where
  "canonical_decimal s \<longleftrightarrow> (\<exists>neg w f. s = build_decimal neg w f \<and> decimal_whole w \<and> no_trailing_zero f \<and> \<not> (neg \<and> w = ''0'' \<and> f = []))"

lemma canonicalDecimal_canonical:
  assumes "decimalPattern s"
  shows "canonical_decimal (canonicalDecimal s)"
proof -
  obtain neg w f hf where p: "strip_sign s = (neg, snd (strip_sign s))" "cut_point (snd (strip_sign s)) = (w, f, hf)"
    "decimal_whole w" "list_all is_digit f" "\<not> hf \<Longrightarrow> f = []"
    by (rule decimalPattern_parts [OF assms]) blast
  then show ?thesis
    using canonicalDecimal_shape [OF p(1,2,3,5)] cut_zeros_no_trailing [OF p(4)] unfolding canonical_decimal_def by blast
qed

lemma canonical_decimal_fixed:
  assumes "canonical_decimal s"
  shows "decimalPattern s" "canonicalDecimal s = s"
proof -
  obtain neg w f where s: "s = build_decimal neg w f" "decimal_whole w" "no_trailing_zero f" "\<not> (neg \<and> w = ''0'' \<and> f = [])"
    using assms by (auto simp: canonical_decimal_def)
  have w: "all_digits w" using s(2) by (simp add: decimal_whole_def)
  note b = build_decimal_parts(1) [OF w, of neg f] build_decimal_parts(2) [OF w, of f]
  show "decimalPattern s" using s b by (auto simp: decimalPattern_def all_digits_def no_trailing_zero_def)
  show "canonicalDecimal s = s"
    using canonicalDecimal_shape [of s neg "build_decimal False w f" w f "f \<noteq> []"] s b cut_zeros_id [OF s(3)] by auto
qed

lemma decimal_value_build:
  assumes "all_digits w"
  shows "decimal_value (build_decimal neg w f) = (if neg then -1 else 1) * (of_int (digits_value w) + fraction_value f)"
  using build_decimal_parts(1) [OF assms, of neg f] build_decimal_parts(2) [OF assms, of f]
  by (simp add: decimal_value_def fraction_value_def)

lemma fraction_value_cut: "list_all is_digit f \<Longrightarrow> fraction_value (cut_zeros f) = fraction_value f"
  using cut_zeros_split [of f] fraction_value_zeros by (metis list_all_append)

lemma decimal_value_canonical:
  assumes "decimalPattern s"
  shows "decimal_value (canonicalDecimal s) = decimal_value s"
proof -
  obtain neg w f hf where p: "strip_sign s = (neg, snd (strip_sign s))" "cut_point (snd (strip_sign s)) = (w, f, hf)"
    "decimal_whole w" "list_all is_digit f" "\<not> hf \<Longrightarrow> f = []"
    by (rule decimalPattern_parts [OF assms]) blast
  have w: "all_digits w" using p(3) by (simp add: decimal_whole_def)
  have "decimal_value s = (if neg then -1 else 1) * (of_int (digits_value w) + fraction_value f)"
    using p(1,2) by (auto simp: decimal_value_def fraction_value_def split: prod.splits)
  moreover have "digits_value ''0'' = 0" by (simp add: digits_value_def char_class_defs digit_val_def)
  moreover have "fraction_value [] = 0" by (simp add: fraction_value_def)
  ultimately show ?thesis
    using canonicalDecimal_shape [OF p(1,2,3,5)] decimal_value_build [OF w] fraction_value_cut [OF p(4)] by auto
qed

lemma canonical_decimal_inj:
  assumes "canonical_decimal s" "canonical_decimal t" "decimal_value s = decimal_value t"
  shows "s = t"
proof -
  obtain n w f where s: "s = build_decimal n w f" "decimal_whole w" "no_trailing_zero f" "\<not> (n \<and> w = ''0'' \<and> f = [])"
    using assms(1) by (auto simp: canonical_decimal_def)
  obtain n' w' f' where t: "t = build_decimal n' w' f'" "decimal_whole w'" "no_trailing_zero f'" "\<not> (n' \<and> w' = ''0'' \<and> f' = [])"
    using assms(2) by (auto simp: canonical_decimal_def)
  let ?v = "of_int (digits_value w) + fraction_value f" and ?v' = "of_int (digits_value w') + fraction_value f'"
  have vs: "decimal_value s = (if n then -1 else 1) * ?v" "decimal_value t = (if n' then -1 else 1) * ?v'"
    using s t decimal_value_build by (auto simp: decimal_whole_def)
  have rng: "0 \<le> digits_value w" "0 \<le> fraction_value f" "fraction_value f < 1" "0 \<le> digits_value w'" "0 \<le> fraction_value f'" "fraction_value f' < 1"
    using s t digits_value_range fraction_value_range by (auto simp: decimal_whole_def all_digits_def no_trailing_zero_def)
  then have "0 \<le> ?v" "0 \<le> ?v'" by auto
  then have vv: "?v = ?v'" using vs assms(3) by (auto split: if_splits)
  have "\<lfloor>?v\<rfloor> = digits_value w" "\<lfloor>?v'\<rfloor> = digits_value w'" using rng by (auto simp: floor_eq_iff)
  then have ww: "w = w'" using vv decimal_whole_inj [OF s(2) t(2)] by simp
  then have ff: "f = f'" using vv fraction_value_inj [OF s(3) t(3)] by simp
  have zero: "digits_value ''0'' = 0" "fraction_value [] = 0"
    by (simp_all add: digits_value_def char_class_defs digit_val_def fraction_value_def)
  have "n = n'"
  proof (rule ccontr)
    assume "n \<noteq> n'"
    then have "?v = 0" using vs vv assms(3) by (auto split: if_splits)
    then have "digits_value w = 0" "fraction_value f = 0" using rng by (auto simp: add_nonneg_eq_0_iff)
    then have "w = ''0''" "f = []"
      using decimal_whole_inj [OF s(2), of "''0''"] fraction_value_inj [OF s(3), of "[]"] zero
      by (auto simp: decimal_whole_def all_digits_def no_trailing_zero_def char_class_defs)
    then show False using s(4) t(4) ww ff \<open>n \<noteq> n'\<close> by auto
  qed
  then show ?thesis using s(1) t(1) ww ff by simp
qed

section \<open>Canonical values are canonical\<close>

lemma num_range: "num n s = Some (v, r) \<Longrightarrow> 0 \<le> v \<and> v < 10 ^ n"
proof (induction n s arbitrary: v r rule: num.induct)
  case (3 n c s)
  obtain v' where v': "num n s = Some (v', r)" "v = digit_val c * 10 ^ n + v'" "is_digit c"
    using "3.prems" by (auto split: if_splits option.splits)
  then have "0 \<le> digit_val c * 10 ^ n" "digit_val c * 10 ^ n \<le> 9 * 10 ^ n" using digit_val_range [of c] by (auto intro: mult_right_mono)
  moreover have "0 \<le> v'" "v' < 10 ^ n" using "3.IH" [OF v'(3,1)] by auto
  moreover have "10 ^ Suc n = 10 * (10 ^ n :: int)" by simp
  ultimately show ?case using v'(2) by linarith
qed auto

lemma parse_date_read_back:
  assumes "parse_date s = Some c"
  shows "parse_date (date_text c) = Some c"
proof -
  obtain y m d where c: "c = (y, m, d)" by (metis prod_cases3)
  have "valid_civil y m d" "\<exists>r. num 4 s = Some (y, r)"
    using assms c by (auto simp: parse_date_def parse_civil_def split: option.splits list.splits if_splits bind_splits simp del: num.simps)
  then show ?thesis using date_text_read_back [of y m d] num_range [of 4 s y] c by auto
qed

text \<open>A timestamp outside the years 0 to 9999 in UTC has a text that is not read back.\<close>

definition representable :: "filter_value \<Rightarrow> bool" where
  "representable v \<longleftrightarrow> (case fv_Value v of AnyString s \<Rightarrow>
     (case parse_timestamp s of Some t \<Rightarrow> four_digit_year t | None \<Rightarrow> True) | _ \<Rightarrow> True)"

lemma canonicalValue_fixed:
  assumes "canonicalValue v k = Inr c" "k = ValueTimestamp \<Longrightarrow> representable v"
  shows "canonicalValue c k = Inr c"
proof (cases k)
  case ValueDecimal
  then show ?thesis
    using assms(1) canonical_decimal_fixed [OF canonicalDecimal_canonical]
    by (auto simp: canonicalValue_def split: if_splits any_value.splits)
next
  case ValueDate
  then show ?thesis
    using assms(1) parse_date_read_back by (auto simp: canonicalValue_def split: if_splits any_value.splits option.splits)
next
  case ValueTimestamp
  then show ?thesis
    using assms timestamp_text_read_back
    by (auto simp: canonicalValue_def representable_def split: if_splits any_value.splits option.splits)
qed (use assms in \<open>auto simp: canonicalValue_def split: if_splits any_value.splits option.splits\<close>)

text \<open>The forms of canonical values.\<close>

definition canonical_form :: "value_kind \<Rightarrow> filter_value \<Rightarrow> bool" where
  "canonical_form k c \<longleftrightarrow> fv_Kind c = k \<and>
     (case k of
        ValueBoolean \<Rightarrow> (\<exists>b. fv_Value c = AnyBool b)
      | ValueInteger \<Rightarrow> (\<exists>n. fv_Value c = AnyString (bigint_text n))
      | ValueDecimal \<Rightarrow> (\<exists>s. fv_Value c = AnyString s \<and> canonical_decimal s)
      | _ \<Rightarrow> (\<exists>s. fv_Value c = AnyString s))"

lemma canonicalValue_form: "canonicalValue v k = Inr c \<Longrightarrow> canonical_form k c"
  using canonicalDecimal_canonical
  by (auto simp: canonicalValue_def canonical_form_def split: if_splits any_value.splits option.splits value_kind.splits)

lemma canonical_form_text_inj:
  assumes "canonical_form k a" "canonical_form k b" "value_text a = value_text b"
  shows "a = b"
proof -
  have "fv_Value a = fv_Value b"
    using assms by (auto simp: canonical_form_def value_text_def split: value_kind.splits if_splits)
  then show ?thesis using assms by (simp add: canonical_form_def)
qed

lemma cmp_sign [simp]: "cmp l e < 0 \<longleftrightarrow> l" "cmp l e = 0 \<longleftrightarrow> \<not> l \<and> e" "0 < cmp l e \<longleftrightarrow> \<not> l \<and> \<not> e"
  by (simp_all add: cmp_def)

lemma text_cmp_sign:
  "text_cmp a b < 0 \<longleftrightarrow> text_le a b \<and> a \<noteq> b" "text_cmp a b = 0 \<longleftrightarrow> a = b" "0 < text_cmp a b \<longleftrightarrow> text_le b a \<and> a \<noteq> b"
  using text_le_total text_le_antisym by (auto simp: text_cmp_def)

lemma compareValues_order:
  assumes "canonical_form k a" "canonical_form k b"
  shows "compareValues a b = 0 \<longleftrightarrow> a = b" and "compareValues a b < 0 \<longleftrightarrow> compareValues b a > 0"
    and "canonical_form k c \<Longrightarrow> compareValues a b < 0 \<Longrightarrow> compareValues b c < 0 \<Longrightarrow> compareValues a c < 0"
proof -
  have kinds: "fv_Kind a = k" "fv_Kind b = k" using assms by (auto simp: canonical_form_def)
  consider "k = ValueInteger" | "k = ValueDecimal" | "k \<noteq> ValueInteger" "k \<noteq> ValueDecimal" by blast
  then have "(compareValues a b = 0 \<longleftrightarrow> a = b) \<and> (compareValues a b < 0 \<longleftrightarrow> compareValues b a > 0)
    \<and> (canonical_form k c \<longrightarrow> compareValues a b < 0 \<longrightarrow> compareValues b c < 0 \<longrightarrow> compareValues a c < 0)"
  proof cases
    case 1
    then show ?thesis
      using assms kinds by (auto simp: compareValues_def canonical_form_def value_text_def)
  next
    case 2
    then show ?thesis
      using assms kinds canonical_decimal_inj
      by (auto simp: compareValues_def canonical_form_def value_text_def Let_def)
  next
    case 3
    have cmp3: "compareValues u v = text_cmp (value_text u) (value_text v)" if "canonical_form k u" for u v
      using that 3 by (auto simp: compareValues_def canonical_form_def split: value_kind.splits)
    have inj: "value_text a = value_text b \<longleftrightarrow> a = b" using canonical_form_text_inj [OF assms] by auto
    have "compareValues a c < 0" if "canonical_form k c" "compareValues a b < 0" "compareValues b c < 0"
      using that text_le_trans [of "value_text a" "value_text b" "value_text c"] text_le_antisym [of "value_text a" "value_text b"]
      unfolding cmp3 [OF assms(1)] cmp3 [OF assms(2)] text_cmp_sign by metis
    then show ?thesis
      unfolding cmp3 [OF assms(1)] cmp3 [OF assms(2)] text_cmp_sign inj using inj by auto
  qed
  then show "compareValues a b = 0 \<longleftrightarrow> a = b" "compareValues a b < 0 \<longleftrightarrow> compareValues b a > 0"
    "canonical_form k c \<Longrightarrow> compareValues a b < 0 \<Longrightarrow> compareValues b c < 0 \<Longrightarrow> compareValues a c < 0"
    by auto
qed

lemma insert_value_set: "set (insert_value v ws) = insert v (set ws)"
  by (induction ws) auto

lemma insert_value_sorted:
  assumes "sorted_wrt (\<lambda>a b. compareValues a b < 0) ws" "v \<notin> set ws" "\<forall>w\<in>insert v (set ws). canonical_form k w"
  shows "sorted_wrt (\<lambda>a b. compareValues a b < 0) (insert_value v ws)"
  using assms
proof (induction ws)
  case (Cons w ws)
  have vw: "canonical_form k v" "canonical_form k w" using Cons.prems(3) by auto
  show ?case
  proof (cases "compareValues v w < 0")
    case True
    have "compareValues v x < 0" if "x \<in> set ws" for x
      using compareValues_order(3) [OF vw, of x] True Cons.prems(1,3) that by auto
    then show ?thesis using Cons.prems(1) True by simp
  next
    case False
    have "compareValues v w \<noteq> 0" using compareValues_order(1) [OF vw] Cons.prems(2) by simp
    then have "compareValues w v < 0" using compareValues_order(2) [OF vw(2,1)] False by linarith
    then show ?thesis using False Cons by (auto simp: insert_value_set)
  qed
qed simp

lemma sort_values_props:
  assumes "distinct vs" "\<forall>v\<in>set vs. canonical_form k v"
  shows "set (sort_values vs) = set vs \<and> sorted_wrt (\<lambda>a b. compareValues a b < 0) (sort_values vs)"
  using assms
proof (induction vs)
  case (Cons v vs)
  then show ?case using insert_value_sorted [of "sort_values vs" v k] by (auto simp: sort_values_def insert_value_set)
qed (simp add: sort_values_def)

lemma canonical_all_set:
  "canonical_all vs k = Inr cs \<Longrightarrow> set cs = {c. \<exists>v\<in>set vs. canonicalValue v k = Inr c} \<and> (\<forall>v\<in>set vs. \<exists>c. canonicalValue v k = Inr c)"
  by (induction vs arbitrary: cs) (auto split: sum.splits)

lemma canonical_all_total:
  "\<forall>v\<in>set vs. \<exists>c. canonicalValue v k = Inr c \<Longrightarrow> \<exists>cs. canonical_all vs k = Inr cs"
  by (induction vs) auto

lemma canonicalValues_spec:
  "canonicalValues vs k = Inr cs \<longleftrightarrow> (\<forall>v\<in>set vs. \<exists>c. canonicalValue v k = Inr c)
     \<and> set cs = {c. \<exists>v\<in>set vs. canonicalValue v k = Inr c} \<and> sorted_wrt (\<lambda>a b. compareValues a b < 0) cs"
proof (cases "\<forall>v\<in>set vs. \<exists>c. canonicalValue v k = Inr c")
  case True
  then obtain xs where xs: "canonical_all vs k = Inr xs" using canonical_all_total by blast
  let ?S = "{c. \<exists>v\<in>set vs. canonicalValue v k = Inr c}"
  have set: "set xs = ?S" using canonical_all_set [OF xs] by simp
  then have form: "\<forall>c\<in>set xs. canonical_form k c" using canonicalValue_form by auto
  have sorted: "set (sort_values (remdups xs)) = ?S" "sorted_wrt (\<lambda>a b. compareValues a b < 0) (sort_values (remdups xs))"
    using sort_values_props [of "remdups xs" k] form set by auto
  have "cs = sort_values (remdups xs)" if "set cs = ?S" "sorted_wrt (\<lambda>a b. compareValues a b < 0) cs"
  proof (rule sorted_wrt_unique [OF that(2) sorted(2)])
    show "set cs = set (sort_values (remdups xs))" using that(1) sorted(1) by simp
    show "\<not> compareValues y x < 0" if "x \<in> set cs" "y \<in> set cs" "compareValues x y < 0" for x y
      using compareValues_order(2) [of k x y] form set that \<open>set cs = ?S\<close> by auto
  qed
  then show ?thesis using xs True sorted by (auto simp: canonicalValues_def)
next
  case False
  then show ?thesis using canonical_all_set [of vs k] by (cases "canonical_all vs k") (auto simp: canonicalValues_def)
qed

end
