(* ===== verification/Filter_Expression.thy ===== *)
theory Filter_Expression
  imports Filter_Value
begin

text \<open>
  Filter expressions, \<open>internal/dashboard/filter/model.go\<close>, their canonical form, and the
  resolution of relative periods to ranges, \<open>internal/dashboard/filter/state.go\<close>. The time zone
  database that \<open>time.LoadLocation\<close> reads is not part of the repository: it is the argument
  \<open>zones\<close>, which maps a name to its lookup function, and that maps the seconds of a UTC instant
  to the offset in force and the bounds of the period in which it is. No property of it is assumed;
  \<open>UTC\<close> is built in.
\<close>

section \<open>Data\<close>

datatype expression_kind =
    ExpressionUnfiltered | ExpressionNullCheck | ExpressionSet | ExpressionComparison | ExpressionRange
  | ExpressionRelativePeriod | ExpressionKindOther string

datatype operator =
    OperatorIsNull | OperatorIsNotNull | OperatorIn | OperatorNotIn | OperatorEquals | OperatorNotEquals
  | OperatorContains | OperatorNotContains | OperatorStartsWith | OperatorEndsWith | OperatorGreaterThan
  | OperatorGreaterThanOrEqual | OperatorLessThan | OperatorLessThanOrEqual | OperatorOther string

record bound =
  bd_Value :: filter_value
  bd_Inclusive :: bool

datatype relative_direction = DirectionPrevious | DirectionCurrent | DirectionNext | DirectionOther string

datatype relative_unit =
  UnitMinute | UnitHour | UnitDay | UnitWeek | UnitMonth | UnitQuarter | UnitYear | UnitOther string

datatype relative_anchor =
  AnchorCurrentTime | AnchorFirstAvailable | AnchorLastAvailable | AnchorFixed | AnchorOther string

record expression =
  ex_Kind :: expression_kind
  ex_Operator :: operator
  ex_Values :: "filter_value list"
  ex_Value :: "filter_value option"
  ex_Lower :: "bound option"
  ex_Upper :: "bound option"
  ex_Direction :: relative_direction
  ex_Count :: int
  ex_Unit :: relative_unit
  ex_IncludeCurrent :: bool
  ex_Anchor :: relative_anchor
  ex_AnchorValue :: "filter_value option"

text \<open>A composite literal that only names its kind.\<close>

definition expression_of :: "expression_kind \<Rightarrow> expression" where
  "expression_of kind = \<lparr>ex_Kind = kind, ex_Operator = OperatorOther [], ex_Values = [], ex_Value = None, ex_Lower = None,
     ex_Upper = None, ex_Direction = DirectionOther [], ex_Count = 0, ex_Unit = UnitOther [], ex_IncludeCurrent = False,
     ex_Anchor = AnchorOther [], ex_AnchorValue = None\<rparr>"

section \<open>The canonical form\<close>

definition validValueKind :: "value_kind \<Rightarrow> bool" where
  "validValueKind kind = (case kind of ValueKindOther _ \<Rightarrow> False | _ \<Rightarrow> True)"

definition comparisonOperatorAllowed :: "operator \<Rightarrow> value_kind \<Rightarrow> bool" where
  "comparisonOperatorAllowed op kind =
    (if op \<in> {OperatorEquals, OperatorNotEquals} then True
     else if op \<in> {OperatorContains, OperatorNotContains, OperatorStartsWith, OperatorEndsWith} then kind = ValueString
     else if op \<in> {OperatorGreaterThan, OperatorGreaterThanOrEqual, OperatorLessThan, OperatorLessThanOrEqual}
     then kind \<noteq> ValueBoolean
     else False)"

fun canonical_option :: "filter_value option \<Rightarrow> value_kind \<Rightarrow> filter_error + filter_value option" where
  "canonical_option None kind = Inr None"
| "canonical_option (Some v) kind = (case canonicalValue v kind of Inl e \<Rightarrow> Inl e | Inr c \<Rightarrow> Inr (Some c))"

fun canonical_bound :: "bound option \<Rightarrow> value_kind \<Rightarrow> filter_error + bound option" where
  "canonical_bound None kind = Inr None"
| "canonical_bound (Some b) kind =
    (case canonicalValue (bd_Value b) kind of Inl e \<Rightarrow> Inl e | Inr c \<Rightarrow> Inr (Some (b\<lparr>bd_Value := c\<rparr>)))"

definition canonicalRelativePeriod :: "expression \<Rightarrow> value_kind \<Rightarrow> filter_error + expression" where
  "canonicalRelativePeriod e kind =
    (if kind \<noteq> ValueDate \<and> kind \<noteq> ValueTimestamp then Inl (ErrFilter ''value kind'')
     else if ex_Direction e \<notin> {DirectionPrevious, DirectionCurrent, DirectionNext} then Inl (ErrFilter ''direction'')
     else if ex_Count e \<le> 0 then Inl (ErrFilter ''count must be positive'')
     else if ex_Unit e \<in> {UnitMinute, UnitHour} \<and> kind \<noteq> ValueTimestamp then Inl (ErrFilter ''unit requires timestamp'')
     else if ex_Unit e \<notin> {UnitMinute, UnitHour, UnitDay, UnitWeek, UnitMonth, UnitQuarter, UnitYear}
     then Inl (ErrFilter ''unsupported unit'')
     else
       let result = (\<lambda>anchor_value. (expression_of (ex_Kind e))\<lparr>ex_Direction := ex_Direction e, ex_Count := ex_Count e,
             ex_Unit := ex_Unit e, ex_IncludeCurrent := ex_IncludeCurrent e, ex_Anchor := ex_Anchor e,
             ex_AnchorValue := anchor_value\<rparr>) in
       if ex_Anchor e \<in> {AnchorCurrentTime, AnchorFirstAvailable, AnchorLastAvailable} then
         (if ex_AnchorValue e \<noteq> None then Inl (ErrFilter ''anchor does not accept a value'') else Inr (result None))
       else if ex_Anchor e = AnchorFixed then
         (case ex_AnchorValue e of
            None \<Rightarrow> Inl (ErrFilter ''fixed anchor requires a value'')
          | Some v \<Rightarrow> (case canonicalValue v kind of Inl err \<Rightarrow> Inl err | Inr c \<Rightarrow> Inr (result (Some c))))
       else Inl (ErrFilter ''unsupported anchor''))"

definition Canonicalize :: "expression \<Rightarrow> value_kind \<Rightarrow> filter_error + expression" where
  "Canonicalize e kind =
    (if ex_Kind e = ExpressionKindOther [] \<or> ex_Kind e = ExpressionUnfiltered then Inr (expression_of ExpressionUnfiltered)
     else if \<not> validValueKind kind then Inl (ErrFilter ''unsupported value kind'')
     else case ex_Kind e of
       ExpressionNullCheck \<Rightarrow>
         if ex_Operator e \<noteq> OperatorIsNull \<and> ex_Operator e \<noteq> OperatorIsNotNull then Inl (ErrFilter ''null_check operator'')
         else Inr ((expression_of ExpressionNullCheck)\<lparr>ex_Operator := ex_Operator e\<rparr>)
     | ExpressionSet \<Rightarrow>
         if ex_Operator e \<noteq> OperatorIn \<and> ex_Operator e \<noteq> OperatorNotIn then Inl (ErrFilter ''set operator'')
         else if ex_Values e = [] then Inr (expression_of ExpressionUnfiltered)
         else (case canonicalValues (ex_Values e) kind of
                 Inl err \<Rightarrow> Inl err
               | Inr vs \<Rightarrow> Inr ((expression_of ExpressionSet)\<lparr>ex_Operator := ex_Operator e, ex_Values := vs\<rparr>))
     | ExpressionComparison \<Rightarrow>
         if \<not> comparisonOperatorAllowed (ex_Operator e) kind then Inl (ErrFilter ''comparison operator'')
         else (case ex_Value e of
                 None \<Rightarrow> Inl (ErrFilter ''comparison requires a value'')
               | Some v \<Rightarrow>
                   (case canonicalValue v kind of
                      Inl err \<Rightarrow> Inl err
                    | Inr c \<Rightarrow> Inr ((expression_of ExpressionComparison)\<lparr>ex_Operator := ex_Operator e, ex_Value := Some c\<rparr>)))
     | ExpressionRange \<Rightarrow>
         if ex_Lower e = None \<and> ex_Upper e = None then Inr (expression_of ExpressionUnfiltered)
         else if kind = ValueBoolean then Inl (ErrFilter ''range'')
         else (case canonical_bound (ex_Lower e) kind of
                 Inl err \<Rightarrow> Inl err
               | Inr lower \<Rightarrow>
                   (case canonical_bound (ex_Upper e) kind of
                      Inl err \<Rightarrow> Inl err
                    | Inr upper \<Rightarrow>
                        if (case (lower, upper) of (Some l, Some u) \<Rightarrow> compareValues (bd_Value l) (bd_Value u) > 0 | _ \<Rightarrow> False)
                        then Inl (ErrFilter ''lower bound exceeds upper bound'')
                        else Inr ((expression_of ExpressionRange)\<lparr>ex_Lower := lower, ex_Upper := upper\<rparr>)))
     | ExpressionRelativePeriod \<Rightarrow> canonicalRelativePeriod e kind
     | _ \<Rightarrow> Inl (ErrFilter ''unsupported expression kind''))"

section \<open>Times in a location\<close>

text \<open>A lookup answers with the offset in seconds and the bounds of its zone period, \<open>start\<close>
  inclusive and \<open>end\<close> exclusive. The seconds count from the zero time.\<close>

record zone_period =
  zp_offset :: int
  zp_start :: int
  zp_end :: int

datatype location = UTC | Zone "int \<Rightarrow> zone_period"

type_synonym zone_database = "string \<Rightarrow> (int \<Rightarrow> zone_period) option"

text \<open>\<open>time.LoadLocation\<close>; what it finds under any other name, \<open>Local\<close> included, is left to
  \<open>zones\<close>.\<close>

definition LoadLocation :: "zone_database \<Rightarrow> string \<Rightarrow> filter_error + location" where
  "LoadLocation zones name =
    (if name = [] \<or> name = ''UTC'' then Inr UTC
     else case zones name of None \<Rightarrow> Inl (ErrFilter ''unknown time zone'') | Some z \<Rightarrow> Inr (Zone z))"

text \<open>The wall clock of an instant, as a UTC time with the same fields.\<close>

definition wall :: "location \<Rightarrow> go_time \<Rightarrow> go_time" where
  "wall loc t = (case loc of UTC \<Rightarrow> t | Zone z \<Rightarrow> t + zp_offset (z (t div second_ns)) * second_ns)"

text \<open>The instant of a wall clock, as \<open>time.Date\<close> finds it: with the offset in force at the wall
  clock read as UTC, unless that is not in force at the result.\<close>

definition instant_of :: "location \<Rightarrow> go_time \<Rightarrow> go_time" where
  "instant_of loc w =
    (case loc of
       UTC \<Rightarrow> w
     | Zone z \<Rightarrow>
         let p = z (w div second_ns) in
         if zp_offset p = 0 then w
         else
           let utc = w div second_ns - zp_offset p;
               offset = (if utc < zp_start p \<or> zp_end p \<le> utc then zp_offset (z utc) else zp_offset p) in
           w - offset * second_ns)"

definition date_in :: "location \<Rightarrow> int \<Rightarrow> int \<Rightarrow> int \<Rightarrow> int \<Rightarrow> int \<Rightarrow> int \<Rightarrow> int \<Rightarrow> go_time" where
  "date_in loc y m d h mi s ns = instant_of loc (Date y m d h mi s ns)"

text \<open>\<open>Time.AddDate\<close>.\<close>

definition add_date :: "location \<Rightarrow> go_time \<Rightarrow> int \<Rightarrow> int \<Rightarrow> int \<Rightarrow> go_time" where
  "add_date loc t years months days =
    (let w = wall loc t; s = clock_seconds w in
     case civil_time w of
       (y, m, d) \<Rightarrow> date_in loc (y + years) (m + months) (d + days) (s div 3600) (s div 60 mod 60) (s mod 60) (t mod 10 ^ 9))"

section \<open>Periods\<close>

definition periodStart :: "location \<Rightarrow> go_time \<Rightarrow> relative_unit \<Rightarrow> string \<Rightarrow> go_time" where
  "periodStart loc value u weekStart =
    (let w = wall loc value; s = clock_seconds w in
     case civil_time w of
       (y, m, d) \<Rightarrow>
         (case u of
            UnitMinute \<Rightarrow> date_in loc y m d (s div 3600) (s div 60 mod 60) 0 0
          | UnitHour \<Rightarrow> date_in loc y m d (s div 3600) 0 0 0
          | UnitDay \<Rightarrow> date_in loc y m d 0 0 0 0
          | UnitWeek \<Rightarrow>
              let start = date_in loc y m d 0 0 0 0;
                  first = (if weekStart = ''sunday'' then 0 else 1);
                  offset = (7 + Weekday (wall loc start) - first) mod 7 in
              add_date loc start 0 0 (- offset)
          | UnitMonth \<Rightarrow> date_in loc y m 1 0 0 0 0
          | UnitQuarter \<Rightarrow> date_in loc y ((m - 1) div 3 * 3 + 1) 1 0 0 0 0
          | UnitYear \<Rightarrow> date_in loc y 1 1 0 0 0 0
          | UnitOther _ \<Rightarrow> value))"

text \<open>Products of the count wrap around at 64 bits.\<close>

definition addPeriods :: "location \<Rightarrow> go_time \<Rightarrow> relative_unit \<Rightarrow> int \<Rightarrow> go_time" where
  "addPeriods loc value u count =
    (case u of
       UnitMinute \<Rightarrow> value + wrap_int64 (count * (60 * second_ns))
     | UnitHour \<Rightarrow> value + wrap_int64 (count * (3600 * second_ns))
     | UnitDay \<Rightarrow> add_date loc value 0 0 count
     | UnitWeek \<Rightarrow> add_date loc value 0 0 (wrap_int64 (count * 7))
     | UnitMonth \<Rightarrow> add_date loc value 0 count 0
     | UnitQuarter \<Rightarrow> add_date loc value 0 (wrap_int64 (count * 3)) 0
     | UnitYear \<Rightarrow> add_date loc value count 0 0
     | UnitOther _ \<Rightarrow> value)"

record time_semantics =
  ts_Timezone :: string
  ts_Calendar :: string
  ts_WeekStart :: string

definition range_bounds :: "location \<Rightarrow> go_time \<Rightarrow> expression \<Rightarrow> filter_error + go_time \<times> go_time" where
  "range_bounds loc start e =
    (let u = ex_Unit e; n = ex_Count e; add = addPeriods loc start u in
     case ex_Direction e of
       DirectionPrevious \<Rightarrow>
         if ex_IncludeCurrent e then Inr (add (wrap_int64 (- (wrap_int64 (n - 1)))), add 1) else Inr (add (wrap_int64 (- n)), start)
     | DirectionCurrent \<Rightarrow> Inr (start, add n)
     | DirectionNext \<Rightarrow> if ex_IncludeCurrent e then Inr (start, add n) else Inr (add 1, add (wrap_int64 (n + 1)))
     | DirectionOther _ \<Rightarrow> Inl (ErrFilter ''unsupported direction''))"

definition time_value :: "value_kind \<Rightarrow> location \<Rightarrow> go_time \<Rightarrow> filter_value" where
  "time_value kind loc t = \<lparr>fv_Kind = kind, fv_Value = AnyString
     (if kind = ValueDate then date_text (civil_time (wall loc t)) else timestamp_text t)\<rparr>"

text \<open>The type assertion on the anchor panics when it is not a string; the callers pass canonical
  values, and the error stands for the panic.\<close>

definition anchor_instant :: "value_kind \<Rightarrow> location \<Rightarrow> filter_value \<Rightarrow> filter_error + go_time" where
  "anchor_instant kind loc anchor =
    (case fv_Value anchor of
       AnyString s \<Rightarrow>
         (if kind = ValueDate then
            (case parse_date s of
               None \<Rightarrow> Inl (ErrFilter ''date'')
             | Some (y, m, d) \<Rightarrow> Inr (date_in loc y m d 0 0 0 0))
          else if kind = ValueTimestamp then
            (case parse_timestamp s of None \<Rightarrow> Inl (ErrFilter ''timestamp'') | Some t \<Rightarrow> Inr t)
          else Inl (ErrFilter ''relative range requires date or timestamp''))
     | _ \<Rightarrow> Inl (ErrFilter ''panic: anchor is not a string''))"

definition resolveRelativeRange ::
  "zone_database \<Rightarrow> expression \<Rightarrow> value_kind \<Rightarrow> time_semantics \<Rightarrow> filter_value \<Rightarrow> filter_error + expression" where
  "resolveRelativeRange zones e kind semantics anchor =
    (case LoadLocation zones (if ts_Timezone semantics = [] then ''UTC'' else ts_Timezone semantics) of
       Inl err \<Rightarrow> Inl err
     | Inr loc \<Rightarrow>
    case anchor_instant kind loc anchor of
       Inl err \<Rightarrow> Inl err
     | Inr instant \<Rightarrow>
    case range_bounds loc (periodStart loc instant (ex_Unit e) (ts_WeekStart semantics)) e of
       Inl err \<Rightarrow> Inl err
     | Inr (lower, upper) \<Rightarrow>
         Inr ((expression_of ExpressionRange)\<lparr>ex_Lower := Some \<lparr>bd_Value = time_value kind loc lower, bd_Inclusive = True\<rparr>,
           ex_Upper := Some \<lparr>bd_Value = time_value kind loc upper, bd_Inclusive = False\<rparr>\<rparr>))"

end
