(* ===== verification/Filter_Periods.thy ===== *)
theory Filter_Periods
  imports Filter_Expression
begin

text \<open>
  Relative periods in UTC. The instants at which the periods of a unit begin are a strictly
  increasing sequence, given here in closed form; \<open>periodStart\<close> finds the one at or before an
  instant, and \<open>addPeriods\<close> moves along the sequence.
\<close>

definition month_begin :: "int \<Rightarrow> go_time" where
  "month_begin k = Date 0 (k + 1) 1 0 0 0 0"

definition period_begin :: "relative_unit \<Rightarrow> string \<Rightarrow> int \<Rightarrow> go_time" where
  "period_begin u weekStart k =
    (case u of
       UnitMinute \<Rightarrow> k * (60 * second_ns)
     | UnitHour \<Rightarrow> k * (3600 * second_ns)
     | UnitDay \<Rightarrow> k * day_ns
     | UnitWeek \<Rightarrow> (7 * k - (if weekStart = ''sunday'' then 1 else 0)) * day_ns
     | UnitMonth \<Rightarrow> month_begin k
     | UnitQuarter \<Rightarrow> month_begin (3 * k)
     | UnitYear \<Rightarrow> month_begin (12 * k)
     | UnitOther _ \<Rightarrow> k)"

section \<open>Dates\<close>

lemma Date_shift:
  "Date y m (d + k) h mi s ns = Date y m d h mi s ns + k * day_ns"
  "Date y m d h mi s ns = Date y m d 0 0 0 0 + (h * 3600 + mi * 60 + s) * second_ns + ns"
  by (simp_all add: Date_def day_number_def Let_def algebra_simps)

lemma Date_months: "Date y (m + n) d h mi s ns = Date 0 (12 * y + m + n) d h mi s ns"
proof -
  have "y + (m + n - 1) div 12 = (12 * y + m + n - 1) div 12" using div_mult_self2 [of 12 "m + n - 1" y] by (simp add: algebra_simps)
  moreover have "(m + n - 1) mod 12 = (12 * y + m + n - 1) mod 12" using mod_mult_self2 [of "m + n - 1" 12 y] by (simp add: algebra_simps)
  ultimately show ?thesis by (simp add: Date_def Let_def)
qed

lemma month_begin_date: "month_begin (12 * y + (m - 1) + n) = Date y (m + n) 1 0 0 0 0"
  using Date_months [of y m n 1 0 0 0 0] by (simp add: month_begin_def algebra_simps)

lemma Date_next_month:
  assumes "1 \<le> m" "m \<le> 12"
  shows "Date y (m + 1) 1 0 0 0 0 = Date y m 1 0 0 0 0 + month_days y m * day_ns"
proof -
  have "Date y (m + 1) 1 0 0 0 0 = (day_number y m 1 + month_days y m - 366) * day_ns"
  proof (cases "m = 12")
    case True
    then have "day_number (y + 1) 1 1 = day_number y m 1 + month_days y m"
      using month_start_Suc [OF assms, of y] month_start_values(1) [of "y + 1"] unfolding day_number_def year_start_Suc by simp
    moreover have "Date y (m + 1) 1 0 0 0 0 = (day_number (y + 1) 1 1 - 366) * day_ns" by (simp add: Date_def Let_def True)
    ultimately show ?thesis by simp
  next
    case False
    then have "day_number y (m + 1) 1 = day_number y m 1 + month_days y m"
      using month_start_Suc [OF assms, of y] unfolding day_number_def by simp
    then show ?thesis using False assms by (simp add: Date_valid)
  qed
  moreover have "Date y m 1 0 0 0 0 = (day_number y m 1 - 366) * day_ns" using assms by (simp add: Date_valid)
  ultimately show ?thesis by (simp add: algebra_simps)
qed

lemma month_begin_Suc: "\<exists>n\<ge>28. month_begin (k + 1) = month_begin k + n * day_ns"
proof -
  let ?y = "k div 12" and ?m = "k mod 12 + 1"
  have k: "k = 12 * ?y + (?m - 1) + 0" "k + 1 = 12 * ?y + (?m - 1) + 1" by simp_all
  have "month_begin (k + 1) = month_begin k + month_days ?y ?m * day_ns"
    using month_begin_date [of ?y ?m 0, folded k(1)] month_begin_date [of ?y ?m 1, folded k(2)] Date_next_month [of ?m ?y] by simp
  moreover have "28 \<le> month_days ?y ?m" by (simp add: month_days_def)
  ultimately show ?thesis by blast
qed

lemma day_ns_pos: "0 < day_ns" "0 < second_ns"
  by (simp_all add: day_ns_def second_ns_def)

lemma month_begin_less: "a < b \<Longrightarrow> month_begin a < month_begin b"
proof (induction rule: int_gr_induct)
  case base
  then show ?case using month_begin_Suc [of a] day_ns_pos by (auto simp: zero_less_mult_iff)
next
  case (step i)
  then show ?case using month_begin_Suc [of i] day_ns_pos by (auto simp: zero_less_mult_iff intro: less_trans)
qed

lemma period_begin_less: "a < b \<Longrightarrow> period_begin u ws a < period_begin u ws b"
  using day_ns_pos month_begin_less by (auto simp: period_begin_def split: relative_unit.split)

section \<open>The start of a period\<close>

lemma civil_time_fields:
  assumes "civil_time t = (y, m, d)"
  shows "valid_civil y m d" "Date y m d 0 0 0 0 = t div day_ns * day_ns"
proof -
  have v: "valid_civil y m d" "day_number y m d = day_of_time t"
    using civil_of_valid assms unfolding civil_time_def by blast+
  then show "valid_civil y m d" "Date y m d 0 0 0 0 = t div day_ns * day_ns"
    by (simp_all add: Date_valid valid_civil_def day_of_time_def)
qed

lemma Date_civil: "valid_civil y m d \<Longrightarrow> civil_time (Date y m d 0 0 0 0) = (y, m, d)"
  using Date_civil_time [of y m d 0] day_ns_pos by (simp add: Date_valid valid_civil_def)

lemma civil_month_begin: "civil_time (Date y (m + n) 1 0 0 0 0) = (y + (m + n - 1) div 12, (m + n - 1) mod 12 + 1, 1)"
proof -
  have "Date y (m + n) 1 0 0 0 0 = Date (y + (m + n - 1) div 12) ((m + n - 1) mod 12 + 1) 1 0 0 0 0"
    by (simp add: Date_def)
  moreover have "0 \<le> (m + n - 1) mod 12" "(m + n - 1) mod 12 < 12" by simp_all
  then have "valid_civil (y + (m + n - 1) div 12) ((m + n - 1) mod 12 + 1) 1"
    unfolding valid_civil_def month_days_def by auto
  ultimately show ?thesis using Date_civil by metis
qed

lemma day_boundary: "clock_seconds (k * day_ns) = 0" "(k * day_ns) mod 10 ^ 9 = 0"
proof -
  show "clock_seconds (k * day_ns) = 0" by (simp add: clock_seconds_def)
  have "k * day_ns = k * 86400 * 10 ^ 9" by (simp add: day_ns_def)
  then show "(k * day_ns) mod 10 ^ 9 = 0" by (metis mod_mult_self2_is_0)
qed

lemma Date_day: "\<exists>k. Date y m d 0 0 0 0 = k * day_ns"
  by (simp add: Date_def Let_def)

lemma add_date_day:
  assumes "civil_time t = (y, m, d)" "t = k * day_ns"
  shows "add_date UTC t a b c = Date (y + a) (m + b) (d + c) 0 0 0 0"
  using assms(1) day_boundary [of k, folded assms(2)]
  by (simp add: add_date_def Let_def wall_def date_in_def instant_of_def)

lemma add_days_UTC: "add_date UTC (k * day_ns) 0 0 n = (k + n) * day_ns"
proof -
  obtain y m d where c: "civil_time (k * day_ns) = (y, m, d)" by (metis prod_cases3)
  then have "Date y m d 0 0 0 0 = k * day_ns" using civil_time_fields(2) [OF c] day_ns_pos by simp
  then show ?thesis using add_date_day [OF c refl, of 0 0 n] Date_shift(1) [of y m d n 0 0 0 0] by (simp add: algebra_simps)
qed

lemma add_months_UTC: "add_date UTC (month_begin k) 0 n 0 = month_begin (k + n)"
proof -
  have b: "month_begin k = Date 0 (1 + k) 1 0 0 0 0" by (simp add: month_begin_def add.commute)
  obtain j where j: "month_begin k = j * day_ns" unfolding b using Date_day by blast
  have c: "civil_time (month_begin k) = (k div 12, k mod 12 + 1, 1)"
    unfolding b using civil_month_begin [of 0 1 k] by simp
  moreover have "Date (k div 12) (k mod 12 + 1 + n) 1 0 0 0 0 = month_begin (k + n)"
    using month_begin_date [of "k div 12" "k mod 12 + 1" n] by simp
  ultimately show ?thesis using add_date_day [OF c j, of 0 n 0] by simp
qed

lemma clock_of_div:
  assumes "0 < c" "c dvd 86400"
  shows "t div day_ns * day_ns + (clock_seconds t div c * c) * second_ns = t div (c * second_ns) * (c * second_ns)"
proof -
  obtain q where q: "86400 = c * q" using assms(2) by blast
  let ?n = "t mod day_ns"
  have dn: "day_ns = q * (c * second_ns)" using q by (simp add: day_ns_def second_ns_def)
  have "t div (c * second_ns) = t div day_ns * q + ?n div (c * second_ns)"
  proof -
    have "t = ?n + (t div day_ns * q) * (c * second_ns)" using dn by (metis add.commute div_mult_mod_eq mult.assoc)
    then have "t div (c * second_ns) = (?n + (t div day_ns * q) * (c * second_ns)) div (c * second_ns)" by simp
    also have "\<dots> = t div day_ns * q + ?n div (c * second_ns)" using assms(1) day_ns_pos by (intro div_mult_self1) simp
    finally show ?thesis .
  qed
  moreover have "?n div (c * second_ns) = clock_seconds t div c"
    unfolding clock_seconds_def using zdiv_zmult2_eq [of c ?n second_ns] assms(1) by (simp add: mult.commute)
  ultimately show ?thesis using dn by (simp add: algebra_simps)
qed

definition period_index :: "go_time \<Rightarrow> relative_unit \<Rightarrow> string \<Rightarrow> int" where
  "period_index t u weekStart =
    (case civil_time t of (y, m, d) \<Rightarrow>
     (case u of
        UnitMinute \<Rightarrow> t div (60 * second_ns)
      | UnitHour \<Rightarrow> t div (3600 * second_ns)
      | UnitDay \<Rightarrow> t div day_ns
      | UnitWeek \<Rightarrow> (t div day_ns + (if weekStart = ''sunday'' then 1 else 0)) div 7
      | UnitMonth \<Rightarrow> 12 * y + (m - 1)
      | UnitQuarter \<Rightarrow> 4 * y + (m - 1) div 3
      | UnitYear \<Rightarrow> y
      | UnitOther _ \<Rightarrow> t))"

lemma week_offset:
  "(D::int) - (7 + (D + 1) mod 7 - 1) mod 7 = 7 * (D div 7)" "D - (7 + (D + 1) mod 7) mod 7 = 7 * ((D + 1) div 7) - 1"
proof -
  have "(7 + (D + 1) mod 7 - 1) mod 7 = (6 + (D + 1)) mod 7" using mod_add_right_eq [of 6 "D + 1" 7] by simp
  also have "\<dots> = D mod 7" using mod_add_self2 [of D 7] by (simp add: add.commute)
  finally show "D - (7 + (D + 1) mod 7 - 1) mod 7 = 7 * (D div 7)" using mult_div_mod_eq [of 7 D] by linarith
  have "(7 + (D + 1) mod 7) mod 7 = (D + 1) mod 7" by simp
  then show "D - (7 + (D + 1) mod 7) mod 7 = 7 * ((D + 1) div 7) - 1" using mult_div_mod_eq [of 7 "D + 1"] by linarith
qed

lemma periodStart_begin:
  "periodStart UTC t u ws = period_begin u ws (period_index t u ws)"
proof -
  obtain y m d where c: "civil_time t = (y, m, d)" by (metis prod_cases3)
  note f = civil_time_fields [OF c]
  let ?s = "clock_seconds t"
  show ?thesis
  proof (cases u)
    case UnitMinute
    have "?s div 3600 * 3600 + ?s div 60 mod 60 * 60 = ?s div 60 * 60" using clock_split [of ?s] div_mult_mod_eq [of ?s 60] by linarith
    then show ?thesis
      using f(2) clock_of_div [of 60 t] Date_shift(2) [of y m d "?s div 3600" "?s div 60 mod 60" 0 0]
      by (simp add: UnitMinute periodStart_def Let_def wall_def c date_in_def instant_of_def period_begin_def period_index_def)
  next
    case UnitHour
    then show ?thesis
      using f(2) clock_of_div [of 3600 t] Date_shift(2) [of y m d "?s div 3600" 0 0 0]
      by (simp add: periodStart_def Let_def wall_def c date_in_def instant_of_def period_begin_def period_index_def)
  next
    case UnitDay
    then show ?thesis using f(2)
      by (simp add: periodStart_def Let_def wall_def c date_in_def instant_of_def period_begin_def period_index_def)
  next
    case UnitWeek
    let ?D = "t div day_ns"
    have wd: "Weekday (?D * day_ns) = (?D + 1) mod 7" using day_ns_pos by (simp add: Weekday_def)
    note off = week_offset [of ?D]
    show ?thesis using f(2) off
      by (simp add: UnitWeek periodStart_def Let_def wall_def c date_in_def instant_of_def period_begin_def period_index_def wd add_days_UTC)
  next
    case UnitMonth
    then show ?thesis using month_begin_date [of y m 0]
      by (simp add: periodStart_def Let_def wall_def c date_in_def instant_of_def period_begin_def period_index_def)
  next
    case UnitQuarter
    then show ?thesis using month_begin_date [of y "(m - 1) div 3 * 3 + 1" 0]
      by (simp add: periodStart_def Let_def wall_def c date_in_def instant_of_def period_begin_def period_index_def algebra_simps)
  next
    case UnitYear
    then show ?thesis using month_begin_date [of y 1 0]
      by (simp add: periodStart_def Let_def wall_def c date_in_def instant_of_def period_begin_def period_index_def)
  qed (simp add: periodStart_def Let_def wall_def c period_begin_def period_index_def)
qed

lemma addPeriods_begin:
  assumes "\<bar>n\<bar> \<le> 10 ^ 6" and known: "\<And>s. u \<noteq> UnitOther s"
  shows "addPeriods UTC (period_begin u ws k) u n = period_begin u ws (k + n)"
proof -
  have w: "wrap_int64 (n * (60 * second_ns)) = n * (60 * second_ns)" "wrap_int64 (n * (3600 * second_ns)) = n * (3600 * second_ns)"
    "wrap_int64 (n * 7) = n * 7" "wrap_int64 (n * 3) = n * 3"
    using assms by (auto intro!: wrap_int64_id simp: second_ns_def max_int64_def)
  have "add_date UTC (month_begin (12 * k)) n 0 0 = add_date UTC (month_begin (12 * k)) 0 (12 * n) 0"
  proof -
    have "Date (a + n) b c h mi s ns = Date a (b + 12 * n) c h mi s ns" for a b c h mi s ns
      using Date_months [of "a + n" b 0 c h mi s ns] Date_months [of a b "12 * n" c h mi s ns] by (simp add: algebra_simps)
    then show ?thesis by (simp add: add_date_def Let_def wall_def date_in_def instant_of_def)
  qed
  then have year: "add_date UTC (month_begin (12 * k)) n 0 0 = month_begin (12 * (k + n))"
    by (simp add: add_months_UTC algebra_simps)
  show ?thesis
  proof (cases u)
    case UnitWeek
    then show ?thesis using w add_days_UTC [of "7 * k - (if ws = ''sunday'' then 1 else 0)" "n * 7"]
      by (simp add: addPeriods_def period_begin_def algebra_simps)
  next
    case UnitQuarter
    then show ?thesis using w add_months_UTC [of "3 * k" "n * 3"] by (simp add: addPeriods_def period_begin_def algebra_simps)
  next
    case UnitMinute
    then show ?thesis using w by (simp add: addPeriods_def period_begin_def distrib_right)
  next
    case UnitHour
    then show ?thesis using w by (simp add: addPeriods_def period_begin_def distrib_right)
  next
    case (UnitOther x)
    then show ?thesis using known by blast
  qed (simp_all add: addPeriods_def period_begin_def add_days_UTC add_months_UTC year)
qed

lemma week_bounds: "7 * (((D::int) + c) div 7) - c \<le> D" "D + 1 \<le> 7 * ((D + c) div 7 + 1) - c"
proof -
  define q r where q_r_def: "q = (D + c) div 7" "r = (D + c) mod 7"
  then have r: "7 * q + r = D + c" "0 \<le> r" "r < 7" by simp_all
  show "7 * ((D + c) div 7) - c \<le> D" using r q_r_def(1) by linarith
  have "D + 1 \<le> 7 * (q + 1) - c" using r by simp
  then show "D + 1 \<le> 7 * ((D + c) div 7 + 1) - c" unfolding q_r_def(1) .
qed

lemma period_index_bounds:
  assumes "\<And>s. u \<noteq> UnitOther s"
  shows "period_begin u ws (period_index t u ws) \<le> t \<and> t < period_begin u ws (period_index t u ws + 1)"
proof -
  obtain y m d where c: "civil_time t = (y, m, d)" by (metis prod_cases3)
  note f = civil_time_fields [OF c]
  have floor: "t div b * b \<le> t \<and> t < (t div b + 1) * b" if "0 < b" for b
  proof -
    have "t div b * b + t mod b = t" "(t div b + 1) * b = t div b * b + b" by (simp_all add: distrib_right)
    then show ?thesis using pos_mod_sign [OF that, of t] pos_mod_bound [OF that, of t] by linarith
  qed
  have month: "month_begin (12 * y + (m - 1)) \<le> t" "t < month_begin (12 * y + (m - 1) + 1)"
  proof -
    have v: "1 \<le> m" "m \<le> 12" "1 \<le> d" "d \<le> month_days y m" using f(1) by (auto simp: valid_civil_def)
    have fst: "month_begin (12 * y + (m - 1)) = Date y m 1 0 0 0 0" using month_begin_date [of y m 0] by simp
    have dd: "Date y m d 0 0 0 0 = Date y m 1 0 0 0 0 + (d - 1) * day_ns" using Date_shift(1) [of y m 1 "d - 1" 0 0 0 0] by simp
    have "0 \<le> (d - 1) * day_ns" using v(3) day_ns_pos by simp
    then show "month_begin (12 * y + (m - 1)) \<le> t" using fst dd f(2) floor [of day_ns] day_ns_pos by linarith
    have "month_begin (12 * y + (m - 1) + 1) = Date y m 1 0 0 0 0 + month_days y m * day_ns"
      using month_begin_date [of y m 1] Date_next_month [OF v(1,2)] by simp
    moreover have "d * day_ns \<le> month_days y m * day_ns" using v(4) day_ns_pos by (intro mult_right_mono) auto
    moreover have "(d - 1) * day_ns = d * day_ns - day_ns" "(t div day_ns + 1) * day_ns = t div day_ns * day_ns + day_ns"
      by (simp_all add: algebra_simps)
    moreover have "t < (t div day_ns + 1) * day_ns" using floor day_ns_pos by blast
    ultimately show "t < month_begin (12 * y + (m - 1) + 1)" using dd f(2) by linarith
  qed
  have mono: "month_begin a \<le> month_begin b" if "a \<le> b" for a b
    using month_begin_less [of a b] that by (cases "a = b") auto
  show ?thesis
  proof (cases u)
    case UnitWeek
    let ?c = "if ws = ''sunday'' then 1 else (0::int)"
    let ?k = "(t div day_ns + ?c) div 7"
    have "7 * ?k - ?c \<le> t div day_ns" "t div day_ns + 1 \<le> 7 * (?k + 1) - ?c" by (rule week_bounds)+
    then have "(7 * ?k - ?c) * day_ns \<le> t div day_ns * day_ns" "(t div day_ns + 1) * day_ns \<le> (7 * (?k + 1) - ?c) * day_ns"
      using day_ns_pos by (auto intro: mult_right_mono)
    moreover have "t div day_ns * day_ns \<le> t \<and> t < (t div day_ns + 1) * day_ns" using floor day_ns_pos(1) by blast
    ultimately have "(7 * ?k - ?c) * day_ns \<le> t" "t < (7 * (?k + 1) - ?c) * day_ns" by linarith+
    moreover have "period_index t UnitWeek ws = ?k" "\<And>k. period_begin UnitWeek ws k = (7 * k - ?c) * day_ns"
      by (simp_all only: period_index_def c period_begin_def prod.case relative_unit.case)
    ultimately show ?thesis unfolding UnitWeek by metis
  next
    case UnitQuarter
    have "3 * (4 * y + (m - 1) div 3) \<le> 12 * y + (m - 1)" "12 * y + (m - 1) + 1 \<le> 3 * (4 * y + (m - 1) div 3 + 1)" by presburger+
    from mono [OF this(1)] mono [OF this(2)] show ?thesis using month
      unfolding UnitQuarter period_begin_def period_index_def c prod.case relative_unit.case by linarith
  next
    case UnitYear
    have "12 * y \<le> 12 * y + (m - 1)" "12 * y + (m - 1) + 1 \<le> 12 * (y + 1)" using f(1) by (auto simp: valid_civil_def)
    from mono [OF this(1)] mono [OF this(2)] show ?thesis using month
      unfolding UnitYear period_begin_def period_index_def c prod.case relative_unit.case by linarith
  next
    case (UnitOther s)
    then show ?thesis using assms by blast
  qed (use floor [of "60 * second_ns"] floor [of "3600 * second_ns"] floor [of day_ns] day_ns_pos month
      in \<open>auto simp: period_begin_def period_index_def c\<close>)
qed

end
