(* ===== verification/Filter_Machine.thy ===== *)
theory Filter_Machine
  imports Filter_Periods "HOL-Library.Word"
begin

text \<open>
  The filter state machine of a dashboard session, \<open>internal/dashboard/filter/state.go\<close>: applied
  and draft controls, commands with idempotency records, resolution of relative periods, snapshots.
  Where the code ranges over a map, the definition takes a list of its keys, in the order the run
  time happens to choose. The clock reading is the argument \<open>now\<close>; the fingerprint of a command is
  its JSON text, given by the argument \<open>fp\<close> of which nothing is assumed; copies of expressions are
  the expressions. A panic is an error. The digest of the defaults, which the machine only carries,
  is an argument.
\<close>

section \<open>Data\<close>

datatype application_mode = ApplicationImmediate | ApplicationDeferred | ApplicationOther string

datatype selection_mode = SelectionSingle | SelectionMultiple | SelectionOther string

record selection_policy =
  sp_Mode :: selection_mode
  sp_MaxSelectedValues :: int

record predicate_policy =
  pp_Kind :: expression_kind
  pp_Operators :: "operator list"

record binding_spec =
  bs_ValueKind :: value_kind
  bs_Default :: expression
  bs_Selection :: selection_policy
  bs_Editable :: bool
  bs_Time :: time_semantics
  bs_Predicates :: "predicate_policy list"

record applied_state =
  as_Expression :: expression
  as_ResolvedExpression :: expression
  as_EvaluatedAt :: "go_time option"

record filter_state =
  fs_Revision :: "64 word"
  fs_AppliedControls :: "string \<rightharpoonup> applied_state"
  fs_DraftControls :: "string \<rightharpoonup> expression"
  fs_DirtyBindings :: "string list"
  fs_DefaultsRevision :: string

datatype command_kind = CommandMutate | CommandApply | CommandCancel | CommandReset | CommandOther string

datatype mutation_operation = MutationSet | MutationClear | MutationResetBinding | MutationOther string

datatype reset_scope = ResetPage | ResetDashboard | ResetOther string

record command =
  cm_Kind :: command_kind
  cm_BaseRevision :: "64 word"
  cm_ClientMutationID :: string
  cm_BindingKey :: string
  cm_Operation :: mutation_operation
  cm_Expression :: "expression option"
  cm_ResetScope :: reset_scope
  cm_BindingKeys :: "string list"

record command_result =
  cr_State :: filter_state
  cr_Duplicate :: bool

type_synonym anchor_resolver = "string \<Rightarrow> relative_anchor \<Rightarrow> filter_error + filter_value"

record machine =
  mc_mode :: application_mode
  mc_bindings :: "string \<rightharpoonup> binding_spec"
  mc_state :: filter_state
  mc_seen :: "string \<rightharpoonup> string"
  mc_seenOrder :: "string list"
  mc_anchorResolver :: "anchor_resolver option"

record machine_snapshot =
  ms_Version :: int
  ms_State :: filter_state
  ms_Seen :: "string \<rightharpoonup> string"
  ms_SeenOrder :: "string list"

definition MachineSnapshotVersion :: int where
  "MachineSnapshotVersion = 1"

definition maxRememberedMutationIDs :: nat where
  "maxRememberedMutationIDs = 512"

section \<open>Policies\<close>

definition predicateAllowed :: "expression \<Rightarrow> predicate_policy list \<Rightarrow> bool" where
  "predicateAllowed e policies \<longleftrightarrow> ex_Kind e = ExpressionUnfiltered
     \<or> (\<exists>p\<in>set policies. pp_Kind p = ex_Kind e \<and> (ex_Operator e = OperatorOther [] \<or> ex_Operator e \<in> set (pp_Operators p)))"

definition validateSelection :: "expression \<Rightarrow> selection_policy \<Rightarrow> filter_error + unit" where
  "validateSelection e policy =
    (if ex_Kind e \<noteq> ExpressionSet then Inr ()
     else if sp_Mode policy = SelectionSingle \<and> length (ex_Values e) > 1 then Inl (ErrFilter ''single selection'')
     else if sp_MaxSelectedValues policy > 0 \<and> int (length (ex_Values e)) > sp_MaxSelectedValues policy
     then Inl (ErrFilter ''too many values'')
     else Inr ())"

section \<open>Resolution\<close>

definition relativeAnchor ::
  "string \<Rightarrow> expression \<Rightarrow> binding_spec \<Rightarrow> go_time \<Rightarrow> machine \<Rightarrow> filter_error + filter_value" where
  "relativeAnchor key e b now m =
    (case ex_Anchor e of
       AnchorCurrentTime \<Rightarrow> Inr (time_value (if bs_ValueKind b = ValueDate then ValueDate else ValueTimestamp) UTC now)
     | AnchorFixed \<Rightarrow> (case ex_AnchorValue e of None \<Rightarrow> Inl (ErrFilter ''panic: nil anchor value'') | Some v \<Rightarrow> Inr v)
     | AnchorOther _ \<Rightarrow> Inl (ErrFilter ''unsupported relative anchor'')
     | _ \<Rightarrow> (case mc_anchorResolver m of
               None \<Rightarrow> Inl (ErrFilter ''anchor requires data resolver'')
             | Some resolver \<Rightarrow> resolver key (ex_Anchor e)))"

text \<open>A missing binding is the zero binding.\<close>

definition zero_binding :: binding_spec where
  "zero_binding = \<lparr>bs_ValueKind = ValueKindOther [], bs_Default = expression_of (ExpressionKindOther []),
     bs_Selection = \<lparr>sp_Mode = SelectionOther [], sp_MaxSelectedValues = 0\<rparr>, bs_Editable = False,
     bs_Time = \<lparr>ts_Timezone = [], ts_Calendar = [], ts_WeekStart = []\<rparr>, bs_Predicates = []\<rparr>"

definition binding_at :: "machine \<Rightarrow> string \<Rightarrow> binding_spec" where
  "binding_at m key = (case mc_bindings m key of None \<Rightarrow> zero_binding | Some b \<Rightarrow> b)"

definition resolve :: "zone_database \<Rightarrow> string \<Rightarrow> expression \<Rightarrow> go_time \<Rightarrow> machine \<Rightarrow> filter_error + applied_state" where
  "resolve zones key e now m =
    (if ex_Kind e \<noteq> ExpressionRelativePeriod
     then Inr \<lparr>as_Expression = e, as_ResolvedExpression = e, as_EvaluatedAt = None\<rparr>
     else
       let b = binding_at m key in
       case relativeAnchor key e b now m of
         Inl err \<Rightarrow> Inl err
       | Inr anchor \<Rightarrow>
           (case resolveRelativeRange zones e (bs_ValueKind b) (bs_Time b) anchor of
              Inl err \<Rightarrow> Inl err
            | Inr r \<Rightarrow> Inr \<lparr>as_Expression = e, as_ResolvedExpression = r, as_EvaluatedAt = Some now\<rparr>))"

section \<open>State changes\<close>

definition set_applied :: "string \<Rightarrow> applied_state \<Rightarrow> machine \<Rightarrow> machine" where
  "set_applied key a m =
    m\<lparr>mc_state := (mc_state m)\<lparr>fs_AppliedControls := (fs_AppliedControls (mc_state m))(key \<mapsto> a)\<rparr>\<rparr>"

definition bump_revision :: "machine \<Rightarrow> machine" where
  "bump_revision m = m\<lparr>mc_state := (mc_state m)\<lparr>fs_Revision := fs_Revision (mc_state m) + 1\<rparr>\<rparr>"

definition markDirty :: "string \<Rightarrow> machine \<Rightarrow> machine" where
  "markDirty key m =
    (if key \<in> set (fs_DirtyBindings (mc_state m)) then m
     else m\<lparr>mc_state := (mc_state m)\<lparr>fs_DirtyBindings := sort_strings (fs_DirtyBindings (mc_state m) @ [key])\<rparr>\<rparr>)"

definition set_draft :: "string \<Rightarrow> expression \<Rightarrow> machine \<Rightarrow> machine" where
  "set_draft key e m =
    markDirty key (m\<lparr>mc_state := (mc_state m)\<lparr>fs_DraftControls := (fs_DraftControls (mc_state m))(key \<mapsto> e)\<rparr>\<rparr>)"

definition cancel :: "machine \<Rightarrow> machine" where
  "cancel m = m\<lparr>mc_state := (mc_state m)\<lparr>fs_DraftControls := Map.empty, fs_DirtyBindings := []\<rparr>\<rparr>"

definition mutated_expression :: "command \<Rightarrow> binding_spec \<Rightarrow> filter_error + expression" where
  "mutated_expression c b =
    (case cm_Operation c of
       MutationSet \<Rightarrow> (case cm_Expression c of None \<Rightarrow> Inl (ErrFilter ''set requires expression'') | Some e \<Rightarrow> Inr e)
     | MutationClear \<Rightarrow>
         if cm_Expression c \<noteq> None then Inl (ErrFilter ''clear does not accept expression'')
         else Inr (expression_of ExpressionUnfiltered)
     | MutationResetBinding \<Rightarrow>
         if cm_Expression c \<noteq> None then Inl (ErrFilter ''reset does not accept expression'') else Inr (bs_Default b)
     | MutationOther _ \<Rightarrow> Inl (ErrFilter ''unsupported operation''))"

definition mutate_filter ::
  "zone_database \<Rightarrow> go_time \<Rightarrow> command \<Rightarrow> machine \<Rightarrow> filter_error option \<times> machine" where
  "mutate_filter zones now c m =
    (case mc_bindings m (cm_BindingKey c) of
       None \<Rightarrow> (Some (ErrFilter ''unknown binding''), m)
     | Some b \<Rightarrow>
         if \<not> bs_Editable b then (Some ErrBindingLocked, m)
         else case mutated_expression c b of
           Inl e \<Rightarrow> (Some e, m)
         | Inr expression \<Rightarrow>
         case Canonicalize expression (bs_ValueKind b) of
           Inl e \<Rightarrow> (Some e, m)
         | Inr canonical \<Rightarrow>
         case validateSelection canonical (bs_Selection b) of
           Inl e \<Rightarrow> (Some e, m)
         | Inr _ \<Rightarrow>
             if \<not> predicateAllowed canonical (bs_Predicates b) then (Some (ErrFilter ''predicate not allowed''), m)
             else if mc_mode m = ApplicationDeferred then (None, set_draft (cm_BindingKey c) canonical m)
             else case resolve zones (cm_BindingKey c) canonical now m of
               Inl e \<Rightarrow> (Some e, m)
             | Inr a \<Rightarrow> (None, bump_revision (set_applied (cm_BindingKey c) a m)))"

fun resolve_all ::
  "zone_database \<Rightarrow> go_time \<Rightarrow> machine \<Rightarrow> string list \<Rightarrow> filter_error + (string \<times> applied_state) list" where
  "resolve_all zones now m [] = Inr []"
| "resolve_all zones now m (key # keys) =
    (case resolve zones key (case fs_DraftControls (mc_state m) key of None \<Rightarrow> expression_of (ExpressionKindOther []) | Some e \<Rightarrow> e) now m of
       Inl e \<Rightarrow> Inl e
     | Inr a \<Rightarrow> (case resolve_all zones now m keys of Inl e \<Rightarrow> Inl e | Inr as \<Rightarrow> Inr ((key, a) # as)))"

definition apply_drafts :: "zone_database \<Rightarrow> go_time \<Rightarrow> machine \<Rightarrow> filter_error option \<times> machine" where
  "apply_drafts zones now m =
    (if mc_mode m \<noteq> ApplicationDeferred then (Some (ErrFilter ''apply is only valid in deferred mode''), m)
     else if fs_DirtyBindings (mc_state m) = [] then (None, m)
     else case resolve_all zones now m (fs_DirtyBindings (mc_state m)) of
       Inl e \<Rightarrow> (Some e, m)
     | Inr next \<Rightarrow> (None, cancel (bump_revision (fold (\<lambda>(key, a). set_applied key a) next m))))"

fun reset_loop ::
  "zone_database \<Rightarrow> go_time \<Rightarrow> string list \<Rightarrow> machine \<Rightarrow> filter_error option \<times> machine" where
  "reset_loop zones now [] m = (None, m)"
| "reset_loop zones now (key # keys) m =
    (case mc_bindings m key of
       None \<Rightarrow> (Some (ErrFilter ''unknown binding''), m)
     | Some b \<Rightarrow>
         if mc_mode m = ApplicationDeferred then reset_loop zones now keys (set_draft key (bs_Default b) m)
         else case resolve zones key (bs_Default b) now m of
           Inl e \<Rightarrow> (Some e, m)
         | Inr a \<Rightarrow> reset_loop zones now keys (set_applied key a m))"

definition reset :: "zone_database \<Rightarrow> go_time \<Rightarrow> command \<Rightarrow> machine \<Rightarrow> filter_error option \<times> machine" where
  "reset zones now c m =
    (if cm_ResetScope c \<noteq> ResetPage \<and> cm_ResetScope c \<noteq> ResetDashboard then (Some (ErrFilter ''unsupported reset scope''), m)
     else
       let keys = sort_strings (cm_BindingKeys c) in
       case reset_loop zones now keys m of
         (Some e, m) \<Rightarrow> (Some e, m)
       | (None, m) \<Rightarrow> (None, if mc_mode m = ApplicationImmediate \<and> keys \<noteq> [] then bump_revision m else m))"

definition remember :: "string \<Rightarrow> string \<Rightarrow> machine \<Rightarrow> machine" where
  "remember i fingerprint m =
    (let seen = (mc_seen m)(i \<mapsto> fingerprint); order = mc_seenOrder m @ [i] in
     if length order \<le> maxRememberedMutationIDs then m\<lparr>mc_seen := seen, mc_seenOrder := order\<rparr>
     else m\<lparr>mc_seen := seen(hd order := None), mc_seenOrder := tl order\<rparr>)"

definition run_command :: "zone_database \<Rightarrow> go_time \<Rightarrow> command \<Rightarrow> machine \<Rightarrow> filter_error option \<times> machine" where
  "run_command zones now c m =
    (case cm_Kind c of
       CommandMutate \<Rightarrow> mutate_filter zones now c m
     | CommandApply \<Rightarrow> apply_drafts zones now m
     | CommandCancel \<Rightarrow> (None, cancel m)
     | CommandReset \<Rightarrow> reset zones now c m
     | CommandOther _ \<Rightarrow> (Some (ErrFilter ''unsupported command kind''), m))"

definition Execute ::
  "zone_database \<Rightarrow> (command \<Rightarrow> string) \<Rightarrow> go_time \<Rightarrow> command \<Rightarrow> machine
    \<Rightarrow> (filter_error option \<times> command_result) \<times> machine" where
  "Execute zones fp now c m =
    (let result = (\<lambda>m dup. \<lparr>cr_State = mc_state m, cr_Duplicate = dup\<rparr>) in
     if cm_ClientMutationID c = [] then ((Some (ErrFilter ''client mutation ID is required''), result m False), m)
     else case mc_seen m (cm_ClientMutationID c) of
       Some seen \<Rightarrow>
         if seen \<noteq> fp c then ((Some (ErrFilter ''client mutation ID was reused''), result m False), m)
         else ((None, result m True), m)
     | None \<Rightarrow>
         if cm_BaseRevision c \<noteq> fs_Revision (mc_state m) then ((Some ErrStaleRevision, result m False), m)
         else case run_command zones now c m of
           (Some e, m') \<Rightarrow> ((Some e, result m' False), m')
         | (None, m') \<Rightarrow> let m' = remember (cm_ClientMutationID c) (fp c) m' in ((None, result m' False), m'))"

section \<open>Creation, snapshots\<close>

fun init_bindings :: "zone_database \<Rightarrow> go_time \<Rightarrow> string list \<Rightarrow> machine \<Rightarrow> filter_error + machine" where
  "init_bindings zones now [] m = Inr m"
| "init_bindings zones now (key # keys) m =
    (let b = binding_at m key in
     case Canonicalize (bs_Default b) (bs_ValueKind b) of
       Inl e \<Rightarrow> Inl e
     | Inr canonical \<Rightarrow>
         if \<not> predicateAllowed canonical (bs_Predicates b) then Inl (ErrFilter ''panic: disallowed default predicate'')
         else
           let m = m\<lparr>mc_bindings := (mc_bindings m)(key \<mapsto> b\<lparr>bs_Default := canonical\<rparr>)\<rparr> in
           case resolve zones key canonical now m of
             Inl e \<Rightarrow> Inl e
           | Inr a \<Rightarrow> init_bindings zones now keys (set_applied key a m))"

definition empty_machine :: "application_mode \<Rightarrow> (string \<rightharpoonup> binding_spec) \<Rightarrow> string \<Rightarrow> machine" where
  "empty_machine mode bindings defaultsRevision =
     \<lparr>mc_mode = (if mode = ApplicationOther [] then ApplicationImmediate else mode), mc_bindings = bindings,
      mc_state = \<lparr>fs_Revision = 1, fs_AppliedControls = Map.empty, fs_DraftControls = Map.empty, fs_DirtyBindings = [],
        fs_DefaultsRevision = defaultsRevision\<rparr>,
      mc_seen = Map.empty, mc_seenOrder = [], mc_anchorResolver = None\<rparr>"

definition NewMachine ::
  "zone_database \<Rightarrow> go_time \<Rightarrow> string list \<Rightarrow> application_mode \<Rightarrow> (string \<rightharpoonup> binding_spec) \<Rightarrow> string \<Rightarrow> filter_error + machine" where
  "NewMachine zones now keys mode bindings defaultsRevision =
     init_bindings zones now keys (empty_machine mode bindings defaultsRevision)"

definition Snapshot :: "machine \<Rightarrow> machine_snapshot" where
  "Snapshot m = \<lparr>ms_Version = MachineSnapshotVersion, ms_State = mc_state m, ms_Seen = mc_seen m, ms_SeenOrder = mc_seenOrder m\<rparr>"

definition validateRestoredState :: "string list \<Rightarrow> string list \<Rightarrow> string list \<Rightarrow> machine \<Rightarrow> bool" where
  "validateRestoredState keys appliedKeys seenKeys m \<longleftrightarrow>
     fs_Revision (mc_state m) \<noteq> 0
     \<and> list_all (\<lambda>key. case fs_AppliedControls (mc_state m) key of
          None \<Rightarrow> False
        | Some a \<Rightarrow>
            let b = binding_at m key in
            \<not> isl (Canonicalize (as_Expression a) (bs_ValueKind b)) \<and> predicateAllowed (as_Expression a) (bs_Predicates b)
            \<and> \<not> isl (Canonicalize (as_ResolvedExpression a) (bs_ValueKind b))) keys
     \<and> list_all (\<lambda>key. mc_bindings m key \<noteq> None) appliedKeys
     \<and> list_all (\<lambda>i. i \<in> set (mc_seenOrder m)) seenKeys"

definition last_remembered :: "string list \<Rightarrow> string list" where
  "last_remembered order = drop (length order - maxRememberedMutationIDs) order"

definition RestoreMachine ::
  "zone_database \<Rightarrow> go_time \<Rightarrow> string list \<Rightarrow> string list \<Rightarrow> string list \<Rightarrow> application_mode \<Rightarrow> (string \<rightharpoonup> binding_spec) \<Rightarrow> string
    \<Rightarrow> machine_snapshot \<Rightarrow> filter_error + machine" where
  "RestoreMachine zones now keys appliedKeys seenKeys mode bindings defaultsRevision snapshot =
    (if ms_Version snapshot \<noteq> MachineSnapshotVersion then Inl (ErrFilter ''unsupported snapshot version'')
     else case NewMachine zones now keys mode bindings defaultsRevision of
       Inl e \<Rightarrow> Inl e
     | Inr m \<Rightarrow>
         let m = m\<lparr>mc_state := ms_State snapshot, mc_seen := ms_Seen snapshot,
               mc_seenOrder := last_remembered (ms_SeenOrder snapshot)\<rparr> in
         if validateRestoredState keys appliedKeys seenKeys m then Inr m else Inl (ErrFilter ''restored state is invalid''))"

definition SetAnchorResolver :: "anchor_resolver option \<Rightarrow> machine \<Rightarrow> machine" where
  "SetAnchorResolver resolver m = m\<lparr>mc_anchorResolver := resolver\<rparr>"

end
