(* ===== verification/Filter_Theorems.thy ===== *)
theory Filter_Theorems
  imports Filter_Expression Filter_Periods
begin

text \<open>
  The properties of filter expressions: canonical forms, and relative periods.
\<close>

section \<open>Lemmas\<close>

definition expression_values :: "expression \<Rightarrow> filter_value list" where
  "expression_values e = ex_Values e @ (case ex_Value e of None \<Rightarrow> [] | Some v \<Rightarrow> [v])
     @ (case ex_Lower e of None \<Rightarrow> [] | Some b \<Rightarrow> [bd_Value b]) @ (case ex_Upper e of None \<Rightarrow> [] | Some b \<Rightarrow> [bd_Value b])
     @ (case ex_AnchorValue e of None \<Rightarrow> [] | Some v \<Rightarrow> [v])"

lemma canonicalValues_fixed:
  assumes "canonicalValues vs k = Inr cs" "\<And>v. k = ValueTimestamp \<Longrightarrow> v \<in> set vs \<Longrightarrow> representable v"
  shows "canonicalValues cs k = Inr cs"
proof -
  note spec = assms(1) [unfolded canonicalValues_spec]
  have fixed: "canonicalValue c k = Inr c" if "c \<in> set cs" for c
    using that spec assms(2) canonicalValue_fixed by blast
  then have "set cs = {c. \<exists>v\<in>set cs. canonicalValue v k = Inr c}" by auto
  then show ?thesis using spec fixed unfolding canonicalValues_spec by blast
qed

lemma canonical_bound_fixed:
  assumes "canonical_bound b k = Inr c" "\<And>x. k = ValueTimestamp \<Longrightarrow> b = Some x \<Longrightarrow> representable (bd_Value x)"
  shows "canonical_bound c k = Inr c" "c = None \<longleftrightarrow> b = None"
proof -
  have "canonical_bound c k = Inr c \<and> (c = None \<longleftrightarrow> b = None)"
  proof (cases b)
    case None
    then show ?thesis using assms(1) by auto
  next
    case (Some x)
    then obtain v where "canonicalValue (bd_Value x) k = Inr v" "c = Some (x\<lparr>bd_Value := v\<rparr>)"
      using assms(1) by (auto split: sum.splits)
    then show ?thesis using Some canonicalValue_fixed [of "bd_Value x" k v] assms(2) by simp
  qed
  then show "canonical_bound c k = Inr c" "c = None \<longleftrightarrow> b = None" by auto
qed

lemmas expression_simps = expression_of_def

definition relative_result :: "expression \<Rightarrow> filter_value option \<Rightarrow> expression" where
  "relative_result e av = (expression_of (ex_Kind e))\<lparr>ex_Direction := ex_Direction e, ex_Count := ex_Count e,
     ex_Unit := ex_Unit e, ex_IncludeCurrent := ex_IncludeCurrent e, ex_Anchor := ex_Anchor e, ex_AnchorValue := av\<rparr>"

definition relative_ok :: "expression \<Rightarrow> value_kind \<Rightarrow> bool" where
  "relative_ok e k \<longleftrightarrow> (k = ValueDate \<or> k = ValueTimestamp) \<and> ex_Direction e \<in> {DirectionPrevious, DirectionCurrent, DirectionNext}
     \<and> 0 < ex_Count e \<and> \<not> (ex_Unit e \<in> {UnitMinute, UnitHour} \<and> k \<noteq> ValueTimestamp)
     \<and> ex_Unit e \<in> {UnitMinute, UnitHour, UnitDay, UnitWeek, UnitMonth, UnitQuarter, UnitYear}"

lemma canonicalRelativePeriod_Inr:
  "canonicalRelativePeriod e k = Inr c \<longleftrightarrow> relative_ok e k \<and>
     (if ex_Anchor e \<in> {AnchorCurrentTime, AnchorFirstAvailable, AnchorLastAvailable} then ex_AnchorValue e = None \<and> c = relative_result e None
      else ex_Anchor e = AnchorFixed \<and> (\<exists>v x. ex_AnchorValue e = Some v \<and> canonicalValue v k = Inr x \<and> c = relative_result e (Some x)))"
proof (cases "relative_ok e k")
  case True
  then have "\<not> (k \<noteq> ValueDate \<and> k \<noteq> ValueTimestamp)" "\<not> ex_Direction e \<notin> {DirectionPrevious, DirectionCurrent, DirectionNext}"
    "\<not> ex_Count e \<le> 0" "\<not> (ex_Unit e \<in> {UnitMinute, UnitHour} \<and> k \<noteq> ValueTimestamp)"
    "\<not> ex_Unit e \<notin> {UnitMinute, UnitHour, UnitDay, UnitWeek, UnitMonth, UnitQuarter, UnitYear}"
    by (simp_all add: relative_ok_def)
  note r = True and neg = this
  show ?thesis
    unfolding canonicalRelativePeriod_def Let_def if_not_P [OF neg(1)] if_not_P [OF neg(2)] if_not_P [OF neg(3)] if_not_P [OF neg(4)]
      if_not_P [OF neg(5)] relative_result_def [symmetric]
    using r by (cases "ex_AnchorValue e") (auto split: sum.split)
next
  case False
  then have "k \<noteq> ValueDate \<and> k \<noteq> ValueTimestamp \<or> ex_Direction e \<notin> {DirectionPrevious, DirectionCurrent, DirectionNext}
    \<or> ex_Count e \<le> 0 \<or> (ex_Unit e \<in> {UnitMinute, UnitHour} \<and> k \<noteq> ValueTimestamp)
    \<or> ex_Unit e \<notin> {UnitMinute, UnitHour, UnitDay, UnitWeek, UnitMonth, UnitQuarter, UnitYear}"
    unfolding relative_ok_def not_less [symmetric] by blast
  then have "isl (canonicalRelativePeriod e k)" unfolding canonicalRelativePeriod_def by (smt (verit) sum.disc(1))
  then show ?thesis using False by (cases "canonicalRelativePeriod e k") auto
qed

lemma relative_result_simps [simp]:
  "ex_Kind (relative_result e v) = ex_Kind e" "ex_Anchor (relative_result e v) = ex_Anchor e"
  "ex_AnchorValue (relative_result e v) = v" "relative_ok (relative_result e v) k = relative_ok e k"
  "relative_result (relative_result e v) w = relative_result e w" "ex_Unit (relative_result e v) = ex_Unit e"
  "ex_Count (relative_result e v) = ex_Count e" "ex_Direction (relative_result e v) = ex_Direction e"
  by (simp_all add: relative_result_def relative_ok_def expression_of_def)

lemma canonicalRelativePeriod_fixed:
  assumes c: "canonicalRelativePeriod e k = Inr c" and kind: "ex_Kind e = ExpressionRelativePeriod"
    and rep: "\<And>v. k = ValueTimestamp \<Longrightarrow> ex_AnchorValue e = Some v \<Longrightarrow> representable v"
  shows "canonicalRelativePeriod c k = Inr c" "ex_Kind c = ExpressionRelativePeriod"
  using c kind rep canonicalValue_fixed unfolding canonicalRelativePeriod_Inr by (auto split: if_splits)

text \<open>The cases of a canonical form.\<close>

lemma Canonicalize_cases:
  assumes "Canonicalize e k = Inr c"
  obtains (unfiltered) "c = expression_of ExpressionUnfiltered"
  | (null_check) op where "op = OperatorIsNull \<or> op = OperatorIsNotNull" "validValueKind k"
      "c = (expression_of ExpressionNullCheck)\<lparr>ex_Operator := op\<rparr>"
  | (set) op vs where "op = OperatorIn \<or> op = OperatorNotIn" "validValueKind k" "ex_Values e \<noteq> []"
      "canonicalValues (ex_Values e) k = Inr vs" "c = (expression_of ExpressionSet)\<lparr>ex_Operator := op, ex_Values := vs\<rparr>"
  | (comparison) op v x where "comparisonOperatorAllowed op k" "validValueKind k" "ex_Value e = Some v" "canonicalValue v k = Inr x"
      "c = (expression_of ExpressionComparison)\<lparr>ex_Operator := op, ex_Value := Some x\<rparr>"
  | (range) l u where "validValueKind k" "\<not> (ex_Lower e = None \<and> ex_Upper e = None)" "k \<noteq> ValueBoolean"
      "canonical_bound (ex_Lower e) k = Inr l" "canonical_bound (ex_Upper e) k = Inr u"
      "\<not> (case (l, u) of (Some l, Some u) \<Rightarrow> compareValues (bd_Value l) (bd_Value u) > 0 | _ \<Rightarrow> False)"
      "c = (expression_of ExpressionRange)\<lparr>ex_Lower := l, ex_Upper := u\<rparr>"
  | (relative) "validValueKind k" "ex_Kind e = ExpressionRelativePeriod" "canonicalRelativePeriod e k = Inr c"
proof (cases "ex_Kind e = ExpressionKindOther [] \<or> ex_Kind e = ExpressionUnfiltered")
  case True
  then show thesis using assms that(1) by (auto simp: Canonicalize_def)
next
  case False
  then have v: "validValueKind k" using assms by (auto simp: Canonicalize_def split: if_splits)
  show thesis
  proof (cases "ex_Kind e")
    case ExpressionNullCheck
    then show thesis using assms v that(2) by (auto simp: Canonicalize_def split: if_splits)
  next
    case ExpressionSet
    then show thesis using assms v that(1,3) by (auto simp: Canonicalize_def split: if_splits sum.splits)
  next
    case ExpressionComparison
    then show thesis using assms v that(4) by (auto simp: Canonicalize_def split: if_splits sum.splits option.splits)
  next
    case ExpressionRange
    show thesis
    proof (cases "ex_Lower e = None \<and> ex_Upper e = None")
      case True
      then show thesis using assms ExpressionRange v that(1) by (auto simp: Canonicalize_def)
    next
      case neq: False
      have kb: "k \<noteq> ValueBoolean" using assms ExpressionRange v neq by (auto simp: Canonicalize_def split: if_splits)
      obtain l where l: "canonical_bound (ex_Lower e) k = Inr l"
        using assms ExpressionRange v neq kb by (auto simp: Canonicalize_def split: sum.splits)
      obtain u where u: "canonical_bound (ex_Upper e) k = Inr u"
        using assms ExpressionRange v neq kb l by (auto simp: Canonicalize_def split: sum.splits)
      show thesis using assms ExpressionRange v neq kb l u that(5) [OF v neq kb l u]
        by (simp add: Canonicalize_def del: case_prod_conv split: if_splits)
    qed
  next
    case ExpressionRelativePeriod
    then show thesis using assms v that(6) by (auto simp: Canonicalize_def)
  qed (use assms v False in \<open>auto simp: Canonicalize_def\<close>)
qed

lemma Canonicalize_fixed:
  assumes "Canonicalize e k = Inr c" "k = ValueTimestamp \<longrightarrow> list_all representable (expression_values e)"
  shows "Canonicalize c k = Inr c"
  using assms(1)
proof (cases rule: Canonicalize_cases)
  case unfiltered
  then show ?thesis by (simp add: Canonicalize_def expression_simps)
next
  case (null_check op)
  then show ?thesis by (auto simp: Canonicalize_def expression_simps)
next
  case (set op vs)
  have "canonicalValues vs k = Inr vs"
    using canonicalValues_fixed [OF set(4)] assms(2) by (auto simp: expression_values_def list_all_iff)
  moreover have "vs \<noteq> []" using set(3,4) unfolding canonicalValues_spec by (cases "ex_Values e") auto
  ultimately show ?thesis using set by (auto simp: Canonicalize_def expression_simps)
next
  case (comparison op v x)
  then have "canonicalValue x k = Inr x"
    using canonicalValue_fixed assms(2) by (auto simp: expression_values_def)
  then show ?thesis using comparison by (simp add: Canonicalize_def expression_simps)
next
  case (range l u)
  have rep: "\<And>x. k = ValueTimestamp \<Longrightarrow> ex_Lower e = Some x \<Longrightarrow> representable (bd_Value x)"
    "\<And>x. k = ValueTimestamp \<Longrightarrow> ex_Upper e = Some x \<Longrightarrow> representable (bd_Value x)"
    using assms(2) by (auto simp: expression_values_def)
  have "canonical_bound l k = Inr l" "canonical_bound u k = Inr u" "\<not> (l = None \<and> u = None)"
    using canonical_bound_fixed [OF range(4) rep(1)] canonical_bound_fixed [OF range(5) rep(2)] range(2) by blast+
  then show ?thesis using range by (simp add: Canonicalize_def expression_simps del: canonical_bound.simps)
next
  case relative
  have "\<And>v. k = ValueTimestamp \<Longrightarrow> ex_AnchorValue e = Some v \<Longrightarrow> representable v"
    using assms(2) by (auto simp: expression_values_def)
  note canonicalRelativePeriod_fixed [OF relative(3,2) this]
  then show ?thesis using relative(1) by (simp add: Canonicalize_def)
qed


section \<open>Properties\<close>


definition sample_set :: "string list \<Rightarrow> expression" where
  "sample_set vs = (expression_of ExpressionSet)\<lparr>ex_Operator := OperatorIn,
     ex_Values := map (\<lambda>s. \<lparr>fv_Kind = ValueInteger, fv_Value = AnyString s\<rparr>) vs\<rparr>"

lemma digit_count_small: "n < 10 \<Longrightarrow> digit_count n = 1"
  by (simp add: digit_count.simps)

lemma sample_integer: "parse_bigint ''7'' = Some 7" "parse_bigint ''+3'' = Some 3" "parse_bigint ''3'' = Some 3"
    "bigint_text 7 = ''7''" "bigint_text 3 = ''3''"
  by code_simp+

lemma sample_set_canonical: "Canonicalize (sample_set [''7'', ''+3'']) ValueInteger = Inr (sample_set [''3'', ''7''])"
  by (simp add: Canonicalize_def sample_set_def expression_of_def validValueKind_def canonicalValues_def canonicalValue_def
      sample_integer sort_values_def compareValues_def value_text_def cmp_def)


text \<open>
  C26. The canonical form of a set filter depends only on the set of its values: it lists the
  canonical texts of the values in strictly increasing order, so writing the values in another
  order or repeatedly gives the same canonical expression, and two equal selections are
  recognised as equal.
\<close>

theorem canonical_set_order_insensitive:
  assumes "ex_Kind e = ExpressionSet" "Canonicalize e k = Inr c" "set (ex_Values e') = set (ex_Values e)"
    and "ex_Kind e' = ExpressionSet" "ex_Operator e' = ex_Operator e"
  shows "Canonicalize e' k = Inr c \<and> sorted_wrt (\<lambda>a b. compareValues a b < 0) (ex_Values c)
    \<and> set (ex_Values c) = {x. \<exists>v\<in>set (ex_Values e). canonicalValue v k = Inr x}"
proof (cases "ex_Values e = []")
  case True
  then show ?thesis using assms by (auto simp: Canonicalize_def expression_of_def split: if_splits)
next
  case False
  have op: "ex_Operator e = OperatorIn \<or> ex_Operator e = OperatorNotIn" and v: "validValueKind k"
    using assms(1,2) by (auto simp: Canonicalize_def split: if_splits)
  obtain vs where vs: "canonicalValues (ex_Values e) k = Inr vs" "c = (expression_of ExpressionSet)\<lparr>ex_Operator := ex_Operator e, ex_Values := vs\<rparr>"
    using assms(1,2) False op v by (auto simp: Canonicalize_def split: sum.splits if_splits)
  have "canonicalValues (ex_Values e') k = Inr vs" using vs(1) assms(3) unfolding canonicalValues_spec by simp
  moreover have "ex_Values e' \<noteq> []" using False assms(3) by auto
  ultimately show ?thesis
    using vs op v assms(4,5) vs(1) [unfolded canonicalValues_spec] by (auto simp: Canonicalize_def)
qed

theorem canonical_set_order_insensitive_witness:
  "Canonicalize (sample_set [''+3'', ''7'', ''+3'']) ValueInteger = Inr (sample_set [''3'', ''7''])"
  using canonical_set_order_insensitive [OF _ sample_set_canonical, of "sample_set [''+3'', ''7'', ''+3'']"]
  by (auto simp: sample_set_def expression_of_def)

text \<open>
  C27. The canonical text of a decimal is a normal form of the number: it stands for the same
  number, and two accepted decimals have the same canonical text exactly if they are equal as
  numbers.
\<close>

theorem canonical_decimal_normal_form:
  assumes "decimalPattern s" "decimalPattern t"
  shows "decimal_value (canonicalDecimal s) = decimal_value s
    \<and> (canonicalDecimal s = canonicalDecimal t \<longleftrightarrow> decimal_value s = decimal_value t)"
  using decimal_value_canonical [OF assms(1)] decimal_value_canonical [OF assms(2)]
    canonical_decimal_inj [OF canonicalDecimal_canonical canonicalDecimal_canonical, OF assms] by auto

theorem canonical_decimal_normal_form_witness:
  "decimalPattern ''-1.50'' \<and> decimalPattern ''-1.5'' \<and> decimal_value ''-1.50'' = decimal_value ''-1.5''"
proof -
  have p: "decimalPattern ''-1.50''" "decimalPattern ''-1.5''"
    by (simp_all add: decimalPattern_def strip_sign_def cut_point_def decimal_whole_def all_digits_def char_class_defs)
  have "canonicalDecimal ''-1.50'' = canonicalDecimal ''-1.5''"
    by (simp add: canonicalDecimal_def strip_sign_def cut_point_def Let_def)
  then show ?thesis using canonical_decimal_normal_form [OF p] p by simp
qed

definition timestamp_range :: "go_time \<Rightarrow> go_time \<Rightarrow> expression" where
  "timestamp_range a b = (expression_of ExpressionRange)
     \<lparr>ex_Lower := Some \<lparr>bd_Value = \<lparr>fv_Kind = ValueTimestamp, fv_Value = AnyString (timestamp_text a)\<rparr>, bd_Inclusive = True\<rparr>,
      ex_Upper := Some \<lparr>bd_Value = \<lparr>fv_Kind = ValueTimestamp, fv_Value = AnyString (timestamp_text b)\<rparr>, bd_Inclusive = True\<rparr>\<rparr>"

lemma text_le_append: "text_le (p @ a) (p @ b) \<longleftrightarrow> text_le a b"
  by (induction p) (auto simp: Let_def)

lemma same_second:
  assumes "t mod 10 ^ 9 = 0" "0 < n" "n < 10 ^ 9"
  shows "civil_time (t + n) = civil_time t" "clock_seconds (t + n) = clock_seconds t" "(t + n) mod 10 ^ 9 = n"
proof -
  have d: "day_ns = 86400 * 10 ^ 9" by (simp add: day_ns_def)
  have "10 ^ 9 dvd day_ns" unfolding d by simp
  then have "t mod day_ns mod 10 ^ 9 = 0" using assms(1) mod_mod_cancel [of "10 ^ 9" day_ns t] by simp
  then obtain q where q: "t mod day_ns = 10 ^ 9 * q" by (auto simp: mod_eq_0_iff_dvd dvd_def)
  have "0 \<le> t mod day_ns" "t mod day_ns < day_ns" by (simp_all add: day_ns_def)
  then have qr: "0 \<le> q" "q \<le> 86399" using q d by auto
  have tn: "(t + n) div day_ns = t div day_ns" "(t + n) mod day_ns = 10 ^ 9 * q + n"
  proof -
    have eq: "t + n = day_ns * (t div day_ns) + (10 ^ 9 * q + n)" using q mult_div_mod_eq [of day_ns t] by linarith
    have "0 \<le> 10 ^ 9 * q + n" "10 ^ 9 * q + n < day_ns" using qr assms(2,3) d by auto
    then show "(t + n) div day_ns = t div day_ns" "(t + n) mod day_ns = 10 ^ 9 * q + n"
      by (simp_all add: eq)
  qed
  show "civil_time (t + n) = civil_time t" by (simp add: civil_time_def day_of_time_def tn)
  have "(10 ^ 9 * q + n) div 10 ^ 9 = q" "(10 ^ 9 * q) div 10 ^ 9 = q" using assms(2,3) by simp_all
  then show "clock_seconds (t + n) = clock_seconds t" by (simp add: clock_seconds_def second_ns_def tn q)
  show "(t + n) mod 10 ^ 9 = n" using assms by (metis add.commute add_0 less_imp_le mod_add_eq mod_mod_trivial mod_pos_pos_trivial)
qed

lemma four_digit_same_second: "t mod 10 ^ 9 = 0 \<Longrightarrow> 0 < n \<Longrightarrow> n < 10 ^ 9 \<Longrightarrow> four_digit_year (t + n) = four_digit_year t"
  by (simp add: four_digit_year_def same_second(1))

lemma fraction_text_head:
  assumes "(t::int) mod 10 ^ 9 = n" "0 < n"
  shows "\<exists>r. fraction_text t = CHR ''.'' # r"
proof (cases "cut_zeros (digits 9 n)")
  case Nil
  have "parse_fraction (fraction_text t) = (n, ''Z'')" using parse_fraction_text [of t] assms(1) by simp
  then show ?thesis using Nil assms by (simp add: fraction_text_def parse_fraction_def)
next
  case (Cons a list)
  then show ?thesis using assms by (simp add: fraction_text_def)
qed

text \<open>
  A timestamp range that ends within the second in which it begins is rejected: the bounds
  are compared as texts, and the text of a whole second sorts after the text of a fraction of the
  same second, so the range from a whole second to a later instant of that second fails with
  ``lower bound exceeds upper bound''.
\<close>

theorem range_within_second_rejected:
  assumes "t mod 10 ^ 9 = 0" "0 < n" "n < 10 ^ 9" "four_digit_year t"
  shows "Canonicalize (timestamp_range t (t + n)) ValueTimestamp = Inl (ErrFilter ''lower bound exceeds upper bound'')"
proof -
  have canon: "canonicalValue \<lparr>fv_Kind = ValueTimestamp, fv_Value = AnyString (timestamp_text x)\<rparr> ValueTimestamp
      = Inr \<lparr>fv_Kind = ValueTimestamp, fv_Value = AnyString (timestamp_text x)\<rparr>" if "four_digit_year x" for x
    using timestamp_text_read_back [OF that] by (simp add: canonicalValue_def)
  have y: "four_digit_year (t + n)" using four_digit_same_second [OF assms(1-3)] assms(4) by simp
  obtain r where r: "fraction_text (t + n) = CHR ''.'' # r" using fraction_text_head [OF same_second(3) [OF assms(1-3)] assms(2)] by blast
  have "fraction_text t = fraction_text 0" using assms(1) by (simp add: fraction_text_def)
  also have "fraction_text 0 = ''Z''" by code_simp
  finally have z: "fraction_text t = ''Z''" .
  obtain p where p: "timestamp_text t = p @ ''Z''" "timestamp_text (t + n) = p @ CHR ''.'' # r"
    using same_second(1,2) [OF assms(1-3)] r z unfolding timestamp_text_def Let_def by (metis append_assoc)
  have "\<not> text_le (timestamp_text t) (timestamp_text (t + n))" unfolding p text_le_append by (simp add: Let_def)
  then have "0 < text_cmp (timestamp_text t) (timestamp_text (t + n))" using p text_le_total by (auto simp: text_cmp_sign)
  then show ?thesis
    using canon [OF assms(4)] canon [OF y]
    by (simp add: Canonicalize_def timestamp_range_def expression_of_def validValueKind_def compareValues_def value_text_def)
qed

theorem range_within_second_rejected_witness:
  "Canonicalize (timestamp_range 0 500000000) ValueTimestamp = Inl (ErrFilter ''lower bound exceeds upper bound'')"
proof -
  have "civil_time 0 = (1, 1, 1)"
    using Date_civil_time [of 1 1 1 0] by (simp add: valid_civil_def month_days_def day_number_def year_start_def month_start_def leap_def day_ns_def)
  then have "four_digit_year 0" by (simp add: four_digit_year_def)
  then show ?thesis using range_within_second_rejected [of 0 500000000] by simp
qed

definition period_shift :: "expression \<Rightarrow> int \<times> int" where
  "period_shift e = (let n = ex_Count e in
     case ex_Direction e of
       DirectionPrevious \<Rightarrow> if ex_IncludeCurrent e then (1 - n, 1) else (- n, 0)
     | DirectionCurrent \<Rightarrow> (0, n)
     | DirectionNext \<Rightarrow> if ex_IncludeCurrent e then (0, n) else (1, n + 1)
     | DirectionOther _ \<Rightarrow> (0, 0))"


definition last_quarter :: expression where
  "last_quarter = (expression_of ExpressionRelativePeriod)\<lparr>ex_Direction := DirectionPrevious, ex_Count := 1, ex_Unit := UnitQuarter,
     ex_Anchor := AnchorCurrentTime\<rparr>"


end
