(* ===== verification/Filter_Machine_Safety.thy ===== *)
theory Filter_Machine_Safety
  imports Filter_Machine Filter_Theorems
begin

text \<open>
  Executions of the filter state machine, its invariant, and the lemmas its properties share.
\<close>

section \<open>Executions\<close>

inductive filter_step :: "zone_database \<Rightarrow> (command \<Rightarrow> string) \<Rightarrow> machine \<Rightarrow> machine \<Rightarrow> bool" for zones fp where
  execute: "Execute zones fp now c m = (res, m') \<Longrightarrow> filter_step zones fp m m'"
| resolver: "filter_step zones fp m (SetAnchorResolver r m)"

definition machine_reachable ::
  "zone_database \<Rightarrow> (command \<Rightarrow> string) \<Rightarrow> application_mode \<Rightarrow> (string \<rightharpoonup> binding_spec) \<Rightarrow> string \<Rightarrow> machine \<Rightarrow> bool" where
  "machine_reachable zones fp mode bindings dr m \<longleftrightarrow> (\<exists>now keys m0. distinct keys \<and> set keys = dom bindings
     \<and> NewMachine zones now keys mode bindings dr = Inr m0 \<and> (filter_step zones fp)\<^sup>*\<^sup>* m0 m)"

section \<open>The invariant\<close>

definition canonical_for :: "binding_spec \<Rightarrow> expression \<Rightarrow> bool" where
  "canonical_for b e \<longleftrightarrow> (\<exists>x. Canonicalize x (bs_ValueKind b) = Inr e) \<and> predicateAllowed e (bs_Predicates b)"

definition resolved_ok :: "applied_state \<Rightarrow> bool" where
  "resolved_ok a \<longleftrightarrow> (if ex_Kind (as_Expression a) = ExpressionRelativePeriod
     then ex_Kind (as_ResolvedExpression a) = ExpressionRange \<and> as_EvaluatedAt a \<noteq> None
     else as_ResolvedExpression a = as_Expression a \<and> as_EvaluatedAt a = None)"

abbreviation applied :: "machine \<Rightarrow> string \<rightharpoonup> applied_state" where
  "applied m \<equiv> fs_AppliedControls (mc_state m)"

abbreviation drafts :: "machine \<Rightarrow> string \<rightharpoonup> expression" where
  "drafts m \<equiv> fs_DraftControls (mc_state m)"

abbreviation dirty :: "machine \<Rightarrow> string list" where
  "dirty m \<equiv> fs_DirtyBindings (mc_state m)"

definition controls_ok :: "machine \<Rightarrow> bool" where
  "controls_ok m \<longleftrightarrow> dom (applied m) = dom (mc_bindings m)
     \<and> (\<forall>key b. mc_bindings m key = Some b \<longrightarrow> canonical_for b (bs_Default b))
     \<and> (\<forall>key b a. mc_bindings m key = Some b \<longrightarrow> applied m key = Some a \<longrightarrow> canonical_for b (as_Expression a) \<and> resolved_ok a)"

definition drafts_ok :: "machine \<Rightarrow> bool" where
  "drafts_ok m \<longleftrightarrow> dom (drafts m) = set (dirty m) \<and> set (dirty m) \<subseteq> dom (mc_bindings m)
     \<and> (\<forall>key b e. mc_bindings m key = Some b \<longrightarrow> drafts m key = Some e \<longrightarrow> canonical_for b e)
     \<and> distinct (dirty m) \<and> sorted_wrt text_le (dirty m)
     \<and> (mc_mode m \<noteq> ApplicationDeferred \<longrightarrow> dirty m = [])"

definition records_ok :: "machine \<Rightarrow> bool" where
  "records_ok m \<longleftrightarrow> distinct (mc_seenOrder m) \<and> dom (mc_seen m) = set (mc_seenOrder m)
     \<and> length (mc_seenOrder m) \<le> maxRememberedMutationIDs"

definition machine_ok :: "machine \<Rightarrow> bool" where
  "machine_ok m \<longleftrightarrow> controls_ok m \<and> drafts_ok m \<and> records_ok m"

text \<open>What commands leave alone.\<close>

definition same_frame :: "machine \<Rightarrow> machine \<Rightarrow> bool" where
  "same_frame m m' \<longleftrightarrow> mc_mode m' = mc_mode m \<and> mc_bindings m' = mc_bindings m \<and> mc_seen m' = mc_seen m
     \<and> mc_seenOrder m' = mc_seenOrder m \<and> mc_anchorResolver m' = mc_anchorResolver m"

lemma same_frame_refl [simp]: "same_frame m m"
  by (simp add: same_frame_def)

lemma same_frame_trans: "same_frame a b \<Longrightarrow> same_frame b c \<Longrightarrow> same_frame a c"
  by (simp add: same_frame_def)

lemma frame_updates [simp]:
  "same_frame m (set_applied key a m)" "same_frame m (bump_revision m)" "same_frame m (markDirty key m)"
  "same_frame m (set_draft key e m)" "same_frame m (cancel m)"
  by (simp_all add: same_frame_def set_applied_def bump_revision_def markDirty_def set_draft_def cancel_def Let_def)

lemma records_ok_frame: "same_frame m m' \<Longrightarrow> records_ok m \<Longrightarrow> records_ok m'"
  by (simp add: same_frame_def records_ok_def)

subsection \<open>Resolution\<close>

lemma resolveRelativeRange_range: "resolveRelativeRange zones e k ts a = Inr r \<Longrightarrow> ex_Kind r = ExpressionRange"
  by (auto simp: resolveRelativeRange_def expression_of_def split: sum.splits)

lemma resolve_ok: "resolve zones key e now m = Inr a \<Longrightarrow> as_Expression a = e \<and> resolved_ok a"
  using resolveRelativeRange_range by (auto simp: resolve_def resolved_ok_def Let_def split: if_splits sum.splits)

lemma resolve_plain: "ex_Kind e \<noteq> ExpressionRelativePeriod \<Longrightarrow> \<exists>a. resolve zones key e now m = Inr a"
  by (simp add: resolve_def)

subsection \<open>State changes\<close>

lemma controls_frame: "same_frame m m' \<Longrightarrow> applied m' = applied m \<Longrightarrow> controls_ok m \<Longrightarrow> controls_ok m'"
  by (simp add: controls_ok_def same_frame_def)

lemma drafts_frame: "same_frame m m' \<Longrightarrow> drafts m' = drafts m \<Longrightarrow> dirty m' = dirty m \<Longrightarrow> drafts_ok m \<Longrightarrow> drafts_ok m'"
  by (simp add: drafts_ok_def same_frame_def)

lemma state_updates [simp]:
  "applied (set_applied key a m) = (applied m)(key \<mapsto> a)" "drafts (set_applied key a m) = drafts m" "dirty (set_applied key a m) = dirty m"
  "applied (bump_revision m) = applied m" "drafts (bump_revision m) = drafts m" "dirty (bump_revision m) = dirty m"
  "applied (set_draft key e m) = applied m" "drafts (set_draft key e m) = (drafts m)(key \<mapsto> e)"
  "applied (cancel m) = applied m" "drafts (cancel m) = Map.empty" "dirty (cancel m) = []"
  "mc_bindings (set_applied key a m) = mc_bindings m" "mc_bindings (bump_revision m) = mc_bindings m"
  "mc_bindings (set_draft key e m) = mc_bindings m" "mc_bindings (cancel m) = mc_bindings m"
  "mc_mode (set_applied key a m) = mc_mode m" "mc_mode (bump_revision m) = mc_mode m"
  "mc_mode (set_draft key e m) = mc_mode m" "mc_mode (cancel m) = mc_mode m"
  "fs_Revision (mc_state (set_applied key a m)) = fs_Revision (mc_state m)"
  "fs_Revision (mc_state (set_draft key e m)) = fs_Revision (mc_state m)"
  "fs_Revision (mc_state (cancel m)) = fs_Revision (mc_state m)"
  "fs_Revision (mc_state (bump_revision m)) = fs_Revision (mc_state m) + 1"
  by (simp_all add: set_applied_def bump_revision_def set_draft_def markDirty_def cancel_def)

lemma set_draft_dirty:
  "dirty (set_draft key e m) = (if key \<in> set (dirty m) then dirty m else sort_strings (dirty m @ [key]))"
  by (simp add: set_draft_def markDirty_def)

lemma set_applied_ok:
  assumes "controls_ok m" "mc_bindings m key = Some b" "canonical_for b (as_Expression a)" "resolved_ok a"
  shows "controls_ok (set_applied key a m)"
  using assms by (auto simp: controls_ok_def)

lemma set_draft_ok:
  assumes "drafts_ok m" "mc_bindings m key = Some b" "canonical_for b e" "mc_mode m = ApplicationDeferred"
  shows "drafts_ok (set_draft key e m)"
  using assms sort_strings_props [of "dirty m @ [key]"] unfolding drafts_ok_def set_draft_dirty by (auto split: if_splits)

lemma cancel_ok: "drafts_ok (cancel m)"
  by (simp add: drafts_ok_def)

lemma bump_ok [simp]: "controls_ok (bump_revision m) = controls_ok m" "drafts_ok (bump_revision m) = drafts_ok m"
  by (simp_all add: controls_ok_def drafts_ok_def)

subsection \<open>Commands\<close>

lemma mutate_result:
  assumes "mutate_filter zones now c m = (None, m')"
  obtains b e where "mc_bindings m (cm_BindingKey c) = Some b" "canonical_for b e" "mc_mode m = ApplicationDeferred"
      "m' = set_draft (cm_BindingKey c) e m"
  | b a where "mc_bindings m (cm_BindingKey c) = Some b" "canonical_for b (as_Expression a)" "resolved_ok a"
      "mc_mode m \<noteq> ApplicationDeferred" "m' = bump_revision (set_applied (cm_BindingKey c) a m)"
proof -
  obtain b x e where b: "mc_bindings m (cm_BindingKey c) = Some b" and e: "Canonicalize x (bs_ValueKind b) = Inr e"
      "predicateAllowed e (bs_Predicates b)"
    and m': "(if mc_mode m = ApplicationDeferred then (None, set_draft (cm_BindingKey c) e m)
       else case resolve zones (cm_BindingKey c) e now m of Inl err \<Rightarrow> (Some err, m)
         | Inr a \<Rightarrow> (None, bump_revision (set_applied (cm_BindingKey c) a m))) = (None, m')"
    using assms by (auto simp: mutate_filter_def split: option.splits if_splits sum.splits)
  have can: "canonical_for b e" using e by (auto simp: canonical_for_def)
  show thesis
  proof (cases "mc_mode m = ApplicationDeferred")
    case True
    then show thesis using that(1) [OF b can] m' by simp
  next
    case False
    then obtain a where a: "resolve zones (cm_BindingKey c) e now m = Inr a" "m' = bump_revision (set_applied (cm_BindingKey c) a m)"
      using m' by (auto split: sum.splits)
    then show thesis using that(2) [OF b _ _ False] resolve_ok [OF a(1)] can by blast
  qed
qed

lemma mutate_failure: "mutate_filter zones now c m = (Some e, m') \<Longrightarrow> m' = m"
  by (auto simp: mutate_filter_def split: option.splits if_splits sum.splits)

lemma resolve_all_ok:
  "resolve_all zones now m keys = Inr nxt \<Longrightarrow> map fst nxt = keys \<and> (\<forall>(key, a)\<in>set nxt. resolved_ok a \<and>
     (case drafts m key of None \<Rightarrow> True | Some e \<Rightarrow> as_Expression a = e))"
proof (induction keys arbitrary: nxt)
  case (Cons key keys)
  let ?e = "case drafts m key of None \<Rightarrow> expression_of (ExpressionKindOther []) | Some e \<Rightarrow> e"
  obtain a as where a: "resolve zones key ?e now m = Inr a" "resolve_all zones now m keys = Inr as" "nxt = (key, a) # as"
    using Cons.prems by (auto split: sum.splits)
  then show ?case using Cons.IH [OF a(2)] resolve_ok [OF a(1)] by (auto split: option.splits)
qed simp

lemma fold_applied:
  assumes "controls_ok m" "\<forall>(key, a)\<in>set nxt. \<exists>b. mc_bindings m key = Some b \<and> canonical_for b (as_Expression a) \<and> resolved_ok a"
  shows "controls_ok (fold (\<lambda>(key, a). set_applied key a) nxt m) \<and> same_frame m (fold (\<lambda>(key, a). set_applied key a) nxt m)
    \<and> fs_Revision (mc_state (fold (\<lambda>(key, a). set_applied key a) nxt m)) = fs_Revision (mc_state m)"
  using assms
proof (induction nxt arbitrary: m)
  case (Cons x nxt)
  obtain key a where x: "x = (key, a)" by fastforce
  then obtain b where b: "mc_bindings m key = Some b" "canonical_for b (as_Expression a)" "resolved_ok a" using Cons.prems(2) by auto
  have "controls_ok (set_applied key a m)" by (rule set_applied_ok [OF Cons.prems(1) b])
  from Cons.IH [OF this] show ?case
    using Cons.prems(2) x same_frame_trans [OF frame_updates(1) [of m key a]] by auto
qed simp

lemma apply_result:
  assumes "apply_drafts zones now m = (None, m')" "controls_ok m" "drafts_ok m"
  shows "m' = m \<or> controls_ok m' \<and> drafts_ok m' \<and> same_frame m m' \<and> fs_Revision (mc_state m') = fs_Revision (mc_state m) + 1"
proof (cases "dirty m = []")
  case True
  then show ?thesis using assms(1) by (auto simp: apply_drafts_def split: if_splits)
next
  case False
  then obtain nxt where nxt: "resolve_all zones now m (dirty m) = Inr nxt"
    and m': "m' = cancel (bump_revision (fold (\<lambda>(key, a). set_applied key a) nxt m))"
    using assms(1) by (auto simp: apply_drafts_def split: if_splits sum.splits)
  have "\<exists>b. mc_bindings m key = Some b \<and> canonical_for b (as_Expression a) \<and> resolved_ok a" if "(key, a) \<in> set nxt" for key a
  proof -
    have "key \<in> set (map fst nxt)" using that by force
    then have "key \<in> set (dirty m)" using resolve_all_ok [OF nxt] by simp
    then have "key \<in> dom (drafts m)" "key \<in> dom (mc_bindings m)" using assms(3) by (auto simp: drafts_ok_def)
    then obtain e b where eb: "drafts m key = Some e" "mc_bindings m key = Some b" by blast
    then have "canonical_for b e" using assms(3) by (simp add: drafts_ok_def)
    have "as_Expression a = e \<and> resolved_ok a" using eb resolve_all_ok [OF nxt] that by (auto split: option.splits)
    with eb show ?thesis using \<open>canonical_for b e\<close> by blast
  qed
  then have "\<forall>(key, a)\<in>set nxt. \<exists>b. mc_bindings m key = Some b \<and> canonical_for b (as_Expression a) \<and> resolved_ok a" by blast
  note f = fold_applied [OF assms(2) this]
  have "controls_ok m'" using f by (auto simp: m' intro: controls_frame [OF frame_updates(5)])
  moreover have "same_frame m m'" using f same_frame_trans frame_updates(2,5) unfolding m' by blast
  ultimately show ?thesis using f cancel_ok unfolding m' by simp
qed

lemma apply_failure: "apply_drafts zones now m = (Some e, m') \<Longrightarrow> m' = m"
  by (auto simp: apply_drafts_def split: if_splits sum.splits)

lemma reset_loop_ok:
  assumes "reset_loop zones now keys m = (res, m')" "controls_ok m" "drafts_ok m"
  shows "controls_ok m' \<and> drafts_ok m' \<and> same_frame m m' \<and> fs_Revision (mc_state m') = fs_Revision (mc_state m)
    \<and> (mc_mode m = ApplicationDeferred \<longrightarrow> applied m' = applied m) \<and> (keys = [] \<longrightarrow> m' = m)"
  using assms
proof (induction keys arbitrary: m)
  case (Cons key keys)
  show ?case
  proof (cases "mc_bindings m key")
    case None
    then show ?thesis using Cons.prems by simp
  next
    case (Some b)
    have can: "canonical_for b (bs_Default b)" using Cons.prems(2) Some by (simp add: controls_ok_def)
    show ?thesis
    proof (cases "mc_mode m = ApplicationDeferred")
      case True
      let ?m = "set_draft key (bs_Default b) m"
      have "controls_ok ?m" using controls_frame [OF frame_updates(4) _ Cons.prems(2)] by simp
      moreover have "drafts_ok ?m" by (rule set_draft_ok [OF Cons.prems(3) Some can True])
      ultimately show ?thesis
        using Cons.IH [of ?m] Cons.prems(1) Some True same_frame_trans [OF frame_updates(4) [of m key "bs_Default b"]] by auto
    next
      case False
      show ?thesis
      proof (cases "resolve zones key (bs_Default b) now m")
        case (Inl e)
        then show ?thesis using Cons.prems Some False by simp
      next
        case (Inr a)
        let ?m = "set_applied key a m"
        have "controls_ok ?m" using set_applied_ok [OF Cons.prems(2) Some] resolve_ok [OF Inr] can by simp
        moreover have "drafts_ok ?m" using drafts_frame [OF frame_updates(1) _ _ Cons.prems(3)] by simp
        ultimately show ?thesis
          using Cons.IH [of ?m] Cons.prems(1) Some False Inr same_frame_trans [OF frame_updates(1) [of m key a]] by auto
      qed
    qed
  qed
qed simp

lemma reset_result:
  assumes "reset zones now c m = (res, m')" "controls_ok m" "drafts_ok m"
  shows "controls_ok m' \<and> drafts_ok m' \<and> same_frame m m'
    \<and> (res = None \<longrightarrow> mc_mode m = ApplicationImmediate \<or> mc_mode m = ApplicationDeferred \<longrightarrow>
        applied m' = applied m \<and> fs_Revision (mc_state m') = fs_Revision (mc_state m)
        \<or> fs_Revision (mc_state m') = fs_Revision (mc_state m) + 1)"
proof (cases "cm_ResetScope c \<noteq> ResetPage \<and> cm_ResetScope c \<noteq> ResetDashboard")
  case True
  then show ?thesis using assms by (auto simp: reset_def)
next
  case False
  obtain r m1 where l: "reset_loop zones now (sort_strings (cm_BindingKeys c)) m = (r, m1)" by fastforce
  note ok = reset_loop_ok [OF l assms(2,3)]
  show ?thesis
  proof (cases r)
    case None
    then have m': "res = None" "m' = (if mc_mode m1 = ApplicationImmediate \<and> sort_strings (cm_BindingKeys c) \<noteq> [] then bump_revision m1 else m1)"
      using assms(1) False l by (auto simp: reset_def Let_def)
    have "mc_mode m1 = mc_mode m" using ok by (simp add: same_frame_def)
    then show ?thesis using ok m' same_frame_trans [OF _ frame_updates(2)] by (auto split: if_splits)
  next
    case (Some e)
    then show ?thesis using assms(1) False l ok by (auto simp: reset_def Let_def)
  qed
qed

text \<open>All commands together.\<close>

lemma run_command_ok:
  assumes "run_command zones now c m = (res, m')" "controls_ok m" "drafts_ok m"
  shows "controls_ok m' \<and> drafts_ok m' \<and> same_frame m m'
    \<and> (res = None \<longrightarrow> mc_mode m = ApplicationImmediate \<or> mc_mode m = ApplicationDeferred \<longrightarrow>
        applied m' = applied m \<and> fs_Revision (mc_state m') = fs_Revision (mc_state m)
        \<or> fs_Revision (mc_state m') = fs_Revision (mc_state m) + 1)"
proof (cases "cm_Kind c")
  case CommandMutate
  then have r: "mutate_filter zones now c m = (res, m')" using assms(1) by (simp add: run_command_def)
  show ?thesis
  proof (cases res)
    case (Some e)
    then show ?thesis using mutate_failure r assms(2,3) by (metis same_frame_refl option.distinct(1))
  next
    case None
    from r [unfolded None] show ?thesis
    proof (cases rule: mutate_result)
      case (1 b e)
      then show ?thesis using set_draft_ok [OF assms(3) 1(1,2,3)] controls_frame [OF frame_updates(4) _ assms(2)] by simp
    next
      case (2 b a)
      then show ?thesis
        using set_applied_ok [OF assms(2) 2(1,2,3)] drafts_frame [OF frame_updates(1) _ _ assms(3)]
          same_frame_trans [OF frame_updates(1,2)] by simp
    qed
  qed
next
  case CommandApply
  then have r: "apply_drafts zones now m = (res, m')" using assms(1) by (simp add: run_command_def)
  then show ?thesis using apply_failure [of zones now m _ m'] apply_result [of zones now m m'] assms(2,3) by (cases res) auto
next
  case CommandCancel
  then have "m' = cancel m" using assms(1) by (simp add: run_command_def)
  then show ?thesis using controls_frame [OF frame_updates(5) _ assms(2)] cancel_ok by simp
next
  case CommandReset
  then show ?thesis using reset_result assms by (simp add: run_command_def)
qed (use assms in \<open>auto simp: run_command_def\<close>)

lemma run_command_failure:
  assumes "run_command zones now c m = (Some e, m')" "cm_Kind c \<noteq> CommandReset"
  shows "m' = m"
  using assms mutate_failure apply_failure by (cases "cm_Kind c") (auto simp: run_command_def)

lemma remember_ok:
  assumes "records_ok m" "mc_seen m i = None"
  shows "records_ok (remember i f m)"
proof -
  have d: "distinct (mc_seenOrder m)" "dom (mc_seen m) = set (mc_seenOrder m)" "length (mc_seenOrder m) \<le> maxRememberedMutationIDs"
    and i: "i \<notin> set (mc_seenOrder m)" using assms by (auto simp: records_ok_def domIff)
  show ?thesis
  proof (cases "mc_seenOrder m")
    case Nil
    then show ?thesis using d by (auto simp: records_ok_def remember_def Let_def maxRememberedMutationIDs_def)
  next
    case (Cons h t)
    then show ?thesis using d i by (auto simp: records_ok_def remember_def Let_def)
  qed
qed

lemma remember_state [simp]: "mc_state (remember i f m) = mc_state m" "mc_bindings (remember i f m) = mc_bindings m"
    "mc_mode (remember i f m) = mc_mode m" "mc_anchorResolver (remember i f m) = mc_anchorResolver m"
  by (simp_all add: remember_def Let_def)

lemma controls_remember [simp]: "controls_ok (remember i f m) = controls_ok m" "drafts_ok (remember i f m) = drafts_ok m"
  by (simp_all add: controls_ok_def drafts_ok_def)

text \<open>The outcomes of a command.\<close>

lemma Execute_cases:
  assumes "Execute zones fp now c m = ((err, res), m')"
  obtains (refused) e where "err = Some e" "m' = m"
  | (duplicate) "mc_seen m (cm_ClientMutationID c) = Some (fp c)" "err = None" "m' = m" "cr_Duplicate res"
  | (failed) e where "mc_seen m (cm_ClientMutationID c) = None" "run_command zones now c m = (Some e, m')" "err = Some e"
  | (executed) m1 where "mc_seen m (cm_ClientMutationID c) = None" "cm_ClientMutationID c \<noteq> []"
      "cm_BaseRevision c = fs_Revision (mc_state m)" "run_command zones now c m = (None, m1)" "err = None"
      "m' = remember (cm_ClientMutationID c) (fp c) m1" "\<not> cr_Duplicate res"
proof (cases "cm_ClientMutationID c = []")
  case True
  then show thesis using assms that(1) by (auto simp: Execute_def)
next
  case nonempty: False
  show thesis
  proof (cases "mc_seen m (cm_ClientMutationID c)")
    case (Some f)
    then show thesis using assms nonempty that(1,2) by (auto simp: Execute_def split: if_splits)
  next
    case None
    show thesis
    proof (cases "cm_BaseRevision c = fs_Revision (mc_state m)")
      case False
      then show thesis using assms nonempty None that(1) by (auto simp: Execute_def)
    next
      case True
      obtain r m1 where rc: "run_command zones now c m = (r, m1)" by fastforce
      then show thesis using assms nonempty None True that(3) that(4) [OF None nonempty True]
        by (cases r) (auto simp: Execute_def Let_def)
    qed
  qed
qed

lemma Execute_ok:
  assumes "Execute zones fp now c m = (res, m')" "machine_ok m"
  shows "machine_ok m'"
proof -
  obtain err r where res: "res = (err, r)" by fastforce
  have ok: "controls_ok m" "drafts_ok m" "records_ok m" using assms(2) by (auto simp: machine_ok_def)
  from assms(1) [unfolded res] show ?thesis
  proof (cases rule: Execute_cases)
    case (failed e)
    then show ?thesis using run_command_ok [OF failed(2) ok(1,2)] records_ok_frame ok(3) by (auto simp: machine_ok_def)
  next
    case (executed m1)
    note r = run_command_ok [OF executed(4) ok(1,2)]
    then have "records_ok m1" "mc_seen m1 (cm_ClientMutationID c) = None"
      using records_ok_frame ok(3) executed(1) by (auto simp: same_frame_def)
    then show ?thesis using r remember_ok by (simp add: machine_ok_def executed(6))
  qed (use assms(2) in simp_all)
qed

subsection \<open>Creation\<close>

definition started :: "string set \<Rightarrow> (string \<rightharpoonup> binding_spec) \<Rightarrow> machine \<Rightarrow> bool" where
  "started ks bindings m \<longleftrightarrow> dom (applied m) = ks
     \<and> (\<forall>key. key \<notin> ks \<longrightarrow> mc_bindings m key = bindings key)
     \<and> (\<forall>key\<in>ks. \<exists>b c a. bindings key = Some b \<and> Canonicalize (bs_Default b) (bs_ValueKind b) = Inr c
          \<and> predicateAllowed c (bs_Predicates b) \<and> mc_bindings m key = Some (b\<lparr>bs_Default := c\<rparr>)
          \<and> applied m key = Some a \<and> canonical_for b (as_Expression a) \<and> resolved_ok a)"

lemma init_bindings_started:
  assumes "init_bindings zones now keys m = Inr m'" "started ks bindings m" "distinct keys" "set keys \<inter> ks = {}" "set keys \<subseteq> dom bindings"
  shows "started (ks \<union> set keys) bindings m' \<and> mc_mode m' = mc_mode m \<and> mc_seen m' = mc_seen m \<and> mc_seenOrder m' = mc_seenOrder m
    \<and> mc_anchorResolver m' = mc_anchorResolver m \<and> drafts m' = drafts m \<and> dirty m' = dirty m"
  using assms
proof (induction keys arbitrary: m ks)
  case (Cons key keys)
  have key: "key \<notin> ks" "mc_bindings m key = bindings key" using Cons.prems(2,4) by (auto simp: started_def)
  obtain b where b: "bindings key = Some b" using Cons.prems(5) by auto
  then have at: "binding_at m key = b" using key by (simp add: binding_at_def)
  obtain c where c: "Canonicalize (bs_Default b) (bs_ValueKind b) = Inr c" "predicateAllowed c (bs_Predicates b)"
    using Cons.prems(1) at by (auto simp: Let_def split: sum.splits if_splits)
  define m1 where "m1 = m\<lparr>mc_bindings := (mc_bindings m)(key \<mapsto> b\<lparr>bs_Default := c\<rparr>)\<rparr>"
  obtain a where a: "resolve zones key c now m1 = Inr a" "init_bindings zones now keys (set_applied key a m1) = Inr m'"
    using Cons.prems(1) at c by (auto simp: Let_def m1_def split: sum.splits)
  have can: "canonical_for b c" using c by (auto simp: canonical_for_def)
  have "started (insert key ks) bindings (set_applied key a m1)"
    using Cons.prems(2) key b c can resolve_ok [OF a(1)] unfolding started_def by (auto simp: m1_def)
  from Cons.IH [OF a(2) this] show ?case using Cons.prems(3-5) key by (auto simp: m1_def set_applied_def)
qed (simp add: started_def)

lemma NewMachine_started:
  assumes "NewMachine zones now keys mode bindings dr = Inr m" "distinct keys" "set keys = dom bindings"
  shows "started (dom bindings) bindings m" "mc_mode m = (if mode = ApplicationOther [] then ApplicationImmediate else mode)"
    "mc_seen m = Map.empty" "mc_seenOrder m = []" "mc_anchorResolver m = None" "drafts m = Map.empty" "dirty m = []"
  using init_bindings_started [of zones now keys "empty_machine mode bindings dr" m "{}" bindings] assms
  by (auto simp: NewMachine_def empty_machine_def started_def)

lemma NewMachine_ok:
  assumes "NewMachine zones now keys mode bindings dr = Inr m" "distinct keys" "set keys = dom bindings"
  shows "machine_ok m"
proof -
  note s = NewMachine_started [OF assms]
  have dom: "dom (mc_bindings m) = dom bindings" using s(1) unfolding started_def by (intro set_eqI) (metis domIff option.distinct(1))
  have "controls_ok m"
    unfolding controls_ok_def
  proof (intro conjI allI impI)
    show "dom (applied m) = dom (mc_bindings m)" using s(1) dom by (simp add: started_def)
    fix key b
    assume at: "mc_bindings m key = Some b"
    then have "key \<in> dom bindings" using dom by blast
    then obtain b0 c a where s0: "Canonicalize (bs_Default b0) (bs_ValueKind b0) = Inr c" "predicateAllowed c (bs_Predicates b0)"
        "mc_bindings m key = Some (b0\<lparr>bs_Default := c\<rparr>)" "applied m key = Some a" "canonical_for b0 (as_Expression a)" "resolved_ok a"
      using s(1) unfolding started_def by blast
    then have b: "b = b0\<lparr>bs_Default := c\<rparr>" using at by simp
    show "canonical_for b (bs_Default b)" using s0(1,2) by (auto simp: b canonical_for_def)
    show "canonical_for b (as_Expression a')" "resolved_ok a'" if "applied m key = Some a'" for a'
      using s0(4-6) that by (simp_all add: b canonical_for_def)
  qed
  moreover have "drafts_ok m" using s by (simp add: drafts_ok_def)
  moreover have "records_ok m" using s by (simp add: records_ok_def)
  ultimately show ?thesis by (simp add: machine_ok_def)
qed

lemma machine_reachable_ok: "machine_reachable zones fp mode bindings dr m \<Longrightarrow> machine_ok m"
proof -
  assume "machine_reachable zones fp mode bindings dr m"
  then obtain now keys m0 where m0: "distinct keys" "set keys = dom bindings" "NewMachine zones now keys mode bindings dr = Inr m0"
    and steps: "(filter_step zones fp)\<^sup>*\<^sup>* m0 m" by (auto simp: machine_reachable_def)
  from steps show ?thesis
  proof (induction rule: rtranclp_induct)
    case base
    then show ?case using NewMachine_ok m0 by blast
  next
    case (step y z)
    from step(2) show ?case
    proof cases
      case (execute now c res)
      then show ?thesis using Execute_ok step(3) by blast
    next
      case (resolver r)
      then show ?thesis using step(3)
        by (simp add: machine_ok_def controls_ok_def drafts_ok_def records_ok_def SetAnchorResolver_def)
    qed
  qed
qed

end
