(* ===== verification/Filter_Machine_Theorems.thy ===== *)
theory Filter_Machine_Theorems
  imports Filter_Machine_Safety
begin

text \<open>
  The properties of the filter state machine: its invariant, what a command may change, which
  repetitions are recognised, what a failing reset leaves behind, and snapshots.
\<close>

section \<open>Repetition of commands\<close>

fun run_commands ::
  "zone_database \<Rightarrow> (command \<Rightarrow> string) \<Rightarrow> (go_time \<times> command) list \<Rightarrow> machine \<Rightarrow> machine" where
  "run_commands zones fp [] m = m"
| "run_commands zones fp ((now, c) # cs) m = run_commands zones fp cs (snd (Execute zones fp now c m))"

definition remembered :: "string \<Rightarrow> string \<Rightarrow> nat \<Rightarrow> machine \<Rightarrow> bool" where
  "remembered i f n m \<longleftrightarrow> mc_seen m i = Some f \<and> (\<exists>pre post. mc_seenOrder m = pre @ i # post \<and> length post \<le> n)"

lemma remembered_frame: "same_frame m m' \<Longrightarrow> remembered i f n m \<Longrightarrow> remembered i f n m'"
  by (simp add: same_frame_def remembered_def)

lemma remembered_weaken: "remembered i f n m \<Longrightarrow> n \<le> k \<Longrightarrow> remembered i f k m"
  unfolding remembered_def by (meson le_trans)

lemma remember_new:
  assumes "records_ok m" "mc_seen m i = None"
  shows "remembered i f 0 (remember i f m)"
proof -
  have "i \<notin> set (mc_seenOrder m)" using assms by (auto simp: records_ok_def)
  then show ?thesis
    by (cases "mc_seenOrder m") (auto simp: remembered_def remember_def Let_def maxRememberedMutationIDs_def)
qed

lemma remember_other:
  assumes "remembered i f n m" "records_ok m" "mc_seen m j = None" "Suc n < maxRememberedMutationIDs"
  shows "remembered i f (Suc n) (remember j g m)"
proof -
  obtain pre post where o: "mc_seen m i = Some f" "mc_seenOrder m = pre @ i # post" "length post \<le> n"
    using assms(1) by (auto simp: remembered_def)
  have d: "distinct (mc_seenOrder m)" and len: "length (mc_seenOrder m) \<le> maxRememberedMutationIDs"
    using assms(2) by (simp_all add: records_ok_def)
  have ij: "i \<noteq> j" using o(1) assms(3) by auto
  show ?thesis
  proof (cases "length (mc_seenOrder m @ [j]) \<le> maxRememberedMutationIDs")
    case True
    then have r: "remember j g m = m\<lparr>mc_seen := (mc_seen m)(j \<mapsto> g), mc_seenOrder := mc_seenOrder m @ [j]\<rparr>"
      by (simp add: remember_def Let_def)
    have "mc_seenOrder m @ [j] = pre @ i # (post @ [j])" "length (post @ [j]) \<le> Suc n" using o by simp_all
    then show ?thesis unfolding remembered_def r using o(1) ij by fastforce
  next
    case False
    then have "Suc (length (mc_seenOrder m)) > maxRememberedMutationIDs" by simp
    then obtain h pre' where pre: "pre = h # pre'" using o assms(4) by (cases pre) auto
    then have hi: "h \<noteq> i" using d o(2) by auto
    have r: "remember j g m = m\<lparr>mc_seen := ((mc_seen m)(j \<mapsto> g))(h := None), mc_seenOrder := pre' @ i # post @ [j]\<rparr>"
      using False o(2) pre by (simp add: remember_def Let_def)
    have "length (post @ [j]) \<le> Suc n" using o by simp
    then show ?thesis unfolding remembered_def r using o(1) ij hi by fastforce
  qed
qed

lemma Execute_remembered:
  assumes "remembered i f n m" "machine_ok m" "Suc n < maxRememberedMutationIDs"
  shows "remembered i f (Suc n) (snd (Execute zones fp now c m))"
proof -
  obtain err r m' where e: "Execute zones fp now c m = ((err, r), m')" by (metis prod.collapse)
  have ok: "controls_ok m" "drafts_ok m" "records_ok m" using assms(2) by (auto simp: machine_ok_def)
  have keep: "remembered i f (Suc n) m" using remembered_weaken [OF assms(1)] by simp
  from e have "remembered i f (Suc n) m'"
  proof (cases rule: Execute_cases)
    case (failed e)
    have "same_frame m m'" using run_command_ok [OF failed(2) ok(1,2)] by blast
    then show ?thesis using keep by (rule remembered_frame)
  next
    case (executed m1)
    have frame: "same_frame m m1" using run_command_ok [OF executed(4) ok(1,2)] by blast
    have "remembered i f (Suc n) (remember (cm_ClientMutationID c) (fp c) m1)"
    proof (rule remember_other)
      show "remembered i f n m1" using frame assms(1) by (rule remembered_frame)
      show "records_ok m1" using frame ok(3) by (rule records_ok_frame)
      show "mc_seen m1 (cm_ClientMutationID c) = None" using frame executed(1) by (simp add: same_frame_def)
    qed (rule assms(3))
    then show ?thesis by (simp add: executed(6))
  qed (use keep in simp_all)
  then show ?thesis using e by simp
qed

lemma run_commands_remembered:
  assumes "remembered i f n m" "machine_ok m" "n + length cs < maxRememberedMutationIDs"
  shows "mc_seen (run_commands zones fp cs m) i = Some f"
  using assms
proof (induction cs arbitrary: n m)
  case Nil
  then show ?case by (simp add: remembered_def)
next
  case (Cons x cs)
  obtain now c where x: "x = (now, c)" by fastforce
  have "machine_ok (snd (Execute zones fp now c m))" using Execute_ok [OF _ Cons.prems(2)] by (metis prod.collapse)
  then show ?case
    using Cons.IH [of "Suc n"] Execute_remembered [OF Cons.prems(1,2)] Cons.prems(3) by (simp add: x)
qed

section \<open>A sample machine\<close>

definition sample_binding :: binding_spec where
  "sample_binding = zero_binding\<lparr>bs_ValueKind := ValueString, bs_Default := expression_of ExpressionUnfiltered, bs_Editable := True,
     bs_Predicates := [\<lparr>pp_Kind = ExpressionNullCheck, pp_Operators = [OperatorIsNull]\<rparr>]\<rparr>"

definition sample_control :: "expression \<Rightarrow> applied_state" where
  "sample_control e = \<lparr>as_Expression = e, as_ResolvedExpression = e, as_EvaluatedAt = None\<rparr>"

definition sample_machine :: "application_mode \<Rightarrow> machine" where
  "sample_machine mode = (empty_machine mode [''a'' \<mapsto> sample_binding] [])\<lparr>mc_state :=
     \<lparr>fs_Revision = 1, fs_AppliedControls = [''a'' \<mapsto> sample_control (expression_of ExpressionUnfiltered)],
      fs_DraftControls = Map.empty, fs_DirtyBindings = [], fs_DefaultsRevision = []\<rparr>\<rparr>"

definition null_check :: expression where
  "null_check = (expression_of ExpressionNullCheck)\<lparr>ex_Operator := OperatorIsNull\<rparr>"

definition sample_command :: "command_kind \<Rightarrow> command" where
  "sample_command k = \<lparr>cm_Kind = k, cm_BaseRevision = 1, cm_ClientMutationID = ''c'', cm_BindingKey = ''a'', cm_Operation = MutationSet,
     cm_Expression = Some null_check, cm_ResetScope = ResetPage, cm_BindingKeys = [''a'', ''b'']\<rparr>"

lemmas sample_defs = sample_binding_def sample_control_def sample_machine_def null_check_def sample_command_def zero_binding_def
  empty_machine_def expression_of_def

lemma sample_new: "NewMachine zones now [''a''] mode [''a'' \<mapsto> sample_binding] [] = Inr (sample_machine mode)"
  by (simp add: NewMachine_def sample_defs binding_at_def Let_def Canonicalize_def predicateAllowed_def resolve_def set_applied_def validValueKind_def)

lemma sample_reachable: "machine_reachable zones fp mode [''a'' \<mapsto> sample_binding] [] (sample_machine mode)"
  unfolding machine_reachable_def using sample_new [of zones 0 mode] by (intro exI [of _ 0] exI [of _ "[''a'']"]) auto

definition sample_after :: machine where
  "sample_after = remember ''c'' ''f'' (bump_revision (set_applied ''a'' (sample_control null_check) (sample_machine ApplicationImmediate)))"

lemma sample_mutation:
  "Execute zones (\<lambda>_. ''f'') now (sample_command CommandMutate) (sample_machine ApplicationImmediate)
     = ((None, \<lparr>cr_State = mc_state sample_after, cr_Duplicate = False\<rparr>), sample_after)"
  by (simp add: Execute_def run_command_def mutate_filter_def mutated_expression_def sample_defs Canonicalize_def Let_def
      validateSelection_def predicateAllowed_def resolve_def sample_after_def remember_def validValueKind_def)

definition sample_reset :: command where
  "sample_reset = (sample_command CommandReset)\<lparr>cm_BaseRevision := 2, cm_ClientMutationID := ''d'', cm_BindingKeys := [''b'', ''a'']\<rparr>"

lemma sample_after_facts:
  "mc_mode sample_after = ApplicationImmediate" "mc_bindings sample_after ''a'' = Some sample_binding"
  "mc_bindings sample_after ''b'' = None" "ex_Kind (bs_Default sample_binding) \<noteq> ExpressionRelativePeriod"
  "applied sample_after ''a'' = Some (sample_control null_check)" "as_Expression (sample_control null_check) \<noteq> bs_Default sample_binding"
  "cm_Kind sample_reset = CommandReset" "cm_ResetScope sample_reset = ResetPage" "cm_BindingKeys sample_reset = [''b'', ''a'']"
  "cm_ClientMutationID sample_reset \<noteq> []" "mc_seen sample_after (cm_ClientMutationID sample_reset) = None"
  "cm_BaseRevision sample_reset = fs_Revision (mc_state sample_after)"
  by (simp_all add: sample_after_def sample_reset_def sample_defs remember_def maxRememberedMutationIDs_def Let_def bump_revision_def set_applied_def)

section \<open>Properties\<close>



text \<open>
  C30. A command that was executed is recognised when it is sent again: after fewer than 512 further
  commands, whatever they are and whatever their outcome, executing it once more returns the current
  state as a duplicate, without error, and changes nothing.
\<close>

theorem repeated_command_recognised:
  assumes "machine_reachable zones fp mode bindings dr m"
    and "Execute zones fp now c m = ((None, r), m1)" "\<not> cr_Duplicate r" "length cs < 512"
  shows "Execute zones fp now' c (run_commands zones fp cs m1)
    = ((None, \<lparr>cr_State = mc_state (run_commands zones fp cs m1), cr_Duplicate = True\<rparr>), run_commands zones fp cs m1)"
proof -
  have ok: "machine_ok m" using assms(1) by (rule machine_reachable_ok)
  from assms(2) show ?thesis
  proof (cases rule: Execute_cases)
    case (executed m')
    have frame: "same_frame m m'" "records_ok m" using run_command_ok [OF executed(4)] ok by (auto simp: machine_ok_def)
    then have "records_ok m'" "mc_seen m' (cm_ClientMutationID c) = None"
      using executed(1) records_ok_frame by (auto simp: same_frame_def)
    then have "remembered (cm_ClientMutationID c) (fp c) 0 m1" using remember_new by (simp add: executed(6))
    moreover have "machine_ok m1" using assms(2) ok by (rule Execute_ok)
    ultimately have "mc_seen (run_commands zones fp cs m1) (cm_ClientMutationID c) = Some (fp c)"
      using run_commands_remembered assms(4) by (simp add: maxRememberedMutationIDs_def)
    then show ?thesis using executed(2) by (simp add: Execute_def)
  qed (use assms(3) in simp_all)
qed

theorem repeated_command_recognised_witness:
  "Execute (\<lambda>_. None) (\<lambda>_. ''f'') 1 (sample_command CommandMutate) sample_after
     = ((None, \<lparr>cr_State = mc_state sample_after, cr_Duplicate = True\<rparr>), sample_after)"
  using repeated_command_recognised [OF sample_reachable sample_mutation, of "[]"] by simp

text \<open>
  C31. Commands are atomic, except for resets: a command refused with an error leaves the machine as
  it was. A command based on another revision than the current one is refused as stale. In immediate
  and in deferred mode a command without error either keeps the revision and every applied control, or
  advances the revision by one.
\<close>

theorem filter_commands_atomic:
  assumes "machine_reachable zones fp mode bindings dr m" "Execute zones fp now c m = ((err, r), m')"
  shows "(err \<noteq> None \<and> cm_Kind c \<noteq> CommandReset \<longrightarrow> m' = m)
    \<and> (cm_ClientMutationID c \<noteq> [] \<and> mc_seen m (cm_ClientMutationID c) = None \<and> cm_BaseRevision c \<noteq> fs_Revision (mc_state m)
         \<longrightarrow> err = Some ErrStaleRevision \<and> m' = m)
    \<and> (err = None \<and> mc_mode m \<in> {ApplicationImmediate, ApplicationDeferred} \<longrightarrow>
         fs_Revision (cr_State r) = fs_Revision (mc_state m) \<and> fs_AppliedControls (cr_State r) = applied m
         \<or> fs_Revision (cr_State r) = fs_Revision (mc_state m) + 1)
    \<and> cr_State r = mc_state m'"
proof (intro conjI impI)
  have ok: "controls_ok m" "drafts_ok m" using machine_reachable_ok [OF assms(1)] by (auto simp: machine_ok_def)
  show state: "cr_State r = mc_state m'"
    using assms(2) by (auto simp: Execute_def Let_def split: if_splits option.splits prod.splits)
  show "m' = m" if "err \<noteq> None \<and> cm_Kind c \<noteq> CommandReset"
    using assms(2) by (cases rule: Execute_cases) (use that run_command_failure in auto)
  show "err = Some ErrStaleRevision" "m' = m"
    if "cm_ClientMutationID c \<noteq> [] \<and> mc_seen m (cm_ClientMutationID c) = None \<and> cm_BaseRevision c \<noteq> fs_Revision (mc_state m)"
    using assms(2) that by (simp_all add: Execute_def)
  show "fs_Revision (cr_State r) = fs_Revision (mc_state m) \<and> fs_AppliedControls (cr_State r) = applied m
      \<or> fs_Revision (cr_State r) = fs_Revision (mc_state m) + 1"
    if h: "err = None \<and> mc_mode m \<in> {ApplicationImmediate, ApplicationDeferred}"
    unfolding state using assms(2)
  proof (cases rule: Execute_cases)
    case (executed m1)
    then show "fs_Revision (mc_state m') = fs_Revision (mc_state m) \<and> applied m' = applied m
        \<or> fs_Revision (mc_state m') = fs_Revision (mc_state m) + 1"
      using run_command_ok [OF executed(4) ok] h by auto
  qed (use h in simp_all)
qed

theorem filter_commands_atomic_witness:
  "fs_Revision (mc_state sample_after) = fs_Revision (mc_state (sample_machine ApplicationImmediate)) + 1"
proof -
  have "applied sample_after \<noteq> applied (sample_machine ApplicationImmediate)"
    by (auto simp: sample_after_def sample_defs fun_eq_iff)
  then show ?thesis
    using filter_commands_atomic [OF sample_reachable sample_mutation [of "\<lambda>_. None" 0]] by (auto simp: sample_machine_def empty_machine_def)
qed

text \<open>
  A reset in immediate mode is not atomic: when the second of two bindings is unknown, the command
  returns an error, but the first binding, whose default differs from its applied control, has been
  reset all the same; the revision has not moved, and the command is not remembered.
\<close>

theorem failing_reset_applies_prefix:
  assumes "mc_mode m = ApplicationImmediate" "mc_bindings m k1 = Some b" "mc_bindings m k2 = None" "text_le k1 k2"
    and "ex_Kind (bs_Default b) \<noteq> ExpressionRelativePeriod" "applied m k1 = Some a" "as_Expression a \<noteq> bs_Default b"
    and "cm_Kind c = CommandReset" "cm_ResetScope c = ResetPage" "cm_BindingKeys c = [k2, k1]"
    and "cm_ClientMutationID c \<noteq> []" "mc_seen m (cm_ClientMutationID c) = None" "cm_BaseRevision c = fs_Revision (mc_state m)"
  shows "\<exists>m' r. Execute zones fp now c m = ((Some (ErrFilter ''unknown binding''), r), m')
    \<and> applied m' \<noteq> applied m \<and> map_option as_Expression (applied m' k1) = Some (bs_Default b)
    \<and> fs_Revision (mc_state m') = fs_Revision (mc_state m) \<and> mc_seen m' = mc_seen m"
proof -
  let ?m = "set_applied k1 (sample_control (bs_Default b)) m"
  have "sort_strings [k2, k1] = [k1, k2]"
    using assms(2-4) by (auto simp: sort_strings_def dest: text_le_antisym)
  then have "Execute zones fp now c m = ((Some (ErrFilter ''unknown binding''), \<lparr>cr_State = mc_state ?m, cr_Duplicate = False\<rparr>), ?m)"
    using assms by (simp add: Execute_def run_command_def reset_def Let_def resolve_def sample_control_def)
  moreover have "applied ?m k1 \<noteq> applied m k1" using assms(6,7) by (auto simp: sample_control_def)
  then have "applied ?m \<noteq> applied m" by metis
  ultimately show ?thesis
    by (intro exI conjI) (assumption, simp_all add: sample_control_def frame_updates(1) [unfolded same_frame_def])
qed

theorem failing_reset_applies_prefix_witness:
  "\<exists>m' r. Execute (\<lambda>_. None) (\<lambda>_. []) 0 sample_reset sample_after = ((Some (ErrFilter ''unknown binding''), r), m')
     \<and> applied m' \<noteq> applied sample_after"
proof -
  have le: "text_le ''a'' ''b''" by code_simp
  from failing_reset_applies_prefix [OF sample_after_facts(1-3) le sample_after_facts(4-12)] show ?thesis by blast
qed

section \<open>Snapshots\<close>

definition plain_binding :: "binding_spec \<Rightarrow> bool" where
  "plain_binding b \<longleftrightarrow> bs_ValueKind b \<noteq> ValueTimestamp \<and> (\<forall>p\<in>set (bs_Predicates b). pp_Kind p \<noteq> ExpressionRelativePeriod)"

lemma plain_canonical:
  assumes "plain_binding b" "canonical_for b e"
  shows "Canonicalize e (bs_ValueKind b) = Inr e" "ex_Kind e \<noteq> ExpressionRelativePeriod"
  using assms Canonicalize_fixed by (auto simp: plain_binding_def canonical_for_def predicateAllowed_def)

lemma init_bindings_plain:
  assumes "distinct keys" "set keys \<subseteq> dom (mc_bindings m)"
    and "\<forall>key\<in>set keys. \<forall>b. mc_bindings m key = Some b \<longrightarrow> plain_binding b
      \<and> (\<exists>c. Canonicalize (bs_Default b) (bs_ValueKind b) = Inr c \<and> predicateAllowed c (bs_Predicates b))"
  shows "\<exists>m'. init_bindings zones now keys m = Inr m'"
  using assms
proof (induction keys arbitrary: m)
  case (Cons key keys)
  then obtain b c where b: "mc_bindings m key = Some b" "plain_binding b" "Canonicalize (bs_Default b) (bs_ValueKind b) = Inr c"
      "predicateAllowed c (bs_Predicates b)" by (meson domD list.set_intros(1) subsetD)
  then have c: "ex_Kind c \<noteq> ExpressionRelativePeriod" by (auto simp: plain_binding_def predicateAllowed_def)
  let ?m = "set_applied key (sample_control c) (m\<lparr>mc_bindings := (mc_bindings m)(key \<mapsto> b\<lparr>bs_Default := c\<rparr>)\<rparr>)"
  have "\<exists>m'. init_bindings zones now keys ?m = Inr m'"
  proof (rule Cons.IH)
    show "set keys \<subseteq> dom (mc_bindings ?m)" using Cons.prems(2) by auto
    show "\<forall>key\<in>set keys. \<forall>b. mc_bindings ?m key = Some b \<longrightarrow> plain_binding b
        \<and> (\<exists>c. Canonicalize (bs_Default b) (bs_ValueKind b) = Inr c \<and> predicateAllowed c (bs_Predicates b))"
      using Cons.prems(1,3) by auto
  qed (use Cons.prems(1) in simp)
  then show ?case using b c by (simp add: binding_at_def Let_def resolve_def sample_control_def)
qed simp

lemma empty_machine_bindings: "mc_bindings (empty_machine mode bindings dr) = bindings"
  by (simp add: empty_machine_def)

lemma started_absent: "started (dom bindings) bindings m \<Longrightarrow> bindings key = None \<Longrightarrow> mc_bindings m key = None"
  by (simp add: started_def domIff)

lemma started_present:
  assumes "started (dom bindings) bindings m" "bindings key = Some b"
  obtains c where "Canonicalize (bs_Default b) (bs_ValueKind b) = Inr c" "predicateAllowed c (bs_Predicates b)"
    "mc_bindings m key = Some (b\<lparr>bs_Default := c\<rparr>)"
  using assms unfolding started_def by (metis domI option.inject)

lemma NewMachine_bindings:
  assumes "NewMachine zones now keys mode bindings dr = Inr m" "distinct keys" "set keys = dom bindings"
    and "NewMachine zones now' keys' mode bindings dr = Inr m'" "distinct keys'" "set keys' = dom bindings"
  shows "mc_bindings m' = mc_bindings m \<and> mc_mode m' = mc_mode m"
proof -
  have "mc_bindings m' key = mc_bindings m key" for key
    using NewMachine_started(1) [OF assms(1-3)] NewMachine_started(1) [OF assms(4-6)]
    by (cases "bindings key") (metis started_absent, metis started_present sum.inject(2))
  then show ?thesis using NewMachine_started(2) [OF assms(1-3)] NewMachine_started(2) [OF assms(4-6)] by auto
qed

lemma machine_reachable_start:
  assumes "machine_reachable zones fp mode bindings dr m"
  obtains now keys m0 where "distinct keys" "set keys = dom bindings" "NewMachine zones now keys mode bindings dr = Inr m0"
    "mc_bindings m = mc_bindings m0" "mc_mode m = mc_mode m0"
proof -
  obtain now keys m0 where m0: "distinct keys" "set keys = dom bindings" "NewMachine zones now keys mode bindings dr = Inr m0"
    and steps: "(filter_step zones fp)\<^sup>*\<^sup>* m0 m" using assms by (auto simp: machine_reachable_def)
  have "mc_bindings z = mc_bindings y \<and> mc_mode z = mc_mode y" if "filter_step zones fp y z" "machine_ok y" for y z
    using that(1)
  proof cases
    case (execute now c res)
    obtain err r where e: "Execute zones fp now c y = ((err, r), z)" using execute by (metis prod.collapse)
    have ok: "controls_ok y" "drafts_ok y" using that(2) by (auto simp: machine_ok_def)
    from e show ?thesis
    proof (cases rule: Execute_cases)
      case (failed e)
      then show ?thesis using run_command_ok [OF failed(2) ok] by (simp add: same_frame_def)
    next
      case (executed m1)
      then show ?thesis using run_command_ok [OF executed(4) ok] by (simp add: same_frame_def)
    qed simp_all
  qed (simp add: SetAnchorResolver_def)
  note frame = this
  have "machine_ok m \<and> mc_bindings m = mc_bindings m0 \<and> mc_mode m = mc_mode m0" using steps
  proof (induction rule: rtranclp_induct)
    case base
    then show ?case using NewMachine_ok [OF m0(3,1,2)] by simp
  next
    case (step y z)
    then have "machine_reachable zones fp mode bindings dr z"
      unfolding machine_reachable_def using m0 by (meson rtranclp.rtrancl_into_rtrancl)
    then show ?case using frame [OF step(2)] step(3) machine_reachable_ok by simp
  qed
  then show thesis using that m0 by blast
qed

text \<open>
  C32. Snapshots round trip: for bindings that are neither timestamps nor allow relative periods, a
  machine restored from the snapshot of a reachable machine, in the same mode and from the same
  bindings, is that machine, except that its anchor resolver is unset, whatever the order in which
  the maps are traversed and at whatever time.
\<close>

theorem filter_snapshot_restores:
  assumes "machine_reachable zones fp mode bindings dr m" "fs_Revision (mc_state m) \<noteq> 0" "\<forall>b\<in>ran bindings. plain_binding b"
    and "distinct keys" "set keys = dom bindings" "set appliedKeys = dom (applied m)" "set seenKeys = dom (mc_seen m)"
  shows "RestoreMachine zones now keys appliedKeys seenKeys mode bindings dr (Snapshot m) = Inr (SetAnchorResolver None m)"
proof -
  obtain now0 keys0 m0 where m0: "distinct keys0" "set keys0 = dom bindings" "NewMachine zones now0 keys0 mode bindings dr = Inr m0"
    "mc_bindings m = mc_bindings m0" "mc_mode m = mc_mode m0" using machine_reachable_start [OF assms(1)] .
  note started = NewMachine_started(1) [OF m0(3,1,2)]
  have ok: "controls_ok m" "records_ok m" using machine_reachable_ok [OF assms(1)] by (auto simp: machine_ok_def)
  have "\<exists>n. NewMachine zones now keys mode bindings dr = Inr n"
    unfolding NewMachine_def
  proof (rule init_bindings_plain)
    show "\<forall>key\<in>set keys. \<forall>b. mc_bindings (empty_machine mode bindings dr) key = Some b \<longrightarrow> plain_binding b
        \<and> (\<exists>c. Canonicalize (bs_Default b) (bs_ValueKind b) = Inr c \<and> predicateAllowed c (bs_Predicates b))"
      using started_present [OF started] assms(3) by (metis empty_machine_bindings ranI)
  qed (use assms(4,5) in \<open>simp_all add: empty_machine_def\<close>)
  then obtain n where n: "NewMachine zones now keys mode bindings dr = Inr n" by blast
  have same: "mc_bindings n = mc_bindings m" "mc_mode n = mc_mode m" "mc_anchorResolver n = None"
    using NewMachine_bindings [OF m0(3,1,2) n assms(4,5)] NewMachine_started(5) [OF n assms(4,5)] m0(4,5) by auto
  have plain: "plain_binding b" if "mc_bindings m key = Some b" for key b
  proof -
    obtain b0 where b0: "bindings key = Some b0" using started_absent [OF started, of key] \<open>mc_bindings m key = Some b\<close> m0(4) by (cases "bindings key") auto
    then have "plain_binding b0" using assms(3) by (auto intro: ranI)
    moreover obtain c where "b = b0\<lparr>bs_Default := c\<rparr>" using started_present [OF started b0] \<open>mc_bindings m key = Some b\<close> m0(4) by (metis option.inject)
    ultimately show ?thesis by (simp add: plain_binding_def)
  qed
  have restored: "n\<lparr>mc_state := mc_state m, mc_seen := mc_seen m, mc_seenOrder := last_remembered (mc_seenOrder m)\<rparr> = SetAnchorResolver None m"
    using same ok(2) by (simp add: last_remembered_def SetAnchorResolver_def records_ok_def)
  have "validateRestoredState keys appliedKeys seenKeys (SetAnchorResolver None m)"
    unfolding validateRestoredState_def list_all_iff
  proof (intro conjI ballI)
    fix key
    assume key: "key \<in> set keys"
    have "dom (mc_bindings m) = set keys" using started m0(4) assms(5) unfolding started_def by (intro set_eqI) (metis domIff option.distinct(1))
    then obtain b a where at: "mc_bindings m key = Some b" "applied m key = Some a"
      using key ok(1) unfolding controls_ok_def by (metis domD)
    then have "canonical_for b (as_Expression a)" "resolved_ok a" using ok(1) by (auto simp: controls_ok_def)
    then show "case fs_AppliedControls (mc_state (SetAnchorResolver None m)) key of
          None \<Rightarrow> False
        | Some a \<Rightarrow>
            let b = binding_at (SetAnchorResolver None m) key in
            \<not> isl (Canonicalize (as_Expression a) (bs_ValueKind b)) \<and> predicateAllowed (as_Expression a) (bs_Predicates b)
            \<and> \<not> isl (Canonicalize (as_ResolvedExpression a) (bs_ValueKind b))"
      using at plain_canonical [OF plain [OF at(1)]] by (auto simp: SetAnchorResolver_def binding_at_def resolved_ok_def canonical_for_def)
  qed (use assms(2,6,7) ok in \<open>auto simp: SetAnchorResolver_def controls_ok_def records_ok_def\<close>)
  then show ?thesis using n restored by (simp add: RestoreMachine_def Snapshot_def Let_def)
qed

theorem filter_snapshot_restores_witness:
  "RestoreMachine (\<lambda>_. None) 7 [''a''] [''a''] [''c''] ApplicationImmediate [''a'' \<mapsto> sample_binding] [] (Snapshot sample_after)
    = Inr (SetAnchorResolver None sample_after)"
proof (rule filter_snapshot_restores)
  have "filter_step (\<lambda>_. None) (\<lambda>_. ''f'') (sample_machine ApplicationImmediate) sample_after"
    using sample_mutation by (rule filter_step.execute)
  then show "machine_reachable (\<lambda>_. None) (\<lambda>_. ''f'') ApplicationImmediate [''a'' \<mapsto> sample_binding] [] sample_after"
    using sample_new [of "\<lambda>_. None" 0 ApplicationImmediate] unfolding machine_reachable_def
    by (intro exI [of _ 0] exI [of _ "[''a'']"]) auto
  show "set [''c''] = dom (mc_seen sample_after)" "fs_Revision (mc_state sample_after) \<noteq> 0"
    by (auto simp: sample_after_def remember_def Let_def maxRememberedMutationIDs_def sample_defs bump_revision_def set_applied_def split: if_splits)
  show "set [''a''] = dom (applied sample_after)" by (simp add: sample_after_def sample_defs)
  show "\<forall>b\<in>ran [''a'' \<mapsto> sample_binding]. plain_binding b" by (simp add: plain_binding_def sample_defs)
qed simp_all

end
