(* ===== verification/Refresh_Plan.thy ===== *)
theory Refresh_Plan
  imports Text_Order
begin

text \<open>
  Refresh plans, \<open>internal/refresh/plan/plan.go\<close>: the order in which the tables of a semantic model
  are materialised. A Go map is here the list of its entries, in the order in which the run time
  iterates, looked up with \<open>map_of\<close>. Of a table the plan reads the names of the tables it depends on,
  of a pipeline the name of its semantic model.
\<close>

section \<open>Data\<close>

datatype plan_error =
    ErrCycle string
  | ErrUnknownTable string
  | ErrPlan string

record model_table =
  mt_ModelDependencies :: "string list"

type_synonym model_tables = "(string \<times> model_table) list"

record pipeline =
  pl_SemanticModel :: string

record refresh_definition =
  rd_Models :: "(string \<times> model_tables) list"
  rd_Pipelines :: "(string \<times> pipeline) list"

record plan =
  pn_TargetType :: string
  pn_TargetID :: string
  pn_ModelID :: string
  pn_Tables :: "string list"
  pn_DependencyTables :: "string list"

section \<open>The order of tables\<close>

definition TableNames :: "model_tables \<Rightarrow> string list" where
  "TableNames tables = sort_strings (map fst tables)"

text \<open>Each open visit is of another table of the model.\<close>

definition unopened :: "model_tables \<Rightarrow> string set \<Rightarrow> nat" where
  "unopened tables temporary = card (set (map fst tables) - temporary)"

lemma unopened_insert: "map_of tables name = Some t \<Longrightarrow> name \<notin> temporary \<Longrightarrow> unopened tables (insert name temporary) < unopened tables temporary"
proof -
  assume "map_of tables name = Some t" "name \<notin> temporary"
  then have "name \<in> set (map fst tables) - temporary" by (force dest: map_of_SomeD)
  then show ?thesis unfolding unopened_def by (intro psubset_card_mono) auto
qed

text \<open>
  \<open>visit\<close> and its loop over the dependencies. \<open>permanent\<close> and \<open>order\<close> are the state; \<open>temporary\<close> holds
  the tables whose visit is open, so it is an argument: the code inserts a name when its visit
  opens and deletes it when the visit closes, and a visit that fails ends the whole search.
\<close>

record order_state =
  os_permanent :: "string set"
  os_order :: "string list"

definition close_visit :: "string \<Rightarrow> order_state \<Rightarrow> order_state" where
  "close_visit name s = \<lparr>os_permanent = insert name (os_permanent s), os_order = os_order s @ [name]\<rparr>"

function (sequential)
  visit :: "model_tables \<Rightarrow> string set \<Rightarrow> string \<Rightarrow> order_state \<Rightarrow> plan_error + order_state" and
  visit_tables :: "model_tables \<Rightarrow> string set \<Rightarrow> string list \<Rightarrow> order_state \<Rightarrow> plan_error + order_state" where
  "visit tables temporary name s =
    (if name \<in> os_permanent s then Inr s
     else if name \<in> temporary then Inl (ErrCycle name)
     else case map_of tables name of
       None \<Rightarrow> Inl (ErrUnknownTable name)
     | Some table \<Rightarrow>
         (case visit_tables tables (insert name temporary) (mt_ModelDependencies table) s of
            Inl e \<Rightarrow> Inl e
          | Inr s' \<Rightarrow> Inr (close_visit name s')))"
| "visit_tables tables temporary [] s = Inr s"
| "visit_tables tables temporary (name # names) s =
    (case visit tables temporary name s of
       Inl e \<Rightarrow> Inl e
     | Inr s' \<Rightarrow> visit_tables tables temporary names s')"
  by pat_completeness auto

termination
  by (relation "measures [case_sum (\<lambda>(tables, temporary, _, _). unopened tables temporary) (\<lambda>(tables, temporary, _, _). unopened tables temporary),
      case_sum (\<lambda>_. 0) (\<lambda>(_, _, names, _). Suc (length names))]") (auto simp: unopened_insert)

declare visit.simps [simp del]

definition modelTableOrder :: "model_tables option \<Rightarrow> plan_error + string list" where
  "modelTableOrder model =
    (case model of
       None \<Rightarrow> Inl (ErrPlan ''semantic model is required'')
     | Some tables \<Rightarrow>
         (case visit_tables tables {} (TableNames tables) \<lparr>os_permanent = {}, os_order = []\<rparr> of
            Inl e \<Rightarrow> Inl e
          | Inr s \<Rightarrow> Inr (os_order s)))"

section \<open>Plans\<close>

definition localWorkspaceAssetName :: "string \<Rightarrow> string \<Rightarrow> plan_error + string" where
  "localWorkspaceAssetName workspaceID key =
    (let prefix = trim_space workspaceID @ ''.''; key = trim_space key in
     if prefix = ''.'' then Inl (ErrPlan ''workspace id is required'')
     else case prefix_drop prefix key of
       None \<Rightarrow> Inl (ErrPlan ''asset key is not in workspace'')
     | Some rest \<Rightarrow>
         let name = trim_space rest in
         if name = [] then Inl (ErrPlan ''asset key is missing a local name'') else Inr name)"

definition ForPipeline :: "refresh_definition option \<Rightarrow> string \<Rightarrow> string \<Rightarrow> plan_error + plan" where
  "ForPipeline refreshDefinition workspaceID pipelineID =
    (case refreshDefinition of
       None \<Rightarrow> Inl (ErrPlan ''workspace definition is required'')
     | Some d \<Rightarrow>
         let pipelineID = trim_space pipelineID in
         (case map_of (rd_Pipelines d) pipelineID of
            None \<Rightarrow> Inl (ErrPlan ''unknown refresh pipeline'')
          | Some p \<Rightarrow>
         (case map_of (rd_Models d) (pl_SemanticModel p) of
            None \<Rightarrow> Inl (ErrPlan ''unknown semantic model'')
          | Some model \<Rightarrow>
         (case modelTableOrder (Some model) of
            Inl e \<Rightarrow> Inl e
          | Inr order \<Rightarrow>
         let targetID = trim_space workspaceID @ ''.'' @ pipelineID in
         (case localWorkspaceAssetName workspaceID targetID of
            Inl e \<Rightarrow> Inl e
          | Inr _ \<Rightarrow> Inr \<lparr>pn_TargetType = ''refresh_pipeline'', pn_TargetID = targetID,
              pn_ModelID = pl_SemanticModel p, pn_Tables = order, pn_DependencyTables = order\<rparr>)))))"

section \<open>The search\<close>

definition dependencies :: "model_tables \<Rightarrow> string \<Rightarrow> string set" where
  "dependencies tables name = (case map_of tables name of None \<Rightarrow> {} | Some t \<Rightarrow> set (mt_ModelDependencies t))"

definition depends :: "model_tables \<Rightarrow> (string \<times> string) set" where
  "depends tables = {(a, b). b \<in> dependencies tables a}"

text \<open>Every table comes once, and after all tables it depends on.\<close>

definition topological :: "model_tables \<Rightarrow> string list \<Rightarrow> bool" where
  "topological tables order \<longleftrightarrow> distinct order \<and> set order \<subseteq> dom (map_of tables)
     \<and> (\<forall>before name after. order = before @ name # after \<longrightarrow> dependencies tables name \<subseteq> set before)"

lemma topological_Nil: "topological tables []"
  by (simp add: topological_def)

lemma topological_snoc:
  assumes "topological tables order" "name \<notin> set order" "map_of tables name = Some t" "set (mt_ModelDependencies t) \<subseteq> set order"
  shows "topological tables (order @ [name])"
  unfolding topological_def
proof (intro conjI allI impI)
  fix before x after
  assume eq: "order @ [name] = before @ x # after"
  show "dependencies tables x \<subseteq> set before"
  proof (cases after rule: rev_cases)
    case Nil
    then show ?thesis using eq assms(3,4) by (simp add: dependencies_def)
  next
    case (snoc ys y)
    then have "order = before @ x # ys" using eq by simp
    then show ?thesis using assms(1) by (simp add: topological_def)
  qed
qed (use assms in \<open>auto simp: topological_def\<close>)

text \<open>What the search keeps and what it reaches.\<close>

definition search_ok :: "model_tables \<Rightarrow> order_state \<Rightarrow> bool" where
  "search_ok tables s \<longleftrightarrow> os_permanent s = set (os_order s) \<and> topological tables (os_order s)"

definition progress :: "string set \<Rightarrow> string set \<Rightarrow> order_state \<Rightarrow> order_state \<Rightarrow> bool" where
  "progress temporary names s s' \<longleftrightarrow> names \<subseteq> os_permanent s' \<and> os_permanent s \<subseteq> os_permanent s'
     \<and> os_permanent s' \<inter> temporary = {}"

lemma visit_sound:
  "visit tables temporary name s = Inr s' \<Longrightarrow> search_ok tables s \<Longrightarrow> os_permanent s \<inter> temporary = {} \<Longrightarrow>
     search_ok tables s' \<and> progress temporary {name} s s'"
  "visit_tables tables temporary names s = Inr s' \<Longrightarrow> search_ok tables s \<Longrightarrow> os_permanent s \<inter> temporary = {} \<Longrightarrow>
     search_ok tables s' \<and> progress temporary (set names) s s'"
proof (induction tables temporary name s and tables temporary names s arbitrary: s' and s' rule: visit_visit_tables.induct)
  case (1 tables temporary name s)
  show ?case
  proof (cases "name \<in> os_permanent s")
    case True
    then show ?thesis using 1(2-4) by (simp add: visit.simps progress_def)
  next
    case new: False
    then have notin: "name \<notin> temporary" using 1(2) by (auto simp: visit.simps)
    obtain t s1 where t: "map_of tables name = Some t"
      and s1: "visit_tables tables (insert name temporary) (mt_ModelDependencies t) s = Inr s1" and s': "s' = close_visit name s1"
      using 1(2) new notin by (auto simp: visit.simps split: option.splits sum.splits)
    have "search_ok tables s1 \<and> progress (insert name temporary) (set (mt_ModelDependencies t)) s s1"
      using 1(1) [OF new notin t s1 1(3)] 1(4) new by simp
    then have ok: "os_permanent s1 = set (os_order s1)" "topological tables (os_order s1)" "set (mt_ModelDependencies t) \<subseteq> set (os_order s1)"
        "name \<notin> set (os_order s1)" "os_permanent s \<subseteq> os_permanent s1" "os_permanent s1 \<inter> temporary = {}"
      by (auto simp: search_ok_def progress_def)
    show ?thesis
      using ok notin topological_snoc [OF ok(2,4) t ok(3)] by (auto simp: s' close_visit_def search_ok_def progress_def)
  qed
next
  case (2 tables temporary s)
  then show ?case by (simp add: progress_def)
next
  case (3 tables temporary name names s)
  obtain s1 where s1: "visit tables temporary name s = Inr s1" "visit_tables tables temporary names s1 = Inr s'"
    using 3(3) by (auto split: sum.splits)
  have a: "search_ok tables s1 \<and> progress temporary {name} s s1" using 3(1) [OF s1(1) 3(4,5)] .
  then have "os_permanent s1 \<inter> temporary = {}" by (simp add: progress_def)
  then have "search_ok tables s' \<and> progress temporary (set names) s1 s'" using 3(2) [OF s1(1) s1(2)] a by blast
  then show ?case using a by (auto simp: progress_def)
qed

text \<open>What an error means.\<close>

definition error_cause :: "model_tables \<Rightarrow> string set \<Rightarrow> plan_error \<Rightarrow> bool" where
  "error_cause tables names e \<longleftrightarrow>
     (case e of
        ErrCycle name \<Rightarrow> (name, name) \<in> (depends tables)\<^sup>+
      | ErrUnknownTable name \<Rightarrow> map_of tables name = None \<and> (name \<in> names \<or> (\<exists>a. (a, name) \<in> depends tables))
      | ErrPlan _ \<Rightarrow> False)"

lemma visit_error:
  "visit tables temporary name s = Inl e \<Longrightarrow> \<forall>a\<in>temporary. (a, name) \<in> (depends tables)\<^sup>+ \<Longrightarrow> error_cause tables {name} e"
  "visit_tables tables temporary names s = Inl e \<Longrightarrow> \<forall>name\<in>set names. \<forall>a\<in>temporary. (a, name) \<in> (depends tables)\<^sup>+ \<Longrightarrow>
     error_cause tables (set names) e"
proof (induction tables temporary name s and tables temporary names s rule: visit_visit_tables.induct)
  case (1 tables temporary name s)
  have new: "name \<notin> os_permanent s" using 1(2) by (auto simp: visit.simps)
  show ?case
  proof (cases "name \<in> temporary")
    case True
    then show ?thesis using 1(2,3) new by (auto simp: visit.simps error_cause_def)
  next
    case notin: False
    show ?thesis
    proof (cases "map_of tables name")
      case None
      then show ?thesis using 1(2) new notin by (auto simp: visit.simps error_cause_def)
    next
      case (Some t)
      then have e: "visit_tables tables (insert name temporary) (mt_ModelDependencies t) s = Inl e"
        using 1(2) new notin by (auto simp: visit.simps split: sum.splits)
      have dep: "(name, d) \<in> depends tables" if "d \<in> set (mt_ModelDependencies t)" for d
        using that Some by (simp add: depends_def dependencies_def)
      have "\<forall>d\<in>set (mt_ModelDependencies t). \<forall>a\<in>insert name temporary. (a, d) \<in> (depends tables)\<^sup>+"
        using dep 1(3) by (auto intro: trancl_into_trancl)
      then have "error_cause tables (set (mt_ModelDependencies t)) e" using 1(1) [OF new notin Some e] by blast
      then show ?thesis using dep by (auto simp: error_cause_def split: plan_error.splits)
    qed
  qed
next
  case (3 tables temporary name names s)
  show ?case
  proof (cases "visit tables temporary name s")
    case (Inl e')
    then have "error_cause tables {name} e" using 3(1) 3(3,4) by simp
    then show ?thesis by (auto simp: error_cause_def split: plan_error.splits)
  next
    case (Inr s1)
    then have "error_cause tables (set names) e" using 3(2) [OF Inr] 3(3,4) by simp
    then show ?thesis by (auto simp: error_cause_def split: plan_error.splits)
  qed
qed simp

text \<open>A topological order of all tables rules out cycles and unknown tables.\<close>

lemma topological_order_wf:
  assumes "topological tables order" "dom (map_of tables) \<subseteq> set order"
  shows "acyclic (depends tables)" "b \<in> dependencies tables a \<Longrightarrow> b \<in> dom (map_of tables)"
proof -
  have split: "\<exists>before after. order = before @ a # after \<and> dependencies tables a \<subseteq> set before" if "b \<in> dependencies tables a" for a b
  proof -
    have "a \<in> set order" using that assms(2) by (auto simp: dependencies_def split: option.splits)
    then show ?thesis using assms(1) unfolding topological_def by (metis split_list)
  qed
  show "b \<in> dom (map_of tables)" if dep: "b \<in> dependencies tables a"
  proof -
    obtain before after where "order = before @ a # after" "dependencies tables a \<subseteq> set before" using split [OF dep] by blast
    then have "b \<in> set order" using dep by auto
    then show ?thesis using assms(1) by (auto simp: topological_def)
  qed
  define pos where "pos a = length (takeWhile (\<lambda>x. x \<noteq> a) order)" for a
  have "pos b < pos a" if dep: "(a, b) \<in> depends tables" for a b
  proof -
    obtain before after where o: "order = before @ a # after" "b \<in> set before"
      using split [of b a] dep by (auto simp: depends_def)
    have "a \<notin> set before" using assms(1) o(1) by (auto simp: topological_def)
    then have "takeWhile (\<lambda>x. x \<noteq> a) order = before" unfolding o(1) by (subst takeWhile_append2) auto
    moreover have "takeWhile (\<lambda>x. x \<noteq> b) order = takeWhile (\<lambda>x. x \<noteq> b) before"
      unfolding o(1) using o(2) by (rule takeWhile_append1) simp
    moreover have "length (takeWhile (\<lambda>x. x \<noteq> b) before) < length before" using o(2) by (induction before) auto
    ultimately show ?thesis by (simp add: pos_def)
  qed
  then have "depends tables \<subseteq> (measure pos)\<inverse>" by (auto simp: depends_def)
  then have "(depends tables)\<inverse> \<subseteq> measure pos" by blast
  then have "wf ((depends tables)\<inverse>)" by (rule wf_subset [OF wf_measure])
  then show "acyclic (depends tables)" using wf_acyclic acyclic_converse by blast
qed

section \<open>Properties\<close>

text \<open>
  C33. The tables of a model have a refresh order exactly if every dependency is a table of the model
  and no table depends on itself, directly or through others. The order then lists every table
  once, each after all tables it depends on. Otherwise the error names a table on a cycle, or a
  dependency that is no table.
\<close>

theorem table_order_topological:
  "case modelTableOrder (Some tables) of
     Inr order \<Rightarrow> acyclic (depends tables) \<and> (\<Union>a. dependencies tables a) \<subseteq> set (map fst tables)
       \<and> set order = set (map fst tables) \<and> topological tables order
   | Inl (ErrCycle name) \<Rightarrow> (name, name) \<in> (depends tables)\<^sup>+
   | Inl (ErrUnknownTable name) \<Rightarrow> name \<notin> set (map fst tables) \<and> (\<exists>a. name \<in> dependencies tables a)
   | Inl (ErrPlan _) \<Rightarrow> False"
proof (cases "visit_tables tables {} (TableNames tables) \<lparr>os_permanent = {}, os_order = []\<rparr>")
  case (Inl e)
  have names: "map_of tables name = None \<longleftrightarrow> name \<notin> set (TableNames tables)" for name
    by (simp add: TableNames_def sort_strings_props map_of_eq_None_iff)
  have "error_cause tables (set (TableNames tables)) e" using visit_error(2) [OF Inl] by simp
  then show ?thesis using Inl names
    by (auto simp: modelTableOrder_def error_cause_def depends_def map_of_eq_None_iff split: plan_error.splits)
next
  case (Inr s)
  have names: "set (TableNames tables) = set (map fst tables)" by (simp add: TableNames_def sort_strings_props)
  have "search_ok tables s \<and> progress {} (set (TableNames tables)) \<lparr>os_permanent = {}, os_order = []\<rparr> s"
    using visit_sound(2) [OF Inr] by (simp add: search_ok_def topological_Nil)
  then have s: "topological tables (os_order s)" "set (map fst tables) \<subseteq> set (os_order s)" using names by (auto simp: search_ok_def progress_def)
  then have all: "set (os_order s) = set (map fst tables)" "dom (map_of tables) \<subseteq> set (os_order s)"
    by (auto simp: topological_def dom_map_of_conv_image_fst)
  have "(\<Union>a. dependencies tables a) \<subseteq> set (map fst tables)"
    using topological_order_wf(2) [OF s(1) all(2)] by (auto simp: dom_map_of_conv_image_fst)
  then show ?thesis
    using Inr s(1) all topological_order_wf(1) [OF s(1) all(2)] by (simp add: modelTableOrder_def)
qed

end
