(* ===== verification/Relationship_Paths.thy ===== *)
theory Relationship_Paths
  imports Text_Order
begin

text \<open>
  Safe join paths of a semantic model, \<open>internal/analytics/model/relationships.go\<close>: the search for the
  relationships that lead from a base table to a target table without multiplying rows of the
  base. Of a model the search reads the list of its relationships.
\<close>

section \<open>Data\<close>

datatype path_error = ErrField string | ErrNoPath string string | ErrAmbiguous string string

record relationship =
  rl_ID :: string
  rl_Description :: string
  rl_From :: string
  rl_To :: string
  rl_Cardinality :: string

record relationship_edge =
  ed_Table :: string
  ed_Relationship :: relationship

record path_candidate =
  pc_Table :: string
  pc_Path :: "relationship list"
  pc_Visited :: "string set"

section \<open>Field references\<close>

text \<open>\<open>strings.Split\<close> at every full stop.\<close>

fun split_dots :: "string \<Rightarrow> string list" where
  "split_dots [] = [[]]"
| "split_dots (c # s) =
    (if c = CHR ''.'' then [] # split_dots s
     else case split_dots s of [] \<Rightarrow> [[c]] | part # parts \<Rightarrow> (c # part) # parts)"

definition semanticIdentifierPattern :: "string \<Rightarrow> bool" where
  "semanticIdentifierPattern s \<longleftrightarrow>
    (let letter = (\<lambda>c. is_upper c \<or> is_lower c \<or> c = CHR ''_'') in
     case s of [] \<Rightarrow> False | c # cs \<Rightarrow> letter c \<and> list_all (\<lambda>c. letter c \<or> is_digit c) cs)"

definition splitSemanticField :: "string \<Rightarrow> path_error + string \<times> string" where
  "splitSemanticField ref =
    (case split_dots ref of
       [table, field] \<Rightarrow>
         if \<not> semanticIdentifierPattern table then Inl (ErrField ''table is invalid'')
         else if \<not> semanticIdentifierPattern field then Inl (ErrField ''field is invalid'')
         else Inr (table, field)
     | _ \<Rightarrow> Inl (ErrField ''field must be qualified as table.field''))"

section \<open>Edges\<close>

definition semanticSafeCardinality :: "string \<Rightarrow> bool" where
  "semanticSafeCardinality cardinality \<longleftrightarrow> cardinality = ''many_to_one'' \<or> cardinality = ''one_to_one''"

definition semanticSafeEdgeFrom :: "string \<Rightarrow> relationship \<Rightarrow> relationship_edge option" where
  "semanticSafeEdgeFrom table r =
    (case splitSemanticField (rl_From r) of
       Inl _ \<Rightarrow> None
     | Inr (fromTable, _) \<Rightarrow>
    (case splitSemanticField (rl_To r) of
       Inl _ \<Rightarrow> None
     | Inr (toTable, _) \<Rightarrow>
         if fromTable = table \<and> semanticSafeCardinality (rl_Cardinality r)
         then Some \<lparr>ed_Table = toTable, ed_Relationship = r\<rparr>
         else if rl_Cardinality r = ''one_to_one'' \<and> toTable = table
         then Some \<lparr>ed_Table = fromTable, ed_Relationship = r\<rparr>
         else None))"

text \<open>
  The comparison function of \<open>sort.Slice\<close>. The order of edges equal in all four texts is left open by
  the library; here they stay in the order of the model.
\<close>

definition edge_before :: "relationship_edge \<Rightarrow> relationship_edge \<Rightarrow> bool" where
  "edge_before a b =
    (let r = ed_Relationship a; q = ed_Relationship b; before = (\<lambda>s t. s \<noteq> t \<and> text_le s t) in
     if ed_Table a \<noteq> ed_Table b then before (ed_Table a) (ed_Table b)
     else if rl_ID r \<noteq> rl_ID q then before (rl_ID r) (rl_ID q)
     else if rl_From r \<noteq> rl_From q then before (rl_From r) (rl_From q)
     else before (rl_To r) (rl_To q))"

fun insert_edge :: "relationship_edge \<Rightarrow> relationship_edge list \<Rightarrow> relationship_edge list" where
  "insert_edge a [] = [a]"
| "insert_edge a (b # bs) = (if edge_before b a then b # insert_edge a bs else a # b # bs)"

definition safeEdgesFrom :: "relationship list \<Rightarrow> string \<Rightarrow> relationship_edge list" where
  "safeEdgesFrom relationships table =
     foldr insert_edge (List.map_filter (semanticSafeEdgeFrom table) relationships) []"

lemma insert_edge_set: "set (insert_edge a es) = insert a (set es)"
  by (induction es) auto

lemma insert_edge_distinct: "distinct (insert_edge a es) \<longleftrightarrow> a \<notin> set es \<and> distinct es"
  by (induction es) (auto simp: insert_edge_set)

lemma insert_edges: "set (foldr insert_edge es []) = set es" "distinct (foldr insert_edge es []) = distinct es"
  by (induction es) (auto simp: insert_edge_set insert_edge_distinct)

lemma set_map_filter: "set (List.map_filter f xs) = {y. \<exists>x\<in>set xs. f x = Some y}"
  by (induction xs) (auto simp: map_filter_simps split: option.splits)

lemma safeEdgesFrom_set: "edge \<in> set (safeEdgesFrom rels table) \<longleftrightarrow> (\<exists>r\<in>set rels. semanticSafeEdgeFrom table r = Some edge)"
  by (auto simp: safeEdgesFrom_def insert_edges set_map_filter)

lemma semanticSafeEdgeFrom_relationship: "semanticSafeEdgeFrom table r = Some edge \<Longrightarrow> ed_Relationship edge = r"
  by (auto simp: semanticSafeEdgeFrom_def split: sum.splits if_splits)

lemma safeEdgesFrom_distinct: "distinct rels \<Longrightarrow> distinct (safeEdgesFrom rels table)"
proof -
  have "distinct (List.map_filter (semanticSafeEdgeFrom table) rs)" if "distinct rs" for rs
    using that
  proof (induction rs)
    case (Cons r rs)
    then show ?case
      by (auto simp: map_filter_simps set_map_filter split: option.splits dest!: semanticSafeEdgeFrom_relationship)
  qed (simp add: map_filter_simps)
  then show "distinct rels \<Longrightarrow> distinct (safeEdgesFrom rels table)" by (simp add: safeEdgesFrom_def insert_edges)
qed

section \<open>The search\<close>

definition edge_tables :: "relationship list \<Rightarrow> string set" where
  "edge_tables rels = (\<Union>r\<in>set rels. \<Union>table. ed_Table ` set_option (semanticSafeEdgeFrom table r))"

lemma finite_edge_tables: "finite (edge_tables rels)"
proof -
  have "ed_Table ` set_option (semanticSafeEdgeFrom table r)
      \<subseteq> (case splitSemanticField (rl_From r) of Inl _ \<Rightarrow> {} | Inr (t, _) \<Rightarrow> {t})
        \<union> (case splitSemanticField (rl_To r) of Inl _ \<Rightarrow> {} | Inr (t, _) \<Rightarrow> {t})" for table r
    by (auto simp: semanticSafeEdgeFrom_def split: sum.splits if_splits)
  then have "(\<Union>table. ed_Table ` set_option (semanticSafeEdgeFrom table r))
      \<subseteq> (case splitSemanticField (rl_From r) of Inl _ \<Rightarrow> {} | Inr (t, _) \<Rightarrow> {t})
        \<union> (case splitSemanticField (rl_To r) of Inl _ \<Rightarrow> {} | Inr (t, _) \<Rightarrow> {t})" for r
    by blast
  then have "finite (\<Union>table. ed_Table ` set_option (semanticSafeEdgeFrom table r))" for r
    by (rule finite_subset) (auto split: sum.split)
  then show ?thesis unfolding edge_tables_def by simp
qed

lemma safe_edges_tables: "ed_Table ` set (safeEdgesFrom rels table) \<subseteq> edge_tables rels"
  unfolding edge_tables_def by (force simp: safeEdgesFrom_set)

definition unvisited :: "relationship list \<Rightarrow> relationship_edge list \<Rightarrow> path_candidate \<Rightarrow> nat" where
  "unvisited rels edges candidate = card ((edge_tables rels \<union> ed_Table ` set edges) - pc_Visited candidate)"

lemma unvisited_start: "unvisited rels (safeEdgesFrom rels t) c = unvisited rels [] c"
  using safe_edges_tables [of rels t] by (simp add: unvisited_def Un_absorb2)

lemma unvisited_tail: "unvisited rels edges c \<le> unvisited rels (edge # edges) c"
  unfolding unvisited_def by (rule card_mono) (auto simp: finite_edge_tables)

lemma unvisited_visit:
  "ed_Table edge \<notin> pc_Visited c \<Longrightarrow>
    unvisited rels [] \<lparr>pc_Table = t, pc_Path = p, pc_Visited = insert (ed_Table edge) (pc_Visited c)\<rparr> < unvisited rels (edge # edges) c"
  unfolding unvisited_def by (rule psubset_card_mono) (auto simp: finite_edge_tables)

text \<open>\<open>walk\<close> and its loop over the edges; \<open>matches\<close> is the state, and a walk ends once it has two.\<close>

function (sequential)
  walk :: "relationship list \<Rightarrow> string \<Rightarrow> path_candidate \<Rightarrow> relationship list list \<Rightarrow> relationship list list" and
  walk_edges :: "relationship list \<Rightarrow> string \<Rightarrow> path_candidate \<Rightarrow> relationship_edge list \<Rightarrow> relationship list list \<Rightarrow> relationship list list" where
  "walk rels target candidate matches =
    (if length matches > 1 then matches
     else walk_edges rels target candidate (safeEdgesFrom rels (pc_Table candidate)) matches)"
| "walk_edges rels target candidate [] matches = matches"
| "walk_edges rels target candidate (edge # edges) matches =
    (if length matches > 1 then matches
     else if ed_Table edge \<in> pc_Visited candidate then walk_edges rels target candidate edges matches
     else
       let path = pc_Path candidate @ [ed_Relationship edge] in
       if ed_Table edge = target then walk_edges rels target candidate edges (matches @ [path])
       else
         walk_edges rels target candidate edges
           (walk rels target
              \<lparr>pc_Table = ed_Table edge, pc_Path = path, pc_Visited = insert (ed_Table edge) (pc_Visited candidate)\<rparr> matches))"
  by pat_completeness auto

termination
  by (relation "measures [case_sum (\<lambda>(rels, _, c, _). unvisited rels [] c) (\<lambda>(rels, _, c, edges, _). unvisited rels edges c),
      case_sum (\<lambda>(rels, _, c, _). Suc (length (safeEdgesFrom rels (pc_Table c)))) (\<lambda>(_, _, _, edges, _). length edges)]")
    (auto simp: unvisited_start unvisited_visit le_neq_implies_less [OF unvisited_tail])

declare walk.simps [simp del]

definition safeRelationshipPaths :: "relationship list \<Rightarrow> string \<Rightarrow> string \<Rightarrow> relationship list list" where
  "safeRelationshipPaths rels base target = walk rels target \<lparr>pc_Table = base, pc_Path = [], pc_Visited = {base}\<rparr> []"

definition SafeRelationshipPath :: "relationship list \<Rightarrow> string \<Rightarrow> string \<Rightarrow> path_error + relationship list" where
  "SafeRelationshipPath rels base target =
    (if base = target then Inr []
     else case safeRelationshipPaths rels base target of
       [] \<Rightarrow> Inl (ErrNoPath base target)
     | [path] \<Rightarrow> Inr path
     | _ \<Rightarrow> Inl (ErrAmbiguous base target))"

section \<open>Join paths\<close>

text \<open>
  The specification. A step of a join goes from a table on the many side of a relationship to the
  table on its one side, or along a one-to-one relationship in either direction; so for each row of
  the table it leaves there is at most one row of the table it enters. A safe join path is a
  sequence of such steps that enters no table twice.
\<close>

definition grain_step :: "string \<Rightarrow> relationship \<Rightarrow> string \<Rightarrow> bool" where
  "grain_step t r u \<longleftrightarrow> (\<exists>f g.
     splitSemanticField (rl_From r) = Inr (t, f) \<and> splitSemanticField (rl_To r) = Inr (u, g)
       \<and> rl_Cardinality r \<in> {''many_to_one'', ''one_to_one''}
     \<or> splitSemanticField (rl_From r) = Inr (u, g) \<and> splitSemanticField (rl_To r) = Inr (t, f)
       \<and> rl_Cardinality r = ''one_to_one'')"

inductive join_path :: "relationship list \<Rightarrow> string \<Rightarrow> relationship list \<Rightarrow> string list \<Rightarrow> bool" for rels where
  here: "join_path rels t [] []"
| step: "r \<in> set rels \<Longrightarrow> grain_step t r u \<Longrightarrow> join_path rels u p us \<Longrightarrow> join_path rels t (r # p) (u # us)"

inductive_simps join_path_simps [simp]: "join_path rels t [] us" "join_path rels t (r # p) us"

definition safe_join_path :: "relationship list \<Rightarrow> string \<Rightarrow> string \<Rightarrow> relationship list \<Rightarrow> bool" where
  "safe_join_path rels base target p \<longleftrightarrow> (\<exists>us. join_path rels base p us \<and> distinct (base # us) \<and> us \<noteq> [] \<and> last us = target)"

text \<open>From another table than its own, an edge is a step.\<close>

lemma grain_step_edge:
  assumes "u \<noteq> t"
  shows "grain_step t r u \<longleftrightarrow> semanticSafeEdgeFrom t r = Some \<lparr>ed_Table = u, ed_Relationship = r\<rparr>"
  using assms by (auto simp: grain_step_def semanticSafeEdgeFrom_def semanticSafeCardinality_def split: sum.splits)

text \<open>The continuations of a candidate: paths to the target that avoid the tables visited.\<close>

definition continues :: "relationship list \<Rightarrow> string \<Rightarrow> string set \<Rightarrow> string \<Rightarrow> relationship list \<Rightarrow> bool" where
  "continues rels target visited t q \<longleftrightarrow>
     (\<exists>us. join_path rels t q us \<and> distinct us \<and> set us \<inter> visited = {} \<and> us \<noteq> [] \<and> last us = target)"

lemma continues_Nil: "\<not> continues rels target visited t []"
  by (auto simp: continues_def)

lemma continues_Cons:
  assumes "t \<in> visited" "target \<notin> visited"
  shows "continues rels target visited t (r # q) \<longleftrightarrow> (\<exists>u. r \<in> set rels \<and> u \<notin> visited
     \<and> semanticSafeEdgeFrom t r = Some \<lparr>ed_Table = u, ed_Relationship = r\<rparr>
     \<and> (if u = target then q = [] else continues rels target (insert u visited) u q))"
    (is "_ \<longleftrightarrow> ?rhs")
proof
  assume "continues rels target visited t (r # q)"
  then obtain u us where u: "r \<in> set rels" "grain_step t r u" "join_path rels u q us" "distinct (u # us)" "set (u # us) \<inter> visited = {}"
      "last (u # us) = target" by (auto simp: continues_def)
  then have edge: "semanticSafeEdgeFrom t r = Some \<lparr>ed_Table = u, ed_Relationship = r\<rparr>" using assms(1) grain_step_edge [of u t r] by auto
  have "us = []" if "u = target" using u(4,6) that by (metis distinct.simps(2) last.simps last_in_set)
  then have "if u = target then q = [] else continues rels target (insert u visited) u q"
    using u(3-6) by (auto simp: continues_def elim: join_path.cases)
  then show ?rhs using u edge by auto
next
  assume ?rhs
  then obtain u where u: "r \<in> set rels" "u \<notin> visited" "semanticSafeEdgeFrom t r = Some \<lparr>ed_Table = u, ed_Relationship = r\<rparr>"
    "if u = target then q = [] else continues rels target (insert u visited) u q" by auto
  then have step: "grain_step t r u" using grain_step_edge [of u t r] assms(1) by auto
  show "continues rels target visited t (r # q)"
  proof (cases "u = target")
    case True
    then have "join_path rels t (r # q) [u]" using u step by simp
    then show ?thesis unfolding continues_def using True u(2) by (intro exI [of _ "[u]"]) auto
  next
    case False
    then obtain us where "join_path rels u q us" "distinct us" "set us \<inter> insert u visited = {}" "us \<noteq> []" "last us = target"
      using u(4) by (auto simp: continues_def)
    then show ?thesis unfolding continues_def using u(1,2) step by (intro exI [of _ "u # us"]) auto
  qed
qed

text \<open>What a search from a candidate is to find: all of it, or two.\<close>

definition sols :: "relationship list \<Rightarrow> string \<Rightarrow> path_candidate \<Rightarrow> relationship list set" where
  "sols rels target c = (@) (pc_Path c) ` {q. continues rels target (pc_Visited c) (pc_Table c) q}"

definition sols_by :: "relationship list \<Rightarrow> string \<Rightarrow> path_candidate \<Rightarrow> relationship_edge list \<Rightarrow> relationship list set" where
  "sols_by rels target c edges = (@) (pc_Path c) ` {q. continues rels target (pc_Visited c) (pc_Table c) q \<and> hd q \<in> ed_Relationship ` set edges}"

definition search_result :: "'a list \<Rightarrow> 'a list \<Rightarrow> 'a set \<Rightarrow> bool" where
  "search_result ms ms' S \<longleftrightarrow> (\<exists>xs. ms' = ms @ xs \<and> distinct xs \<and> set xs \<subseteq> S \<and> (length ms' \<le> 1 \<longrightarrow> set xs = S))"

lemma search_result_enough: "length ms > 1 \<Longrightarrow> search_result ms ms S"
  by (auto simp: search_result_def)

lemma search_result_none: "search_result ms ms {}"
  by (auto simp: search_result_def)

lemma search_result_one: "search_result ms (ms @ [x]) {x}"
  unfolding search_result_def by (intro exI [of _ "[x]"]) simp

lemma search_result_union:
  assumes "search_result ms ms' S" "search_result ms' ms'' T" "S \<inter> T = {}"
  shows "search_result ms ms'' (S \<union> T)"
proof -
  obtain xs ys where xs: "ms' = ms @ xs" "distinct xs" "set xs \<subseteq> S" "length ms' \<le> 1 \<longrightarrow> set xs = S"
    and ys: "ms'' = ms' @ ys" "distinct ys" "set ys \<subseteq> T" "length ms'' \<le> 1 \<longrightarrow> set ys = T"
    using assms(1,2) by (auto simp: search_result_def)
  have "set xs \<inter> set ys = {}" using xs(3) ys(3) assms(3) by blast
  moreover have "set xs \<union> set ys = S \<union> T" if "length ms'' \<le> 1" using xs(4) ys(1,4) that by simp
  ultimately show ?thesis
    unfolding search_result_def using xs ys by (intro exI [of _ "xs @ ys"]) auto
qed

lemma sols_by_Nil: "sols_by rels target c [] = {}"
  by (simp add: sols_by_def)

lemma sols_by_all:
  assumes "pc_Table c \<in> pc_Visited c" "target \<notin> pc_Visited c"
  shows "sols_by rels target c (safeEdgesFrom rels (pc_Table c)) = sols rels target c"
proof -
  have "hd q \<in> ed_Relationship ` set (safeEdgesFrom rels (pc_Table c))"
    if path: "continues rels target (pc_Visited c) (pc_Table c) q" for q
  proof (cases q)
    case (Cons r q')
    then obtain u where "r \<in> set rels" "semanticSafeEdgeFrom (pc_Table c) r = Some \<lparr>ed_Table = u, ed_Relationship = r\<rparr>"
      using path continues_Cons [OF assms] by auto
    then show ?thesis using Cons by (force simp: safeEdgesFrom_set)
  qed (use path continues_Nil in simp)
  then show ?thesis unfolding sols_by_def sols_def by blast
qed

definition child :: "path_candidate \<Rightarrow> relationship_edge \<Rightarrow> path_candidate" where
  "child c edge = \<lparr>pc_Table = ed_Table edge, pc_Path = pc_Path c @ [ed_Relationship edge],
     pc_Visited = insert (ed_Table edge) (pc_Visited c)\<rparr>"

lemma sols_by_Cons:
  assumes "pc_Table c \<in> pc_Visited c" "target \<notin> pc_Visited c"
    and "set (edge # edges) \<subseteq> set (safeEdgesFrom rels (pc_Table c))" "distinct (edge # edges)"
  defines "first \<equiv> if ed_Table edge \<in> pc_Visited c then {}
     else if ed_Table edge = target then {pc_Path c @ [ed_Relationship edge]} else sols rels target (child c edge)"
  shows "sols_by rels target c (edge # edges) = first \<union> sols_by rels target c edges" "first \<inter> sols_by rels target c edges = {}"
proof -
  obtain r where r: "r \<in> set rels" "semanticSafeEdgeFrom (pc_Table c) r = Some edge" using assms(3) by (auto simp: safeEdgesFrom_set)
  then have rel: "ed_Relationship edge = r" by (simp add: semanticSafeEdgeFrom_relationship)
  then have edge: "edge = \<lparr>ed_Table = ed_Table edge, ed_Relationship = r\<rparr>" by simp
  have "e = edge" if "e \<in> set edges" "ed_Relationship e = r" for e
  proof -
    have "e \<in> set (safeEdgesFrom rels (pc_Table c))" using that(1) assms(3) by auto
    then obtain r' where "semanticSafeEdgeFrom (pc_Table c) r' = Some e" unfolding safeEdgesFrom_set by blast
    then show ?thesis using that(2) r(2) semanticSafeEdgeFrom_relationship by fastforce
  qed
  then have other: "r \<notin> ed_Relationship ` set edges" using assms(4) by auto
  have cons: "continues rels target (pc_Visited c) (pc_Table c) (r # q) \<longleftrightarrow> ed_Table edge \<notin> pc_Visited c
      \<and> (if ed_Table edge = target then q = [] else continues rels target (insert (ed_Table edge) (pc_Visited c)) (ed_Table edge) q)" for q
    using r(1,2) edge by (subst continues_Cons [OF assms(1,2)]) auto
  have first: "first = (@) (pc_Path c) ` {q. continues rels target (pc_Visited c) (pc_Table c) q \<and> hd q = r}" (is "_ = ?F")
  proof -
    have "?F = {pc_Path c @ r # q |q. continues rels target (pc_Visited c) (pc_Table c) (r # q)}"
      using continues_Nil by (auto intro!: image_eqI) (metis list.collapse)
    also have "\<dots> = first"
      unfolding cons first_def sols_def child_def by (auto simp: rel)
    finally show ?thesis by simp
  qed
  show "sols_by rels target c (edge # edges) = first \<union> sols_by rels target c edges"
    unfolding first sols_by_def by (auto simp: rel)
  show "first \<inter> sols_by rels target c edges = {}"
    unfolding first sols_by_def using other by auto
qed

lemma walk_search_result:
  assumes "distinct rels"
  shows "pc_Table c \<in> pc_Visited c \<Longrightarrow> target \<notin> pc_Visited c \<Longrightarrow> search_result ms (walk rels target c ms) (sols rels target c)"
    and "pc_Table c \<in> pc_Visited c \<Longrightarrow> target \<notin> pc_Visited c \<Longrightarrow> set edges \<subseteq> set (safeEdgesFrom rels (pc_Table c)) \<Longrightarrow> distinct edges \<Longrightarrow>
      search_result ms (walk_edges rels target c edges ms) (sols_by rels target c edges)"
  using assms
proof (induction rels target c ms and rels target c edges ms rule: walk_walk_edges.induct)
  case (1 rels target c ms)
  show ?case
    using 1 sols_by_all [OF 1(2,3)] safeEdgesFrom_distinct [OF 1(4)] search_result_enough
    by (subst walk.simps) (auto simp: not_less)
next
  case (2 rels target c ms)
  then show ?case by (simp add: sols_by_Nil search_result_none)
next
  case (3 rels target c edge edges ms)
  note parts = sols_by_Cons [OF 3(5-8)]
  show ?case
  proof (cases "length ms > 1")
    case True
    then show ?thesis by (simp add: search_result_enough)
  next
    case few: False
    have rest: "set edges \<subseteq> set (safeEdgesFrom rels (pc_Table c))" "distinct edges" using 3(7,8) by simp_all
    show ?thesis
    proof (cases "ed_Table edge \<in> pc_Visited c")
      case True
      then show ?thesis using 3(1) [OF few True 3(5,6) rest 3(9)] few parts by simp
    next
      case new: False
      show ?thesis
      proof (cases "ed_Table edge = target")
        case True
        have "search_result (ms @ [pc_Path c @ [ed_Relationship edge]]) (walk_edges rels target c edges (ms @ [pc_Path c @ [ed_Relationship edge]]))
          (sols_by rels target c edges)" using 3(2) [OF few new refl True 3(5,6) rest 3(9)] .
        from search_result_union [OF search_result_one this] show ?thesis using parts new True few by (simp add: Let_def)
      next
        case False
        have "search_result ms (walk rels target (child c edge) ms) (sols rels target (child c edge))"
          using 3(3) [OF few new refl False] 3(6,9) False by (simp add: child_def)
        moreover have "search_result (walk rels target (child c edge) ms) (walk_edges rels target c edges (walk rels target (child c edge) ms))
            (sols_by rels target c edges)"
          using 3(4) [OF few new refl False 3(5,6) rest 3(9)] by (simp add: child_def)
        ultimately show ?thesis using search_result_union parts new False few by (simp add: Let_def child_def)
      qed
    qed
  qed
qed

lemma sols_start: "sols rels target \<lparr>pc_Table = base, pc_Path = [], pc_Visited = {base}\<rparr> = {p. safe_join_path rels base target p}"
  by (auto simp: sols_def continues_def safe_join_path_def)

section \<open>Properties\<close>

text \<open>
  C34. The search for a join path decides whether a safe join path is unique: between two different
  tables it returns a path exactly if that is the only safe join path, it reports that there is
  none exactly if there is none, and it reports ambiguity exactly if there are two or more. A table
  is reached from itself by the empty path. (The relationships of a validated model are
  pairwise different.)
\<close>

theorem safe_path_unique:
  assumes "distinct rels"
  shows "case SafeRelationshipPath rels base target of
      Inr path \<Rightarrow> if base = target then path = [] else {p. safe_join_path rels base target p} = {path}
    | Inl e \<Rightarrow> base \<noteq> target \<and>
        (e = ErrNoPath base target \<and> {p. safe_join_path rels base target p} = {}
         \<or> e = ErrAmbiguous base target \<and> (\<exists>p q. p \<noteq> q \<and> safe_join_path rels base target p \<and> safe_join_path rels base target q))"
proof (cases "base = target")
  case True
  then show ?thesis by (simp add: SafeRelationshipPath_def)
next
  case False
  let ?S = "{p. safe_join_path rels base target p}"
  have "search_result [] (safeRelationshipPaths rels base target) ?S"
    using walk_search_result(1) [OF assms, of "\<lparr>pc_Table = base, pc_Path = [], pc_Visited = {base}\<rparr>" target] False
    by (simp add: safeRelationshipPaths_def sols_start)
  then obtain xs where xs: "safeRelationshipPaths rels base target = xs" "distinct xs" "set xs \<subseteq> ?S" "length xs \<le> 1 \<Longrightarrow> set xs = ?S"
    by (auto simp: search_result_def)
  consider "xs = []" | p where "xs = [p]" | p q r where "xs = p # q # r" by (metis list.exhaust)
  then show ?thesis
  proof cases
    case 1
    then show ?thesis using xs False by (simp add: SafeRelationshipPath_def)
  next
    case (2 p)
    then show ?thesis using xs False by (simp add: SafeRelationshipPath_def)
  next
    case (3 p q r)
    then have "p \<noteq> q" "safe_join_path rels base target p" "safe_join_path rels base target q" using xs(2,3) by auto
    then show ?thesis using xs(1) 3 False by (auto simp: SafeRelationshipPath_def)
  qed
qed

definition sample_relationships :: "relationship list" where
  "sample_relationships =
     [\<lparr>rl_ID = ''o'', rl_Description = [], rl_From = ''orders.customer'', rl_To = ''customers.id'', rl_Cardinality = ''many_to_one''\<rparr>,
      \<lparr>rl_ID = ''c'', rl_Description = [], rl_From = ''customers.region'', rl_To = ''regions.id'', rl_Cardinality = ''many_to_one''\<rparr>]"

theorem safe_path_unique_witness:
  "{p. safe_join_path sample_relationships ''orders'' ''regions'' p} = {sample_relationships}"
proof -
  have "SafeRelationshipPath sample_relationships ''orders'' ''regions'' = Inr sample_relationships"
    by code_simp
  then show ?thesis using safe_path_unique [of sample_relationships "''orders''" "''regions''"] by (simp add: sample_relationships_def)
qed

end
