(* ===== verification/Refresh_Coordinator.thy ===== *)
theory Refresh_Coordinator
  imports Filter_Machine Complex_Main
begin

text \<open>
  The refresh coordinator of a page stream, \<open>internal/dashboard/stream/coordinator.go\<close>: the
  canonical filters of a rendered page, its generations of refreshes, and the events and summaries
  it publishes. Every definition below is one critical section of the code, between taking and
  releasing the mutex; the goroutines that call them are the steps of \<open>Refresh_Coordinator_Safety\<close>.

  Values the coordinator only carries (selections, envelopes' contents) are opaque types. A
  \<open>float64\<close> is a rational number, an infinity or not a number; timings are not modelled.
\<close>

section \<open>Data\<close>

typedecl interaction_selection
typedecl spatial_selection
typedecl envelope_content

datatype stream_error =
    ErrCoordinatorClosed
  | ErrStalePreparation
  | ErrStream string
  | WorkError string bool \<comment> \<open>an error of the work, and whether it asks for setup\<close>

record filters =
  fl_Selections :: "interaction_selection list option"
  fl_SpatialSelections :: "spatial_selection list option"
  fl_InteractionRevision :: "64 word"
  fl_CompiledState :: "filter_state option"
  fl_ServingStateID :: string
  fl_ActivePageID :: string
  fl_DataRevisions :: "(string \<rightharpoonup> int) option"

text \<open>Envelopes of visualizations: the revisions stamped on them, and the rest.\<close>

record data_stamp =
  ds_DataRevision :: int
  ds_Generation :: int

datatype data_state =
    InlineState data_stamp "data_stamp list"
  | WindowedState data_stamp
  | SpatialWindowedState data_stamp
  | NilState
  | OtherState

record envelope =
  en_DataRevision :: int
  en_DataState :: data_state
  en_Selection :: "int list" \<comment> \<open>the data revisions of the selected data\<close>
  en_Content :: envelope_content

datatype event_value = NoValue | EnvelopeValue envelope | OtherValue

datatype event_type =
    RefreshEventStart | RefreshEventVisual | RefreshEventVisualMetadata | RefreshEventTargetError
  | RefreshEventCacheOutcome | RefreshEventProgress | RefreshEventComplete | RefreshEventOther string

datatype go_float = NotANumber | Infinite bool | Finite rat

record refresh_event =
  ev_Type :: event_type
  ev_RefreshID :: nat
  ev_Generation :: "64 word"
  ev_DataRevision :: int
  ev_FilterRevision :: int
  ev_ServingStateID :: string
  ev_Command :: string
  ev_Filters :: "filters option"
  ev_Targets :: "string list"
  ev_Target :: string
  ev_Value :: event_value
  ev_Err :: "stream_error option"
  ev_Queries :: int
  ev_CacheOutcome :: string
  ev_ProgressPercent :: "go_float option"

record refresh =
  rf_ID :: nat
  rf_Generation :: "64 word"
  rf_Command :: string
  rf_Filters :: filters
  rf_Targets :: "string list"

record preparation =
  pr_Filters :: filters
  pr_Command :: string
  pr_Targets :: "string list"
  pr_SequenceKey :: string
  pr_Sequence :: int
  pr_SequenceEpoch :: int
  pr_Generation :: "64 word"

record refresh_summary =
  su_RefreshID :: nat
  su_Generation :: "64 word"
  su_Command :: string
  su_ServingStateID :: string
  su_FilterRevision :: "64 word"
  su_AffectedTargets :: "string list"
  su_PlannedTargets :: nat
  su_VisualCount :: int
  su_OptionCount :: int
  su_CurrentCount :: int
  su_StaleCount :: int
  su_TargetSuccesses :: int
  su_TargetErrors :: int
  su_QueryCount :: int
  su_CancellationCount :: int
  su_CancellationReason :: string
  su_CacheOutcomes :: "string \<rightharpoonup> int"
  su_Outcome :: string

record preparation_sequence =
  ps_epoch :: int
  ps_sequence :: int

record active_refresh =
  ar_refresh :: refresh
  ar_queryCount :: int
  ar_targetSuccesses :: int
  ar_targetErrors :: int
  ar_visualCount :: int
  ar_optionCount :: int
  ar_plannedTargets :: nat
  ar_firstTargetErr :: "stream_error option"
  ar_setupRequiredErr :: "stream_error option"
  ar_refreshError :: "stream_error option"
  ar_cacheOutcomes :: "string \<rightharpoonup> int"
  ar_progressPercent :: "go_float option"

text \<open>
  \<open>ctxDone\<close> says whether the context of the coordinator is done; \<open>workStarted\<close> whether \<open>workCancel\<close>
  is set. The next value of the process-wide counter of refresh identifiers is an argument of
  \<open>BeginPrepared\<close>.
\<close>

record coordinator =
  co_ctxDone :: bool
  co_workStarted :: bool
  co_filters :: filters
  co_generation :: "64 word"
  co_revisions :: "string \<rightharpoonup> int"
  co_sequences :: "string \<rightharpoonup> preparation_sequence"
  co_closed :: bool
  co_active :: "active_refresh option"

section \<open>Filters\<close>

definition WithDefaults :: "filters \<Rightarrow> filters" where
  "WithDefaults f = f\<lparr>fl_Selections := Some (case fl_Selections f of None \<Rightarrow> [] | Some xs \<Rightarrow> xs),
     fl_SpatialSelections := Some (case fl_SpatialSelections f of None \<Rightarrow> [] | Some xs \<Rightarrow> xs)\<rparr>"

definition cloneFilters :: "filters \<Rightarrow> filters" where
  "cloneFilters f = WithDefaults (f\<lparr>fl_DataRevisions := Some (case fl_DataRevisions f of None \<Rightarrow> Map.empty | Some m \<Rightarrow> m)\<rparr>)"

definition no_filters :: filters where
  "no_filters = \<lparr>fl_Selections = None, fl_SpatialSelections = None, fl_InteractionRevision = 0, fl_CompiledState = None,
     fl_ServingStateID = [], fl_ActivePageID = [], fl_DataRevisions = None\<rparr>"

definition NewCoordinator :: coordinator where
  "NewCoordinator = \<lparr>co_ctxDone = False, co_workStarted = False, co_filters = cloneFilters (WithDefaults no_filters),
     co_generation = 0, co_revisions = Map.empty, co_sequences = Map.empty, co_closed = False, co_active = None\<rparr>"

section \<open>Progress\<close>

definition NormalizeProgressPercent :: "go_float option \<Rightarrow> bool \<Rightarrow> go_float" where
  "NormalizeProgressPercent percent loading =
    (case percent of
       Some (Finite q) \<Rightarrow> Finite (max 0 (min 100 q))
     | _ \<Rightarrow> Finite (if loading then 0 else 100))"

text \<open>\<open><\<close> on \<open>float64\<close>.\<close>

fun float_less :: "go_float \<Rightarrow> go_float \<Rightarrow> bool" where
  "float_less (Finite a) (Finite b) = (a < b)"
| "float_less (Finite _) (Infinite positive) = positive"
| "float_less (Infinite positive) (Finite _) = (\<not> positive)"
| "float_less (Infinite a) (Infinite b) = (\<not> a \<and> b)"
| "float_less _ _ = False"

definition progressRegresses :: "go_float option \<Rightarrow> go_float option \<Rightarrow> bool" where
  "progressRegresses current nxt =
    (case current of None \<Rightarrow> False | Some c \<Rightarrow> (case nxt of None \<Rightarrow> True | Some n \<Rightarrow> float_less n c))"

section \<open>Summaries\<close>

definition summaryLocked :: "active_refresh \<Rightarrow> string \<Rightarrow> int \<Rightarrow> string \<Rightarrow> refresh_summary" where
  "summaryLocked active result cancellationCount cancellationReason =
    (let result =
       (if result = ''complete'' then
          if ar_refreshError active \<noteq> None then ''error''
          else if ar_targetErrors active > 0 \<and> ar_targetSuccesses active > 0 then ''partial''
          else if ar_targetErrors active > 0 then ''error''
          else result
        else result) in
     \<lparr>su_RefreshID = rf_ID (ar_refresh active), su_Generation = rf_Generation (ar_refresh active),
      su_Command = rf_Command (ar_refresh active), su_ServingStateID = fl_ServingStateID (rf_Filters (ar_refresh active)),
      su_FilterRevision = (case fl_CompiledState (rf_Filters (ar_refresh active)) of None \<Rightarrow> 0 | Some s \<Rightarrow> fs_Revision s),
      su_AffectedTargets = rf_Targets (ar_refresh active), su_PlannedTargets = ar_plannedTargets active,
      su_VisualCount = ar_visualCount active, su_OptionCount = ar_optionCount active,
      su_CurrentCount = ar_targetSuccesses active, su_StaleCount = 0, su_TargetSuccesses = ar_targetSuccesses active,
      su_TargetErrors = ar_targetErrors active, su_QueryCount = ar_queryCount active,
      su_CancellationCount = cancellationCount, su_CancellationReason = cancellationReason,
      su_CacheOutcomes = ar_cacheOutcomes active, su_Outcome = result\<rparr>)"

section \<open>Beginning a refresh\<close>

definition record_sequence :: "preparation \<Rightarrow> coordinator \<Rightarrow> stream_error + coordinator" where
  "record_sequence p c =
    (if pr_SequenceKey p = [] then Inr c
     else if pr_Sequence p \<le> 0 \<or> pr_SequenceEpoch p < 0 then Inl (ErrStream ''invalid preparation sequence'')
     else if (case co_sequences c (pr_SequenceKey p) of
        None \<Rightarrow> False
      | Some current \<Rightarrow> pr_SequenceEpoch p < ps_epoch current
          \<or> pr_SequenceEpoch p = ps_epoch current \<and> pr_Sequence p \<le> ps_sequence current) then Inl ErrStalePreparation
     else Inr (c\<lparr>co_sequences := (co_sequences c)(pr_SequenceKey p \<mapsto>
        \<lparr>ps_epoch = pr_SequenceEpoch p, ps_sequence = pr_Sequence p\<rparr>)\<rparr>))"

text \<open>The active refresh a new one supersedes, and the summary of its cancellation.\<close>

definition cancel_active :: "string \<Rightarrow> coordinator \<Rightarrow> refresh_summary option \<times> coordinator" where
  "cancel_active reason c =
    (case co_active c of
       None \<Rightarrow> (None, c)
     | Some active \<Rightarrow> (Some (summaryLocked active ''canceled'' 1 reason), c\<lparr>co_active := None\<rparr>))"

definition new_active :: "refresh \<Rightarrow> active_refresh" where
  "new_active r = \<lparr>ar_refresh = r, ar_queryCount = 0, ar_targetSuccesses = 0, ar_targetErrors = 0, ar_visualCount = 0,
     ar_optionCount = 0, ar_plannedTargets = length (rf_Targets r), ar_firstTargetErr = None, ar_setupRequiredErr = None,
     ar_refreshError = None, ar_cacheOutcomes = Map.empty, ar_progressPercent = Some (NormalizeProgressPercent None True)\<rparr>"

definition BeginPrepared ::
  "nat \<Rightarrow> (filters \<Rightarrow> stream_error + preparation) \<Rightarrow> coordinator
    \<Rightarrow> (stream_error + refresh \<times> refresh_summary option) \<times> coordinator" where
  "BeginPrepared sequence prepare c =
    (if co_closed c then (Inl ErrCoordinatorClosed, c)
     else case prepare (cloneFilters (co_filters c)) of
       Inl e \<Rightarrow> (Inl e, c)
     | Inr p \<Rightarrow>
     (case record_sequence p c of
        Inl e \<Rightarrow> (Inl e, c)
      | Inr c \<Rightarrow>
          let filters = cloneFilters (WithDefaults (pr_Filters p)) in
          if pr_Generation p > 0 \<and> pr_Generation p \<le> co_generation c
          then (Inl (ErrStream ''refresh generation does not advance''), c)
          else
            let (canceled, c) = (if co_workStarted c then cancel_active ''superseded'' c else (None, c));
                generation = (if pr_Generation p > 0 then pr_Generation p else co_generation c + 1);
                r = \<lparr>rf_ID = sequence, rf_Generation = generation, rf_Command = pr_Command p,
                     rf_Filters = cloneFilters filters, rf_Targets = pr_Targets p\<rparr> in
            (Inr (r, canceled),
             c\<lparr>co_workStarted := True, co_filters := filters, co_generation := generation,
               co_active := Some (new_active r)\<rparr>)))"

text \<open>\<open>Begin\<close> prepares nothing but the filters.\<close>

definition Begin ::
  "nat \<Rightarrow> (filters \<Rightarrow> stream_error + filters) option \<Rightarrow> coordinator \<Rightarrow> (stream_error + refresh \<times> refresh_summary option) \<times> coordinator" where
  "Begin sequence mutate c =
    BeginPrepared sequence (\<lambda>current.
      let preparation = (\<lambda>f. \<lparr>pr_Filters = f, pr_Command = [], pr_Targets = [], pr_SequenceKey = [], pr_Sequence = 0,
            pr_SequenceEpoch = 0, pr_Generation = 0\<rparr>) in
      case mutate of
        None \<Rightarrow> Inr (preparation current)
      | Some change \<Rightarrow> (case change current of Inl e \<Rightarrow> Inl e | Inr f \<Rightarrow> Inr (preparation f))) c"

definition Filters :: "coordinator \<Rightarrow> filters" where
  "Filters c = cloneFilters (co_filters c)"

section \<open>Events\<close>

definition carriesVisualizationData :: "event_type \<Rightarrow> bool" where
  "carriesVisualizationData t \<longleftrightarrow> t = RefreshEventVisual \<or> t = RefreshEventVisualMetadata"

text \<open>
  \<open>ir.WithStreamRevision\<close>; which envelopes \<open>ir.ValidateEnvelope\<close> accepts is the argument \<open>valid\<close>.
\<close>

definition WithStreamRevision :: "(envelope \<Rightarrow> bool) \<Rightarrow> envelope \<Rightarrow> int \<Rightarrow> int \<Rightarrow> stream_error + envelope" where
  "WithStreamRevision valid envelope dataRevision generation =
    (let stamp = (\<lambda>s. s\<lparr>ds_DataRevision := dataRevision, ds_Generation := generation\<rparr>);
         revise = (\<lambda>state.
           let revised = envelope\<lparr>en_DataRevision := dataRevision, en_DataState := state,
                 en_Selection := map (\<lambda>_. dataRevision) (en_Selection envelope)\<rparr> in
           if valid revised then Inr revised else Inl (ErrStream ''invalid envelope'')) in
     if dataRevision < 0 \<or> generation < 0 then Inl (ErrStream ''data revision and generation must be non-negative'')
     else case en_DataState envelope of
       InlineState s datasets \<Rightarrow> revise (InlineState (stamp s) (map stamp datasets))
     | WindowedState s \<Rightarrow> revise (WindowedState (stamp s))
     | SpatialWindowedState s \<Rightarrow> revise (SpatialWindowedState (stamp s))
     | NilState \<Rightarrow> Inl (ErrStream ''data state is nil'')
     | OtherState \<Rightarrow> Inl (ErrStream ''unsupported data state variant''))"

definition setupRequired :: "stream_error option \<Rightarrow> bool" where
  "setupRequired e = (case e of Some (WorkError _ setup) \<Rightarrow> setup | _ \<Rightarrow> False)"

definition target_error :: "stream_error \<Rightarrow> refresh_event \<Rightarrow> refresh_event" where
  "target_error e event = event\<lparr>ev_Type := RefreshEventTargetError, ev_Err := Some e\<rparr>"

text \<open>The revision of a visualization event.\<close>

definition revise_event :: "(envelope \<Rightarrow> bool) \<Rightarrow> refresh \<Rightarrow> refresh_event \<Rightarrow> coordinator \<Rightarrow> refresh_event \<times> coordinator" where
  "revise_event valid r event c =
    (if unat (rf_Generation r) > 2 ^ 63 - 1 then (target_error (ErrStream ''visualization stream generation overflow'') event, c)
     else case ev_Value event of
       EnvelopeValue envelope \<Rightarrow>
         let nextRevision = wrap_int64 ((case co_revisions c (ev_Target event) of None \<Rightarrow> 0 | Some n \<Rightarrow> n) + 1) in
         (case WithStreamRevision valid envelope nextRevision (uint (rf_Generation r)) of
            Inl e \<Rightarrow> (target_error e event, c)
          | Inr revised \<Rightarrow>
              let dataRevisions = (case fl_DataRevisions (co_filters c) of None \<Rightarrow> Map.empty | Some m \<Rightarrow> m) in
              (event\<lparr>ev_DataRevision := nextRevision, ev_Value := EnvelopeValue revised\<rparr>,
               c\<lparr>co_revisions := (co_revisions c)(ev_Target event \<mapsto> nextRevision),
                 co_filters := (co_filters c)\<lparr>fl_DataRevisions := Some (dataRevisions(ev_Target event \<mapsto> nextRevision))\<rparr>\<rparr>))
     | _ \<Rightarrow> (target_error (ErrStream ''visualization produced invalid envelope value'') event, c))"

text \<open>The counters of the active refresh.\<close>

definition count_target_error :: "refresh_event \<Rightarrow> active_refresh \<Rightarrow> active_refresh" where
  "count_target_error event a =
    (if ev_Target event = ''refresh'' then a\<lparr>ar_refreshError := ev_Err event\<rparr>
     else a\<lparr>ar_targetErrors := ar_targetErrors a + 1,
       ar_firstTargetErr := (if ar_firstTargetErr a = None then ev_Err event else ar_firstTargetErr a),
       ar_setupRequiredErr := (if ar_setupRequiredErr a = None \<and> setupRequired (ev_Err event) then ev_Err event
         else ar_setupRequiredErr a)\<rparr>)"

definition count_event :: "refresh_event \<Rightarrow> active_refresh \<Rightarrow> active_refresh" where
  "count_event event a =
    (case ev_Type event of
       RefreshEventVisual \<Rightarrow> a\<lparr>ar_visualCount := ar_visualCount a + 1, ar_targetSuccesses := ar_targetSuccesses a + 1\<rparr>
     | RefreshEventTargetError \<Rightarrow> count_target_error event a
     | RefreshEventCacheOutcome \<Rightarrow>
         if ev_CacheOutcome event = [] then a
         else a\<lparr>ar_cacheOutcomes := (ar_cacheOutcomes a)(ev_CacheOutcome event \<mapsto>
           (case ar_cacheOutcomes a (ev_CacheOutcome event) of None \<Rightarrow> 0 | Some n \<Rightarrow> n) + 1)\<rparr>
     | _ \<Rightarrow> a)"

text \<open>The progress an event shows; \<open>None\<close> for a progress that regresses, which is dropped.\<close>

definition event_progress :: "refresh_event \<Rightarrow> active_refresh \<Rightarrow> (refresh_event \<times> active_refresh) option" where
  "event_progress event a =
    (case ev_Type event of
       RefreshEventStart \<Rightarrow> Some (event\<lparr>ev_ProgressPercent := ar_progressPercent a\<rparr>, a)
     | RefreshEventProgress \<Rightarrow>
         let nxt = Some (NormalizeProgressPercent (ev_ProgressPercent event) True) in
         if progressRegresses (ar_progressPercent a) nxt then None
         else Some (event\<lparr>ev_ProgressPercent := nxt\<rparr>, a\<lparr>ar_progressPercent := nxt\<rparr>)
     | RefreshEventComplete \<Rightarrow>
         let nxt = Some (NormalizeProgressPercent None False) in
         Some (event\<lparr>ev_ProgressPercent := nxt\<rparr>, a\<lparr>ar_progressPercent := nxt\<rparr>)
     | _ \<Rightarrow> Some (event, a))"

text \<open>The event is published if there is one in the result.\<close>

definition emitCurrent ::
  "(envelope \<Rightarrow> bool) \<Rightarrow> refresh \<Rightarrow> refresh_event \<Rightarrow> coordinator \<Rightarrow> refresh_event option \<times> coordinator" where
  "emitCurrent valid r event c =
    (if co_closed c \<or> co_generation c \<noteq> rf_Generation r \<or> co_ctxDone c then (None, c)
     else
       let event = event\<lparr>ev_RefreshID := rf_ID r, ev_Generation := rf_Generation r,
             ev_ServingStateID := fl_ServingStateID (rf_Filters r),
             ev_FilterRevision := (case fl_CompiledState (rf_Filters r) of None \<Rightarrow> ev_FilterRevision event | Some s \<Rightarrow> sint (fs_Revision s))\<rparr>;
           (event, c) = (if ev_Target event \<noteq> [] \<and> carriesVisualizationData (ev_Type event) then revise_event valid r event c else (event, c));
           event = (if ev_Command event = [] then event\<lparr>ev_Command := rf_Command r\<rparr> else event) in
       case co_active c of
         None \<Rightarrow> (Some event, c)
       | Some a \<Rightarrow>
           if rf_Generation (ar_refresh a) \<noteq> rf_Generation r then (Some event, c)
           else
             let a = (if ev_Queries event > 0 then a\<lparr>ar_queryCount := ar_queryCount a + ev_Queries event\<rparr> else a) in
             (case event_progress event a of
                None \<Rightarrow> (None, c\<lparr>co_active := Some a\<rparr>)
              | Some (event, a) \<Rightarrow> (Some event, c\<lparr>co_active := Some (count_event event a)\<rparr>)))"

section \<open>The end of a refresh\<close>

definition refreshError :: "refresh \<Rightarrow> coordinator \<Rightarrow> stream_error option" where
  "refreshError r c =
    (case co_active c of
       None \<Rightarrow> None
     | Some a \<Rightarrow>
         if rf_Generation (ar_refresh a) \<noteq> rf_Generation r then None
         else if ar_refreshError a \<noteq> None then ar_refreshError a
         else if ar_setupRequiredErr a \<noteq> None then ar_setupRequiredErr a
         else if ar_targetErrors a > 0 \<and> ar_targetSuccesses a = 0 then ar_firstTargetErr a
         else None)"

definition finish :: "refresh \<Rightarrow> string \<Rightarrow> int \<Rightarrow> coordinator \<Rightarrow> refresh_summary option \<times> coordinator" where
  "finish r result cancellationCount c =
    (case co_active c of
       None \<Rightarrow> (None, c)
     | Some a \<Rightarrow>
         if rf_Generation (ar_refresh a) \<noteq> rf_Generation r then (None, c)
         else (Some (summaryLocked a result cancellationCount []), c\<lparr>co_active := None\<rparr>))"

definition CloseWithReason :: "string \<Rightarrow> coordinator \<Rightarrow> refresh_summary option \<times> coordinator" where
  "CloseWithReason reason c =
    (if co_closed c then (None, c)
     else
       let (summary, c) = cancel_active reason (c\<lparr>co_closed := True\<rparr>) in
       (summary, c\<lparr>co_ctxDone := True\<rparr>))"

definition Close_coordinator :: "coordinator \<Rightarrow> refresh_summary option \<times> coordinator" where
  "Close_coordinator = CloseWithReason ''closed''"

end
