(* ===== verification/Refresh_Coordinator_Safety.thy ===== *)
theory Refresh_Coordinator_Safety
  imports Refresh_Coordinator
begin

text \<open>
  Executions of a page stream: the coordinator with the goroutines of its refreshes, interleaved at
  the coordinator's critical sections, and the invariants of what it publishes.
\<close>

section \<open>Executions\<close>

text \<open>
  The goroutine of a refresh publishes the start event, runs the work, which publishes events until
  it returns, reads the error of the refresh, publishes the completion, and finishes.
\<close>

datatype phase = Starting | Working | Completing "stream_error option" | Finishing | Ended

record stream =
  st_co :: coordinator
  st_runs :: "(refresh \<times> phase) list"
  st_events :: "refresh_event list"
  st_summaries :: "refresh_summary list"

definition option_list :: "'a option \<Rightarrow> 'a list" where
  "option_list x = (case x of None \<Rightarrow> [] | Some a \<Rightarrow> [a])"

definition no_event :: "event_type \<Rightarrow> refresh_event" where
  "no_event t = \<lparr>ev_Type = t, ev_RefreshID = 0, ev_Generation = 0, ev_DataRevision = 0, ev_FilterRevision = 0, ev_ServingStateID = [],
     ev_Command = [], ev_Filters = None, ev_Targets = [], ev_Target = [], ev_Value = NoValue, ev_Err = None, ev_Queries = 0,
     ev_CacheOutcome = [], ev_ProgressPercent = None\<rparr>"

definition start_event :: "refresh \<Rightarrow> refresh_event" where
  "start_event r = (no_event RefreshEventStart)\<lparr>ev_Command := rf_Command r, ev_Filters := Some (rf_Filters r), ev_Targets := rf_Targets r\<rparr>"

definition complete_event :: "stream_error option \<Rightarrow> refresh_event" where
  "complete_event e = (no_event RefreshEventComplete)\<lparr>ev_Err := e\<rparr>"

text \<open>
  The generation counter has 64 bits: an execution is followed as long as each refresh that begins
  has a larger generation than those before it.
\<close>

inductive stream_step :: "(envelope \<Rightarrow> bool) \<Rightarrow> stream \<Rightarrow> stream \<Rightarrow> bool" for valid where
  begin_refresh: "BeginPrepared n prepare (st_co s) = (Inr (r, canceled), c) \<Longrightarrow> co_generation (st_co s) < rf_Generation r \<Longrightarrow>
    stream_step valid s (s\<lparr>st_co := c, st_runs := st_runs s @ [(r, Starting)], st_summaries := st_summaries s @ option_list canceled\<rparr>)"
| begin_refused: "BeginPrepared n prepare (st_co s) = (Inl e, c) \<Longrightarrow> stream_step valid s (s\<lparr>st_co := c\<rparr>)"
| start: "i < length (st_runs s) \<Longrightarrow> st_runs s ! i = (r, Starting) \<Longrightarrow> emitCurrent valid r (start_event r) (st_co s) = (out, c) \<Longrightarrow>
    stream_step valid s (s\<lparr>st_co := c, st_runs := (st_runs s)[i := (r, Working)], st_events := st_events s @ option_list out\<rparr>)"
| publish: "i < length (st_runs s) \<Longrightarrow> st_runs s ! i = (r, Working) \<Longrightarrow> emitCurrent valid r event (st_co s) = (out, c) \<Longrightarrow>
    stream_step valid s (s\<lparr>st_co := c, st_events := st_events s @ option_list out\<rparr>)"
| work_returns: "i < length (st_runs s) \<Longrightarrow> st_runs s ! i = (r, Working) \<Longrightarrow>
    stream_step valid s (s\<lparr>st_runs := (st_runs s)[i := (r, Completing (refreshError r (st_co s)))]\<rparr>)"
| work_canceled: "i < length (st_runs s) \<Longrightarrow> st_runs s ! i = (r, Working) \<Longrightarrow> co_generation (st_co s) \<noteq> rf_Generation r \<or> co_ctxDone (st_co s) \<Longrightarrow>
    stream_step valid s (s\<lparr>st_runs := (st_runs s)[i := (r, Ended)]\<rparr>)"
| complete: "i < length (st_runs s) \<Longrightarrow> st_runs s ! i = (r, Completing e) \<Longrightarrow> emitCurrent valid r (complete_event e) (st_co s) = (out, c) \<Longrightarrow>
    stream_step valid s (s\<lparr>st_co := c, st_events := st_events s @ option_list out,
      st_runs := (st_runs s)[i := (r, if out = None then Ended else Finishing)]\<rparr>)"
| finish: "i < length (st_runs s) \<Longrightarrow> st_runs s ! i = (r, Finishing) \<Longrightarrow> finish r ''complete'' 0 (st_co s) = (summary, c) \<Longrightarrow>
    stream_step valid s (s\<lparr>st_co := c, st_runs := (st_runs s)[i := (r, Ended)], st_summaries := st_summaries s @ option_list summary\<rparr>)"
| close_stream: "CloseWithReason reason (st_co s) = (summary, c) \<Longrightarrow>
    stream_step valid s (s\<lparr>st_co := c, st_summaries := st_summaries s @ option_list summary\<rparr>)"
| context_done: "stream_step valid s (s\<lparr>st_co := (st_co s)\<lparr>co_ctxDone := True\<rparr>\<rparr>)"

definition new_stream :: stream where
  "new_stream = \<lparr>st_co = NewCoordinator, st_runs = [], st_events = [], st_summaries = []\<rparr>"

definition stream_reachable :: "(envelope \<Rightarrow> bool) \<Rightarrow> stream \<Rightarrow> bool" where
  "stream_reachable valid s \<longleftrightarrow> (stream_step valid)\<^sup>*\<^sup>* new_stream s"

section \<open>The critical sections\<close>

text \<open>What emission leaves alone.\<close>

definition same_control :: "coordinator \<Rightarrow> coordinator \<Rightarrow> bool" where
  "same_control c c' \<longleftrightarrow> co_closed c' = co_closed c \<and> co_ctxDone c' = co_ctxDone c \<and> co_workStarted c' = co_workStarted c
     \<and> co_generation c' = co_generation c \<and> co_sequences c' = co_sequences c
     \<and> map_option ar_refresh (co_active c') = map_option ar_refresh (co_active c)"

definition revision_of :: "coordinator \<Rightarrow> string \<Rightarrow> int" where
  "revision_of c t = (case co_revisions c t of None \<Rightarrow> 0 | Some n \<Rightarrow> n)"

definition data_event :: "refresh_event \<Rightarrow> bool" where
  "data_event e \<longleftrightarrow> ev_Target e \<noteq> [] \<and> carriesVisualizationData (ev_Type e)"

definition same_origin :: "refresh_event \<Rightarrow> refresh_event \<Rightarrow> bool" where
  "same_origin e e' \<longleftrightarrow> ev_RefreshID e' = ev_RefreshID e \<and> ev_Generation e' = ev_Generation e \<and> ev_Target e' = ev_Target e"

lemma WithStreamRevision_Inr:
  assumes "WithStreamRevision valid v n g = Inr w"
  shows "0 \<le> n" "en_DataRevision w = n"
  using assms by (auto simp: WithStreamRevision_def Let_def split: if_splits data_state.splits)

text \<open>The revision of a data event is one more than the last of its target, or the event is an error.\<close>

lemma revise_event_result:
  assumes "revise_event valid r e c = (e', c')"
  obtains (error) "c' = c" "ev_Type e' = RefreshEventTargetError" "same_origin e e'"
  | (revised) w n where "n = wrap_int64 (revision_of c (ev_Target e) + 1)" "0 \<le> n" "ev_Type e' = ev_Type e" "same_origin e e'"
      "ev_DataRevision e' = n" "ev_Value e' = EnvelopeValue w" "en_DataRevision w = n"
      "co_revisions c' = (co_revisions c)(ev_Target e \<mapsto> n)" "same_control c c'"
proof (cases "unat (rf_Generation r) > 2 ^ 63 - 1")
  case True
  then show thesis using that(1) assms by (auto simp: revise_event_def target_error_def same_origin_def)
next
  case False
  show thesis
  proof (cases "ev_Value e")
    case (EnvelopeValue v)
    let ?n = "wrap_int64 (revision_of c (ev_Target e) + 1)"
    show thesis
    proof (cases "WithStreamRevision valid v ?n (uint (rf_Generation r))")
      case (Inl err)
      then show thesis using that(1) assms False EnvelopeValue
        by (auto simp: revise_event_def target_error_def same_origin_def revision_of_def Let_def)
    next
      case (Inr w)
      then show thesis using that(2) [of ?n w] assms False EnvelopeValue WithStreamRevision_Inr [OF Inr]
        by (auto simp: revise_event_def same_origin_def revision_of_def Let_def same_control_def)
    qed
  qed (use that(1) assms False in \<open>auto simp: revise_event_def target_error_def same_origin_def\<close>)
qed

lemma same_control_refl [simp]: "same_control c c"
  by (simp add: same_control_def)

lemma same_control_trans: "same_control a b \<Longrightarrow> same_control b c \<Longrightarrow> same_control a c"
  by (simp add: same_control_def)

lemma count_event_refresh [simp]: "ar_refresh (count_event e a) = ar_refresh a" "ar_progressPercent (count_event e a) = ar_progressPercent a"
  by (simp_all add: count_event_def count_target_error_def split: event_type.split)

lemma event_progress_result:
  assumes "event_progress e a = Some (e', a')"
  shows "ar_refresh a' = ar_refresh a" "same_origin e e'" "ev_Type e' = ev_Type e" "ev_DataRevision e' = ev_DataRevision e" "ev_Value e' = ev_Value e"
  using assms by (auto simp: event_progress_def same_origin_def Let_def split: event_type.splits if_splits)

lemma event_progress_None: "event_progress e a = None \<Longrightarrow> ev_Type e = RefreshEventProgress"
  by (auto simp: event_progress_def Let_def split: event_type.splits)

text \<open>The outcomes of an emission.\<close>

definition emitted :: "refresh \<Rightarrow> refresh_event \<Rightarrow> coordinator \<Rightarrow> coordinator \<Rightarrow> bool" where
  "emitted r e c c' \<longleftrightarrow> \<not> co_closed c \<and> \<not> co_ctxDone c \<and> co_generation c = rf_Generation r
     \<and> ev_RefreshID e = rf_ID r \<and> ev_Generation e = rf_Generation r
     \<and> (if data_event e
        then \<exists>w n. n = wrap_int64 (revision_of c (ev_Target e) + 1) \<and> 0 \<le> n \<and> ev_DataRevision e = n
          \<and> ev_Value e = EnvelopeValue w \<and> en_DataRevision w = n \<and> co_revisions c' = (co_revisions c)(ev_Target e \<mapsto> n)
        else co_revisions c' = co_revisions c)"

lemma emitCurrent_result:
  assumes "emitCurrent valid r e c = (out, c')"
  shows "same_control c c'" "out = None \<Longrightarrow> co_revisions c' = co_revisions c" "out = Some e' \<Longrightarrow> emitted r e' c c'"
proof -
  have "same_control c c' \<and> (case out of None \<Rightarrow> co_revisions c' = co_revisions c | Some e' \<Rightarrow> emitted r e' c c')"
  proof (cases "co_closed c \<or> co_generation c \<noteq> rf_Generation r \<or> co_ctxDone c")
    case True
    then show ?thesis using assms by (auto simp: emitCurrent_def)
  next
    case False
    define e1 where "e1 = e\<lparr>ev_RefreshID := rf_ID r, ev_Generation := rf_Generation r,
             ev_ServingStateID := fl_ServingStateID (rf_Filters r),
             ev_FilterRevision := (case fl_CompiledState (rf_Filters r) of None \<Rightarrow> ev_FilterRevision e | Some s \<Rightarrow> sint (fs_Revision s))\<rparr>"
    obtain e2 c2 where e2: "(if ev_Target e1 \<noteq> [] \<and> carriesVisualizationData (ev_Type e1) then revise_event valid r e1 c else (e1, c)) = (e2, c2)"
      by fastforce
    define e3 where "e3 = (if ev_Command e2 = [] then e2\<lparr>ev_Command := rf_Command r\<rparr> else e2)"
    have e3: "same_origin e2 e3" "ev_Type e3 = ev_Type e2" "ev_DataRevision e3 = ev_DataRevision e2" "ev_Value e3 = ev_Value e2"
      by (simp_all add: e3_def same_origin_def)
    have ids: "ev_RefreshID e1 = rf_ID r" "ev_Generation e1 = rf_Generation r" by (simp_all add: e1_def)
    have two: "same_control c c2 \<and> emitted r e2 c c2 \<and> (ev_Type e2 = RefreshEventProgress \<longrightarrow> co_revisions c2 = co_revisions c)"
    proof (cases "ev_Target e1 \<noteq> [] \<and> carriesVisualizationData (ev_Type e1)")
      case True
      then have "revise_event valid r e1 c = (e2, c2)" using e2 by simp
      then show ?thesis
      proof (cases rule: revise_event_result)
        case error
        then show ?thesis using ids False by (auto simp: emitted_def data_event_def carriesVisualizationData_def same_origin_def)
      next
        case (revised w n)
        then show ?thesis using ids False True by (auto simp: emitted_def data_event_def carriesVisualizationData_def same_origin_def)
      qed
    next
      case plain: False
      then have "e2 = e1" "c2 = c" using e2 by auto
      then show ?thesis using plain ids False by (auto simp: emitted_def data_event_def)
    qed
    have three: "emitted r e3 c c'" if "co_revisions c' = co_revisions c2" for c'
      using two e3 that by (cases "data_event e2") (auto simp: emitted_def data_event_def same_origin_def)
    have result: "(case co_active c2 of
         None \<Rightarrow> (Some e3, c2)
       | Some a \<Rightarrow>
           if rf_Generation (ar_refresh a) \<noteq> rf_Generation r then (Some e3, c2)
           else
             let a = (if ev_Queries e3 > 0 then a\<lparr>ar_queryCount := ar_queryCount a + ev_Queries e3\<rparr> else a) in
             (case event_progress e3 a of
                None \<Rightarrow> (None, c2\<lparr>co_active := Some a\<rparr>)
              | Some (event, a) \<Rightarrow> (Some event, c2\<lparr>co_active := Some (count_event event a)\<rparr>))) = (out, c')"
      using assms False e2 unfolding emitCurrent_def e1_def e3_def by (simp add: Let_def split: prod.splits)
    show ?thesis
    proof (cases "co_active c2")
      case None
      then show ?thesis using result two three by auto
    next
      case (Some a)
      show ?thesis
      proof (cases "rf_Generation (ar_refresh a) \<noteq> rf_Generation r")
        case True
        then show ?thesis using result Some two three by auto
      next
        case same: False
        define b where "b = (if ev_Queries e3 > 0 then a\<lparr>ar_queryCount := ar_queryCount a + ev_Queries e3\<rparr> else a)"
        have b: "ar_refresh b = ar_refresh a" by (simp add: b_def)
        show ?thesis
        proof (cases "event_progress e3 b")
          case None
          then have "out = None" "c' = c2\<lparr>co_active := Some b\<rparr>" using result Some same by (auto simp: b_def Let_def)
          then show ?thesis using two b Some e3 event_progress_None [OF None] by (auto simp: same_control_def)
        next
          case progress: (Some p)
          obtain e4 a4 where p: "p = (e4, a4)" by fastforce
          note ev = event_progress_result [OF progress [unfolded p]]
          have "out = Some e4" "c' = c2\<lparr>co_active := Some (count_event e4 a4)\<rparr>"
            using result Some same progress p by (auto simp: b_def Let_def)
          then show ?thesis using two three [of c'] ev b Some
            by (auto simp: same_control_def emitted_def data_event_def same_origin_def)
        qed
      qed
    qed
  qed
  then show "same_control c c'" "out = None \<Longrightarrow> co_revisions c' = co_revisions c" "out = Some e' \<Longrightarrow> emitted r e' c c'" by auto
qed

end
