(* ===== verification/Refresh_Coordinator_Theorems.thy ===== *)
theory Refresh_Coordinator_Theorems
  imports Refresh_Coordinator_Safety
begin

text \<open>
  The invariant of page streams, and the properties of the events and summaries they publish.
\<close>

section \<open>The invariant\<close>

definition active_of :: "coordinator \<Rightarrow> refresh option" where
  "active_of c = map_option ar_refresh (co_active c)"

text \<open>Each refresh that has begun is the active one or has a summary.\<close>

definition control_ok :: "coordinator \<Rightarrow> refresh list \<Rightarrow> refresh_summary list \<Rightarrow> bool" where
  "control_ok c begun summaries \<longleftrightarrow>
     sorted_wrt (<) (map rf_Generation begun) \<and> (\<forall>r\<in>set begun. rf_Generation r \<le> co_generation c)
     \<and> (\<not> co_workStarted c \<longrightarrow> active_of c = None)
     \<and> (\<forall>r. active_of c = Some r \<longrightarrow> r \<in> set begun \<and> rf_Generation r = co_generation c)
     \<and> distinct (map su_Generation summaries)
     \<and> su_Generation ` set summaries \<inter> rf_Generation ` set_option (active_of c) = {}
     \<and> su_Generation ` set summaries \<union> rf_Generation ` set_option (active_of c) = rf_Generation ` set begun"

definition target_events :: "string \<Rightarrow> refresh_event list \<Rightarrow> refresh_event list" where
  "target_events t events = filter (\<lambda>e. data_event e \<and> ev_Target e = t) events"

definition events_ok :: "coordinator \<Rightarrow> refresh list \<Rightarrow> refresh_event list \<Rightarrow> bool" where
  "events_ok c begun events \<longleftrightarrow>
     sorted_wrt (\<le>) (map ev_Generation events) \<and> (\<forall>e\<in>set events. ev_Generation e \<le> co_generation c)
     \<and> (\<forall>e\<in>set events. \<exists>r\<in>set begun. ev_RefreshID e = rf_ID r \<and> ev_Generation e = rf_Generation r)
     \<and> (\<forall>t. map ev_DataRevision (target_events t events) = map int [1..<Suc (nat (revision_of c t))]
          \<and> 0 \<le> revision_of c t \<and> revision_of c t \<le> max_int64)
     \<and> (\<forall>e\<in>set events. data_event e \<longrightarrow> (\<exists>w. ev_Value e = EnvelopeValue w \<and> en_DataRevision w = ev_DataRevision e))"

definition completed :: "refresh_event list \<Rightarrow> 64 word \<Rightarrow> bool" where
  "completed events g \<longleftrightarrow> (\<exists>e\<in>set events. ev_Type e = RefreshEventComplete \<and> ev_Generation e = g)"

definition completions_ok :: "(refresh \<times> phase) list \<Rightarrow> refresh_event list \<Rightarrow> refresh_summary list \<Rightarrow> bool" where
  "completions_ok runs events summaries \<longleftrightarrow>
     (\<forall>r. (r, Finishing) \<in> set runs \<longrightarrow> completed events (rf_Generation r))
     \<and> (\<forall>su\<in>set summaries. su_CancellationCount su = 0 \<longrightarrow> completed events (su_Generation su))"

abbreviation refreshes :: "stream \<Rightarrow> refresh list" where
  "refreshes s \<equiv> map fst (st_runs s)"

definition stream_ok :: "stream \<Rightarrow> bool" where
  "stream_ok s \<longleftrightarrow> control_ok (st_co s) (refreshes s) (st_summaries s) \<and> events_ok (st_co s) (refreshes s) (st_events s)
     \<and> completions_ok (st_runs s) (st_events s) (st_summaries s)"

subsection \<open>Preservation\<close>

lemma option_list_simps [simp]: "option_list None = []" "option_list (Some x) = [x]" "set (option_list y) = set_option y"
  by (cases y; simp add: option_list_def)+

lemma begun_update: "runs ! i = (r, p) \<Longrightarrow> map fst (runs[i := (r, p')]) = map fst runs"
  by (metis fst_conv list_update_id map_update)

lemma control_frame: "same_control c c' \<Longrightarrow> control_ok c' = control_ok c"
  by (simp add: control_ok_def same_control_def active_of_def fun_eq_iff)

lemma control_ctx [simp]: "control_ok (c\<lparr>co_ctxDone := b\<rparr>) = control_ok c" "control_ok (c\<lparr>co_closed := b\<rparr>) = control_ok c"
    "control_ok (c\<lparr>co_sequences := q\<rparr>) = control_ok c"
  by (simp_all add: control_ok_def active_of_def fun_eq_iff)

lemma events_frame:
  "co_generation c' = co_generation c \<Longrightarrow> co_revisions c' = co_revisions c \<Longrightarrow> events_ok c' = events_ok c"
  by (simp add: events_ok_def revision_of_def fun_eq_iff)

lemma summary_fields [simp]:
  "su_Generation (summaryLocked a result n reason) = rf_Generation (ar_refresh a)"
  "su_CancellationCount (summaryLocked a result n reason) = n"
  by (simp_all add: summaryLocked_def Let_def)

lemma control_active:
  assumes "control_ok c begun summaries" "active_of c = Some a"
  shows "a \<in> set begun \<and> rf_Generation a \<notin> su_Generation ` set summaries
    \<and> insert (rf_Generation a) (su_Generation ` set summaries) = rf_Generation ` set begun"
  using assms by (simp add: control_ok_def) metis

lemma control_retire:
  assumes "control_ok c begun summaries" "co_active c = Some a" "su_Generation su = rf_Generation (ar_refresh a)"
  shows "control_ok (c\<lparr>co_active := None\<rparr>) begun (summaries @ [su])"
  using assms by (auto simp: control_ok_def active_of_def)

lemma cancel_active_ok:
  assumes "cancel_active reason c = (s, c')" "control_ok c begun summaries"
  shows "control_ok c' begun (summaries @ option_list s)" "active_of c' = None" "co_revisions c' = co_revisions c"
    "co_generation c' = co_generation c" "co_closed c' = co_closed c" "co_ctxDone c' = co_ctxDone c"
    "\<forall>su\<in>set_option s. su_CancellationCount su = 1"
  using assms control_retire [OF assms(2)] by (cases "co_active c"; auto simp: cancel_active_def active_of_def)+

lemma finish_ok:
  assumes "finish r result n c = (s, c')" "control_ok c begun summaries"
  shows "control_ok c' begun (summaries @ option_list s)" "co_revisions c' = co_revisions c" "co_generation c' = co_generation c"
    "co_closed c' = co_closed c" "\<forall>su\<in>set_option s. su_Generation su = rf_Generation r"
  using assms control_retire [OF assms(2)] by (cases "co_active c"; auto simp: finish_def active_of_def split: if_splits)+

lemma record_sequence_result: "record_sequence p c = Inr c' \<Longrightarrow> c' = c\<lparr>co_sequences := co_sequences c'\<rparr>"
  by (auto simp: record_sequence_def split: if_splits)

text \<open>The outcomes of \<open>BeginPrepared\<close>.\<close>

lemma Begin_refused:
  assumes "BeginPrepared n prepare c = (Inl e, c')"
  shows "c' = c\<lparr>co_sequences := co_sequences c'\<rparr>"
  using assms record_sequence_result
  by (auto simp: BeginPrepared_def Let_def split: if_splits sum.splits prod.splits)

lemma Begin_result:
  assumes "BeginPrepared n prepare c = (Inr (r, s), c')"
  obtains c1 c2 where "\<not> co_closed c" "c1 = c\<lparr>co_sequences := co_sequences c1\<rparr>"
    "if co_workStarted c then cancel_active ''superseded'' c1 = (s, c2) else s = None \<and> c2 = c1"
    "c' = c2\<lparr>co_workStarted := True, co_filters := co_filters c', co_generation := rf_Generation r, co_active := Some (new_active r)\<rparr>"
proof -
  have open_: "\<not> co_closed c" using assms by (auto simp: BeginPrepared_def)
  then obtain p where p: "prepare (cloneFilters (co_filters c)) = Inr p" using assms by (auto simp: BeginPrepared_def split: sum.splits)
  then obtain c1 where c1: "record_sequence p c = Inr c1" using assms open_ by (auto simp: BeginPrepared_def split: sum.splits)
  note q = record_sequence_result [OF c1]
  then have started: "co_workStarted c1 = co_workStarted c" by (metis coordinator.select_convs(2) coordinator.surjective coordinator.update_convs(6))
  define st where "st = (if co_workStarted c1 then cancel_active ''superseded'' c1 else (None, c1))"
  obtain s2 c2 where st: "st = (s2, c2)" by fastforce
  have "s2 = s \<and> c' = c2\<lparr>co_workStarted := True, co_filters := co_filters c', co_generation := rf_Generation r, co_active := Some (new_active r)\<rparr>"
    using assms open_ p c1 st unfolding st_def BeginPrepared_def
    by (auto simp: Let_def split: if_splits prod.splits)
  then show thesis using that [OF open_ q] st started unfolding st_def by (auto split: if_splits)
qed

lemma begin_ok:
  assumes "BeginPrepared n prepare c = (Inr (r, s), c')" "co_generation c < rf_Generation r"
    and "control_ok c begun summaries" "events_ok c begun events"
  shows "control_ok c' (begun @ [r]) (summaries @ option_list s)" "events_ok c' (begun @ [r]) events" "co_generation c' = rf_Generation r"
    "\<forall>su\<in>set_option s. su_CancellationCount su = 1"
proof -
  obtain c1 c2 where c1: "c1 = c\<lparr>co_sequences := co_sequences c1\<rparr>"
    and c2: "if co_workStarted c then cancel_active ''superseded'' c1 = (s, c2) else s = None \<and> c2 = c1"
    and c'_def: "c' = c2\<lparr>co_workStarted := True, co_filters := co_filters c', co_generation := rf_Generation r, co_active := Some (new_active r)\<rparr>"
    using assms(1) by (rule Begin_result)
  have one: "control_ok c1 begun summaries" using assms(3) c1 control_ctx(3) by metis
  have fields: "co_generation c1 = co_generation c" "co_revisions c1 = co_revisions c" "co_workStarted c1 = co_workStarted c"
    using c1 by (metis coordinator.select_convs coordinator.surjective coordinator.update_convs)+
  have two: "control_ok c2 begun (summaries @ option_list s) \<and> active_of c2 = None \<and> co_revisions c2 = co_revisions c
      \<and> co_generation c2 = co_generation c \<and> (\<forall>su\<in>set_option s. su_CancellationCount su = 1)"
  proof (cases "co_workStarted c")
    case True
    then have "cancel_active ''superseded'' c1 = (s, c2)" using c2 by simp
    from cancel_active_ok [OF this one] show ?thesis using fields by simp
  next
    case False
    then show ?thesis using c2 one fields by (auto simp: control_ok_def)
  qed
  have c': "co_generation c' = rf_Generation r" "co_revisions c' = co_revisions c" "active_of c' = Some r" "co_workStarted c'"
    using two arg_cong [OF c'_def, of co_generation] arg_cong [OF c'_def, of co_revisions] arg_cong [OF c'_def, of active_of]
      arg_cong [OF c'_def, of co_workStarted] by (simp_all add: active_of_def new_active_def)
  show "co_generation c' = rf_Generation r" "\<forall>su\<in>set_option s. su_CancellationCount su = 1" using c' two by simp_all
  have small: "\<forall>x\<in>set begun. rf_Generation x < rf_Generation r"
    using assms(2,3) unfolding control_ok_def by (meson le_less_trans)
  have gens: "su_Generation ` set (summaries @ option_list s) = rf_Generation ` set begun" using two by (auto simp: control_ok_def)
  show "control_ok c' (begun @ [r]) (summaries @ option_list s)"
    using two small gens c'(4) unfolding control_ok_def c'(1-3) by (auto simp: sorted_wrt_append less_imp_le)
  have "\<forall>e\<in>set events. ev_Generation e \<le> rf_Generation r" using assms(2,4) unfolding events_ok_def by (meson le_less_trans less_imp_le)
  then show "events_ok c' (begun @ [r]) events"
    using assms(4) unfolding events_ok_def c' revision_of_def by auto
qed

lemma wrap_next: "0 \<le> n \<Longrightarrow> n \<le> max_int64 \<Longrightarrow> 0 \<le> wrap_int64 (n + 1) \<Longrightarrow> wrap_int64 (n + 1) = n + 1 \<and> n + 1 \<le> max_int64"
  by (cases "n = max_int64") (auto simp: max_int64_def wrap_int64_def)

lemma emitted_ok:
  assumes "emitted r e c c'" "events_ok c begun events" "r \<in> set begun" "co_generation c' = co_generation c"
  shows "events_ok c' begun (events @ [e])"
proof -
  have e: "ev_RefreshID e = rf_ID r" "ev_Generation e = co_generation c" "ev_Generation e = rf_Generation r"
    using assms(1) by (auto simp: emitted_def)
  have ok: "sorted_wrt (\<le>) (map ev_Generation events)" "\<forall>e\<in>set events. ev_Generation e \<le> co_generation c"
    "\<forall>e\<in>set events. \<exists>r\<in>set begun. ev_RefreshID e = rf_ID r \<and> ev_Generation e = rf_Generation r"
    "\<forall>e\<in>set events. data_event e \<longrightarrow> (\<exists>w. ev_Value e = EnvelopeValue w \<and> en_DataRevision w = ev_DataRevision e)"
    using assms(2) by (auto simp: events_ok_def)
  have rev: "map ev_DataRevision (target_events t events) = map int [1..<Suc (nat (revision_of c t))]" "0 \<le> revision_of c t" "revision_of c t \<le> max_int64" for t
    using assms(2) by (auto simp: events_ok_def)
  have "map ev_DataRevision (target_events t (events @ [e])) = map int [1..<Suc (nat (revision_of c' t))]
      \<and> 0 \<le> revision_of c' t \<and> revision_of c' t \<le> max_int64" for t
  proof (cases "data_event e")
    case True
    then obtain n where n: "n = wrap_int64 (revision_of c (ev_Target e) + 1)" "0 \<le> n" "ev_DataRevision e = n"
        "co_revisions c' = (co_revisions c)(ev_Target e \<mapsto> n)" using assms(1) by (auto simp: emitted_def)
    have nxt: "n = revision_of c (ev_Target e) + 1" "n \<le> max_int64"
      using wrap_next [OF rev(2,3), of "ev_Target e"] n(1,2) by auto
    show ?thesis
    proof (cases "t = ev_Target e")
      case True
      then have "revision_of c' t = revision_of c t + 1" "revision_of c t + 1 \<le> max_int64" using n nxt by (auto simp: revision_of_def)
      moreover have "nat (revision_of c t + 1) = Suc (nat (revision_of c t))" using rev(2) [of t] by simp
      ultimately show ?thesis using rev [of t] n nxt \<open>data_event e\<close> True by (simp add: target_events_def)
    next
      case False
      then show ?thesis using rev [of t] n(4) by (simp add: target_events_def revision_of_def)
    qed
  next
    case False
    then have "revision_of c' = revision_of c" using assms(1) by (auto simp: emitted_def revision_of_def)
    then show ?thesis using rev [of t] False by (simp add: target_events_def)
  qed
  moreover have "data_event e \<longrightarrow> (\<exists>w. ev_Value e = EnvelopeValue w \<and> en_DataRevision w = ev_DataRevision e)"
    using assms(1) by (auto simp: emitted_def)
  moreover have "sorted_wrt (\<le>) (map ev_Generation (events @ [e]))" using ok(1,2) e by (auto simp: sorted_wrt_append)
  ultimately show ?thesis
    unfolding events_ok_def assms(4) using ok(2-4) e assms(3) by auto
qed

lemma emission_ok:
  assumes "emitCurrent valid r e c = (out, c')" "events_ok c begun events" "r \<in> set begun"
  shows "events_ok c' begun (events @ option_list out)"
proof -
  note res = emitCurrent_result [OF assms(1)]
  have g: "co_generation c' = co_generation c" using res(1) by (simp add: same_control_def)
  show ?thesis
  proof (cases out)
    case None
    then show ?thesis using assms(2) events_frame [OF g res(2) [OF None]] by simp
  next
    case (Some e')
    then show ?thesis using emitted_ok [OF res(3) assms(2,3) g] by simp
  qed
qed

lemma completed_append: "completed events g \<Longrightarrow> completed (events @ new) g"
  by (auto simp: completed_def)

lemma completions_mono:
  assumes "completions_ok runs events summaries"
    and "\<forall>r. (r, Finishing) \<in> set runs' \<longrightarrow> (r, Finishing) \<in> set runs \<or> completed (events @ new) (rf_Generation r)"
    and "\<forall>su\<in>set summaries'. su_CancellationCount su = 0 \<longrightarrow> su \<in> set summaries \<or> completed (events @ new) (su_Generation su)"
  shows "completions_ok runs' (events @ new) summaries'"
  using assms completed_append unfolding completions_ok_def by blast

lemma emitCurrent_complete:
  assumes "emitCurrent valid r (complete_event e) c = (Some e', c')"
  shows "ev_Type e' = RefreshEventComplete" "ev_Generation e' = rf_Generation r"
  using assms by (auto simp: emitCurrent_def complete_event_def no_event_def event_progress_def Let_def split: if_splits option.splits)

lemma set_update_phase: "(r, p) \<in> set (runs[i := (r', p')]) \<Longrightarrow> (r, p) \<in> set runs \<or> r = r' \<and> p = p'"
  by (metis Pair_inject insert_iff set_update_subset_insert subsetD)

subsection \<open>Steps\<close>

text \<open>The new events of a step belong to the current generation.\<close>

definition extends :: "stream \<Rightarrow> stream \<Rightarrow> bool" where
  "extends s s' \<longleftrightarrow> co_generation (st_co s) \<le> co_generation (st_co s')
     \<and> (\<exists>new. st_events s' = st_events s @ new \<and> (\<forall>e\<in>set new. co_generation (st_co s) \<le> ev_Generation e))
     \<and> (co_closed (st_co s) \<longrightarrow> co_closed (st_co s') \<and> st_events s' = st_events s \<and> refreshes s' = refreshes s)"

lemma extends_refl: "extends s s"
  by (simp add: extends_def)

lemma extends_trans: "extends a b \<Longrightarrow> extends b c \<Longrightarrow> extends a c"
  unfolding extends_def by (auto, (meson order_trans)+)

lemma extends_quiet:
  "st_events s' = st_events s \<Longrightarrow> co_generation (st_co s') = co_generation (st_co s) \<Longrightarrow>
    (co_closed (st_co s) \<longrightarrow> co_closed (st_co s')) \<Longrightarrow> refreshes s' = refreshes s \<Longrightarrow> extends s s'"
  by (simp add: extends_def)

lemma emission_step:
  assumes "emitCurrent valid r e (st_co s) = (out, c)" "r \<in> set (refreshes s)" "stream_ok s"
    and "st_co s' = c" "st_events s' = st_events s @ option_list out" "refreshes s' = refreshes s" "st_summaries s' = st_summaries s"
  shows "control_ok (st_co s') (refreshes s') (st_summaries s')" "events_ok (st_co s') (refreshes s') (st_events s')" "extends s s'"
proof -
  note res = emitCurrent_result [OF assms(1)]
  show "control_ok (st_co s') (refreshes s') (st_summaries s')"
    using control_frame [OF res(1)] assms(3) unfolding assms(4,6,7) by (simp add: stream_ok_def)
  show "events_ok (st_co s') (refreshes s') (st_events s')"
    using emission_ok [OF assms(1) _ assms(2)] assms(3) unfolding assms(4-6) by (simp add: stream_ok_def)
  have "ev_Generation e' = co_generation (st_co s) \<and> \<not> co_closed (st_co s)" if "out = Some e'" for e'
    using res(3) [OF that] by (simp add: emitted_def)
  then show "extends s s'"
    using res(1) unfolding extends_def assms(4-6) by (cases out) (auto simp: same_control_def)
qed

lemma mem_refreshes: "i < length (st_runs s) \<Longrightarrow> st_runs s ! i = (r, p) \<Longrightarrow> r \<in> set (refreshes s)"
  by (metis fst_conv image_eqI list.set_map nth_mem)

lemma stream_step_ok:
  assumes "stream_step valid s s'" "stream_ok s"
  shows "stream_ok s' \<and> extends s s'"
proof -
  have ok: "control_ok (st_co s) (refreshes s) (st_summaries s)" "events_ok (st_co s) (refreshes s) (st_events s)"
      "completions_ok (st_runs s) (st_events s) (st_summaries s)" using assms(2) by (auto simp: stream_ok_def)
  note keep = completions_mono [OF ok(3)]
  from assms(1) show ?thesis
  proof cases
    case (begin_refresh n prepare r canceled c)
    note b = begin_ok [OF begin_refresh(2,3) ok(1,2)]
    have "\<not> co_closed (st_co s)" using begin_refresh(2) by (auto simp: BeginPrepared_def)
    moreover have "completions_ok (st_runs s') (st_events s') (st_summaries s')"
      using keep [of "st_runs s'" "[]" "st_summaries s'"] b(4) by (cases canceled) (auto simp: begin_refresh(1))
    ultimately show ?thesis using b(1-3) begin_refresh(3) by (simp add: begin_refresh(1) stream_ok_def extends_def less_imp_le)
  next
    case (begin_refused n prepare e c)
    have "c = (st_co s)\<lparr>co_sequences := co_sequences c\<rparr>" by (rule Begin_refused [OF begin_refused(2)])
    then obtain q where c: "c = (st_co s)\<lparr>co_sequences := q\<rparr>" by blast
    then have "stream_ok s'" using ok events_frame [of c "st_co s"] by (simp add: begin_refused(1) stream_ok_def)
    then show ?thesis using c by (auto simp: begin_refused(1) intro!: extends_quiet)
  next
    case (start i r out c)
    note e = emission_step [OF start(4) mem_refreshes [OF start(2,3)] assms(2), of s']
    have "completions_ok (st_runs s') (st_events s') (st_summaries s')"
      using keep [of "st_runs s'" "option_list out" "st_summaries s'"] by (auto simp: start(1) dest: set_update_phase)
    then show ?thesis using e by (simp add: start(1) stream_ok_def begun_update [OF start(3)])
  next
    case (publish i r event out c)
    note e = emission_step [OF publish(4) mem_refreshes [OF publish(2,3)] assms(2), of s']
    have "completions_ok (st_runs s') (st_events s') (st_summaries s')"
      using keep [of "st_runs s'" "option_list out" "st_summaries s'"] by (auto simp: publish(1))
    then show ?thesis using e by (simp add: publish(1) stream_ok_def)
  next
    case (work_returns i r)
    have "completions_ok (st_runs s') (st_events s') (st_summaries s')"
      using keep [of "st_runs s'" "[]" "st_summaries s'"] by (auto simp: work_returns(1) dest: set_update_phase)
    then show ?thesis using ok(1,2) by (auto simp: work_returns(1) stream_ok_def begun_update [OF work_returns(3)] intro!: extends_quiet)
  next
    case (work_canceled i r)
    have "completions_ok (st_runs s') (st_events s') (st_summaries s')"
      using keep [of "st_runs s'" "[]" "st_summaries s'"] by (auto simp: work_canceled(1) dest: set_update_phase)
    then show ?thesis using ok(1,2) by (auto simp: work_canceled(1) stream_ok_def begun_update [OF work_canceled(3)] intro!: extends_quiet)
  next
    case (complete i r err out c)
    note e = emission_step [OF complete(4) mem_refreshes [OF complete(2,3)] assms(2), of s']
    have published: "completed (st_events s @ option_list out) (rf_Generation r)" if "out \<noteq> None"
      using that emitCurrent_complete [of valid r err "st_co s" _ c] complete(4) by (auto simp: completed_def)
    have "\<forall>q. (q, Finishing) \<in> set (st_runs s') \<longrightarrow> (q, Finishing) \<in> set (st_runs s) \<or> completed (st_events s @ option_list out) (rf_Generation q)"
      using published by (auto simp: complete(1) dest!: set_update_phase split: if_splits)
    then have "completions_ok (st_runs s') (st_events s') (st_summaries s')"
      using keep [of "st_runs s'" "option_list out" "st_summaries s'"] by (simp add: complete(1))
    then show ?thesis using e by (simp add: complete(1) stream_ok_def begun_update [OF complete(3)])
  next
    case (finish i r summary c)
    note f = finish_ok [OF finish(4) ok(1)]
    have "completed (st_events s) (rf_Generation r)" using ok(3) finish(2,3) unfolding completions_ok_def by (metis nth_mem)
    then have "\<forall>su\<in>set (st_summaries s'). su_CancellationCount su = 0 \<longrightarrow> su \<in> set (st_summaries s) \<or> completed (st_events s @ []) (su_Generation su)"
      using f(5) by (auto simp: finish(1))
    moreover have "\<forall>q. (q, Finishing) \<in> set (st_runs s') \<longrightarrow> (q, Finishing) \<in> set (st_runs s) \<or> completed (st_events s @ []) (rf_Generation q)"
      by (auto simp: finish(1) dest!: set_update_phase)
    ultimately have "completions_ok (st_runs s') (st_events s') (st_summaries s')" using keep [of "st_runs s'" "[]"] by (simp add: finish(1))
    then show ?thesis using f(1-4) ok(2) events_frame [OF f(3,2)]
      by (auto simp: finish(1) stream_ok_def begun_update [OF finish(3)] intro!: extends_quiet)
  next
    case (close_stream reason summary c)
    show ?thesis
    proof (cases "co_closed (st_co s)")
      case True
      then show ?thesis using close_stream(2) assms(2) by (auto simp: close_stream(1) CloseWithReason_def stream_ok_def intro!: extends_quiet)
    next
      case False
      obtain c1 where c1: "cancel_active reason ((st_co s)\<lparr>co_closed := True\<rparr>) = (summary, c1)" "c = c1\<lparr>co_ctxDone := True\<rparr>"
        using close_stream(2) False by (auto simp: CloseWithReason_def Let_def split: prod.splits)
      note k = cancel_active_ok [OF c1(1), of "refreshes s" "st_summaries s"]
      have "completions_ok (st_runs s') (st_events s') (st_summaries s')"
        using keep [of "st_runs s'" "[]" "st_summaries s'"] k(7) ok(1) by (cases summary) (auto simp: close_stream(1))
      moreover have "events_ok c (refreshes s) (st_events s)" using ok(1,2) k(3,4) events_frame [of c "st_co s"] by (simp add: c1(2))
      ultimately show ?thesis using k(1,3-5) ok by (auto simp: close_stream(1) c1(2) stream_ok_def intro!: extends_quiet)
    qed
  next
    case context_done
    then show ?thesis using ok events_frame [of "(st_co s)\<lparr>co_ctxDone := True\<rparr>" "st_co s"]
      by (auto simp: stream_ok_def intro!: extends_quiet)
  qed
qed

lemma new_stream_ok: "stream_ok new_stream"
  by (simp add: stream_ok_def new_stream_def NewCoordinator_def control_ok_def events_ok_def completions_ok_def active_of_def
      target_events_def revision_of_def max_int64_def)

lemma stream_steps_ok: "(stream_step valid)\<^sup>*\<^sup>* s s' \<Longrightarrow> stream_ok s \<Longrightarrow> stream_ok s' \<and> extends s s'"
  by (induction rule: rtranclp_induct) (auto intro: extends_refl dest: stream_step_ok extends_trans)

lemma stream_reachable_ok: "stream_reachable valid s \<Longrightarrow> stream_ok s"
  unfolding stream_reachable_def using stream_steps_ok new_stream_ok by blast

section \<open>Properties\<close>



section \<open>A sample stream\<close>

definition sample_preparation :: preparation where
  "sample_preparation = \<lparr>pr_Filters = no_filters, pr_Command = ''reload'', pr_Targets = [''sales''], pr_SequenceKey = [], pr_Sequence = 0,
     pr_SequenceEpoch = 0, pr_Generation = 0\<rparr>"

definition sample_refresh :: refresh where
  "sample_refresh = \<lparr>rf_ID = 1, rf_Generation = 1, rf_Command = ''reload'', rf_Filters = cloneFilters no_filters, rf_Targets = [''sales'']\<rparr>"

definition sample_begun :: stream where
  "sample_begun = \<lparr>st_co = NewCoordinator\<lparr>co_workStarted := True, co_filters := cloneFilters no_filters, co_generation := 1,
       co_active := Some (new_active sample_refresh)\<rparr>, st_runs = [(sample_refresh, Starting)], st_events = [], st_summaries = []\<rparr>"

lemma sample_begun_reachable: "stream_reachable valid sample_begun"
proof -
  have "BeginPrepared 1 (\<lambda>_. Inr sample_preparation) NewCoordinator = (Inr (sample_refresh, None), st_co sample_begun)"
    by (simp add: BeginPrepared_def record_sequence_def sample_preparation_def NewCoordinator_def sample_begun_def Let_def
        sample_refresh_def cloneFilters_def WithDefaults_def no_filters_def)
  then have "stream_step valid new_stream (new_stream\<lparr>st_co := st_co sample_begun, st_runs := st_runs new_stream @ [(sample_refresh, Starting)],
      st_summaries := st_summaries new_stream @ option_list None\<rparr>)"
    by (intro begin_refresh [where n = 1]) (auto simp: new_stream_def NewCoordinator_def sample_refresh_def)
  then have "stream_step valid new_stream sample_begun" by (simp add: new_stream_def sample_begun_def)
  then show ?thesis by (simp add: stream_reachable_def)
qed



section \<open>A divergence\<close>

text \<open>A preparation that is refused because its generation does not advance has consumed its sequence:
  preparing the same sequence again, even with a generation that does advance, is stale.\<close>

lemma refused_generation_consumes_sequence:
  assumes "\<not> co_closed c" "pr_SequenceKey p \<noteq> []" "record_sequence p c = Inr c'" "0 < pr_Generation p" "pr_Generation p \<le> co_generation c"
    and "pr_SequenceKey p' = pr_SequenceKey p" "pr_Sequence p' = pr_Sequence p" "pr_SequenceEpoch p' = pr_SequenceEpoch p"
  shows "BeginPrepared n (\<lambda>_. Inr p) c = (Inl (ErrStream ''refresh generation does not advance''), c')
    \<and> BeginPrepared m (\<lambda>_. Inr p') c' = (Inl ErrStalePreparation, c')"
proof -
  have s: "0 < pr_Sequence p" "0 \<le> pr_SequenceEpoch p"
    and c': "c' = c\<lparr>co_sequences := (co_sequences c)(pr_SequenceKey p \<mapsto> \<lparr>ps_epoch = pr_SequenceEpoch p, ps_sequence = pr_Sequence p\<rparr>)\<rparr>"
    using assms(2,3) by (auto simp: record_sequence_def split: if_splits option.splits)
  have "record_sequence p' c' = Inl ErrStalePreparation"
    using assms(2,6-8) s by (simp add: record_sequence_def c')
  moreover have "co_closed c' = co_closed c" "co_generation c' = co_generation c" by (simp_all add: c')
  ultimately show ?thesis using assms(1,3-5) by (simp add: BeginPrepared_def Let_def)
qed

end
