(* ===== verification/Authoring_Scope.thy ===== *)
theory Authoring_Scope
  imports Text_Order
begin

text \<open>
  Privileges and authoring scopes, \<open>internal/access/access.go\<close> and
  \<open>internal/access/authoring_auth.go\<close>: the errors of the authoring service, \<open>ParsePrivilege\<close>,
  \<open>NewAuthoringScope\<close> and \<open>AuthoringScope.Authorize\<close>. A scope that \<open>NewAuthoringScope\<close> returns is
  in normal form: its identifiers are trimmed and its privileges known, distinct and sorted.
\<close>

section \<open>Errors\<close>

datatype auth_error =
    ErrAuthoringScopeDenied | ErrDeviceAuthorizationPending | ErrDeviceAuthorizationSlowDown
  | ErrDeviceAuthorizationExpired | ErrDeviceAuthorizationDenied | ErrInvalidAuthoringCredential
  | ErrAuthoringCredentialExpired | ErrAuthoringRefreshReplay | ErrInvalidAuthoringPrincipal
  | ErrInvalidWorkloadLifetime | ErrAuditTransaction | ErrNoRows | ErrAuthOther string

section \<open>Privileges\<close>

type_synonym privilege = string

definition known_privileges :: "privilege list" where
  "known_privileges =
    [''USE_WORKSPACE'', ''VIEW_ITEM'', ''EDIT_ITEM'', ''MANAGE_ITEM'', ''QUERY_DATA'', ''PREVIEW_DATA'',
     ''TEST_DATA_POLICY'', ''REFRESH_DATA'', ''AUTHOR_PROJECT'', ''PUBLISH_RELEASE'', ''REVIEW_CANDIDATE'',
     ''REQUEST_DEPLOYMENT'', ''APPROVE_DEPLOYMENT'', ''DEPLOY'', ''ACTIVATE_DEPLOYMENT'', ''VERIFY_DEPLOYMENT'',
     ''ROLLBACK_DEPLOYMENT'', ''MANAGE_PUBLICATIONS'', ''USE_AGENT'', ''VIEW_AGENT'', ''MANAGE_GRANTS'',
     ''VIEW_AUDIT'', ''MANAGE_WORKSPACE'', ''MANAGE_PLATFORM'', ''VIEW_DATA'', ''INGEST_DATA'',
     ''MANAGE_CONNECTION_METADATA'', ''TEST_CONNECTION'', ''VIEW_CONNECTION_HEALTH'']"

definition ParsePrivilege :: "string \<Rightarrow> privilege option" where
  "ParsePrivilege v = (let p = trim_space v in if p \<in> set known_privileges then Some p else None)"

section \<open>Scopes\<close>

record authoring_scope =
  as_TargetID :: string
  as_ProjectID :: string
  as_Privileges :: "privilege list"

text \<open>The loop of \<open>NewAuthoringScope\<close>; the set \<open>seen\<close> holds the elements of \<open>validated\<close>.\<close>

fun validate_privileges :: "privilege list \<Rightarrow> string list \<Rightarrow> auth_error + privilege list" where
  "validate_privileges validated [] = Inr validated"
| "validate_privileges validated (requested # rest) =
    (case ParsePrivilege requested of
       None \<Rightarrow> Inl (ErrAuthOther ''unknown authoring action'')
     | Some p \<Rightarrow>
         if p \<in> set validated then Inl (ErrAuthOther ''duplicate authoring action'')
         else validate_privileges (validated @ [p]) rest)"

definition NewAuthoringScope :: "string \<Rightarrow> string \<Rightarrow> string list \<Rightarrow> auth_error + authoring_scope" where
  "NewAuthoringScope target project privs =
    (let target = trim_space target; project = trim_space project in
     if target = [] then Inl (ErrAuthOther ''authoring target ID is required'')
     else if project = [] then Inl (ErrAuthOther ''authoring project ID is required'')
     else if privs = [] then Inl (ErrAuthOther ''at least one authoring action is required'')
     else bind_res (validate_privileges [] privs) (\<lambda>validated.
       Inr \<lparr>as_TargetID = target, as_ProjectID = project, as_Privileges = sort_strings validated\<rparr>))"

definition Authorize_scope :: "authoring_scope \<Rightarrow> string \<Rightarrow> string \<Rightarrow> privilege \<Rightarrow> auth_error + unit" where
  "Authorize_scope scope target project privilege =
    (if trim_space target \<noteq> as_TargetID scope \<or> trim_space project \<noteq> as_ProjectID scope
        \<or> privilege \<notin> set (as_Privileges scope)
     then Inl ErrAuthoringScopeDenied else Inr ())"

section \<open>Normal form\<close>

definition normalized_scope :: "authoring_scope \<Rightarrow> authoring_scope" where
  "normalized_scope s = \<lparr>as_TargetID = trim_space (as_TargetID s), as_ProjectID = trim_space (as_ProjectID s),
     as_Privileges = sort_strings (map trim_space (as_Privileges s))\<rparr>"

definition acceptable_scope :: "authoring_scope \<Rightarrow> bool" where
  "acceptable_scope s \<longleftrightarrow> trim_space (as_TargetID s) \<noteq> [] \<and> trim_space (as_ProjectID s) \<noteq> [] \<and> as_Privileges s \<noteq> []
     \<and> set (map trim_space (as_Privileges s)) \<subseteq> set known_privileges \<and> distinct (map trim_space (as_Privileges s))"

lemma validate_privileges_Inr:
  "distinct v \<Longrightarrow> validate_privileges v rs = Inr vs \<longleftrightarrow> vs = v @ map trim_space rs
     \<and> set (map trim_space rs) \<subseteq> set known_privileges \<and> distinct (v @ map trim_space rs)"
proof (induction rs arbitrary: v)
  case (Cons r rs)
  show ?case
  proof (cases "trim_space r \<in> set known_privileges \<and> trim_space r \<notin> set v")
    case True
    then show ?thesis using Cons.IH [of "v @ [trim_space r]"] Cons.prems by (auto simp: ParsePrivilege_def Let_def)
  qed (auto simp: ParsePrivilege_def Let_def split: if_splits)
qed auto

lemma NewAuthoringScope_Inr:
  "NewAuthoringScope (as_TargetID s) (as_ProjectID s) (as_Privileges s) = Inr n \<longleftrightarrow> acceptable_scope s \<and> n = normalized_scope s"
  by (auto simp: NewAuthoringScope_def acceptable_scope_def normalized_scope_def Let_def validate_privileges_Inr)

lemma sort_strings_sorted: "sorted_wrt text_le ss \<Longrightarrow> sort_strings ss = ss"
proof (induction ss)
  case (Cons s ss)
  then have "sort_strings (s # ss) = insert_text s ss" by (simp add: sort_strings_def)
  then show ?case using Cons.prems by (cases ss) auto
qed (simp add: sort_strings_def)

lemma map_trim_sorted: "map trim_space (sort_strings (map trim_space ps)) = sort_strings (map trim_space ps)"
  by (rule map_idI) (auto simp: sort_strings_props)

lemma normalized_scope_idem [simp]: "normalized_scope (normalized_scope s) = normalized_scope s"
  by (simp add: normalized_scope_def map_trim_sorted sort_strings_sorted sort_strings_props)

lemma acceptable_normalized [simp]: "acceptable_scope (normalized_scope s) = acceptable_scope s"
  by (auto simp: acceptable_scope_def normalized_scope_def map_trim_sorted sort_strings_props image_image)

lemma Authorize_scope_Inr:
  "Authorize_scope scope target project privilege = Inr u \<longleftrightarrow>
     trim_space target = as_TargetID scope \<and> trim_space project = as_ProjectID scope \<and> privilege \<in> set (as_Privileges scope)"
  by (auto simp: Authorize_scope_def)

end
