(* ===== verification/Authoring_Store.thy ===== *)
theory Authoring_Store
  imports Authoring_Scope Versioned_Store
begin

text \<open>
  The repository of the authoring service, \<open>internal/access/sqlite/authoring_auth.go\<close>, with the
  records of \<open>internal/access/authoring_auth.go\<close> it stores: device authorizations, sessions and
  credentials, the principals they refer to and the audit events written with them. The queries are
  those of \<open>queries/access.sql\<close>, the constraints those of migration 047.

  A nullable text column is a string whose empty value is NULL and a nullable time column a time
  whose zero value is NULL, as \<open>nullableString\<close> and \<open>nullableTime\<close> write them; a column of privileges
  holds the list that its JSON text encodes. A time of a year from 0 to 9999 is read back from its
  text unchanged (\<open>Go_Time.timestamp_text_read_back\<close>), so the columns hold times, but the
  comparisons inside SQL compare their texts.
\<close>

section \<open>Data\<close>

record principal =
  pn_ID :: string
  pn_Kind :: string
  pn_Email :: string
  pn_DisplayName :: string
  pn_DisabledAt :: string
  pn_CreatedAt :: string
  pn_UpdatedAt :: string

datatype device_status = DevicePending | DeviceApproved | DeviceDenied | DeviceConsumed

datatype session_kind = SessionHumanCLI | SessionWorkload

record device_authorization =
  dv_ID :: string
  dv_ClientID :: string
  dv_DeviceCodeHash :: string
  dv_UserCodeHash :: string
  dv_Scope :: authoring_scope
  dv_Status :: device_status
  dv_PrincipalID :: string
  dv_ExpiresAt :: go_time
  dv_PollInterval :: int
  dv_LastPolledAt :: go_time
  dv_CreatedAt :: go_time
  dv_ApprovedAt :: go_time
  dv_DeniedAt :: go_time
  dv_ConsumedAt :: go_time

record authoring_session =
  ss_ID :: string
  ss_Kind :: session_kind
  ss_ClientID :: string
  ss_PrincipalID :: string
  ss_Scope :: authoring_scope
  ss_CreatedAt :: go_time
  ss_LastUsedAt :: go_time
  ss_ExpiresAt :: go_time
  ss_RevokedAt :: go_time

record authoring_credential =
  ac_ID :: string
  ac_Principal :: principal
  ac_Session :: authoring_session
  ac_AccessExpiresAt :: go_time
  ac_RefreshExpiresAt :: go_time

record device_credential_issue =
  di_DeviceCodeHash :: string
  di_ClientID :: string
  di_Now :: go_time
  di_SessionID :: string
  di_CredentialID :: string
  di_AccessTokenHash :: string
  di_RefreshTokenHash :: string
  di_AccessExpiresAt :: go_time
  di_RefreshExpiresAt :: go_time

record workload_credential_issue =
  wi_Session :: authoring_session
  wi_CredentialID :: string
  wi_AccessTokenHash :: string
  wi_AccessExpiresAt :: go_time

record credential_rotation =
  cn_RefreshTokenHash :: string
  cn_Now :: go_time
  cn_CredentialID :: string
  cn_AccessTokenHash :: string
  cn_RefreshTokenHashNew :: string
  cn_AccessExpiresAt :: go_time
  cn_RefreshExpiresAt :: go_time

record audit_event =
  ae_PrincipalID :: string
  ae_Action :: string
  ae_TargetType :: string
  ae_TargetID :: string
  ae_Status :: string
  ae_Metadata :: "(string \<times> string list) list"

section \<open>Tables\<close>

text \<open>A row of \<open>oauth_device_authorizations\<close>; the three columns of the scope are one field. A row of
  \<open>oauth_authoring_sessions\<close> has the fields of a session, its scope as it was written.\<close>

record device_row =
  dr_ID :: string
  dr_ClientID :: string
  dr_DeviceCodeHash :: string
  dr_UserCodeHash :: string
  dr_Scope :: authoring_scope
  dr_Status :: device_status
  dr_PrincipalID :: string
  dr_ExpiresAt :: go_time
  dr_PollIntervalSeconds :: int
  dr_LastPolledAt :: go_time
  dr_CreatedAt :: go_time
  dr_ApprovedAt :: go_time
  dr_DeniedAt :: go_time
  dr_ConsumedAt :: go_time

record credential_row =
  cr_ID :: string
  cr_SessionID :: string
  cr_AccessTokenHash :: string
  cr_RefreshTokenHash :: string
  cr_AccessExpiresAt :: go_time
  cr_RefreshExpiresAt :: go_time
  cr_Active :: bool
  cr_CreatedAt :: go_time
  cr_ReplacedAt :: go_time

record auth_db =
  ad_principals :: "principal list"
  ad_devices :: "device_row list"
  ad_sessions :: "authoring_session list"
  ad_credentials :: "credential_row list"
  ad_audit :: "(string \<times> audit_event) list"

text \<open>\<open>UPDATE \<dots> SET \<dots> WHERE \<dots>\<close> with the number of rows it affects, and \<open>expires_at > ?\<close> on the
  texts of times, which does not hold when the argument is NULL.\<close>

definition update_where :: "('r \<Rightarrow> bool) \<Rightarrow> ('r \<Rightarrow> 'r) \<Rightarrow> 'r list \<Rightarrow> 'r list" where
  "update_where P f rows = map (\<lambda>r. if P r then f r else r) rows"

definition rows_affected :: "('r \<Rightarrow> bool) \<Rightarrow> 'r list \<Rightarrow> nat" where
  "rows_affected P rows = length (filter P rows)"

definition text_later :: "go_time \<Rightarrow> go_time \<Rightarrow> bool" where
  "text_later column arg \<longleftrightarrow> arg \<noteq> 0 \<and> \<not> time_text_le column arg"

text \<open>A transaction commits its result, which may be an error that the method returns after the
  commit, or is rolled back with an error.\<close>

definition transaction :: "(auth_db \<Rightarrow> auth_error + (auth_error + 'a) \<times> auth_db) \<Rightarrow> auth_db
    \<Rightarrow> (auth_error + 'a) \<times> auth_db" where
  "transaction body db = (case body db of Inl e \<Rightarrow> (Inl e, db) | Inr out \<Rightarrow> out)"

definition known_id :: "auth_db \<Rightarrow> string \<Rightarrow> bool" where
  "known_id db i \<longleftrightarrow> (\<exists>p\<in>set (ad_principals db). pn_ID p = i)"

lemma known_id_frame [simp]:
  "known_id (db\<lparr>ad_devices := ds\<rparr>) = known_id db" "known_id (db\<lparr>ad_sessions := ss\<rparr>) = known_id db"
  "known_id (db\<lparr>ad_credentials := cs\<rparr>) = known_id db" "known_id (db\<lparr>ad_audit := log\<rparr>) = known_id db"
  by (simp_all add: fun_eq_iff known_id_def)

section \<open>Audit events\<close>

text \<open>The argument \<open>aid\<close> is what \<open>newID\<close> returns.\<close>

definition RecordAuditEvent :: "auth_error + string \<Rightarrow> audit_event \<Rightarrow> auth_db \<Rightarrow> auth_error + auth_db" where
  "RecordAuditEvent aid event db =
    (if blank (ae_Action event) then Inl (ErrAuthOther ''audit action is required'')
     else bind_res aid (\<lambda>i.
       if i \<in> set (map fst (ad_audit db))
          \<or> \<not> blank (ae_PrincipalID event) \<and> \<not> known_id db (ae_PrincipalID event)
       then Inl (ErrAuthOther ''constraint'')
       else Inr (db\<lparr>ad_audit := ad_audit db @ [(i, event)]\<rparr>)))"

definition audited :: "auth_error + string \<Rightarrow> audit_event \<Rightarrow> auth_error + 'a \<Rightarrow> auth_db
    \<Rightarrow> auth_error + (auth_error + 'a) \<times> auth_db" where
  "audited aid event result db =
    (case RecordAuditEvent aid event db of Inl e \<Rightarrow> Inl ErrAuditTransaction | Inr db \<Rightarrow> Inr (result, db))"

definition authoringDeviceAudit :: "string \<Rightarrow> device_authorization \<Rightarrow> string \<Rightarrow> string \<Rightarrow> audit_event" where
  "authoringDeviceAudit action d principalID status =
    \<lparr>ae_PrincipalID = principalID, ae_Action = action, ae_TargetType = ''device_authorization'',
     ae_TargetID = dv_ID d, ae_Status = status,
     ae_Metadata = [(''clientId'', [dv_ClientID d]), (''privileges'', as_Privileges (dv_Scope d)),
       (''projectId'', [as_ProjectID (dv_Scope d)]), (''targetId'', [as_TargetID (dv_Scope d)])]\<rparr>"

definition kind_text :: "session_kind \<Rightarrow> string" where
  "kind_text k = (case k of SessionHumanCLI \<Rightarrow> ''human_cli'' | SessionWorkload \<Rightarrow> ''workload'')"

definition authoringSessionAudit :: "string \<Rightarrow> authoring_session \<Rightarrow> string \<Rightarrow> audit_event" where
  "authoringSessionAudit action s status =
    \<lparr>ae_PrincipalID = ss_PrincipalID s, ae_Action = action, ae_TargetType = ''authoring_session'',
     ae_TargetID = ss_ID s, ae_Status = status,
     ae_Metadata = [(''clientId'', [ss_ClientID s]), (''kind'', [kind_text (ss_Kind s)]),
       (''privileges'', as_Privileges (ss_Scope s)), (''projectId'', [as_ProjectID (ss_Scope s)]),
       (''targetId'', [as_TargetID (ss_Scope s)])]\<rparr>"

section \<open>From rows to records\<close>

definition mapAuthoringScope :: "authoring_scope \<Rightarrow> auth_error + authoring_scope" where
  "mapAuthoringScope columns = NewAuthoringScope (as_TargetID columns) (as_ProjectID columns) (as_Privileges columns)"

definition mapDeviceAuthorization :: "device_row \<Rightarrow> auth_error + device_authorization" where
  "mapDeviceAuthorization row = bind_res (mapAuthoringScope (dr_Scope row)) (\<lambda>scope. Inr
    \<lparr>dv_ID = dr_ID row, dv_ClientID = dr_ClientID row, dv_DeviceCodeHash = dr_DeviceCodeHash row,
     dv_UserCodeHash = dr_UserCodeHash row, dv_Scope = scope, dv_Status = dr_Status row,
     dv_PrincipalID = dr_PrincipalID row, dv_ExpiresAt = dr_ExpiresAt row,
     dv_PollInterval = wrap_int64 (dr_PollIntervalSeconds row * 10 ^ 9), dv_LastPolledAt = dr_LastPolledAt row,
     dv_CreatedAt = dr_CreatedAt row, dv_ApprovedAt = dr_ApprovedAt row, dv_DeniedAt = dr_DeniedAt row,
     dv_ConsumedAt = dr_ConsumedAt row\<rparr>)"

definition mapAuthoringSession :: "authoring_session \<Rightarrow> auth_error + authoring_session" where
  "mapAuthoringSession row = bind_res (mapAuthoringScope (ss_Scope row)) (\<lambda>scope. Inr (row\<lparr>ss_Scope := scope\<rparr>))"

text \<open>A row of the two queries that join a credential with its session and its principal.\<close>

type_synonym credential_join = "credential_row \<times> authoring_session \<times> principal"

definition mapCredential :: "credential_join \<Rightarrow> auth_error + authoring_credential" where
  "mapCredential row = (case row of (c, s, p) \<Rightarrow>
     bind_res (mapAuthoringScope (ss_Scope s)) (\<lambda>scope. Inr
       \<lparr>ac_ID = cr_ID c, ac_Principal = p, ac_Session = s\<lparr>ss_Scope := scope\<rparr>,
        ac_AccessExpiresAt = cr_AccessExpiresAt c, ac_RefreshExpiresAt = cr_RefreshExpiresAt c\<rparr>))"

section \<open>Queries\<close>

definition GetPrincipal :: "string \<Rightarrow> auth_db \<Rightarrow> auth_error + principal" where
  "GetPrincipal i db = (case find (\<lambda>p. pn_ID p = i) (ad_principals db) of None \<Rightarrow> Inl ErrNoRows | Some p \<Rightarrow> Inr p)"

definition get_device :: "(device_row \<Rightarrow> bool) \<Rightarrow> auth_db \<Rightarrow> auth_error + device_row" where
  "get_device P db = (case find P (ad_devices db) of None \<Rightarrow> Inl ErrNoRows | Some d \<Rightarrow> Inr d)"

definition join_credential :: "(credential_row \<Rightarrow> bool) \<Rightarrow> auth_db \<Rightarrow> auth_error + credential_join" where
  "join_credential P db =
    (case find P (ad_credentials db) of
       None \<Rightarrow> Inl ErrNoRows
     | Some c \<Rightarrow>
    case find (\<lambda>s. ss_ID s = cr_SessionID c) (ad_sessions db) of
       None \<Rightarrow> Inl ErrNoRows
     | Some s \<Rightarrow> bind_res (GetPrincipal (ss_PrincipalID s) db) (\<lambda>p. Inr (c, s, p)))"

definition GetAuthoringCredentialByAccessHash :: "string \<Rightarrow> auth_db \<Rightarrow> auth_error + credential_join" where
  "GetAuthoringCredentialByAccessHash h db = join_credential (\<lambda>c. cr_AccessTokenHash c = h) db"

definition GetAuthoringCredentialByRefreshHash :: "string \<Rightarrow> auth_db \<Rightarrow> auth_error + credential_join" where
  "GetAuthoringCredentialByRefreshHash h db = join_credential (\<lambda>c. h \<noteq> [] \<and> cr_RefreshTokenHash c = h) db"

definition createAuthoringSession :: "authoring_session \<Rightarrow> auth_db \<Rightarrow> auth_error + auth_db" where
  "createAuthoringSession s db =
    (if (\<exists>r\<in>set (ad_sessions db). ss_ID r = ss_ID s) \<or> \<not> known_id db (ss_PrincipalID s)
     then Inl (ErrAuthOther ''constraint'')
     else Inr (db\<lparr>ad_sessions := ad_sessions db @ [s\<lparr>ss_LastUsedAt := 0, ss_RevokedAt := 0\<rparr>]\<rparr>))"

text \<open>The constraints on a new credential: unique identifier and hashes, an existing session, a
  refresh hash exactly with a refresh expiry, and one active credential per session.\<close>

definition credential_violates :: "credential_row \<Rightarrow> auth_db \<Rightarrow> bool" where
  "credential_violates c db \<longleftrightarrow> (\<exists>r\<in>set (ad_credentials db). cr_ID r = cr_ID c
       \<or> cr_AccessTokenHash r = cr_AccessTokenHash c
       \<or> cr_RefreshTokenHash c \<noteq> [] \<and> cr_RefreshTokenHash r = cr_RefreshTokenHash c
       \<or> cr_Active r \<and> cr_SessionID r = cr_SessionID c)
     \<or> (\<forall>s\<in>set (ad_sessions db). ss_ID s \<noteq> cr_SessionID c)
     \<or> (cr_RefreshTokenHash c = []) \<noteq> (cr_RefreshExpiresAt c = 0)"

definition new_credential :: "string \<Rightarrow> string \<Rightarrow> string \<Rightarrow> string \<Rightarrow> go_time \<Rightarrow> go_time \<Rightarrow> go_time \<Rightarrow> credential_row" where
  "new_credential i sessionID accessHash refreshHash accessExpires refreshExpires created =
    \<lparr>cr_ID = i, cr_SessionID = sessionID, cr_AccessTokenHash = accessHash, cr_RefreshTokenHash = refreshHash,
     cr_AccessExpiresAt = accessExpires, cr_RefreshExpiresAt = refreshExpires, cr_Active = True,
     cr_CreatedAt = created, cr_ReplacedAt = 0\<rparr>"

definition createAuthoringCredential :: "string \<Rightarrow> string \<Rightarrow> string \<Rightarrow> string \<Rightarrow> go_time \<Rightarrow> go_time \<Rightarrow> go_time \<Rightarrow> auth_db
    \<Rightarrow> auth_error + auth_db" where
  "createAuthoringCredential i sessionID accessHash refreshHash accessExpires refreshExpires created db =
    (let c = new_credential i sessionID accessHash refreshHash accessExpires refreshExpires created in
     if credential_violates c db then Inl (ErrAuthOther ''constraint'')
     else Inr (db\<lparr>ad_credentials := ad_credentials db @ [c]\<rparr>))"

definition RevokeAuthoringSessionByID :: "string \<Rightarrow> go_time \<Rightarrow> auth_db \<Rightarrow> auth_db" where
  "RevokeAuthoringSessionByID i now db = db\<lparr>ad_sessions := update_where (\<lambda>s. ss_ID s = i)
     (\<lambda>s. s\<lparr>ss_RevokedAt := (if ss_RevokedAt s \<noteq> 0 then ss_RevokedAt s else now)\<rparr>) (ad_sessions db)\<rparr>"

end
