(* ===== verification/Authoring_Repository.thy ===== *)
theory Authoring_Repository
  imports Authoring_Store
begin

text \<open>
  The methods of the repository of \<open>internal/access/sqlite/authoring_auth.go\<close> that the authoring
  service calls. Every method that writes is one SQLite transaction, so its model is one step on the
  database; \<open>AuthoringCredentialByAccessTokenHash\<close> reads and then writes one column, which nothing
  else reads. Failures of the database driver itself are not modelled, failures of constraints are.
\<close>

section \<open>Device authorizations\<close>

text \<open>\<open>int64(d / time.Second)\<close> truncates towards zero.\<close>

definition to_seconds :: "int \<Rightarrow> int" where
  "to_seconds d = (if d < 0 then - ((- d) div 10 ^ 9) else d div 10 ^ 9)"

definition device_row_of :: "device_authorization \<Rightarrow> device_row" where
  "device_row_of record =
    \<lparr>dr_ID = dv_ID record, dr_ClientID = dv_ClientID record, dr_DeviceCodeHash = dv_DeviceCodeHash record,
     dr_UserCodeHash = dv_UserCodeHash record, dr_Scope = dv_Scope record, dr_Status = dv_Status record,
     dr_PrincipalID = [], dr_ExpiresAt = dv_ExpiresAt record,
     dr_PollIntervalSeconds = to_seconds (dv_PollInterval record), dr_LastPolledAt = 0,
     dr_CreatedAt = dv_CreatedAt record, dr_ApprovedAt = 0, dr_DeniedAt = 0, dr_ConsumedAt = 0\<rparr>"

definition device_violates :: "device_row \<Rightarrow> auth_db \<Rightarrow> bool" where
  "device_violates d db \<longleftrightarrow> (\<exists>r\<in>set (ad_devices db). dr_ID r = dr_ID d \<or> dr_DeviceCodeHash r = dr_DeviceCodeHash d
     \<or> dr_UserCodeHash r = dr_UserCodeHash d) \<or> dr_PollIntervalSeconds d \<le> 0"

definition CreateDeviceAuthorization :: "auth_error + string \<Rightarrow> device_authorization \<Rightarrow> auth_db
    \<Rightarrow> (auth_error + unit) \<times> auth_db" where
  "CreateDeviceAuthorization aid record = transaction (\<lambda>db.
    let row = device_row_of record in
    if device_violates row db then Inl (ErrAuthOther ''constraint'')
    else audited aid (authoringDeviceAudit ''authoring.device.started'' record [] ''success'') (Inr ())
           (db\<lparr>ad_devices := ad_devices db @ [row]\<rparr>))"

definition DeviceAuthorizationByUserCodeHash :: "string \<Rightarrow> auth_db \<Rightarrow> auth_error + device_authorization" where
  "DeviceAuthorizationByUserCodeHash h db =
     bind_res (get_device (\<lambda>d. dr_UserCodeHash d = h) db) mapDeviceAuthorization"

definition decidable_device :: "string \<Rightarrow> go_time \<Rightarrow> device_row \<Rightarrow> bool" where
  "decidable_device i now d \<longleftrightarrow> dr_ID d = i \<and> dr_Status d = DevicePending \<and> text_later (dr_ExpiresAt d) now"

text \<open>The two decisions differ in the update and in the audited action.\<close>

definition decide_device :: "(device_row \<Rightarrow> device_row) \<Rightarrow> string \<Rightarrow> auth_error + string \<Rightarrow> string \<Rightarrow> string \<Rightarrow> go_time
    \<Rightarrow> auth_db \<Rightarrow> (auth_error + unit) \<times> auth_db" where
  "decide_device change action aid i principalID now = transaction (\<lambda>db.
    let P = decidable_device i now in
    if rows_affected P (ad_devices db) \<noteq> 0 \<and> principalID \<noteq> [] \<and> \<not> known_id db principalID
    then Inl (ErrAuthOther ''constraint'')
    else if rows_affected P (ad_devices db) = 0 then Inl ErrDeviceAuthorizationExpired
    else
      let db' = db\<lparr>ad_devices := update_where P change (ad_devices db)\<rparr> in
      bind_res (get_device (\<lambda>d. dr_ID d = i) db') (\<lambda>row.
      bind_res (mapDeviceAuthorization row) (\<lambda>record.
      audited aid (authoringDeviceAudit action record principalID ''success'') (Inr ()) db')))"

definition ApproveDeviceAuthorization_db :: "auth_error + string \<Rightarrow> string \<Rightarrow> string \<Rightarrow> go_time \<Rightarrow> auth_db
    \<Rightarrow> (auth_error + unit) \<times> auth_db" where
  "ApproveDeviceAuthorization_db aid i principalID now =
     decide_device (\<lambda>d. d\<lparr>dr_Status := DeviceApproved, dr_PrincipalID := principalID, dr_ApprovedAt := now\<rparr>)
       ''authoring.device.approved'' aid i principalID now"

definition DenyDeviceAuthorization_db :: "auth_error + string \<Rightarrow> string \<Rightarrow> string \<Rightarrow> go_time \<Rightarrow> auth_db
    \<Rightarrow> (auth_error + unit) \<times> auth_db" where
  "DenyDeviceAuthorization_db aid i principalID now =
     decide_device (\<lambda>d. d\<lparr>dr_Status := DeviceDenied, dr_PrincipalID := principalID, dr_DeniedAt := now\<rparr>)
       ''authoring.device.denied'' aid i principalID now"

section \<open>Issuing credentials\<close>

text \<open>\<open>Time.Sub\<close> saturates.\<close>

definition time_sub :: "go_time \<Rightarrow> go_time \<Rightarrow> int" where
  "time_sub a b = max (- (2 ^ 63)) (min max_int64 (a - b))"

definition RecordDeviceAuthorizationPoll :: "string \<Rightarrow> go_time \<Rightarrow> auth_db \<Rightarrow> auth_db" where
  "RecordDeviceAuthorizationPoll i now db =
     db\<lparr>ad_devices := update_where (\<lambda>d. dr_ID d = i) (\<lambda>d. d\<lparr>dr_LastPolledAt := now\<rparr>) (ad_devices db)\<rparr>"

definition consumable_device :: "string \<Rightarrow> go_time \<Rightarrow> device_row \<Rightarrow> bool" where
  "consumable_device i now d \<longleftrightarrow> dr_ID d = i \<and> dr_Status d = DeviceApproved \<and> text_later (dr_ExpiresAt d) now"

definition ConsumeDeviceAuthorization :: "string \<Rightarrow> go_time \<Rightarrow> auth_db \<Rightarrow> auth_db" where
  "ConsumeDeviceAuthorization i now db = db\<lparr>ad_devices := update_where (consumable_device i now)
     (\<lambda>d. d\<lparr>dr_Status := DeviceConsumed, dr_ConsumedAt := now\<rparr>) (ad_devices db)\<rparr>"

definition issued_session :: "device_credential_issue \<Rightarrow> device_authorization \<Rightarrow> principal \<Rightarrow> authoring_session" where
  "issued_session issue record p =
    \<lparr>ss_ID = di_SessionID issue, ss_Kind = SessionHumanCLI, ss_ClientID = dv_ClientID record,
     ss_PrincipalID = pn_ID p, ss_Scope = dv_Scope record, ss_CreatedAt = di_Now issue,
     ss_LastUsedAt = 0, ss_ExpiresAt = di_RefreshExpiresAt issue, ss_RevokedAt = 0\<rparr>"

text \<open>The rest of \<open>IssueDeviceCredential\<close> once the authorization is approved.\<close>

definition issue_approved :: "auth_error + string \<Rightarrow> device_credential_issue \<Rightarrow> device_authorization \<Rightarrow> auth_db
    \<Rightarrow> auth_error + (auth_error + authoring_credential) \<times> auth_db" where
  "issue_approved aid issue record db =
    (if dv_PrincipalID record = [] then Inl ErrInvalidAuthoringPrincipal
     else bind_res (GetPrincipal (dv_PrincipalID record) db) (\<lambda>p.
     if pn_DisabledAt p \<noteq> [] then Inl ErrInvalidAuthoringPrincipal
     else if rows_affected (consumable_device (dv_ID record) (di_Now issue)) (ad_devices db) \<noteq> 1
     then Inl ErrInvalidAuthoringCredential
     else
       let db = ConsumeDeviceAuthorization (dv_ID record) (di_Now issue) db;
           session = issued_session issue record p in
       bind_res (createAuthoringSession session db) (\<lambda>db.
       bind_res (createAuthoringCredential (di_CredentialID issue) (ss_ID session) (di_AccessTokenHash issue)
           (di_RefreshTokenHash issue) (di_AccessExpiresAt issue) (di_RefreshExpiresAt issue) (di_Now issue) db) (\<lambda>db.
       audited aid (authoringSessionAudit ''authoring.session.created'' session ''success'')
         (Inr \<lparr>ac_ID = di_CredentialID issue, ac_Principal = p, ac_Session = session,
               ac_AccessExpiresAt = di_AccessExpiresAt issue, ac_RefreshExpiresAt = di_RefreshExpiresAt issue\<rparr>) db))))"

definition IssueDeviceCredential :: "auth_error + string \<Rightarrow> device_credential_issue \<Rightarrow> auth_db
    \<Rightarrow> (auth_error + authoring_credential) \<times> auth_db" where
  "IssueDeviceCredential aid issue = transaction (\<lambda>db.
    bind_res (get_device (\<lambda>d. dr_DeviceCodeHash d = di_DeviceCodeHash issue) db) (\<lambda>row.
    bind_res (mapDeviceAuthorization row) (\<lambda>record.
    if dv_ClientID record \<noteq> di_ClientID issue then Inl ErrInvalidAuthoringCredential
    else if \<not> di_Now issue < dv_ExpiresAt record then Inl ErrDeviceAuthorizationExpired
    else case dv_Status record of
      DevicePending \<Rightarrow>
        if dv_LastPolledAt record \<noteq> 0 \<and> time_sub (di_Now issue) (dv_LastPolledAt record) < dv_PollInterval record
        then Inl ErrDeviceAuthorizationSlowDown
        else Inr (Inl ErrDeviceAuthorizationPending, RecordDeviceAuthorizationPoll (dv_ID record) (di_Now issue) db)
    | DeviceDenied \<Rightarrow> Inl ErrDeviceAuthorizationDenied
    | DeviceConsumed \<Rightarrow> Inl ErrInvalidAuthoringCredential
    | DeviceApproved \<Rightarrow> issue_approved aid issue record db)))"

definition CreateWorkloadCredential :: "auth_error + string \<Rightarrow> workload_credential_issue \<Rightarrow> auth_db
    \<Rightarrow> (auth_error + authoring_credential) \<times> auth_db" where
  "CreateWorkloadCredential aid issue = transaction (\<lambda>db.
    let session = wi_Session issue in
    bind_res (GetPrincipal (ss_PrincipalID session) db) (\<lambda>p.
    if pn_Kind p \<noteq> ''service_principal'' \<or> pn_DisabledAt p \<noteq> [] then Inl ErrInvalidAuthoringPrincipal
    else
      bind_res (createAuthoringSession session db) (\<lambda>db.
      bind_res (createAuthoringCredential (wi_CredentialID issue) (ss_ID session) (wi_AccessTokenHash issue) []
          (wi_AccessExpiresAt issue) 0 (ss_CreatedAt session) db) (\<lambda>db.
      audited aid (authoringSessionAudit ''authoring.workload.created'' session ''success'')
        (Inr \<lparr>ac_ID = wi_CredentialID issue, ac_Principal = p, ac_Session = session,
              ac_AccessExpiresAt = wi_AccessExpiresAt issue, ac_RefreshExpiresAt = 0\<rparr>) db))))"

section \<open>Rotation\<close>

definition replaceable :: "string \<Rightarrow> credential_row \<Rightarrow> bool" where
  "replaceable i c \<longleftrightarrow> cr_ID c = i \<and> cr_Active c"

definition ReplaceAuthoringCredential :: "string \<Rightarrow> go_time \<Rightarrow> auth_db \<Rightarrow> auth_db" where
  "ReplaceAuthoringCredential i now db = db\<lparr>ad_credentials := update_where (replaceable i)
     (\<lambda>c. c\<lparr>cr_Active := False, cr_ReplacedAt := now\<rparr>) (ad_credentials db)\<rparr>"

definition UpdateAuthoringSessionExpiry :: "string \<Rightarrow> go_time \<Rightarrow> auth_db \<Rightarrow> auth_db" where
  "UpdateAuthoringSessionExpiry i expires db = db\<lparr>ad_sessions := update_where (\<lambda>s. ss_ID s = i \<and> ss_RevokedAt s = 0)
     (\<lambda>s. s\<lparr>ss_ExpiresAt := expires\<rparr>) (ad_sessions db)\<rparr>"

text \<open>The branch of \<open>RotateAuthoringCredential\<close> for a credential that has been replaced before.\<close>

definition refresh_replayed :: "auth_error + string \<Rightarrow> credential_rotation \<Rightarrow> credential_join \<Rightarrow> auth_db
    \<Rightarrow> auth_error + (auth_error + authoring_credential) \<times> auth_db" where
  "refresh_replayed aid rotation row db = (case row of (c, s, p) \<Rightarrow>
     let db = RevokeAuthoringSessionByID (cr_SessionID c) (cn_Now rotation) db in
     bind_res (mapCredential row) (\<lambda>credential.
     audited aid (authoringSessionAudit ''authoring.refresh.replay'' (ac_Session credential) ''security_event'')
       (Inl ErrAuthoringRefreshReplay) db))"

definition rotated_credential :: "credential_rotation \<Rightarrow> authoring_credential \<Rightarrow> authoring_credential" where
  "rotated_credential rotation credential = credential\<lparr>ac_ID := cn_CredentialID rotation,
     ac_AccessExpiresAt := cn_AccessExpiresAt rotation, ac_RefreshExpiresAt := cn_RefreshExpiresAt rotation,
     ac_Session := (ac_Session credential)\<lparr>ss_ExpiresAt := cn_RefreshExpiresAt rotation\<rparr>\<rparr>"

definition RotateAuthoringCredential :: "auth_error + string \<Rightarrow> credential_rotation \<Rightarrow> auth_db
    \<Rightarrow> (auth_error + authoring_credential) \<times> auth_db" where
  "RotateAuthoringCredential aid rotation = transaction (\<lambda>db.
    case GetAuthoringCredentialByRefreshHash (cn_RefreshTokenHash rotation) db of
      Inl e \<Rightarrow> Inl (if e = ErrNoRows then ErrInvalidAuthoringCredential else e)
    | Inr (c, s, p) \<Rightarrow>
        if \<not> cr_Active c then refresh_replayed aid rotation (c, s, p) db
        else if cr_RefreshExpiresAt c = 0 \<or> \<not> cn_Now rotation < cr_RefreshExpiresAt c \<or> ss_RevokedAt s \<noteq> 0
        then Inl ErrInvalidAuthoringCredential
        else if rows_affected (replaceable (cr_ID c)) (ad_credentials db) \<noteq> 1 then Inl ErrAuthoringRefreshReplay
        else
          let db = ReplaceAuthoringCredential (cr_ID c) (cn_Now rotation) db;
              db = UpdateAuthoringSessionExpiry (cr_SessionID c) (cn_RefreshExpiresAt rotation) db in
          bind_res (createAuthoringCredential (cn_CredentialID rotation) (cr_SessionID c) (cn_AccessTokenHash rotation)
              (cn_RefreshTokenHashNew rotation) (cn_AccessExpiresAt rotation) (cn_RefreshExpiresAt rotation)
              (cn_Now rotation) db) (\<lambda>db.
          bind_res (mapCredential (c, s, p)) (\<lambda>credential.
          let credential = rotated_credential rotation credential in
          audited aid (authoringSessionAudit ''authoring.token.refreshed'' (ac_Session credential) ''success'')
            (Inr credential) db)))"

section \<open>Sessions\<close>

definition TouchAuthoringSession :: "string \<Rightarrow> go_time \<Rightarrow> auth_db \<Rightarrow> auth_db" where
  "TouchAuthoringSession i now db = db\<lparr>ad_sessions := update_where (\<lambda>s. ss_ID s = i \<and> ss_RevokedAt s = 0)
     (\<lambda>s. s\<lparr>ss_LastUsedAt := now\<rparr>) (ad_sessions db)\<rparr>"

definition AuthoringCredentialByAccessTokenHash :: "string \<Rightarrow> go_time \<Rightarrow> auth_db
    \<Rightarrow> (auth_error + authoring_credential) \<times> auth_db" where
  "AuthoringCredentialByAccessTokenHash h now db =
    (case GetAuthoringCredentialByAccessHash h db of
       Inl e \<Rightarrow> (Inl e, db)
     | Inr (c, s, p) \<Rightarrow>
         if \<not> cr_Active c \<or> ss_RevokedAt s \<noteq> 0 then (Inl ErrInvalidAuthoringCredential, db)
         else case mapCredential (c, s, p) of
           Inl e \<Rightarrow> (Inl e, db)
         | Inr credential \<Rightarrow>
             (Inr (credential\<lparr>ac_Session := (ac_Session credential)\<lparr>ss_LastUsedAt := now\<rparr>\<rparr>),
              TouchAuthoringSession (ss_ID (ac_Session credential)) now db))"

text \<open>\<open>ORDER BY created_at DESC, id\<close>.\<close>

definition session_before :: "authoring_session \<Rightarrow> authoring_session \<Rightarrow> bool" where
  "session_before a b \<longleftrightarrow> \<not> time_text_le (ss_CreatedAt a) (ss_CreatedAt b)
     \<or> time_text_le (ss_CreatedAt b) (ss_CreatedAt a) \<and> text_le (ss_ID a) (ss_ID b)"

fun insert_session :: "authoring_session \<Rightarrow> authoring_session list \<Rightarrow> authoring_session list" where
  "insert_session s [] = [s]"
| "insert_session s (t # ts) = (if session_before s t then s # t # ts else t # insert_session s ts)"

fun map_sessions :: "authoring_session list \<Rightarrow> auth_error + authoring_session list" where
  "map_sessions [] = Inr []"
| "map_sessions (row # rows) =
    bind_res (mapAuthoringSession row) (\<lambda>s. bind_res (map_sessions rows) (\<lambda>ss. Inr (s # ss)))"

definition ListAuthoringSessions :: "string \<Rightarrow> auth_db \<Rightarrow> auth_error + authoring_session list" where
  "ListAuthoringSessions principalID db =
     map_sessions (foldr insert_session (filter (\<lambda>s. ss_PrincipalID s = principalID) (ad_sessions db)) [])"

definition RevokeAuthoringSession :: "auth_error + string \<Rightarrow> string \<Rightarrow> string \<Rightarrow> go_time \<Rightarrow> auth_db
    \<Rightarrow> (auth_error + unit) \<times> auth_db" where
  "RevokeAuthoringSession aid principalID sessionID now = transaction (\<lambda>db.
    let P = (\<lambda>s. ss_ID s = sessionID \<and> ss_PrincipalID s = principalID) in
    if rows_affected P (ad_sessions db) = 0 then Inl ErrInvalidAuthoringCredential
    else audited aid \<lparr>ae_PrincipalID = principalID, ae_Action = ''authoring.session.revoked'',
        ae_TargetType = ''authoring_session'', ae_TargetID = sessionID, ae_Status = ''success'', ae_Metadata = []\<rparr> (Inr ())
      (db\<lparr>ad_sessions := update_where P
         (\<lambda>s. s\<lparr>ss_RevokedAt := (if ss_RevokedAt s \<noteq> 0 then ss_RevokedAt s else now)\<rparr>) (ad_sessions db)\<rparr>))"

definition RevokeAuthoringSessionByAccessTokenHash :: "auth_error + string \<Rightarrow> string \<Rightarrow> go_time \<Rightarrow> auth_db
    \<Rightarrow> (auth_error + unit) \<times> auth_db" where
  "RevokeAuthoringSessionByAccessTokenHash aid h now = transaction (\<lambda>db.
    case GetAuthoringCredentialByAccessHash h db of
      Inl e \<Rightarrow> Inl (if e = ErrNoRows then ErrInvalidAuthoringCredential else e)
    | Inr (c, s, p) \<Rightarrow>
        let db = RevokeAuthoringSessionByID (cr_SessionID c) now db in
        bind_res (mapCredential (c, s, p)) (\<lambda>credential.
        audited aid (authoringSessionAudit ''authoring.session.revoked'' (ac_Session credential) ''success'') (Inr ()) db))"

section \<open>Principals\<close>

text \<open>\<open>servicePrincipalSecretForSecret\<close> looks a secret up by its HMAC and verifies it with the
  third-party package argon2id: the argument \<open>verified\<close> is the service principal of the row it
  returns.\<close>

definition PrincipalForServicePrincipalSecret :: "(string \<Rightarrow> string \<Rightarrow> auth_error + string) \<Rightarrow> string \<Rightarrow> string \<Rightarrow> auth_db
    \<Rightarrow> auth_error + principal" where
  "PrincipalForServicePrincipalSecret verified i secret db =
    bind_res (verified (trim_space i) secret) (\<lambda>owner.
    bind_res (GetPrincipal owner db) (\<lambda>p.
    if pn_DisabledAt p \<noteq> [] then Inl ErrNoRows else Inr p))"

text \<open>\<open>DeletePrincipal\<close> deletes the rows that refer to the principal, and the credentials of its
  sessions, by cascade; audit events keep no reference to it. Rows of other tables may refer to it
  without a cascade, which the argument \<open>restricted\<close> says.\<close>

definition DeletePrincipal :: "bool \<Rightarrow> string \<Rightarrow> auth_db \<Rightarrow> (auth_error + unit) \<times> auth_db" where
  "DeletePrincipal restricted i db =
    (if \<not> known_id db i then (Inl ErrNoRows, db)
     else if restricted then (Inl (ErrAuthOther ''constraint''), db)
     else
       let gone = (\<lambda>c. \<exists>s\<in>set (ad_sessions db). ss_ID s = cr_SessionID c \<and> ss_PrincipalID s = i) in
       (Inr (), db\<lparr>ad_principals := filter (\<lambda>p. pn_ID p \<noteq> i) (ad_principals db),
          ad_devices := filter (\<lambda>d. dr_PrincipalID d = [] \<or> dr_PrincipalID d \<noteq> i) (ad_devices db),
          ad_sessions := filter (\<lambda>s. ss_PrincipalID s \<noteq> i) (ad_sessions db),
          ad_credentials := filter (\<lambda>c. \<not> gone c) (ad_credentials db),
          ad_audit := map (\<lambda>(a, e). (a, if ae_PrincipalID e = i then e\<lparr>ae_PrincipalID := []\<rparr> else e)) (ad_audit db)\<rparr>))"

end
