(* ===== verification/Authoring_Service.thy ===== *)
theory Authoring_Service
  imports Authoring_Repository
begin

text \<open>
  The authoring service, \<open>internal/access/authoring_auth.go\<close>: the device authorization flow, the
  rotation of refresh tokens, workload identities and the use and revocation of access tokens.

  What the service takes from outside is an argument: \<open>now\<close> is the clock, \<open>rnd k n\<close> the result of the
  \<open>k\<close>-th read of \<open>n\<close> random bytes, \<open>hash\<close> the function \<open>hashAuthoringSecret\<close> (the hexadecimal SHA-256
  digest; nothing is assumed of it), \<open>upper\<close> the Unicode case mapping of \<open>strings.ToUpper\<close>, \<open>parse\<close>
  the result of \<open>url.Parse\<close>, \<open>aid\<close> the identifier of the audit event, and \<open>env\<close> what other processes
  did to the database between two calls of the repository.
\<close>

section \<open>Secrets\<close>

type_synonym entropy = "nat \<Rightarrow> nat \<Rightarrow> auth_error + string"

text \<open>\<open>base64.RawURLEncoding\<close>.\<close>

definition base64_alphabet :: string where
  "base64_alphabet = ''ABCDEFGHIJKLMNOPQRSTUVWXYZabcdefghijklmnopqrstuvwxyz0123456789-_''"

definition sextet :: "nat \<Rightarrow> char" where
  "sextet n = base64_alphabet ! n"

fun base64_raw_url :: "nat list \<Rightarrow> string" where
  "base64_raw_url [] = []"
| "base64_raw_url [a] = [sextet (a div 4), sextet (a mod 4 * 16)]"
| "base64_raw_url [a, b] = [sextet (a div 4), sextet (a mod 4 * 16 + b div 16), sextet (b mod 16 * 4)]"
| "base64_raw_url (a # b # c # r) =
     sextet (a div 4) # sextet (a mod 4 * 16 + b div 16) # sextet (b mod 16 * 4 + c div 64) # sextet (c mod 64)
       # base64_raw_url r"

definition byte_values :: "string \<Rightarrow> nat list" where
  "byte_values s = map of_char s"

definition randomSecret :: "string \<Rightarrow> auth_error + string \<Rightarrow> auth_error + string" where
  "randomSecret pre read = bind_res read (\<lambda>bytes. Inr (pre @ base64_raw_url (byte_values bytes)))"

definition user_code_alphabet :: string where
  "user_code_alphabet = ''BCDFGHJKLMNPQRSTVWXYZ23456789''"

definition randomUserCode :: "auth_error + string \<Rightarrow> auth_error + string" where
  "randomUserCode read = bind_res read (\<lambda>bytes.
     let code = map (\<lambda>b. user_code_alphabet ! (b mod length user_code_alphabet)) (byte_values bytes) in
     Inr (take 4 code @ ''-'' @ drop 4 code))"

definition ascii_upper :: "char \<Rightarrow> char" where
  "ascii_upper c = (if is_lower c then char_of ((of_char c :: nat) - 32) else c)"

definition ToUpper :: "(string \<Rightarrow> string) \<Rightarrow> string \<Rightarrow> string" where
  "ToUpper upper s = (if list_all (\<lambda>c. (of_char c :: nat) < 128) s then map ascii_upper s else upper s)"

definition normalizeUserCode :: "(string \<Rightarrow> string) \<Rightarrow> string \<Rightarrow> string" where
  "normalizeUserCode upper value = filter (\<lambda>c. c \<noteq> CHR ''-'') (ToUpper upper (trim_space value))"

text \<open>\<open>url.QueryEscape\<close>.\<close>

definition escape_digit :: "nat \<Rightarrow> char" where
  "escape_digit n = ''0123456789ABCDEF'' ! n"

definition query_escape_char :: "char \<Rightarrow> string" where
  "query_escape_char c =
    (if is_lower c \<or> is_upper c \<or> is_digit c \<or> c \<in> set ''-_.~'' then [c]
     else if c = CHR '' '' then ''+''
     else [CHR ''%'', escape_digit (of_char c div 16), escape_digit (of_char c mod 16)])"

definition QueryEscape :: "string \<Rightarrow> string" where
  "QueryEscape s = concat (map query_escape_char s)"

section \<open>The service\<close>

record authoring_config =
  acfg_InstanceID :: string
  acfg_CanonicalOrigin :: string
  acfg_DeviceTTL :: int
  acfg_PollInterval :: int
  acfg_AccessTokenTTL :: int
  acfg_RefreshTokenTTL :: int
  acfg_WorkloadMaxTTL :: int

record authoring_service =
  aus_instanceID :: string
  aus_canonicalOrigin :: string
  aus_deviceTTL :: int
  aus_pollInterval :: int
  aus_accessTokenTTL :: int
  aus_refreshTokenTTL :: int
  aus_workloadMaxTTL :: int

text \<open>The parts of a parsed URL that the constructor reads.\<close>

record parsed_url =
  pu_Scheme :: string
  pu_Host :: string
  pu_HasUser :: bool
  pu_RawQuery :: string
  pu_Fragment :: string
  pu_Hostname :: string
  pu_String :: string

definition trim_slash :: "string \<Rightarrow> string" where
  "trim_slash s = (if s \<noteq> [] \<and> last s = CHR ''/'' then butlast s else s)"

definition minutes :: "int \<Rightarrow> int" where
  "minutes n = n * 60 * 10 ^ 9"

definition NewAuthoringAuthService :: "(string \<Rightarrow> parsed_url option) \<Rightarrow> authoring_config \<Rightarrow> auth_error + authoring_service" where
  "NewAuthoringAuthService parse config =
    (let instanceID = trim_space (acfg_InstanceID config) in
     if instanceID = [] then Inl (ErrAuthOther ''authoring auth instance ID is required'')
     else case parse (trim_slash (trim_space (acfg_CanonicalOrigin config))) of
       None \<Rightarrow> Inl (ErrAuthOther ''authoring auth canonical origin is invalid'')
     | Some origin \<Rightarrow>
         if pu_Scheme origin = [] \<or> pu_Host origin = [] \<or> pu_HasUser origin \<or> pu_RawQuery origin \<noteq> [] \<or> pu_Fragment origin \<noteq> []
         then Inl (ErrAuthOther ''authoring auth canonical origin is invalid'')
         else if pu_Scheme origin \<noteq> ''https'' \<and> pu_Hostname origin \<noteq> ''localhost'' \<and> pu_Hostname origin \<noteq> ''127.0.0.1''
            \<and> pu_Hostname origin \<noteq> ''::1''
         then Inl (ErrAuthOther ''authoring auth canonical origin must use HTTPS'')
         else
           let device = (if acfg_DeviceTTL config \<le> 0 then minutes 10 else acfg_DeviceTTL config);
               poll = (if acfg_PollInterval config \<le> 0 then 5 * 10 ^ 9 else acfg_PollInterval config);
               access = (if acfg_AccessTokenTTL config \<le> 0 then minutes 15 else acfg_AccessTokenTTL config);
               workload = (if acfg_WorkloadMaxTTL config \<le> 0 then minutes 30 else acfg_WorkloadMaxTTL config) in
           if acfg_RefreshTokenTTL config \<le> access
           then Inl (ErrAuthOther ''authoring refresh-token lifetime must exceed access-token lifetime'')
           else Inr \<lparr>aus_instanceID = instanceID, aus_canonicalOrigin = trim_slash (pu_String origin),
                 aus_deviceTTL = device, aus_pollInterval = poll, aus_accessTokenTTL = access,
                 aus_refreshTokenTTL = acfg_RefreshTokenTTL config, aus_workloadMaxTTL = workload\<rparr>)"

definition validateScope :: "authoring_service \<Rightarrow> authoring_scope \<Rightarrow> auth_error + unit" where
  "validateScope sv scope =
    bind_res (NewAuthoringScope (as_TargetID scope) (as_ProjectID scope) (as_Privileges scope)) (\<lambda>validated.
      if as_TargetID validated \<noteq> aus_instanceID sv then Inl ErrAuthoringScopeDenied else Inr ())"

definition validHumanAuthoringPrincipal :: "principal \<Rightarrow> bool" where
  "validHumanAuthoringPrincipal p \<longleftrightarrow> \<not> blank (pn_ID p) \<and> pn_Kind p = ''user'' \<and> blank (pn_DisabledAt p)"

definition validateIssuedCredential :: "authoring_service \<Rightarrow> authoring_credential \<Rightarrow> session_kind \<Rightarrow> auth_error + unit" where
  "validateIssuedCredential sv credential kind =
    (let s = ac_Session credential in
     if ac_ID credential = [] \<or> pn_ID (ac_Principal credential) = [] \<or> ss_ID s = [] \<or> ss_Kind s \<noteq> kind
        \<or> as_TargetID (ss_Scope s) \<noteq> aus_instanceID sv
     then Inl ErrInvalidAuthoringCredential else Inr ())"

section \<open>The device flow\<close>

record device_response =
  dp_DeviceCode :: string
  dp_UserCode :: string
  dp_VerificationURI :: string
  dp_VerificationURIComplete :: string
  dp_ExpiresIn :: int
  dp_Interval :: int

definition BeginDeviceAuthorization :: "authoring_service \<Rightarrow> (string \<Rightarrow> string) \<Rightarrow> (string \<Rightarrow> string) \<Rightarrow> entropy \<Rightarrow> auth_error + string
    \<Rightarrow> go_time \<Rightarrow> authoring_scope \<Rightarrow> auth_db \<Rightarrow> (auth_error + device_response) \<times> auth_db" where
  "BeginDeviceAuthorization sv hash upper rnd aid now scope db =
    (case validateScope sv scope of Inl e \<Rightarrow> (Inl e, db) | Inr _ \<Rightarrow>
     case randomSecret ''lv_cli_device_'' (rnd 0 32) of Inl e \<Rightarrow> (Inl e, db) | Inr deviceCode \<Rightarrow>
     case randomUserCode (rnd 1 8) of Inl e \<Rightarrow> (Inl e, db) | Inr userCode \<Rightarrow>
     case randomSecret ''da_'' (rnd 2 18) of Inl e \<Rightarrow> (Inl e, db) | Inr i \<Rightarrow>
     let record = \<lparr>dv_ID = i, dv_ClientID = ''leapview-cli'', dv_DeviceCodeHash = hash deviceCode,
           dv_UserCodeHash = hash (normalizeUserCode upper userCode), dv_Scope = scope, dv_Status = DevicePending,
           dv_PrincipalID = [], dv_ExpiresAt = now + aus_deviceTTL sv, dv_PollInterval = aus_pollInterval sv,
           dv_LastPolledAt = 0, dv_CreatedAt = now, dv_ApprovedAt = 0, dv_DeniedAt = 0, dv_ConsumedAt = 0\<rparr>;
         uri = aus_canonicalOrigin sv @ ''/device'' in
     (case CreateDeviceAuthorization aid record db of
        (Inl e, db) \<Rightarrow> (Inl e, db)
      | (Inr _, db) \<Rightarrow>
          (Inr \<lparr>dp_DeviceCode = deviceCode, dp_UserCode = userCode, dp_VerificationURI = uri,
                dp_VerificationURIComplete = uri @ ''?user_code='' @ QueryEscape userCode,
                dp_ExpiresIn = to_seconds (aus_deviceTTL sv), dp_Interval = to_seconds (aus_pollInterval sv)\<rparr>, db)))"

definition ApproveDeviceAuthorization :: "authoring_service \<Rightarrow> (string \<Rightarrow> string) \<Rightarrow> (string \<Rightarrow> string) \<Rightarrow> (auth_db \<Rightarrow> auth_db)
    \<Rightarrow> auth_error + string \<Rightarrow> go_time \<Rightarrow> principal \<Rightarrow> string \<Rightarrow> auth_db \<Rightarrow> (auth_error + unit) \<times> auth_db" where
  "ApproveDeviceAuthorization sv hash upper env aid now p userCode db =
    (if \<not> validHumanAuthoringPrincipal p then (Inl ErrInvalidAuthoringPrincipal, db)
     else case DeviceAuthorizationByUserCodeHash (hash (normalizeUserCode upper userCode)) db of
       Inl e \<Rightarrow> (Inl e, db)
     | Inr record \<Rightarrow>
         if dv_ClientID record \<noteq> ''leapview-cli'' \<or> as_TargetID (dv_Scope record) \<noteq> aus_instanceID sv
         then (Inl ErrDeviceAuthorizationDenied, db)
         else ApproveDeviceAuthorization_db aid (dv_ID record) (pn_ID p) now (env db))"

definition DenyDeviceAuthorization :: "(string \<Rightarrow> string) \<Rightarrow> (string \<Rightarrow> string) \<Rightarrow> (auth_db \<Rightarrow> auth_db)
    \<Rightarrow> auth_error + string \<Rightarrow> go_time \<Rightarrow> principal \<Rightarrow> string \<Rightarrow> auth_db \<Rightarrow> (auth_error + unit) \<times> auth_db" where
  "DenyDeviceAuthorization hash upper env aid now p userCode db =
    (if \<not> validHumanAuthoringPrincipal p then (Inl ErrInvalidAuthoringPrincipal, db)
     else case DeviceAuthorizationByUserCodeHash (hash (normalizeUserCode upper userCode)) db of
       Inl e \<Rightarrow> (Inl e, db)
     | Inr record \<Rightarrow> DenyDeviceAuthorization_db aid (dv_ID record) (pn_ID p) now (env db))"

record token_set =
  ts_AccessToken :: string
  ts_RefreshToken :: string
  ts_TokenType :: string
  ts_ExpiresIn :: int
  ts_Session :: authoring_session

definition tokenSet :: "string \<Rightarrow> string \<Rightarrow> go_time \<Rightarrow> authoring_credential \<Rightarrow> token_set" where
  "tokenSet accessToken refreshToken now credential =
    \<lparr>ts_AccessToken = accessToken, ts_RefreshToken = refreshToken, ts_TokenType = ''Bearer'',
     ts_ExpiresIn = to_seconds (time_sub (ac_AccessExpiresAt credential) now), ts_Session = ac_Session credential\<rparr>"

definition newHumanCredentialIssue :: "authoring_service \<Rightarrow> (string \<Rightarrow> string) \<Rightarrow> entropy \<Rightarrow> string \<Rightarrow> go_time
    \<Rightarrow> auth_error + string \<times> string \<times> device_credential_issue" where
  "newHumanCredentialIssue sv hash rnd deviceCode now =
    (if \<not> has_prefix deviceCode ''lv_cli_device_'' then Inl ErrInvalidAuthoringCredential
     else bind_res (randomSecret ''lv_cli_access_'' (rnd 0 32)) (\<lambda>accessToken.
       bind_res (randomSecret ''lv_cli_refresh_'' (rnd 1 32)) (\<lambda>refreshToken.
       bind_res (randomSecret ''as_'' (rnd 2 18)) (\<lambda>sessionID.
       bind_res (randomSecret ''ac_'' (rnd 3 18)) (\<lambda>credentialID.
       Inr (accessToken, refreshToken,
         \<lparr>di_DeviceCodeHash = hash deviceCode, di_ClientID = ''leapview-cli'', di_Now = now, di_SessionID = sessionID,
          di_CredentialID = credentialID, di_AccessTokenHash = hash accessToken, di_RefreshTokenHash = hash refreshToken,
          di_AccessExpiresAt = now + aus_accessTokenTTL sv, di_RefreshExpiresAt = now + aus_refreshTokenTTL sv\<rparr>))))))"

definition ExchangeDeviceCode :: "authoring_service \<Rightarrow> (string \<Rightarrow> string) \<Rightarrow> entropy \<Rightarrow> auth_error + string \<Rightarrow> go_time \<Rightarrow> string
    \<Rightarrow> auth_db \<Rightarrow> (auth_error + token_set) \<times> auth_db" where
  "ExchangeDeviceCode sv hash rnd aid now deviceCode db =
    (case newHumanCredentialIssue sv hash rnd deviceCode now of
       Inl e \<Rightarrow> (Inl e, db)
     | Inr (accessToken, refreshToken, issue) \<Rightarrow>
         (case IssueDeviceCredential aid issue db of
            (Inl e, db) \<Rightarrow> (Inl e, db)
          | (Inr credential, db) \<Rightarrow>
              (bind_res (validateIssuedCredential sv credential SessionHumanCLI) (\<lambda>_.
                 Inr (tokenSet accessToken refreshToken now credential)), db)))"

definition Refresh_token :: "authoring_service \<Rightarrow> (string \<Rightarrow> string) \<Rightarrow> entropy \<Rightarrow> auth_error + string \<Rightarrow> go_time \<Rightarrow> string
    \<Rightarrow> auth_db \<Rightarrow> (auth_error + token_set) \<times> auth_db" where
  "Refresh_token sv hash rnd aid now refreshToken db =
    (if \<not> has_prefix refreshToken ''lv_cli_refresh_'' then (Inl ErrInvalidAuthoringCredential, db)
     else case randomSecret ''lv_cli_access_'' (rnd 0 32) of Inl e \<Rightarrow> (Inl e, db) | Inr accessToken \<Rightarrow>
     case randomSecret ''lv_cli_refresh_'' (rnd 1 32) of Inl e \<Rightarrow> (Inl e, db) | Inr nextRefreshToken \<Rightarrow>
     case randomSecret ''ac_'' (rnd 2 18) of Inl e \<Rightarrow> (Inl e, db) | Inr credentialID \<Rightarrow>
     (case RotateAuthoringCredential aid
         \<lparr>cn_RefreshTokenHash = hash refreshToken, cn_Now = now, cn_CredentialID = credentialID,
          cn_AccessTokenHash = hash accessToken, cn_RefreshTokenHashNew = hash nextRefreshToken,
          cn_AccessExpiresAt = now + aus_accessTokenTTL sv, cn_RefreshExpiresAt = now + aus_refreshTokenTTL sv\<rparr> db of
        (Inl e, db) \<Rightarrow> (Inl e, db)
      | (Inr credential, db) \<Rightarrow>
          (bind_res (validateIssuedCredential sv credential SessionHumanCLI) (\<lambda>_.
             Inr (tokenSet accessToken nextRefreshToken now credential)), db)))"

section \<open>Workload identities\<close>

record workload_identity_input =
  wl_ClientID :: string
  wl_ClientSecret :: string
  wl_Scope :: authoring_scope
  wl_Lifetime :: int

definition ExchangeWorkloadIdentity :: "authoring_service \<Rightarrow> (string \<Rightarrow> string) \<Rightarrow> (string \<Rightarrow> string \<Rightarrow> auth_error + string)
    \<Rightarrow> entropy \<Rightarrow> (auth_db \<Rightarrow> auth_db) \<Rightarrow> auth_error + string \<Rightarrow> go_time \<Rightarrow> workload_identity_input \<Rightarrow> auth_db
    \<Rightarrow> (auth_error + token_set) \<times> auth_db" where
  "ExchangeWorkloadIdentity sv hash verified rnd env aid now input db =
    (case validateScope sv (wl_Scope input) of Inl e \<Rightarrow> (Inl e, db) | Inr _ \<Rightarrow>
     if wl_Lifetime input \<le> 0 \<or> wl_Lifetime input > aus_workloadMaxTTL sv then (Inl ErrInvalidWorkloadLifetime, db)
     else case PrincipalForServicePrincipalSecret verified (trim_space (wl_ClientID input)) (wl_ClientSecret input) db of
       Inl e \<Rightarrow> (Inl ErrInvalidAuthoringPrincipal, db)
     | Inr p \<Rightarrow>
         if pn_Kind p \<noteq> ''service_principal'' \<or> pn_DisabledAt p \<noteq> [] then (Inl ErrInvalidAuthoringPrincipal, db)
         else case randomSecret ''lv_workload_access_'' (rnd 0 32) of Inl e \<Rightarrow> (Inl e, db) | Inr accessToken \<Rightarrow>
         case randomSecret ''as_'' (rnd 1 18) of Inl e \<Rightarrow> (Inl e, db) | Inr sessionID \<Rightarrow>
         case randomSecret ''ac_'' (rnd 2 18) of Inl e \<Rightarrow> (Inl e, db) | Inr credentialID \<Rightarrow>
         let expiresAt = now + wl_Lifetime input;
             issue = \<lparr>wi_Session = \<lparr>ss_ID = sessionID, ss_Kind = SessionWorkload, ss_ClientID = pn_ID p,
                 ss_PrincipalID = pn_ID p, ss_Scope = wl_Scope input, ss_CreatedAt = now, ss_LastUsedAt = 0,
                 ss_ExpiresAt = expiresAt, ss_RevokedAt = 0\<rparr>, wi_CredentialID = credentialID,
               wi_AccessTokenHash = hash accessToken, wi_AccessExpiresAt = expiresAt\<rparr> in
         (case CreateWorkloadCredential aid issue (env db) of
            (Inl e, db) \<Rightarrow> (Inl e, db)
          | (Inr credential, db) \<Rightarrow>
              (bind_res (validateIssuedCredential sv credential SessionWorkload) (\<lambda>_.
                 Inr (tokenSet accessToken [] now credential)), db)))"

section \<open>Using and revoking tokens\<close>

definition access_token_form :: "string \<Rightarrow> bool" where
  "access_token_form token \<longleftrightarrow> has_prefix token ''lv_cli_access_'' \<or> has_prefix token ''lv_workload_access_''"

definition Resolve :: "(string \<Rightarrow> string) \<Rightarrow> go_time \<Rightarrow> string \<Rightarrow> auth_db \<Rightarrow> (auth_error + authoring_credential) \<times> auth_db" where
  "Resolve hash now accessToken db =
    (if \<not> access_token_form accessToken then (Inl ErrInvalidAuthoringCredential, db)
     else case AuthoringCredentialByAccessTokenHash (hash accessToken) now db of
       (Inl e, db) \<Rightarrow> (Inl ErrInvalidAuthoringCredential, db)
     | (Inr credential, db) \<Rightarrow>
         (if pn_DisabledAt (ac_Principal credential) \<noteq> [] \<or> ss_RevokedAt (ac_Session credential) \<noteq> 0
          then Inl ErrInvalidAuthoringCredential
          else if \<not> now < ac_AccessExpiresAt credential
             \<or> ss_ExpiresAt (ac_Session credential) \<noteq> 0 \<and> \<not> now < ss_ExpiresAt (ac_Session credential)
          then Inl ErrAuthoringCredentialExpired
          else Inr credential, db))"

definition Authenticate :: "(string \<Rightarrow> string) \<Rightarrow> go_time \<Rightarrow> string \<Rightarrow> string \<Rightarrow> string \<Rightarrow> privilege \<Rightarrow> auth_db
    \<Rightarrow> (auth_error + authoring_credential) \<times> auth_db" where
  "Authenticate hash now accessToken targetID projectID privilege db =
    (case Resolve hash now accessToken db of
       (Inl e, db) \<Rightarrow> (Inl e, db)
     | (Inr credential, db) \<Rightarrow>
         (bind_res (Authorize_scope (ss_Scope (ac_Session credential)) targetID projectID privilege) (\<lambda>_.
            Inr credential), db))"

definition ListSessions :: "string \<Rightarrow> auth_db \<Rightarrow> auth_error + authoring_session list" where
  "ListSessions principalID db =
    (if blank principalID then Inl ErrInvalidAuthoringPrincipal else ListAuthoringSessions principalID db)"

definition RevokeSession :: "auth_error + string \<Rightarrow> go_time \<Rightarrow> string \<Rightarrow> string \<Rightarrow> auth_db \<Rightarrow> (auth_error + unit) \<times> auth_db" where
  "RevokeSession aid now principalID sessionID db =
    (if blank principalID \<or> blank sessionID then (Inl ErrInvalidAuthoringCredential, db)
     else RevokeAuthoringSession aid principalID sessionID now db)"

definition RevokeAccessToken :: "(string \<Rightarrow> string) \<Rightarrow> auth_error + string \<Rightarrow> go_time \<Rightarrow> string \<Rightarrow> auth_db
    \<Rightarrow> (auth_error + unit) \<times> auth_db" where
  "RevokeAccessToken hash aid now accessToken db =
    (if \<not> access_token_form accessToken then (Inl ErrInvalidAuthoringCredential, db)
     else RevokeAuthoringSessionByAccessTokenHash aid (hash accessToken) now db)"

end
