(* ===== verification/Authoring_Safety.thy ===== *)
theory Authoring_Safety
  imports Authoring_Service "HOL-Library.Multiset"
begin

text \<open>
  The invariant of the authoring tables and its preservation. A state is the database with the set
  of the hashes of all secrets issued so far; the steps are the transactions of the repository with
  what the service passes to them, the deletion of a principal, and changes of the principals and
  the audit log by other code. Fresh secrets hash to values not issued before: the secrets are
  random and the digest is SHA-256.
\<close>

section \<open>Rows\<close>

lemma update_where_none: "\<not> (\<exists>r\<in>set rows. P r) \<Longrightarrow> update_where P f rows = rows"
  by (auto simp: update_where_def intro!: map_idI)

lemma update_where_one:
  assumes "distinct (map key rows)" "r \<in> set rows" "P r" "\<And>x. P x \<Longrightarrow> key x = key r"
  obtains xs ys where "rows = xs @ r # ys" "update_where P f rows = xs @ f r # ys"
proof -
  obtain xs ys where rows: "rows = xs @ r # ys" using assms(2) split_list by fastforce
  then have "key r \<notin> key ` (set xs \<union> set ys)" using assms(1) by auto
  then have "\<not> P x" if "x \<in> set xs \<union> set ys" for x using assms(4) [of x] that by (metis imageI)
  then have "update_where P f rows = xs @ f r # ys"
    unfolding update_where_def rows using assms(3) by (auto intro!: map_idI)
  with rows that show thesis by blast
qed

lemma update_where_cases [consumes 1, case_names none one]:
  assumes "distinct (map key rows)" "\<And>x y. P x \<Longrightarrow> P y \<Longrightarrow> key x = key y"
    and none: "update_where P f rows = rows \<Longrightarrow> Q" and one: "\<And>xs r ys. rows = xs @ r # ys \<Longrightarrow> P r \<Longrightarrow> update_where P f rows = xs @ f r # ys \<Longrightarrow> Q"
  shows Q
proof (cases "\<exists>r\<in>set rows. P r")
  case True
  then obtain r where r: "r \<in> set rows" "P r" by blast
  show ?thesis
    by (rule update_where_one [where P = P and f = f, OF assms(1) r]) (use assms(2) r one in blast)+
next
  case False
  then show ?thesis using update_where_none none by metis
qed

lemma rows_affected_pos: "rows_affected P rows \<noteq> 0 \<longleftrightarrow> (\<exists>r\<in>set rows. P r)"
  by (auto simp: rows_affected_def filter_empty_conv)

text \<open>Every row of the new table continues a row of the old one, or is new.\<close>

definition table_step :: "('r \<Rightarrow> 'r \<Rightarrow> bool) \<Rightarrow> ('r \<Rightarrow> bool) \<Rightarrow> 'r list \<Rightarrow> 'r list \<Rightarrow> bool" where
  "table_step cont fresh rows rows' \<longleftrightarrow> (\<forall>r'\<in>set rows'. (\<exists>r\<in>set rows. cont r r') \<or> fresh r')"

lemma table_step_subset: "set rows' \<subseteq> set rows \<Longrightarrow> (\<And>r. cont r r) \<Longrightarrow> table_step cont fresh rows rows'"
  by (auto simp: table_step_def)

lemma table_step_append: "table_step cont fresh rows rows' \<Longrightarrow> fresh r \<Longrightarrow> table_step cont fresh rows (rows' @ [r])"
  by (auto simp: table_step_def)

lemma table_step_update: "(\<And>r. cont r r) \<Longrightarrow> (\<And>r. P r \<Longrightarrow> cont r (f r)) \<Longrightarrow> table_step cont fresh rows (update_where P f rows)"
  by (fastforce simp: table_step_def update_where_def)

section \<open>Invariant\<close>

definition device_origin :: "device_row \<Rightarrow> string \<times> string \<times> authoring_scope \<times> go_time" where
  "device_origin d = (dr_ClientID d, dr_PrincipalID d, normalized_scope (dr_Scope d), dr_ConsumedAt d)"

definition session_origin :: "authoring_session \<Rightarrow> string \<times> string \<times> authoring_scope \<times> go_time" where
  "session_origin s = (ss_ClientID s, ss_PrincipalID s, ss_Scope s, ss_CreatedAt s)"

definition consumed_devices :: "device_row list \<Rightarrow> device_row list" where
  "consumed_devices ds = filter (\<lambda>d. dr_Status d = DeviceConsumed) ds"

definition human_sessions :: "authoring_session list \<Rightarrow> authoring_session list" where
  "human_sessions ss = filter (\<lambda>s. ss_Kind s = SessionHumanCLI) ss"

definition scope_for :: "string \<Rightarrow> authoring_scope \<Rightarrow> bool" where
  "scope_for target scope \<longleftrightarrow> acceptable_scope scope \<and> trim_space (as_TargetID scope) = target"

text \<open>The evidence that a device authorization carries in each of its states.\<close>

definition device_ok :: "string \<Rightarrow> device_row \<Rightarrow> bool" where
  "device_ok target d \<longleftrightarrow> scope_for target (dr_Scope d) \<and>
    (case dr_Status d of
       DevicePending \<Rightarrow> dr_PrincipalID d = [] \<and> dr_ApprovedAt d = 0 \<and> dr_DeniedAt d = 0 \<and> dr_ConsumedAt d = 0
     | DeviceApproved \<Rightarrow> dr_PrincipalID d \<noteq> [] \<and> text_later (dr_ExpiresAt d) (dr_ApprovedAt d) \<and> dr_DeniedAt d = 0
         \<and> dr_ConsumedAt d = 0
     | DeviceDenied \<Rightarrow> dr_PrincipalID d \<noteq> [] \<and> text_later (dr_ExpiresAt d) (dr_DeniedAt d) \<and> dr_ApprovedAt d = 0
         \<and> dr_ConsumedAt d = 0
     | DeviceConsumed \<Rightarrow> dr_PrincipalID d \<noteq> [] \<and> text_later (dr_ExpiresAt d) (dr_ApprovedAt d) \<and> dr_DeniedAt d = 0
         \<and> dr_ConsumedAt d \<noteq> 0 \<and> dr_ConsumedAt d < dr_ExpiresAt d)"

definition devices_ok :: "string \<Rightarrow> device_row list \<Rightarrow> bool" where
  "devices_ok target ds \<longleftrightarrow> distinct (map dr_ID ds) \<and> distinct (map dr_DeviceCodeHash ds)
     \<and> distinct (map dr_UserCodeHash ds) \<and> (\<forall>d\<in>set ds. device_ok target d)"

definition session_ok :: "string \<Rightarrow> authoring_session \<Rightarrow> bool" where
  "session_ok target s \<longleftrightarrow> scope_for target (ss_Scope s)
     \<and> (ss_Kind s = SessionHumanCLI \<longrightarrow> ss_Scope s = normalized_scope (ss_Scope s))"

definition sessions_ok :: "string \<Rightarrow> authoring_session list \<Rightarrow> bool" where
  "sessions_ok target ss \<longleftrightarrow> distinct (map ss_ID ss) \<and> (\<forall>s\<in>set ss. session_ok target s)"

definition active_sessions :: "credential_row list \<Rightarrow> string list" where
  "active_sessions cs = map cr_SessionID (filter cr_Active cs)"

definition refresh_hashes :: "credential_row list \<Rightarrow> string list" where
  "refresh_hashes cs = filter (\<lambda>h. h \<noteq> []) (map cr_RefreshTokenHash cs)"

text \<open>A credential belongs to a session, and can be refreshed exactly if that is a human session.\<close>

definition credential_ok :: "(string \<times> session_kind) set \<Rightarrow> credential_row \<Rightarrow> bool" where
  "credential_ok kinds c \<longleftrightarrow>
     (cr_SessionID c, if cr_RefreshTokenHash c = [] then SessionWorkload else SessionHumanCLI) \<in> kinds
     \<and> (cr_RefreshTokenHash c = [] \<longleftrightarrow> cr_RefreshExpiresAt c = 0)"

definition session_kinds :: "authoring_session list \<Rightarrow> (string \<times> session_kind) set" where
  "session_kinds ss = (\<lambda>s. (ss_ID s, ss_Kind s)) ` set ss"

definition credentials_ok :: "(string \<times> session_kind) set \<Rightarrow> credential_row list \<Rightarrow> bool" where
  "credentials_ok kinds cs \<longleftrightarrow> distinct (map cr_ID cs) \<and> distinct (map cr_AccessTokenHash cs)
     \<and> distinct (refresh_hashes cs) \<and> distinct (active_sessions cs) \<and> (\<forall>c\<in>set cs. credential_ok kinds c)"

definition references_ok :: "auth_db \<Rightarrow> bool" where
  "references_ok db \<longleftrightarrow> (\<forall>d\<in>set (ad_devices db). dr_PrincipalID d \<noteq> [] \<longrightarrow> known_id db (dr_PrincipalID d))
     \<and> (\<forall>s\<in>set (ad_sessions db). known_id db (ss_PrincipalID s))"

definition origins_match :: "device_row list \<Rightarrow> authoring_session list \<Rightarrow> bool" where
  "origins_match ds ss \<longleftrightarrow>
     mset (map device_origin (consumed_devices ds)) = mset (map session_origin (human_sessions ss))"

definition hashes_used :: "auth_db \<Rightarrow> string set \<Rightarrow> bool" where
  "hashes_used db used \<longleftrightarrow> dr_DeviceCodeHash ` set (ad_devices db) \<subseteq> used
     \<and> cr_AccessTokenHash ` set (ad_credentials db) \<subseteq> used \<and> set (refresh_hashes (ad_credentials db)) \<subseteq> used"

type_synonym auth_state = "auth_db \<times> string set"

definition auth_ok :: "string \<Rightarrow> auth_state \<Rightarrow> bool" where
  "auth_ok target st \<longleftrightarrow> (case st of (db, used) \<Rightarrow>
     devices_ok target (ad_devices db) \<and> sessions_ok target (ad_sessions db)
     \<and> credentials_ok (session_kinds (ad_sessions db)) (ad_credentials db) \<and> references_ok db
     \<and> origins_match (ad_devices db) (ad_sessions db) \<and> hashes_used db used)"

section \<open>Steps\<close>

inductive auth_step :: "string \<Rightarrow> auth_state \<Rightarrow> auth_state \<Rightarrow> bool" for target where
  begin_device: "CreateDeviceAuthorization aid record db = (r, db') \<Longrightarrow> scope_for target (dv_Scope record)
    \<Longrightarrow> dv_Status record = DevicePending \<Longrightarrow> dv_DeviceCodeHash record \<notin> used
    \<Longrightarrow> auth_step target (db, used) (db', insert (dv_DeviceCodeHash record) used)"
| approve: "ApproveDeviceAuthorization_db aid i (pn_ID p) now db = (r, db') \<Longrightarrow> validHumanAuthoringPrincipal p
    \<Longrightarrow> auth_step target (db, used) (db', used)"
| deny: "DenyDeviceAuthorization_db aid i (pn_ID p) now db = (r, db') \<Longrightarrow> validHumanAuthoringPrincipal p
    \<Longrightarrow> auth_step target (db, used) (db', used)"
| exchange: "IssueDeviceCredential aid issue db = (r, db') \<Longrightarrow> di_RefreshTokenHash issue \<noteq> []
    \<Longrightarrow> di_AccessTokenHash issue \<notin> used \<Longrightarrow> di_RefreshTokenHash issue \<notin> used
    \<Longrightarrow> auth_step target (db, used) (db', {di_AccessTokenHash issue, di_RefreshTokenHash issue} \<union> used)"
| workload: "CreateWorkloadCredential aid issue db = (r, db') \<Longrightarrow> ss_Kind (wi_Session issue) = SessionWorkload
    \<Longrightarrow> scope_for target (ss_Scope (wi_Session issue)) \<Longrightarrow> wi_AccessTokenHash issue \<notin> used
    \<Longrightarrow> auth_step target (db, used) (db', insert (wi_AccessTokenHash issue) used)"
| rotate: "RotateAuthoringCredential aid rotation db = (r, db') \<Longrightarrow> cn_RefreshTokenHashNew rotation \<noteq> []
    \<Longrightarrow> cn_AccessTokenHash rotation \<notin> used \<Longrightarrow> cn_RefreshTokenHashNew rotation \<notin> used \<Longrightarrow> cn_Now rotation \<noteq> 0
    \<Longrightarrow> auth_step target (db, used) (db', {cn_AccessTokenHash rotation, cn_RefreshTokenHashNew rotation} \<union> used)"
| lookup: "AuthoringCredentialByAccessTokenHash h now db = (r, db') \<Longrightarrow> auth_step target (db, used) (db', used)"
| revoke: "RevokeAuthoringSession aid principalID sessionID now db = (r, db') \<Longrightarrow> now \<noteq> 0
    \<Longrightarrow> auth_step target (db, used) (db', used)"
| revoke_token: "RevokeAuthoringSessionByAccessTokenHash aid h now db = (r, db') \<Longrightarrow> now \<noteq> 0
    \<Longrightarrow> auth_step target (db, used) (db', used)"
| delete: "DeletePrincipal restricted i db = (r, db') \<Longrightarrow> auth_step target (db, used) (db', used)"
| others: "db' = db\<lparr>ad_principals := ps, ad_audit := log\<rparr> \<Longrightarrow> pn_ID ` set (ad_principals db) \<subseteq> pn_ID ` set ps
    \<Longrightarrow> auth_step target (db, used) (db', used)"

definition auth_reachable :: "string \<Rightarrow> auth_state \<Rightarrow> bool" where
  "auth_reachable target st \<longleftrightarrow>
     (\<exists>ps log. (auth_step target)\<^sup>*\<^sup>* (\<lparr>ad_principals = ps, ad_devices = [], ad_sessions = [], ad_credentials = [], ad_audit = log\<rparr>, {}) st)"

end
