(* ===== verification/Authoring_Steps.thy ===== *)
theory Authoring_Steps
  imports Authoring_Safety
begin

text \<open>
  What the transactions of the authoring repository do to the tables: for each of them the shapes
  its result can have, as case rules that the proofs about the steps share.
\<close>

section \<open>The shapes of the transactions\<close>

named_theorems txn \<open>what the parts of a transaction return\<close>

lemma transaction_cases:
  assumes "transaction body db = (r, db')"
  obtains (rolled_back) e where "body db = Inl e" "r = Inl e" "db' = db" | (committed) "body db = Inr (r, db')"
  using assms by (cases "body db") (auto simp: transaction_def)

lemma audited_Inr [txn]: "audited aid event res db = Inr (r, db') \<longleftrightarrow>
    r = res \<and> (\<exists>i. aid = Inr i \<and> RecordAuditEvent aid event db = Inr db')"
  by (cases aid) (auto simp: audited_def RecordAuditEvent_def split: sum.splits if_splits)

lemma RecordAuditEvent_Inr [txn]: "RecordAuditEvent aid event db = Inr db' \<Longrightarrow> \<exists>log. db' = db\<lparr>ad_audit := log\<rparr>"
  by (auto simp: RecordAuditEvent_def split: if_splits)

lemma audited_shape: "audited aid event res db = Inr (r, db') \<Longrightarrow> r = res \<and> (\<exists>log. db' = db\<lparr>ad_audit := log\<rparr>)"
  by (metis audited_Inr RecordAuditEvent_Inr)

lemma audited_fresh:
  assumes "i \<notin> fst ` set (ad_audit db)" "\<not> blank (ae_Action event)" "\<not> blank (ae_PrincipalID event) \<Longrightarrow> known_id db (ae_PrincipalID event)"
  shows "audited (Inr i) event res db = Inr (res, db\<lparr>ad_audit := ad_audit db @ [(i, event)]\<rparr>)"
  using assms by (auto simp: audited_def RecordAuditEvent_def)

lemma GetPrincipal_Inr [txn]: "GetPrincipal i db = Inr p \<Longrightarrow> p \<in> set (ad_principals db) \<and> pn_ID p = i"
  by (auto simp: GetPrincipal_def find_Some_iff split: option.splits)

lemma get_device_Inr [txn]: "get_device P db = Inr d \<Longrightarrow> d \<in> set (ad_devices db) \<and> P d"
  by (auto simp: get_device_def find_Some_iff split: option.splits)

lemma join_credential_Inr [txn]: "join_credential P db = Inr (c, s, p) \<Longrightarrow> c \<in> set (ad_credentials db) \<and> P c
    \<and> s \<in> set (ad_sessions db) \<and> ss_ID s = cr_SessionID c \<and> p \<in> set (ad_principals db) \<and> pn_ID p = ss_PrincipalID s"
  by (auto simp: join_credential_def find_Some_iff split: option.splits dest!: GetPrincipal_Inr)

lemma createAuthoringSession_Inr [txn]: "createAuthoringSession s db = Inr db' \<longleftrightarrow>
    ss_ID s \<notin> ss_ID ` set (ad_sessions db) \<and> known_id db (ss_PrincipalID s)
    \<and> db' = db\<lparr>ad_sessions := ad_sessions db @ [s\<lparr>ss_LastUsedAt := 0, ss_RevokedAt := 0\<rparr>]\<rparr>"
  by (auto simp: createAuthoringSession_def image_iff) (metis+)?

lemma createAuthoringCredential_Inr [txn]: "createAuthoringCredential i sid ah rh ae re now db = Inr db' \<longleftrightarrow>
    \<not> credential_violates (new_credential i sid ah rh ae re now) db
    \<and> db' = db\<lparr>ad_credentials := ad_credentials db @ [new_credential i sid ah rh ae re now]\<rparr>"
  by (auto simp: createAuthoringCredential_def Let_def)

lemma mapAuthoringScope_Inr [txn]: "mapAuthoringScope columns = Inr scope \<longleftrightarrow> acceptable_scope columns \<and> scope = normalized_scope columns"
  by (simp add: mapAuthoringScope_def NewAuthoringScope_Inr)

lemma CreateDeviceAuthorization_cases:
  assumes "CreateDeviceAuthorization aid record db = (r, db')"
  obtains (unchanged) "db' = db"
  | (created) log where "r = Inr ()" "\<not> device_violates (device_row_of record) db"
      "db' = db\<lparr>ad_devices := ad_devices db @ [device_row_of record], ad_audit := log\<rparr>"
  using assms unfolding CreateDeviceAuthorization_def
proof (cases rule: transaction_cases)
  case committed
  then show ?thesis using created by (auto simp: Let_def split: if_splits dest!: audited_shape)
qed blast

lemma decide_device_cases:
  assumes "decide_device change action aid i principalID now db = (r, db')"
  obtains (unchanged) "db' = db"
  | (decided) log where "r = Inr ()" "principalID \<noteq> [] \<longrightarrow> known_id db principalID"
      "\<exists>d\<in>set (ad_devices db). decidable_device i now d"
      "db' = db\<lparr>ad_devices := update_where (decidable_device i now) change (ad_devices db), ad_audit := log\<rparr>"
  using assms unfolding decide_device_def
proof (cases rule: transaction_cases)
  case committed
  then show ?thesis using decided rows_affected_pos [of "decidable_device i now" "ad_devices db"]
    by (auto simp: Let_def split: if_splits dest!: audited_shape)
qed blast

text \<open>The credential and the rows that a successful exchange adds.\<close>

definition issued_credential :: "device_credential_issue \<Rightarrow> credential_row" where
  "issued_credential issue = new_credential (di_CredentialID issue) (di_SessionID issue) (di_AccessTokenHash issue)
     (di_RefreshTokenHash issue) (di_AccessExpiresAt issue) (di_RefreshExpiresAt issue) (di_Now issue)"

lemma IssueDeviceCredential_cases:
  assumes "IssueDeviceCredential aid issue db = (r, db')"
  obtains (unchanged) "db' = db" "\<exists>e. r = Inl e"
  | (polled) i where "r = Inl ErrDeviceAuthorizationPending" "db' = RecordDeviceAuthorizationPoll i (di_Now issue) db"
  | (issued) d dv p log where "d \<in> set (ad_devices db)" "dr_DeviceCodeHash d = di_DeviceCodeHash issue"
      "mapDeviceAuthorization d = Inr dv" "dr_Status d = DeviceApproved" "di_Now issue < dr_ExpiresAt d"
      "\<exists>x\<in>set (ad_devices db). consumable_device (dr_ID d) (di_Now issue) x"
      "p \<in> set (ad_principals db)" "pn_ID p = dr_PrincipalID d" "pn_ID p \<noteq> []" "pn_DisabledAt p = []"
      "di_SessionID issue \<notin> ss_ID ` set (ad_sessions db)" "known_id db (pn_ID p)"
      "\<not> credential_violates (issued_credential issue) (db\<lparr>ad_sessions := ad_sessions db @ [issued_session issue dv p]\<rparr>)"
      "r = Inr \<lparr>ac_ID = di_CredentialID issue, ac_Principal = p, ac_Session = issued_session issue dv p,
          ac_AccessExpiresAt = di_AccessExpiresAt issue, ac_RefreshExpiresAt = di_RefreshExpiresAt issue\<rparr>"
      "db' = db\<lparr>ad_devices := update_where (consumable_device (dr_ID d) (di_Now issue))
           (\<lambda>d. d\<lparr>dr_Status := DeviceConsumed, dr_ConsumedAt := di_Now issue\<rparr>) (ad_devices db),
         ad_sessions := ad_sessions db @ [issued_session issue dv p],
         ad_credentials := ad_credentials db @ [issued_credential issue], ad_audit := log\<rparr>"
  using assms unfolding IssueDeviceCredential_def
proof (cases rule: transaction_cases)
  case rolled_back
  then show ?thesis using unchanged by blast
next
  case committed
  obtain d where d: "get_device (\<lambda>d. dr_DeviceCodeHash d = di_DeviceCodeHash issue) db = Inr d"
    using committed by (cases "get_device (\<lambda>d. dr_DeviceCodeHash d = di_DeviceCodeHash issue) db") auto
  obtain dv where m: "mapDeviceAuthorization d = Inr dv"
    using committed d by (cases "mapDeviceAuthorization d") auto
  have f: "dv_ID dv = dr_ID d" "dv_Status dv = dr_Status d" "dv_ExpiresAt dv = dr_ExpiresAt d"
    "dv_PrincipalID dv = dr_PrincipalID d"
    using m by (auto simp: mapDeviceAuthorization_def)
  note dm = get_device_Inr [OF d]
  show ?thesis
  proof (cases "dr_Status d")
    case DevicePending
    then show ?thesis using committed d m f polled by (auto split: if_splits)
  next
    case DeviceApproved
    then have now: "di_Now issue < dr_ExpiresAt d" and i: "issue_approved aid issue dv db = Inr (r, db')"
      using committed d m f by (auto split: if_splits)
    obtain p where p: "GetPrincipal (dr_PrincipalID d) db = Inr p" and pid: "dr_PrincipalID d \<noteq> []" and dis: "pn_DisabledAt p = []"
      using i f by (auto simp: issue_approved_def split: if_splits)
    note pm = GetPrincipal_Inr [OF p]
    have same: "(issued_session issue dv p)\<lparr>ss_LastUsedAt := 0, ss_RevokedAt := 0\<rparr> = issued_session issue dv p"
      by (simp add: issued_session_def)
    have viol: "credential_violates c (db\<lparr>ad_devices := ds, ad_sessions := ss\<rparr>) = credential_violates c (db\<lparr>ad_sessions := ss\<rparr>)"
      for c ds ss by (simp add: credential_violates_def)
    have aff: "\<exists>x\<in>set (ad_devices db). consumable_device (dr_ID d) (di_Now issue) x"
      using i f p pid dis rows_affected_pos [of "consumable_device (dr_ID d) (di_Now issue)" "ad_devices db"]
      by (auto simp: issue_approved_def split: if_splits)
    let ?s = "issued_session issue dv p" and ?c = "issued_credential issue"
    let ?db = "db\<lparr>ad_devices := update_where (consumable_device (dr_ID d) (di_Now issue))
           (\<lambda>d. d\<lparr>dr_Status := DeviceConsumed, dr_ConsumedAt := di_Now issue\<rparr>) (ad_devices db), ad_sessions := ad_sessions db @ [?s],
         ad_credentials := ad_credentials db @ [?c]\<rparr>"
    have k: "known_id (ConsumeDeviceAuthorization i n db) j = known_id db j" for i n j
      by (simp add: ConsumeDeviceAuthorization_def)
    have sid: "ss_ID ?s = di_SessionID issue" "ss_PrincipalID ?s = pn_ID p" by (simp_all add: issued_session_def)
    have "di_SessionID issue \<notin> ss_ID ` set (ad_sessions db) \<and> known_id db (pn_ID p)
        \<and> \<not> credential_violates ?c (db\<lparr>ad_sessions := ad_sessions db @ [?s]\<rparr>)
        \<and> audited aid (authoringSessionAudit ''authoring.session.created'' ?s ''success'')
           (Inr \<lparr>ac_ID = di_CredentialID issue, ac_Principal = p, ac_Session = ?s,
                 ac_AccessExpiresAt = di_AccessExpiresAt issue, ac_RefreshExpiresAt = di_RefreshExpiresAt issue\<rparr>) ?db = Inr (r, db')"
      using i f p pid dis unfolding issue_approved_def Let_def
      by (cases "createAuthoringSession ?s (ConsumeDeviceAuthorization (dr_ID d) (di_Now issue) db)")
        (auto simp: createAuthoringSession_Inr createAuthoringCredential_def Let_def same viol k sid
          issued_credential_def [symmetric] ConsumeDeviceAuthorization_def split: if_splits)
    then show ?thesis
      using audited_shape [of aid _ _ ?db r db'] pid pm
      by (elim conjE) (drule audited_shape, elim conjE exE,
        rule issued [OF dm [THEN conjunct1] dm [THEN conjunct2] m DeviceApproved now aff pm [THEN conjunct1] pm [THEN conjunct2]], simp_all add: dis)
  qed (use committed d m f in \<open>auto split: if_splits\<close>)
qed

text \<open>A session as \<open>createAuthoringSession\<close> writes it.\<close>

definition stored_session :: "authoring_session \<Rightarrow> authoring_session" where
  "stored_session s = s\<lparr>ss_LastUsedAt := 0, ss_RevokedAt := 0\<rparr>"

definition workload_row :: "workload_credential_issue \<Rightarrow> credential_row" where
  "workload_row issue = new_credential (wi_CredentialID issue) (ss_ID (wi_Session issue)) (wi_AccessTokenHash issue) []
     (wi_AccessExpiresAt issue) 0 (ss_CreatedAt (wi_Session issue))"

lemma CreateWorkloadCredential_cases:
  assumes "CreateWorkloadCredential aid issue db = (r, db')"
  obtains (unchanged) "db' = db" "\<exists>e. r = Inl e"
  | (created) p log where "GetPrincipal (ss_PrincipalID (wi_Session issue)) db = Inr p" "pn_Kind p = ''service_principal''"
      "pn_DisabledAt p = []" "ss_ID (wi_Session issue) \<notin> ss_ID ` set (ad_sessions db)"
      "known_id db (ss_PrincipalID (wi_Session issue))"
      "\<not> credential_violates (workload_row issue) (db\<lparr>ad_sessions := ad_sessions db @ [stored_session (wi_Session issue)]\<rparr>)"
      "r = Inr \<lparr>ac_ID = wi_CredentialID issue, ac_Principal = p, ac_Session = wi_Session issue,
          ac_AccessExpiresAt = wi_AccessExpiresAt issue, ac_RefreshExpiresAt = 0\<rparr>"
      "db' = db\<lparr>ad_sessions := ad_sessions db @ [stored_session (wi_Session issue)],
         ad_credentials := ad_credentials db @ [workload_row issue], ad_audit := log\<rparr>"
  using assms unfolding CreateWorkloadCredential_def
proof (cases rule: transaction_cases)
  case rolled_back
  then show ?thesis using unchanged by blast
next
  case committed
  let ?s = "wi_Session issue"
  obtain p where p: "GetPrincipal (ss_PrincipalID ?s) db = Inr p" "pn_Kind p = ''service_principal''" "pn_DisabledAt p = []"
    using committed by (cases "GetPrincipal (ss_PrincipalID ?s) db") (auto simp: Let_def split: if_splits)
  have "ss_ID ?s \<notin> ss_ID ` set (ad_sessions db) \<and> known_id db (ss_PrincipalID ?s)
      \<and> \<not> credential_violates (workload_row issue) (db\<lparr>ad_sessions := ad_sessions db @ [stored_session ?s]\<rparr>)
      \<and> audited aid (authoringSessionAudit ''authoring.workload.created'' ?s ''success'')
         (Inr \<lparr>ac_ID = wi_CredentialID issue, ac_Principal = p, ac_Session = ?s, ac_AccessExpiresAt = wi_AccessExpiresAt issue,
               ac_RefreshExpiresAt = 0\<rparr>)
         (db\<lparr>ad_sessions := ad_sessions db @ [stored_session ?s], ad_credentials := ad_credentials db @ [workload_row issue]\<rparr>)
         = Inr (r, db')"
    using committed p
    by (cases "createAuthoringSession ?s db")
      (auto simp: createAuthoringSession_Inr createAuthoringCredential_def Let_def stored_session_def [symmetric]
        workload_row_def [symmetric] split: if_splits)
  then show ?thesis by (elim conjE) (drule audited_shape, elim conjE exE, rule created [OF p], simp_all)
qed

definition rotated_row :: "credential_rotation \<Rightarrow> string \<Rightarrow> credential_row" where
  "rotated_row rotation sessionID = new_credential (cn_CredentialID rotation) sessionID (cn_AccessTokenHash rotation)
     (cn_RefreshTokenHashNew rotation) (cn_AccessExpiresAt rotation) (cn_RefreshExpiresAt rotation) (cn_Now rotation)"

lemma RotateAuthoringCredential_cases:
  assumes "RotateAuthoringCredential aid rotation db = (r, db')"
  obtains (unchanged) e where "r = Inl e" "db' = db"
  | (replayed) c s p log where "GetAuthoringCredentialByRefreshHash (cn_RefreshTokenHash rotation) db = Inr (c, s, p)"
      "\<not> cr_Active c" "r = Inl ErrAuthoringRefreshReplay"
      "db' = (RevokeAuthoringSessionByID (cr_SessionID c) (cn_Now rotation) db)\<lparr>ad_audit := log\<rparr>"
  | (rotated) c s p log where "GetAuthoringCredentialByRefreshHash (cn_RefreshTokenHash rotation) db = Inr (c, s, p)"
      "cr_Active c" "cn_Now rotation < cr_RefreshExpiresAt c" "ss_RevokedAt s = 0" "acceptable_scope (ss_Scope s)"
      "\<not> credential_violates (rotated_row rotation (cr_SessionID c)) (UpdateAuthoringSessionExpiry (cr_SessionID c)
          (cn_RefreshExpiresAt rotation) (ReplaceAuthoringCredential (cr_ID c) (cn_Now rotation) db))"
      "r = Inr (rotated_credential rotation \<lparr>ac_ID = cr_ID c, ac_Principal = p, ac_Session = s\<lparr>ss_Scope := normalized_scope (ss_Scope s)\<rparr>,
          ac_AccessExpiresAt = cr_AccessExpiresAt c, ac_RefreshExpiresAt = cr_RefreshExpiresAt c\<rparr>)"
      "db' = db\<lparr>ad_sessions := update_where (\<lambda>s. ss_ID s = cr_SessionID c \<and> ss_RevokedAt s = 0)
           (\<lambda>s. s\<lparr>ss_ExpiresAt := cn_RefreshExpiresAt rotation\<rparr>) (ad_sessions db),
         ad_credentials := update_where (replaceable (cr_ID c))
           (\<lambda>c. c\<lparr>cr_Active := False, cr_ReplacedAt := cn_Now rotation\<rparr>) (ad_credentials db) @ [rotated_row rotation (cr_SessionID c)],
         ad_audit := log\<rparr>"
  using assms unfolding RotateAuthoringCredential_def
proof (cases rule: transaction_cases)
  case rolled_back
  then show ?thesis using unchanged by blast
next
  case committed
  then obtain c s p where g: "GetAuthoringCredentialByRefreshHash (cn_RefreshTokenHash rotation) db = Inr (c, s, p)"
    by (auto split: sum.splits)
  show ?thesis
  proof (cases "cr_Active c")
    case False
    then have "refresh_replayed aid rotation (c, s, p) db = Inr (r, db')" using committed g by simp
    then have "\<exists>event. audited aid event (Inl ErrAuthoringRefreshReplay)
        (RevokeAuthoringSessionByID (cr_SessionID c) (cn_Now rotation) db) = Inr (r, db')"
      unfolding refresh_replayed_def Let_def by auto
    then show ?thesis by (elim exE) (drule audited_shape, elim conjE exE, rule replayed [OF g False], simp_all)
  next
    case True
    let ?db = "UpdateAuthoringSessionExpiry (cr_SessionID c) (cn_RefreshExpiresAt rotation)
        (ReplaceAuthoringCredential (cr_ID c) (cn_Now rotation) db)"
    let ?c = "rotated_row rotation (cr_SessionID c)"
    let ?ac = "rotated_credential rotation \<lparr>ac_ID = cr_ID c, ac_Principal = p, ac_Session = s\<lparr>ss_Scope := normalized_scope (ss_Scope s)\<rparr>,
          ac_AccessExpiresAt = cr_AccessExpiresAt c, ac_RefreshExpiresAt = cr_RefreshExpiresAt c\<rparr>"
    have "cn_Now rotation < cr_RefreshExpiresAt c" "ss_RevokedAt s = 0" using committed g True by (auto split: if_splits)
    moreover have "\<not> credential_violates ?c ?db \<and> acceptable_scope (ss_Scope s) \<and>
        (\<exists>event. audited aid event (Inr ?ac) (?db\<lparr>ad_credentials := ad_credentials ?db @ [?c]\<rparr>) = Inr (r, db'))"
      using committed g True
      by (auto simp: Let_def createAuthoringCredential_Inr mapCredential_def mapAuthoringScope_Inr rotated_row_def split: if_splits)
    ultimately show ?thesis
      by (elim conjE exE) (drule audited_shape, elim conjE exE, rule rotated [OF g True], simp_all,
        simp add: UpdateAuthoringSessionExpiry_def ReplaceAuthoringCredential_def)
  qed
qed

lemma lookup_cases:
  assumes "AuthoringCredentialByAccessTokenHash h now db = (r, db')"
  obtains (unchanged) "db' = db" "\<exists>e. r = Inl e"
  | (touched) c s p where "GetAuthoringCredentialByAccessHash h db = Inr (c, s, p)" "cr_Active c" "ss_RevokedAt s = 0"
      "acceptable_scope (ss_Scope s)" "db' = TouchAuthoringSession (ss_ID s) now db"
      "r = Inr \<lparr>ac_ID = cr_ID c, ac_Principal = p, ac_Session = s\<lparr>ss_Scope := normalized_scope (ss_Scope s), ss_LastUsedAt := now\<rparr>,
          ac_AccessExpiresAt = cr_AccessExpiresAt c, ac_RefreshExpiresAt = cr_RefreshExpiresAt c\<rparr>"
proof (cases "GetAuthoringCredentialByAccessHash h db")
  case (Inl e)
  then show ?thesis using assms unchanged by (auto simp: AuthoringCredentialByAccessTokenHash_def)
next
  case (Inr row)
  obtain c s p where row: "row = (c, s, p)" by (metis prod_cases3)
  show ?thesis
  proof (cases "cr_Active c \<and> ss_RevokedAt s = 0 \<and> acceptable_scope (ss_Scope s)")
    case True
    then have "mapCredential (c, s, p) = Inr \<lparr>ac_ID = cr_ID c, ac_Principal = p, ac_Session = s\<lparr>ss_Scope := normalized_scope (ss_Scope s)\<rparr>,
          ac_AccessExpiresAt = cr_AccessExpiresAt c, ac_RefreshExpiresAt = cr_RefreshExpiresAt c\<rparr>"
      by (simp add: mapCredential_def mapAuthoringScope_Inr)
    then show ?thesis using assms Inr row True touched by (auto simp: AuthoringCredentialByAccessTokenHash_def)
  next
    case False
    then show ?thesis using assms Inr row unchanged
      by (cases "mapAuthoringScope (ss_Scope s)")
        (auto simp: AuthoringCredentialByAccessTokenHash_def mapCredential_def mapAuthoringScope_Inr split: if_splits)
  qed
qed

text \<open>Both ways of revoking set the time of revocation on rows selected by the session's identifier.\<close>

lemma RevokeAuthoringSession_cases:
  assumes "RevokeAuthoringSession aid principalID sessionID now db = (r, db')"
  obtains (unchanged) "db' = db" "\<exists>e. r = Inl e"
  | (revoked) s log where "r = Inr ()" "s \<in> set (ad_sessions db)" "ss_ID s = sessionID" "ss_PrincipalID s = principalID"
      "db' = db\<lparr>ad_sessions := update_where (\<lambda>s. ss_ID s = sessionID \<and> ss_PrincipalID s = principalID)
         (\<lambda>s. s\<lparr>ss_RevokedAt := (if ss_RevokedAt s \<noteq> 0 then ss_RevokedAt s else now)\<rparr>) (ad_sessions db), ad_audit := log\<rparr>"
  using assms unfolding RevokeAuthoringSession_def
proof (cases rule: transaction_cases)
  case rolled_back
  then show ?thesis using unchanged by blast
next
  case committed
  then show ?thesis using revoked rows_affected_pos [of "\<lambda>s. ss_ID s = sessionID \<and> ss_PrincipalID s = principalID" "ad_sessions db"]
    by (auto simp: Let_def split: if_splits dest!: audited_shape)
qed

lemma RevokeAuthoringSessionByAccessTokenHash_cases:
  assumes "RevokeAuthoringSessionByAccessTokenHash aid h now db = (r, db')"
  obtains (unchanged) "db' = db" "\<exists>e. r = Inl e"
  | (revoked) c s p log where "r = Inr ()" "GetAuthoringCredentialByAccessHash h db = Inr (c, s, p)"
      "db' = (RevokeAuthoringSessionByID (cr_SessionID c) now db)\<lparr>ad_audit := log\<rparr>"
  using assms unfolding RevokeAuthoringSessionByAccessTokenHash_def
proof (cases rule: transaction_cases)
  case rolled_back
  then show ?thesis using unchanged by blast
next
  case committed
  then obtain c s p where g: "GetAuthoringCredentialByAccessHash h db = Inr (c, s, p)" by (auto split: sum.splits)
  then show ?thesis using revoked [OF _ g] committed by (auto simp: Let_def dest!: audited_shape)
qed

end
