(* ===== verification/Authoring_Invariant.thy ===== *)
theory Authoring_Invariant
  imports Authoring_Steps
begin

text \<open>
  Every step of the authoring tables preserves their invariant: first one lemma per kind of change
  of a table, then the steps.
\<close>

section \<open>Changes of the tables\<close>

lemma auth_ok_audit [simp]: "auth_ok target (db\<lparr>ad_audit := log\<rparr>, used) = auth_ok target (db, used)"
  by (simp add: auth_ok_def references_ok_def hashes_used_def)

lemma auth_ok_used: "auth_ok target (db, used) \<Longrightarrow> used \<subseteq> used' \<Longrightarrow> auth_ok target (db, used')"
  by (auto simp: auth_ok_def hashes_used_def)

lemma map_update_where: "(\<And>r. r \<in> set rows \<Longrightarrow> P r \<Longrightarrow> g (f r) = g r) \<Longrightarrow> map g (update_where P f rows) = map g rows"
  by (auto simp: update_where_def)

lemma ball_update_where: "(\<And>r. r \<in> set rows \<Longrightarrow> P r \<Longrightarrow> Q (f r)) \<Longrightarrow> \<forall>r\<in>set rows. Q r \<Longrightarrow> \<forall>r\<in>set (update_where P f rows). Q r"
  by (auto simp: update_where_def)

lemma map_filter_update_where:
  assumes "\<And>r. r \<in> set rows \<Longrightarrow> P r \<Longrightarrow> R (f r) = R r \<and> (R r \<longrightarrow> g (f r) = g r)"
  shows "map g (filter R (update_where P f rows)) = map g (filter R rows)"
  using assms unfolding update_where_def by (induction rows) auto

lemma auth_ok_devices:
  assumes ok: "auth_ok target (db, used)"
    and f: "\<And>d. d \<in> set (ad_devices db) \<Longrightarrow> P d \<Longrightarrow> dr_ID (f d) = dr_ID d \<and> dr_DeviceCodeHash (f d) = dr_DeviceCodeHash d
        \<and> dr_UserCodeHash (f d) = dr_UserCodeHash d \<and> device_ok target (f d)
        \<and> (dr_Status (f d) = DeviceConsumed) = (dr_Status d = DeviceConsumed)
        \<and> (dr_Status d = DeviceConsumed \<longrightarrow> device_origin (f d) = device_origin d)
        \<and> (dr_PrincipalID (f d) \<noteq> [] \<longrightarrow> known_id db (dr_PrincipalID (f d)))"
  shows "auth_ok target (db\<lparr>ad_devices := update_where P f (ad_devices db)\<rparr>, used)"
proof -
  let ?ds = "ad_devices db"
  have keys: "map dr_ID (update_where P f ?ds) = map dr_ID ?ds"
    "map dr_DeviceCodeHash (update_where P f ?ds) = map dr_DeviceCodeHash ?ds"
    "map dr_UserCodeHash (update_where P f ?ds) = map dr_UserCodeHash ?ds"
    using f by (auto intro!: map_update_where)
  have "map device_origin (consumed_devices (update_where P f ?ds)) = map device_origin (consumed_devices ?ds)"
    unfolding consumed_devices_def using f by (intro map_filter_update_where) auto
  moreover have "\<forall>d\<in>set (update_where P f ?ds). device_ok target d"
    using ok f by (intro ball_update_where) (auto simp: auth_ok_def devices_ok_def)
  moreover have "\<forall>d\<in>set (update_where P f ?ds). dr_PrincipalID d \<noteq> [] \<longrightarrow> known_id db (dr_PrincipalID d)"
    using ok f by (intro ball_update_where) (auto simp: auth_ok_def references_ok_def)
  moreover have "dr_DeviceCodeHash ` set (update_where P f ?ds) = dr_DeviceCodeHash ` set ?ds" using keys(2) by (metis list.set_map)
  ultimately show ?thesis
    using ok by (simp add: auth_ok_def devices_ok_def references_ok_def hashes_used_def origins_match_def keys del: mset_map)
qed

definition same_session :: "authoring_session \<Rightarrow> authoring_session \<Rightarrow> bool" where
  "same_session s s' \<longleftrightarrow> ss_ID s' = ss_ID s \<and> ss_Kind s' = ss_Kind s \<and> ss_ClientID s' = ss_ClientID s
     \<and> ss_PrincipalID s' = ss_PrincipalID s \<and> ss_Scope s' = ss_Scope s \<and> ss_CreatedAt s' = ss_CreatedAt s"

lemma auth_ok_sessions:
  assumes ok: "auth_ok target (db, used)" and f: "\<And>s. P s \<Longrightarrow> same_session s (f s)"
  shows "auth_ok target (db\<lparr>ad_sessions := update_where P f (ad_sessions db)\<rparr>, used)"
proof -
  let ?ss = "ad_sessions db"
  have "map ss_ID (update_where P f ?ss) = map ss_ID ?ss" "map (\<lambda>s. (ss_ID s, ss_Kind s)) (update_where P f ?ss) = map (\<lambda>s. (ss_ID s, ss_Kind s)) ?ss"
    using f by (auto intro!: map_update_where simp: same_session_def)
  moreover from this(2) have "session_kinds (update_where P f ?ss) = session_kinds ?ss" unfolding session_kinds_def by (metis list.set_map)
  moreover have "map session_origin (human_sessions (update_where P f ?ss)) = map session_origin (human_sessions ?ss)"
    unfolding human_sessions_def using f by (intro map_filter_update_where) (auto simp: same_session_def session_origin_def)
  moreover have "\<forall>s\<in>set (update_where P f ?ss). session_ok target s"
    using ok f by (intro ball_update_where) (auto simp: auth_ok_def sessions_ok_def same_session_def session_ok_def)
  moreover have "\<forall>s\<in>set (update_where P f ?ss). known_id db (ss_PrincipalID s)"
    using ok f by (intro ball_update_where) (auto simp: auth_ok_def references_ok_def same_session_def)
  ultimately show ?thesis
    using ok by (simp add: auth_ok_def sessions_ok_def references_ok_def hashes_used_def origins_match_def del: mset_map)
qed

lemma auth_ok_new_device:
  assumes ok: "auth_ok target (db, used)" and new: "\<not> device_violates d db" "device_ok target d" "dr_Status d = DevicePending"
  shows "auth_ok target (db\<lparr>ad_devices := ad_devices db @ [d]\<rparr>, insert (dr_DeviceCodeHash d) used)"
  using assms by (auto simp: auth_ok_def devices_ok_def device_violates_def references_ok_def hashes_used_def origins_match_def
      consumed_devices_def device_ok_def)

section \<open>Sessions and credentials\<close>

lemma refresh_hashes_append: "refresh_hashes (cs @ [c]) = refresh_hashes cs @ (if cr_RefreshTokenHash c = [] then [] else [cr_RefreshTokenHash c])"
  by (simp add: refresh_hashes_def)

lemma credentials_ok_append:
  assumes "credentials_ok kinds (ad_credentials db)" "kinds \<subseteq> kinds'" "\<not> credential_violates c db" "credential_ok kinds' c"
  shows "credentials_ok kinds' (ad_credentials db @ [c])"
proof -
  have "\<forall>r\<in>set (ad_credentials db). cr_ID r \<noteq> cr_ID c \<and> cr_AccessTokenHash r \<noteq> cr_AccessTokenHash c
      \<and> (cr_RefreshTokenHash c \<noteq> [] \<longrightarrow> cr_RefreshTokenHash r \<noteq> cr_RefreshTokenHash c)
      \<and> (cr_Active r \<longrightarrow> cr_SessionID r \<noteq> cr_SessionID c)"
    using assms(3) by (auto simp: credential_violates_def)
  moreover have "\<forall>r\<in>set (ad_credentials db). credential_ok kinds' r"
    using assms(1,2) by (auto simp: credentials_ok_def credential_ok_def)
  moreover have "distinct (refresh_hashes (ad_credentials db @ [c]))"
    using assms(1) calculation(1) unfolding refresh_hashes_append by (auto simp: credentials_ok_def refresh_hashes_def)
  moreover have "distinct (active_sessions (ad_credentials db @ [c]))"
    using assms(1) calculation(1) by (auto simp: credentials_ok_def active_sessions_def)
  moreover have "distinct (map cr_ID (ad_credentials db @ [c]))" "distinct (map cr_AccessTokenHash (ad_credentials db @ [c]))"
    using assms(1) calculation(1) by (auto simp: credentials_ok_def)
  ultimately show ?thesis using assms(4) unfolding credentials_ok_def by simp
qed

lemma credential_ok_frame [simp]: "credential_ok kinds (c\<lparr>cr_Active := a, cr_ReplacedAt := n\<rparr>) = credential_ok kinds c"
  by (simp add: credential_ok_def)

lemma credentials_ok_replace:
  assumes ok: "credentials_ok kinds cs" and f: "f = (\<lambda>c. c\<lparr>cr_Active := False, cr_ReplacedAt := now\<rparr>)"
  shows "credentials_ok kinds (update_where P f cs)" "refresh_hashes (update_where P f cs) = refresh_hashes cs"
    "cr_AccessTokenHash ` set (update_where P f cs) = cr_AccessTokenHash ` set cs"
proof -
  have keys: "map cr_ID (update_where P f cs) = map cr_ID cs" "map cr_AccessTokenHash (update_where P f cs) = map cr_AccessTokenHash cs"
    "map cr_RefreshTokenHash (update_where P f cs) = map cr_RefreshTokenHash cs"
    by (auto intro!: map_update_where simp: f)
  then show r: "refresh_hashes (update_where P f cs) = refresh_hashes cs" "cr_AccessTokenHash ` set (update_where P f cs) = cr_AccessTokenHash ` set cs"
    by (simp_all add: refresh_hashes_def) (metis list.set_map)
  have "subseq (active_sessions (update_where P f cs)) (active_sessions cs)"
    unfolding active_sessions_def by (rule filter_map_subseq) (auto simp: update_where_def list_all2_conv_all_nth f)
  then have "distinct (active_sessions (update_where P f cs))" using ok subseq_distinct unfolding credentials_ok_def by blast
  moreover have "\<forall>c\<in>set (update_where P f cs). credential_ok kinds c"
  proof (rule ball_update_where)
    show all: "\<forall>c\<in>set cs. credential_ok kinds c" using ok by (simp add: credentials_ok_def)
    show "credential_ok kinds (f c)" if "c \<in> set cs" "P c" for c
      using all that(1) by (simp add: f)
  qed
  ultimately show "credentials_ok kinds (update_where P f cs)" using ok by (simp add: credentials_ok_def keys r(1))
qed

lemma mset_human_append: "mset (map session_origin (human_sessions (ss @ [s]))) =
    mset (map session_origin (human_sessions ss)) + (if ss_Kind s = SessionHumanCLI then {#session_origin s#} else {#})"
  by (simp add: human_sessions_def)

lemma sessions_ok_append: "sessions_ok target ss \<Longrightarrow> ss_ID s \<notin> ss_ID ` set ss \<Longrightarrow> session_ok target s \<Longrightarrow> sessions_ok target (ss @ [s])"
  by (auto simp: sessions_ok_def)

lemma scope_for_normalized [simp]: "scope_for target (normalized_scope scope) = scope_for target scope"
  by (simp add: scope_for_def) (simp add: normalized_scope_def)

text \<open>A new session with its first credential.\<close>

lemma new_session_ok:
  assumes s: "sessions_ok target (ad_sessions db)" and c: "credentials_ok (session_kinds (ad_sessions db)) (ad_credentials db)"
    and new: "ss_ID s \<notin> ss_ID ` set (ad_sessions db)" "session_ok target s"
    and nv: "\<not> credential_violates r (db\<lparr>ad_sessions := ad_sessions db @ [s]\<rparr>)"
    and r: "cr_SessionID r = ss_ID s" "(cr_RefreshTokenHash r = []) = (ss_Kind s = SessionWorkload)"
  shows "sessions_ok target (ad_sessions db @ [s])"
    "credentials_ok (session_kinds (ad_sessions db @ [s])) (ad_credentials db @ [r])"
proof -
  show "sessions_ok target (ad_sessions db @ [s])" using sessions_ok_append [OF s new] .
  have k: "session_kinds (ad_sessions db) \<subseteq> session_kinds (ad_sessions db @ [s])" by (auto simp: session_kinds_def)
  have "(cr_RefreshTokenHash r = []) = (cr_RefreshExpiresAt r = 0)" using nv unfolding credential_violates_def by blast
  moreover have "ss_Kind s = (if cr_RefreshTokenHash r = [] then SessionWorkload else SessionHumanCLI)"
    using r(2) by (cases "ss_Kind s") auto
  ultimately have "credential_ok (session_kinds (ad_sessions db @ [s])) r"
    unfolding credential_ok_def session_kinds_def using r(1) by simp
  then show "credentials_ok (session_kinds (ad_sessions db @ [s])) (ad_credentials db @ [r])"
    using credentials_ok_append [of _ "db\<lparr>ad_sessions := ad_sessions db @ [s]\<rparr>", OF _ k nv] c by simp
qed

lemma consumed_split: "mset (map device_origin (consumed_devices (xs @ d # ys))) =
    mset (map device_origin (consumed_devices (xs @ ys))) + (if dr_Status d = DeviceConsumed then {#device_origin d#} else {#})"
  by (simp add: consumed_devices_def)

lemma exchange_ok:
  assumes ok: "auth_ok target (db, used)" and i: "IssueDeviceCredential aid issue db = (r, db')" and ne: "di_RefreshTokenHash issue \<noteq> []"
  shows "auth_ok target (db', {di_AccessTokenHash issue, di_RefreshTokenHash issue} \<union> used)"
  using i
proof (cases rule: IssueDeviceCredential_cases)
  case unchanged
  show ?thesis unfolding unchanged(1) by (rule auth_ok_used [OF ok]) auto
next
  case (polled i)
  have "auth_ok target (db', used)" unfolding polled(2) RecordDeviceAuthorizationPoll_def
    using ok by (intro auth_ok_devices [OF ok])
      (auto simp: device_ok_def device_origin_def auth_ok_def devices_ok_def references_ok_def split: device_status.splits)
  then show ?thesis by (rule auth_ok_used) auto
next
  case (issued d dv p log)
  let ?now = "di_Now issue" and ?s = "issued_session issue dv p" and ?c = "issued_credential issue"
  let ?f = "\<lambda>d. d\<lparr>dr_Status := DeviceConsumed, dr_ConsumedAt := ?now\<rparr>"
  have dist: "distinct (map dr_ID (ad_devices db))" and dok: "device_ok target d"
    using ok issued(1) by (auto simp: auth_ok_def devices_ok_def)
  then have cd: "consumable_device (dr_ID d) ?now d"
    using issued(1,6) by (auto simp: consumable_device_def distinct_map inj_on_def)
  obtain xs ys where rows: "ad_devices db = xs @ d # ys"
      "update_where (consumable_device (dr_ID d) ?now) ?f (ad_devices db) = xs @ ?f d # ys"
    by (rule update_where_one [where P = "consumable_device (dr_ID d) ?now" and f = ?f, OF dist issued(1) cd]) (auto simp: consumable_device_def)
  have dv: "dv_ClientID dv = dr_ClientID d" "dv_Scope dv = normalized_scope (dr_Scope d)"
    using issued(3) by (auto simp: mapDeviceAuthorization_def mapAuthoringScope_Inr)
  have fd: "device_ok target (?f d)"
    using dok cd issued(4,5) by (auto simp: device_ok_def consumable_device_def text_later_def)
  have sok: "session_ok target ?s" using dok by (simp add: session_ok_def issued_session_def dv device_ok_def)
  have s: "sessions_ok target (ad_sessions db @ [?s])"
    "credentials_ok (session_kinds (ad_sessions db @ [?s])) (ad_credentials db @ [?c])"
    using new_session_ok [of target db ?s ?c] ok sok issued(11,13) ne
    by (auto simp: auth_ok_def issued_session_def issued_credential_def new_credential_def)
  have "device_origin (?f d) = session_origin ?s"
    by (simp add: device_origin_def session_origin_def issued_session_def dv issued(8))
  then have "origins_match (xs @ ?f d # ys) (ad_sessions db @ [?s])"
    using ok issued(4) unfolding auth_ok_def origins_match_def prod.case rows(1) consumed_split mset_human_append
    by (simp add: issued_session_def)
  moreover have "devices_ok target (xs @ ?f d # ys)" using ok fd by (auto simp: auth_ok_def devices_ok_def rows(1))
  moreover have "references_ok db'" using ok issued(12) unfolding issued(15) rows(2)
    by (auto simp: auth_ok_def references_ok_def rows(1) issued_session_def)
  moreover have "hashes_used db' ({di_AccessTokenHash issue, di_RefreshTokenHash issue} \<union> used)"
    using ok unfolding issued(15) rows(2)
    by (auto simp: auth_ok_def hashes_used_def rows(1) refresh_hashes_append issued_credential_def new_credential_def)
  ultimately show ?thesis using s by (simp add: auth_ok_def issued(15) rows(2))
qed

lemma workload_ok:
  assumes ok: "auth_ok target (db, used)" and i: "CreateWorkloadCredential aid issue db = (r, db')"
    and s: "ss_Kind (wi_Session issue) = SessionWorkload" "scope_for target (ss_Scope (wi_Session issue))"
  shows "auth_ok target (db', insert (wi_AccessTokenHash issue) used)"
  using i
proof (cases rule: CreateWorkloadCredential_cases)
  case unchanged
  show ?thesis unfolding unchanged(1) by (rule auth_ok_used [OF ok]) auto
next
  case (created p log)
  let ?s = "stored_session (wi_Session issue)" and ?c = "workload_row issue"
  have "session_ok target ?s" using s by (simp add: session_ok_def stored_session_def)
  then have "sessions_ok target (ad_sessions db @ [?s])"
    "credentials_ok (session_kinds (ad_sessions db @ [?s])) (ad_credentials db @ [?c])"
    using new_session_ok [of target db ?s ?c] ok created(4,6) s
    by (auto simp: auth_ok_def stored_session_def workload_row_def new_credential_def)
  moreover have "origins_match (ad_devices db) (ad_sessions db @ [?s])"
    using ok s unfolding auth_ok_def origins_match_def prod.case mset_human_append by (simp add: stored_session_def)
  moreover have "references_ok db'" using ok created(5) unfolding created(8) by (auto simp: auth_ok_def references_ok_def stored_session_def)
  moreover have "hashes_used db' (insert (wi_AccessTokenHash issue) used)"
    using ok unfolding created(8) by (auto simp: auth_ok_def hashes_used_def refresh_hashes_append workload_row_def new_credential_def)
  ultimately show ?thesis using ok by (simp add: auth_ok_def created(8))
qed

lemma RevokeAuthoringSessionByID_ok: "auth_ok target (db, used) \<Longrightarrow> auth_ok target (RevokeAuthoringSessionByID i now db, used)"
  unfolding RevokeAuthoringSessionByID_def by (rule auth_ok_sessions) (auto simp: same_session_def)

lemma rotate_ok:
  assumes ok: "auth_ok target (db, used)" and i: "RotateAuthoringCredential aid rotation db = (r, db')"
    and ne: "cn_RefreshTokenHashNew rotation \<noteq> []"
  shows "auth_ok target (db', {cn_AccessTokenHash rotation, cn_RefreshTokenHashNew rotation} \<union> used)"
  using i
proof (cases rule: RotateAuthoringCredential_cases)
  case (unchanged e)
  show ?thesis unfolding unchanged(2) by (rule auth_ok_used [OF ok]) auto
next
  case (replayed c s p log)
  have "auth_ok target (db', used)" unfolding replayed(4) using RevokeAuthoringSessionByID_ok [OF ok] by simp
  then show ?thesis by (rule auth_ok_used) auto
next
  case (rotated c s p log)
  let ?g = "\<lambda>c. c\<lparr>cr_Active := False, cr_ReplacedAt := cn_Now rotation\<rparr>"
  let ?ss = "update_where (\<lambda>s. ss_ID s = cr_SessionID c \<and> ss_RevokedAt s = 0) (\<lambda>s. s\<lparr>ss_ExpiresAt := cn_RefreshExpiresAt rotation\<rparr>) (ad_sessions db)"
  let ?cs = "update_where (replaceable (cr_ID c)) ?g (ad_credentials db)"
  let ?c = "rotated_row rotation (cr_SessionID c)" and ?db = "db\<lparr>ad_credentials := ?cs, ad_sessions := ?ss\<rparr>"
  have ok1: "auth_ok target (db\<lparr>ad_sessions := ?ss\<rparr>, used)" by (rule auth_ok_sessions [OF ok]) (auto simp: same_session_def)
  then have k: "credentials_ok (session_kinds ?ss) (ad_credentials db)" by (simp add: auth_ok_def)
  note rep = credentials_ok_replace [where P = "replaceable (cr_ID c)" and now = "cn_Now rotation", OF k refl]
  have "c \<in> set (ad_credentials db)" "cr_RefreshTokenHash c \<noteq> []"
    using join_credential_Inr [OF rotated(1) [unfolded GetAuthoringCredentialByRefreshHash_def]] by auto
  moreover have "credential_ok (session_kinds ?ss) c" using k calculation(1) unfolding credentials_ok_def by blast
  ultimately have kind: "(cr_SessionID c, SessionHumanCLI) \<in> session_kinds ?ss" unfolding credential_ok_def by auto
  have nv: "\<not> credential_violates ?c ?db"
    using rotated(6) by (simp add: UpdateAuthoringSessionExpiry_def ReplaceAuthoringCredential_def)
  then have "(cr_RefreshTokenHash ?c = []) = (cr_RefreshExpiresAt ?c = 0)" unfolding credential_violates_def by blast
  then have "credential_ok (session_kinds ?ss) ?c"
    using kind ne by (simp add: credential_ok_def rotated_row_def new_credential_def)
  then have "credentials_ok (session_kinds ?ss) (?cs @ [?c])"
    using credentials_ok_append [of "session_kinds ?ss" ?db, OF _ order_refl nv] rep(1) by simp
  moreover have "hashes_used db' ({cn_AccessTokenHash rotation, cn_RefreshTokenHashNew rotation} \<union> used)"
    using ok rep(2,3) unfolding rotated(8)
    by (auto simp: auth_ok_def hashes_used_def refresh_hashes_append rotated_row_def new_credential_def)
  ultimately show ?thesis using ok1 unfolding rotated(8)
    by (simp add: auth_ok_def references_ok_def hashes_used_def del: mset_map)
qed

lemma decide_device_ok:
  assumes ok: "auth_ok target (db, used)" and i: "decide_device change action aid i pid now db = (r, db')" and pid: "pid \<noteq> []"
    and change: "(change = (\<lambda>d. d\<lparr>dr_Status := DeviceApproved, dr_PrincipalID := pid, dr_ApprovedAt := now\<rparr>))
      \<or> (change = (\<lambda>d. d\<lparr>dr_Status := DeviceDenied, dr_PrincipalID := pid, dr_DeniedAt := now\<rparr>))"
  shows "auth_ok target (db', used)"
  using i
proof (cases rule: decide_device_cases)
  case unchanged
  then show ?thesis using ok by simp
next
  case (decided log)
  have "auth_ok target (db\<lparr>ad_devices := update_where (decidable_device i now) change (ad_devices db)\<rparr>, used)"
  proof (rule auth_ok_devices [OF ok], intro conjI)
    fix d assume d: "d \<in> set (ad_devices db)" "decidable_device i now d"
    then have "device_ok target d" using ok by (auto simp: auth_ok_def devices_ok_def)
    then show "device_ok target (change d)" using change d pid by (auto simp: device_ok_def decidable_device_def)
    show "dr_PrincipalID (change d) \<noteq> [] \<longrightarrow> known_id db (dr_PrincipalID (change d))" using change decided(2) by auto
  qed (use change in \<open>auto simp: decidable_device_def\<close>)
  then show ?thesis by (simp add: decided(4))
qed

lemma distinct_map_filter_filter: "distinct (map f (filter P xs)) \<Longrightarrow> distinct (map f (filter (\<lambda>x. Q x \<and> P x) xs))"
  using distinct_map_filter [of f "filter P xs" Q] by (simp add: conj_commute)

lemma refresh_hashes_filter: "distinct (refresh_hashes cs) \<Longrightarrow> distinct (refresh_hashes (filter Q cs))"
  unfolding refresh_hashes_def filter_map filter_filter by (rule distinct_map_filter_filter)

lemma delete_ok:
  assumes ok: "auth_ok target (db, used)" and i: "DeletePrincipal restricted i db = (r, db')"
  shows "auth_ok target (db', used)"
proof (cases "known_id db i \<and> \<not> restricted")
  case False
  then show ?thesis using i ok by (auto simp: DeletePrincipal_def split: if_splits)
next
  case True
  let ?ds = "filter (\<lambda>d. dr_PrincipalID d = [] \<or> dr_PrincipalID d \<noteq> i) (ad_devices db)"
  let ?ss = "filter (\<lambda>s. ss_PrincipalID s \<noteq> i) (ad_sessions db)"
  let ?keep = "\<lambda>c. \<not> (\<exists>s\<in>set (ad_sessions db). ss_ID s = cr_SessionID c \<and> ss_PrincipalID s = i)"
  let ?cs = "filter ?keep (ad_credentials db)"
  have db': "ad_devices db' = ?ds" "ad_sessions db' = ?ss" "ad_credentials db' = ?cs"
      "ad_principals db' = filter (\<lambda>p. pn_ID p \<noteq> i) (ad_principals db)"
    using i True by (auto simp: DeletePrincipal_def Let_def)
  have o: "devices_ok target (ad_devices db)" "sessions_ok target (ad_sessions db)"
    "credentials_ok (session_kinds (ad_sessions db)) (ad_credentials db)" "references_ok db" "origins_match (ad_devices db) (ad_sessions db)"
    using ok by (auto simp: auth_ok_def)
  have "credential_ok (session_kinds ?ss) c" if "c \<in> set ?cs" for c
  proof -
    have "credential_ok (session_kinds (ad_sessions db)) c" using o(3) that by (auto simp: credentials_ok_def)
    then show ?thesis using that by (auto simp: credential_ok_def session_kinds_def)
  qed
  then have "credentials_ok (session_kinds ?ss) ?cs"
    using o(3) by (simp add: credentials_ok_def refresh_hashes_filter active_sessions_def distinct_map_filter distinct_map_filter_filter)
  moreover have "devices_ok target ?ds" "sessions_ok target ?ss"
    using o(1,2) by (auto simp: devices_ok_def sessions_ok_def distinct_map_filter)
  moreover have "references_ok db'" using o(4) unfolding references_ok_def db' known_id_def by fastforce
  moreover have "origins_match ?ds ?ss"
  proof -
    let ?Q = "\<lambda>x. fst (snd x) \<noteq> i"
    have "filter (\<lambda>d. dr_Status d = DeviceConsumed) ?ds = filter (?Q \<circ> device_origin) (consumed_devices (ad_devices db))"
      using o(1) unfolding consumed_devices_def filter_filter
      by (intro filter_cong) (auto simp: devices_ok_def device_ok_def device_origin_def)
    then have "map device_origin (consumed_devices ?ds) = filter ?Q (map device_origin (consumed_devices (ad_devices db)))"
      by (simp add: consumed_devices_def filter_map)
    moreover have "map session_origin (human_sessions ?ss) = filter ?Q (map session_origin (human_sessions (ad_sessions db)))"
      by (simp add: human_sessions_def filter_map session_origin_def o_def conj_commute)
    ultimately show ?thesis using o(5) unfolding origins_match_def by (simp only: mset_filter)
  qed
  moreover have "hashes_used db' used" using ok unfolding hashes_used_def db' by (auto simp: auth_ok_def hashes_used_def refresh_hashes_def)
  ultimately show ?thesis by (simp add: auth_ok_def db')
qed

section \<open>Steps\<close>

lemma auth_step_ok:
  assumes "auth_step target st st'" "auth_ok target st"
  shows "auth_ok target st'"
  using assms
proof (induction rule: auth_step.induct)
  case (begin_device aid dv db r db' used)
  show ?case using begin_device.hyps(1)
  proof (cases rule: CreateDeviceAuthorization_cases)
    case unchanged
    show ?thesis unfolding unchanged by (rule auth_ok_used [OF begin_device.prems]) auto
  next
    case (created log)
    have "device_ok target (device_row_of dv)" using begin_device.hyps(2,3) by (simp add: device_ok_def device_row_of_def)
    then show ?thesis using auth_ok_new_device [OF begin_device.prems created(2)] begin_device.hyps(3)
      by (simp add: created(3)) (simp add: device_row_of_def)
  qed
next
  case (approve aid i p now db r db' used)
  then have "pn_ID p \<noteq> []" by (auto simp: validHumanAuthoringPrincipal_def blank_def)
  then show ?case using decide_device_ok [OF approve.prems approve.hyps(1) [unfolded ApproveDeviceAuthorization_db_def]] by simp
next
  case (deny aid i p now db r db' used)
  then have "pn_ID p \<noteq> []" by (auto simp: validHumanAuthoringPrincipal_def blank_def)
  then show ?case using decide_device_ok [OF deny.prems deny.hyps(1) [unfolded DenyDeviceAuthorization_db_def]] by simp
next
  case (exchange aid issue db r db' used)
  then show ?case using exchange_ok by blast
next
  case (workload aid issue db r db' used)
  then show ?case using workload_ok by blast
next
  case (rotate aid rotation db r db' used)
  then show ?case using rotate_ok by blast
next
  case (lookup h now db r db' used)
  show ?case using lookup.hyps(1)
  proof (cases rule: lookup_cases)
    case unchanged
    then show ?thesis using lookup.prems by simp
  next
    case (touched c s p)
    show ?thesis unfolding touched(5) TouchAuthoringSession_def
      by (rule auth_ok_sessions [OF lookup.prems]) (auto simp: same_session_def)
  qed
next
  case (revoke aid principalID sessionID now db r db' used)
  show ?case using revoke.hyps(1)
  proof (cases rule: RevokeAuthoringSession_cases)
    case unchanged
    then show ?thesis using revoke.prems by simp
  next
    case (revoked s log)
    have "auth_ok target (db\<lparr>ad_sessions := update_where (\<lambda>s. ss_ID s = sessionID \<and> ss_PrincipalID s = principalID)
         (\<lambda>s. s\<lparr>ss_RevokedAt := (if ss_RevokedAt s \<noteq> 0 then ss_RevokedAt s else now)\<rparr>) (ad_sessions db)\<rparr>, used)"
      by (rule auth_ok_sessions [OF revoke.prems]) (auto simp: same_session_def)
    then show ?thesis by (simp add: revoked(5))
  qed
next
  case (revoke_token aid h now db r db' used)
  show ?case using revoke_token.hyps(1)
  proof (cases rule: RevokeAuthoringSessionByAccessTokenHash_cases)
    case unchanged
    then show ?thesis using revoke_token.prems by simp
  next
    case (revoked c s p log)
    then show ?thesis using RevokeAuthoringSessionByID_ok [OF revoke_token.prems] by simp
  qed
next
  case (delete restricted i db r db' used)
  then show ?case using delete_ok by blast
next
  case (others db' log ps db used)
  have k: "known_id db i \<Longrightarrow> known_id db' i" for i
    using others.hyps(2) unfolding others.hyps(1) known_id_def by simp (metis imageE imageI subsetD)
  have same: "ad_devices db' = ad_devices db" "ad_sessions db' = ad_sessions db" "ad_credentials db' = ad_credentials db"
    by (simp_all add: others.hyps(1))
  have "references_ok db'" using others.prems k unfolding auth_ok_def references_ok_def prod.case same by blast
  then show ?case using others.prems unfolding auth_ok_def hashes_used_def prod.case same by blast
qed

lemma auth_reachable_ok:
  assumes "auth_reachable target st"
  shows "auth_ok target st"
proof -
  obtain ps log where "(auth_step target)\<^sup>*\<^sup>*
      (\<lparr>ad_principals = ps, ad_devices = [], ad_sessions = [], ad_credentials = [], ad_audit = log\<rparr>, {}) st"
    using assms by (auto simp: auth_reachable_def)
  then show ?thesis
  proof (induction rule: rtranclp_induct)
    case base
    show ?case by (simp add: auth_ok_def devices_ok_def sessions_ok_def credentials_ok_def references_ok_def origins_match_def
          hashes_used_def refresh_hashes_def active_sessions_def consumed_devices_def human_sessions_def)
  next
    case (step y z)
    then show ?case using auth_step_ok by blast
  qed
qed

end
