(* ===== verification/Authoring_Secrets.thy ===== *)
theory Authoring_Secrets
  imports Authoring_Invariant
begin

text \<open>
  What a step keeps of the rows of the authoring tables, and secrets that stay refused: the contracts
  of secrets that can be retired and of secrets that can be redeemed once, with their interpretations
  by device codes, refresh tokens and access tokens.
\<close>

section \<open>Contracts\<close>

text \<open>\<open>redeem h s s'\<close>: presenting the secret with hash \<open>h\<close> succeeds and leads from \<open>s\<close> to \<open>s'\<close>.\<close>

locale retirable =
  fixes step :: "'s \<Rightarrow> 's \<Rightarrow> bool" and retired :: "'h \<Rightarrow> 's \<Rightarrow> bool" and redeem :: "'h \<Rightarrow> 's \<Rightarrow> 's \<Rightarrow> bool"
  assumes retired_step: "step s s' \<Longrightarrow> retired h s \<Longrightarrow> retired h s'"
    and retired_refused: "retired h s \<Longrightarrow> \<not> redeem h s s'"
begin

lemma retired_steps: "step\<^sup>*\<^sup>* s s' \<Longrightarrow> retired h s \<Longrightarrow> retired h s'"
  by (induction rule: rtranclp_induct) (auto intro: retired_step)

lemma refused_forever: "retired h s \<Longrightarrow> step\<^sup>*\<^sup>* s s' \<Longrightarrow> \<not> redeem h s' s''"
  using retired_steps retired_refused by blast

end

locale single_use = retirable +
  assumes redeem_retires: "redeem h s s' \<Longrightarrow> retired h s'"
begin

lemma redeemed_once: "redeem h s s1 \<Longrightarrow> step\<^sup>*\<^sup>* s1 s2 \<Longrightarrow> \<not> redeem h s2 s3"
  using redeem_retires refused_forever by blast

end

section \<open>The life of a row\<close>

text \<open>The abstract life cycle of a device authorization.\<close>

definition device_life :: "device_status \<Rightarrow> device_status \<Rightarrow> bool" where
  "device_life s s' \<longleftrightarrow> s = s' \<or> s = DevicePending \<and> (s' = DeviceApproved \<or> s' = DeviceDenied)
     \<or> s = DeviceApproved \<and> s' = DeviceConsumed"

definition continues_device :: "device_row \<Rightarrow> device_row \<Rightarrow> bool" where
  "continues_device d d' \<longleftrightarrow> dr_ID d' = dr_ID d \<and> dr_ClientID d' = dr_ClientID d \<and> dr_DeviceCodeHash d' = dr_DeviceCodeHash d
     \<and> dr_Scope d' = dr_Scope d \<and> dr_ExpiresAt d' = dr_ExpiresAt d \<and> device_life (dr_Status d) (dr_Status d')
     \<and> (dr_Status d \<noteq> DevicePending \<longrightarrow> dr_PrincipalID d' = dr_PrincipalID d \<and> dr_ApprovedAt d' = dr_ApprovedAt d)"

definition continues_session :: "authoring_session \<Rightarrow> authoring_session \<Rightarrow> bool" where
  "continues_session s s' \<longleftrightarrow> same_session s s' \<and> (ss_RevokedAt s \<noteq> 0 \<longrightarrow> ss_RevokedAt s' = ss_RevokedAt s)"

definition continues_credential :: "credential_row \<Rightarrow> credential_row \<Rightarrow> bool" where
  "continues_credential c c' \<longleftrightarrow> cr_ID c' = cr_ID c \<and> cr_SessionID c' = cr_SessionID c
     \<and> cr_AccessTokenHash c' = cr_AccessTokenHash c \<and> cr_RefreshTokenHash c' = cr_RefreshTokenHash c
     \<and> cr_AccessExpiresAt c' = cr_AccessExpiresAt c \<and> (cr_Active c' \<longrightarrow> cr_Active c)"

definition new_hashes :: "string set \<Rightarrow> credential_row \<Rightarrow> bool" where
  "new_hashes used c \<longleftrightarrow> cr_AccessTokenHash c \<notin> used \<and> (cr_RefreshTokenHash c \<noteq> [] \<longrightarrow> cr_RefreshTokenHash c \<notin> used)"

definition progress :: "auth_state \<Rightarrow> auth_state \<Rightarrow> bool" where
  "progress st st' \<longleftrightarrow> (case st of (db, used) \<Rightarrow> case st' of (db', used') \<Rightarrow> used \<subseteq> used'
     \<and> table_step continues_device (\<lambda>d. dr_DeviceCodeHash d \<notin> used) (ad_devices db) (ad_devices db')
     \<and> table_step continues_session (\<lambda>s. ss_ID s \<notin> ss_ID ` set (ad_sessions db)) (ad_sessions db) (ad_sessions db')
     \<and> table_step continues_credential (new_hashes used) (ad_credentials db) (ad_credentials db'))"

lemma continues_refl [simp]: "continues_device d d" "continues_session s s" "continues_credential c c"
  by (simp_all add: continues_device_def device_life_def continues_session_def same_session_def continues_credential_def)

lemma table_step_id [simp]: "table_step continues_device F ds ds" "table_step continues_session G ss ss"
  "table_step continues_credential H cs cs"
  by (auto intro: table_step_subset)

lemma progressI:
  assumes "used \<subseteq> used'" "table_step continues_device (\<lambda>d. dr_DeviceCodeHash d \<notin> used) (ad_devices db) (ad_devices db')"
    "table_step continues_session (\<lambda>s. ss_ID s \<notin> ss_ID ` set (ad_sessions db)) (ad_sessions db) (ad_sessions db')"
    "table_step continues_credential (new_hashes used) (ad_credentials db) (ad_credentials db')"
  shows "progress (db, used) (db', used')"
  using assms by (simp add: progress_def)

lemma revoke_rows: "table_step continues_session F ss
    (update_where P (\<lambda>s. s\<lparr>ss_RevokedAt := (if ss_RevokedAt s \<noteq> 0 then ss_RevokedAt s else now)\<rparr>) ss)"
  by (rule table_step_update) (auto simp: continues_session_def same_session_def)

lemma revoke_by_id_rows: "ad_devices (RevokeAuthoringSessionByID i now db) = ad_devices db"
  "ad_credentials (RevokeAuthoringSessionByID i now db) = ad_credentials db"
  "table_step continues_session F (ad_sessions db) (ad_sessions (RevokeAuthoringSessionByID i now db))"
  by (simp_all add: RevokeAuthoringSessionByID_def revoke_rows)

lemma decide_progress:
  assumes i: "decide_device change action aid i pid now db = (r, db')"
    and change: "(change = (\<lambda>d. d\<lparr>dr_Status := DeviceApproved, dr_PrincipalID := pid, dr_ApprovedAt := now\<rparr>))
      \<or> (change = (\<lambda>d. d\<lparr>dr_Status := DeviceDenied, dr_PrincipalID := pid, dr_DeniedAt := now\<rparr>))"
  shows "progress (db, used) (db', used)"
  using i
proof (cases rule: decide_device_cases)
  case unchanged
  then show ?thesis by (auto intro: progressI)
next
  case (decided log)
  have "table_step continues_device (\<lambda>d. dr_DeviceCodeHash d \<notin> used) (ad_devices db)
      (update_where (decidable_device i now) change (ad_devices db))"
    using change by (intro table_step_update) (auto simp: decidable_device_def continues_device_def device_life_def)
  then show ?thesis by (intro progressI) (simp_all add: decided(4))
qed

lemma auth_step_progress:
  assumes "auth_step target st st'"
  shows "progress st st'"
  using assms
proof (induction rule: auth_step.induct)
  case (begin_device aid dv db r db' used)
  show ?case using begin_device.hyps(1)
  proof (cases rule: CreateDeviceAuthorization_cases)
    case unchanged
    then show ?thesis by (auto intro: progressI)
  next
    case (created log)
    then show ?thesis using begin_device.hyps(4)
      by (intro progressI) (auto simp: device_row_of_def intro!: table_step_append)
  qed
next
  case (approve aid i p now db r db' used)
  then show ?case using decide_progress [of _ _ aid i "pn_ID p" now db r db' used] by (simp add: ApproveDeviceAuthorization_db_def)
next
  case (deny aid i p now db r db' used)
  then show ?case using decide_progress [of _ _ aid i "pn_ID p" now db r db' used] by (simp add: DenyDeviceAuthorization_db_def)
next
  case (exchange aid issue db r db' used)
  show ?case using exchange.hyps(1)
  proof (cases rule: IssueDeviceCredential_cases)
    case unchanged
    then show ?thesis by (auto intro: progressI)
  next
    case (polled i)
    have "table_step continues_device (\<lambda>d. dr_DeviceCodeHash d \<notin> used) (ad_devices db) (ad_devices db')"
      unfolding polled(2) RecordDeviceAuthorizationPoll_def by (auto intro!: table_step_update simp: continues_device_def device_life_def)
    then show ?thesis by (intro progressI) (auto simp: polled(2) RecordDeviceAuthorizationPoll_def)
  next
    case (issued d dv p log)
    have "table_step continues_device (\<lambda>d. dr_DeviceCodeHash d \<notin> used) (ad_devices db)
        (update_where (consumable_device (dr_ID d) (di_Now issue)) (\<lambda>d. d\<lparr>dr_Status := DeviceConsumed, dr_ConsumedAt := di_Now issue\<rparr>) (ad_devices db))"
      by (rule table_step_update) (auto simp: continues_device_def device_life_def consumable_device_def)
    moreover have "ss_ID (issued_session issue dv p) \<notin> ss_ID ` set (ad_sessions db)" using issued(11) by (simp add: issued_session_def)
    moreover have "new_hashes used (issued_credential issue)"
      using exchange.hyps(3,4) by (simp add: new_hashes_def issued_credential_def new_credential_def)
    ultimately show ?thesis by (intro progressI) (auto simp: issued(15) intro!: table_step_append)
  qed
next
  case (workload aid issue db r db' used)
  show ?case using workload.hyps(1)
  proof (cases rule: CreateWorkloadCredential_cases)
    case unchanged
    then show ?thesis by (auto intro: progressI)
  next
    case (created p log)
    have "new_hashes used (workload_row issue)" using workload.hyps(4) by (simp add: new_hashes_def workload_row_def new_credential_def)
    moreover have "ss_ID (stored_session (wi_Session issue)) \<notin> ss_ID ` set (ad_sessions db)" using created(4) by (simp add: stored_session_def)
    ultimately show ?thesis by (intro progressI) (auto simp: created(8) intro!: table_step_append)
  qed
next
  case (rotate aid rotation db r db' used)
  show ?case using rotate.hyps(1)
  proof (cases rule: RotateAuthoringCredential_cases)
    case (unchanged e)
    then show ?thesis by (auto intro: progressI)
  next
    case (replayed c s p log)
    then show ?thesis by (intro progressI) (auto simp: revoke_by_id_rows)
  next
    case (rotated c s p log)
    let ?cs = "update_where (replaceable (cr_ID c)) (\<lambda>c. c\<lparr>cr_Active := False, cr_ReplacedAt := cn_Now rotation\<rparr>) (ad_credentials db)"
    have "table_step continues_credential (new_hashes used) (ad_credentials db) ?cs"
      by (rule table_step_update) (auto simp: continues_credential_def)
    moreover have "new_hashes used (rotated_row rotation (cr_SessionID c))"
      using rotate.hyps(3,4) by (simp add: new_hashes_def rotated_row_def new_credential_def)
    moreover have "table_step continues_session (\<lambda>s. ss_ID s \<notin> ss_ID ` set (ad_sessions db)) (ad_sessions db) (ad_sessions db')"
      unfolding rotated(8) by (auto intro!: table_step_update simp: continues_session_def same_session_def)
    ultimately show ?thesis by (intro progressI) (auto simp: rotated(8) intro!: table_step_append)
  qed
next
  case (lookup h now db r db' used)
  show ?case using lookup.hyps(1)
  proof (cases rule: lookup_cases)
    case unchanged
    then show ?thesis by (auto intro: progressI)
  next
    case (touched c s p)
    have "table_step continues_session (\<lambda>s. ss_ID s \<notin> ss_ID ` set (ad_sessions db)) (ad_sessions db) (ad_sessions db')"
      unfolding touched(5) TouchAuthoringSession_def by (auto intro!: table_step_update simp: continues_session_def same_session_def)
    then show ?thesis by (intro progressI) (auto simp: touched(5) TouchAuthoringSession_def)
  qed
next
  case (revoke aid principalID sessionID now db r db' used)
  show ?case using revoke.hyps(1)
  proof (cases rule: RevokeAuthoringSession_cases)
    case unchanged
    then show ?thesis by (auto intro: progressI)
  next
    case (revoked s log)
    then show ?thesis by (intro progressI) (auto simp: revoked(5) revoke_rows)
  qed
next
  case (revoke_token aid h now db r db' used)
  show ?case using revoke_token.hyps(1)
  proof (cases rule: RevokeAuthoringSessionByAccessTokenHash_cases)
    case unchanged
    then show ?thesis by (auto intro: progressI)
  next
    case (revoked c s p log)
    then show ?thesis by (intro progressI) (auto simp: revoke_by_id_rows)
  qed
next
  case (delete restricted i db r db' used)
  then show ?case by (intro progressI)
      (auto simp: DeletePrincipal_def Let_def intro!: table_step_subset split: if_splits)
next
  case (others db' log ps db used)
  then show ?case by (intro progressI) auto
qed

section \<open>Retired secrets\<close>

definition dead_credential :: "auth_db \<Rightarrow> credential_row \<Rightarrow> bool" where
  "dead_credential db c \<longleftrightarrow> \<not> cr_Active c \<or> (\<forall>s\<in>set (ad_sessions db). ss_ID s = cr_SessionID c \<longrightarrow> ss_RevokedAt s \<noteq> 0)"

lemma credential_has_session:
  assumes "auth_ok target (db, used)" "c \<in> set (ad_credentials db)"
  shows "\<exists>s\<in>set (ad_sessions db). ss_ID s = cr_SessionID c \<and> ss_Kind s = (if cr_RefreshTokenHash c = [] then SessionWorkload else SessionHumanCLI)"
proof -
  have "credential_ok (session_kinds (ad_sessions db)) c" using assms by (auto simp: auth_ok_def credentials_ok_def)
  then show ?thesis unfolding credential_ok_def session_kinds_def by fastforce
qed

lemma dead_credentials_step:
  assumes ok: "auth_ok target (db, used)" and pr: "progress (db, used) (db', used')"
    and dead: "\<And>c. c \<in> set (ad_credentials db) \<Longrightarrow> key c = h \<Longrightarrow> dead_credential db c"
    and key: "\<And>c c'. continues_credential c c' \<Longrightarrow> key c' = key c" and new: "\<And>c. new_hashes used c \<Longrightarrow> key c \<noteq> h"
    and c': "c' \<in> set (ad_credentials db')" "key c' = h"
  shows "dead_credential db' c'"
proof -
  obtain c where c: "c \<in> set (ad_credentials db)" "continues_credential c c'"
    using pr c' new unfolding progress_def table_step_def by fast
  then have d: "dead_credential db c" using dead key c'(2) by metis
  show ?thesis
  proof (cases "cr_Active c'")
    case True
    then have alive: "\<forall>s\<in>set (ad_sessions db). ss_ID s = cr_SessionID c \<longrightarrow> ss_RevokedAt s \<noteq> 0"
      using d c(2) by (auto simp: dead_credential_def continues_credential_def)
    have "ss_RevokedAt s' \<noteq> 0" if s': "s' \<in> set (ad_sessions db')" "ss_ID s' = cr_SessionID c'" for s'
    proof -
      have id: "cr_SessionID c' = cr_SessionID c" using c(2) by (simp add: continues_credential_def)
      have "ss_ID s' \<in> ss_ID ` set (ad_sessions db)" using credential_has_session [OF ok c(1)] s'(2) id by (metis imageI)
      then obtain s where "s \<in> set (ad_sessions db)" "continues_session s s'"
        using pr s'(1) unfolding progress_def table_step_def by fast
      then show ?thesis using alive s'(2) id by (auto simp: continues_session_def same_session_def)
    qed
    then show ?thesis by (simp add: dead_credential_def)
  qed (simp add: dead_credential_def)
qed

definition refresh_retired :: "string \<Rightarrow> string \<Rightarrow> auth_state \<Rightarrow> bool" where
  "refresh_retired target h st \<longleftrightarrow> auth_ok target st \<and> h \<noteq> [] \<and> h \<in> snd st
     \<and> (\<forall>c\<in>set (ad_credentials (fst st)). cr_RefreshTokenHash c = h \<longrightarrow> dead_credential (fst st) c)"

definition refresh_redeem :: "string \<Rightarrow> string \<Rightarrow> auth_state \<Rightarrow> auth_state \<Rightarrow> bool" where
  "refresh_redeem target h st st' \<longleftrightarrow> auth_ok target st \<and> (\<exists>aid rotation credential. cn_RefreshTokenHash rotation = h
     \<and> RotateAuthoringCredential aid rotation (fst st) = (Inr credential, fst st')
     \<and> cn_RefreshTokenHashNew rotation \<noteq> [] \<and> cn_AccessTokenHash rotation \<notin> snd st \<and> cn_RefreshTokenHashNew rotation \<notin> snd st
     \<and> cn_Now rotation \<noteq> 0 \<and> snd st' = {cn_AccessTokenHash rotation, cn_RefreshTokenHashNew rotation} \<union> snd st)"

definition access_retired :: "string \<Rightarrow> string \<Rightarrow> auth_state \<Rightarrow> bool" where
  "access_retired target h st \<longleftrightarrow> auth_ok target st \<and> h \<in> snd st
     \<and> (\<forall>c\<in>set (ad_credentials (fst st)). cr_AccessTokenHash c = h \<longrightarrow> dead_credential (fst st) c)"

definition access_redeem :: "string \<Rightarrow> string \<Rightarrow> auth_state \<Rightarrow> auth_state \<Rightarrow> bool" where
  "access_redeem target h st st' \<longleftrightarrow> auth_ok target st \<and> snd st' = snd st
     \<and> (\<exists>now credential. AuthoringCredentialByAccessTokenHash h now (fst st) = (Inr credential, fst st'))"

definition device_retired :: "string \<Rightarrow> string \<Rightarrow> auth_state \<Rightarrow> bool" where
  "device_retired target h st \<longleftrightarrow> auth_ok target st \<and> h \<in> snd st
     \<and> (\<forall>d\<in>set (ad_devices (fst st)). dr_DeviceCodeHash d = h \<longrightarrow> dr_Status d = DeviceDenied \<or> dr_Status d = DeviceConsumed)"

definition device_redeem :: "string \<Rightarrow> string \<Rightarrow> auth_state \<Rightarrow> auth_state \<Rightarrow> bool" where
  "device_redeem target h st st' \<longleftrightarrow> auth_ok target st \<and> (\<exists>aid issue credential. di_DeviceCodeHash issue = h
     \<and> IssueDeviceCredential aid issue (fst st) = (Inr credential, fst st')
     \<and> di_RefreshTokenHash issue \<noteq> [] \<and> di_AccessTokenHash issue \<notin> snd st \<and> di_RefreshTokenHash issue \<notin> snd st
     \<and> snd st' = {di_AccessTokenHash issue, di_RefreshTokenHash issue} \<union> snd st)"

lemma refresh_hash_unique:
  assumes "auth_ok target (db, used)" "c \<in> set (ad_credentials db)" "c' \<in> set (ad_credentials db)"
    "cr_RefreshTokenHash c' = cr_RefreshTokenHash c" "cr_RefreshTokenHash c \<noteq> []"
  shows "c' = c"
proof -
  have "distinct (map cr_RefreshTokenHash (filter (\<lambda>c. cr_RefreshTokenHash c \<noteq> []) (ad_credentials db)))"
    using assms(1) by (simp add: auth_ok_def credentials_ok_def refresh_hashes_def filter_map o_def)
  then show ?thesis using assms(2-5) by (auto simp: distinct_map inj_on_def)
qed

lemma refresh_result:
  assumes ok: "auth_ok target (db, used)" and r: "RotateAuthoringCredential aid rotation db = (Inr credential, db')"
  obtains c s p log where "c \<in> set (ad_credentials db)" "cr_RefreshTokenHash c = cn_RefreshTokenHash rotation" "cr_RefreshTokenHash c \<noteq> []"
    "cr_Active c" "s \<in> set (ad_sessions db)" "ss_ID s = cr_SessionID c" "ss_RevokedAt s = 0" "cn_Now rotation < cr_RefreshExpiresAt c"
    "acceptable_scope (ss_Scope s)" "ac_Session credential = s\<lparr>ss_Scope := normalized_scope (ss_Scope s), ss_ExpiresAt := cn_RefreshExpiresAt rotation\<rparr>"
    "p \<in> set (ad_principals db)" "pn_ID p = ss_PrincipalID s" "ac_Principal credential = p"
    "ad_credentials db' = update_where (replaceable (cr_ID c))
       (\<lambda>c. c\<lparr>cr_Active := False, cr_ReplacedAt := cn_Now rotation\<rparr>) (ad_credentials db) @ [rotated_row rotation (cr_SessionID c)]"
  using r
proof (cases rule: RotateAuthoringCredential_cases)
  case (rotated c s p log)
  note j = join_credential_Inr [OF rotated(1) [unfolded GetAuthoringCredentialByRefreshHash_def]]
  show ?thesis using j rotated by (intro that [of c s p]) (auto simp: rotated_credential_def)
qed auto

lemma refresh_redeem_retires:
  assumes "refresh_redeem target h st st'"
  shows "refresh_retired target h st'"
proof -
  obtain db used db' where st: "st = (db, used)" "fst st' = db'" by (metis surj_pair)
  obtain aid rotation credential where ok: "auth_ok target (db, used)" and h: "cn_RefreshTokenHash rotation = h"
    and r: "RotateAuthoringCredential aid rotation db = (Inr credential, db')" and ne: "cn_RefreshTokenHashNew rotation \<noteq> []"
    and fresh: "cn_AccessTokenHash rotation \<notin> used" "cn_RefreshTokenHashNew rotation \<notin> used" "cn_Now rotation \<noteq> 0"
    and used': "snd st' = {cn_AccessTokenHash rotation, cn_RefreshTokenHashNew rotation} \<union> used"
    using assms by (auto simp: refresh_redeem_def st)
  have st': "st' = (db', {cn_AccessTokenHash rotation, cn_RefreshTokenHashNew rotation} \<union> used)"
    using st(2) used' by (metis prod.collapse)
  obtain c s where c: "c \<in> set (ad_credentials db)" "cr_RefreshTokenHash c = h" "h \<noteq> []" "cr_Active c"
    "ad_credentials db' = update_where (replaceable (cr_ID c))
       (\<lambda>c. c\<lparr>cr_Active := False, cr_ReplacedAt := cn_Now rotation\<rparr>) (ad_credentials db) @ [rotated_row rotation (cr_SessionID c)]"
    using refresh_result [OF ok r] h by metis
  have hu: "h \<in> used" using ok c(1-3) by (auto simp: auth_ok_def hashes_used_def refresh_hashes_def)
  have "\<not> cr_Active c'" if c': "c' \<in> set (ad_credentials db')" "cr_RefreshTokenHash c' = h" for c'
  proof -
    have "c' \<noteq> rotated_row rotation (cr_SessionID c)" using c'(2) fresh(2) hu by (auto simp: rotated_row_def new_credential_def)
    then have "c' \<in> set (update_where (replaceable (cr_ID c)) (\<lambda>c. c\<lparr>cr_Active := False, cr_ReplacedAt := cn_Now rotation\<rparr>) (ad_credentials db))"
      using c'(1) c(5) by simp
    then obtain c0 where c0: "c0 \<in> set (ad_credentials db)" "c' = (if replaceable (cr_ID c) c0
        then c0\<lparr>cr_Active := False, cr_ReplacedAt := cn_Now rotation\<rparr> else c0)"
      by (auto simp: update_where_def)
    then have "cr_RefreshTokenHash c0 = h" using c'(2) by (auto split: if_splits)
    then have "c0 = c" using refresh_hash_unique [OF ok c(1) c0(1)] c(2,3) by simp
    then show ?thesis using c0(2) c(4) by (simp add: replaceable_def)
  qed
  moreover have "auth_ok target st'" unfolding st' by (rule rotate_ok [OF ok r ne])
  ultimately show ?thesis using hu c(3) by (auto simp: refresh_retired_def dead_credential_def st')
qed

interpretation refresh: single_use "auth_step target" "refresh_retired target" "refresh_redeem target" for target
proof unfold_locales
  fix st st' h
  assume step: "auth_step target st st'" and ret: "refresh_retired target h st"
  obtain db used db' used' where st: "st = (db, used)" "st' = (db', used')" by (metis surj_pair)
  have ok: "auth_ok target (db, used)" and pr: "progress (db, used) (db', used')"
    using ret auth_step_progress [OF step] by (auto simp: refresh_retired_def st)
  have "dead_credential db' c" if "c \<in> set (ad_credentials db')" "cr_RefreshTokenHash c = h" for c
    by (rule dead_credentials_step [OF ok pr, where key = cr_RefreshTokenHash and h = h])
      (use ret that in \<open>auto simp: refresh_retired_def st continues_credential_def new_hashes_def\<close>)
  then show "refresh_retired target h st'" using ret auth_step_ok [OF step] pr by (auto simp: refresh_retired_def st progress_def)
next
  fix st st' h
  assume "refresh_retired target h st"
  then show "\<not> refresh_redeem target h st st'"
    by (cases st) (fastforce simp: refresh_retired_def refresh_redeem_def dead_credential_def elim!: refresh_result)
qed (rule refresh_redeem_retires)

interpretation access: retirable "auth_step target" "access_retired target" "access_redeem target" for target
proof unfold_locales
  fix st st' h
  assume step: "auth_step target st st'" and ret: "access_retired target h st"
  obtain db used db' used' where st: "st = (db, used)" "st' = (db', used')" by (metis surj_pair)
  have ok: "auth_ok target (db, used)" and pr: "progress (db, used) (db', used')"
    using ret auth_step_progress [OF step] by (auto simp: access_retired_def st)
  have "dead_credential db' c" if "c \<in> set (ad_credentials db')" "cr_AccessTokenHash c = h" for c
    by (rule dead_credentials_step [OF ok pr, where key = cr_AccessTokenHash and h = h])
      (use ret that in \<open>auto simp: access_retired_def st continues_credential_def new_hashes_def\<close>)
  then show "access_retired target h st'" using ret auth_step_ok [OF step] pr by (auto simp: access_retired_def st progress_def)
next
  fix st st' h
  assume ret: "access_retired target h st"
  have False if "AuthoringCredentialByAccessTokenHash h now (fst st) = (Inr credential, db')" for now credential db'
    using that
  proof (cases rule: lookup_cases)
    case (touched c s p)
    note j = join_credential_Inr [OF touched(1) [unfolded GetAuthoringCredentialByAccessHash_def]]
    then show False using ret touched(2,3) by (auto simp: access_retired_def dead_credential_def)
  qed simp
  then show "\<not> access_redeem target h st st'" by (auto simp: access_redeem_def)
qed

interpretation device: single_use "auth_step target" "device_retired target" "device_redeem target" for target
proof unfold_locales
  fix st st' h
  assume step: "auth_step target st st'" and ret: "device_retired target h st"
  obtain db used db' used' where st: "st = (db, used)" "st' = (db', used')" by (metis surj_pair)
  have pr: "progress (db, used) (db', used')" using auth_step_progress [OF step] by (simp add: st)
  have "dr_Status d' = DeviceDenied \<or> dr_Status d' = DeviceConsumed"
    if d': "d' \<in> set (ad_devices db')" "dr_DeviceCodeHash d' = h" for d'
  proof -
    have "dr_DeviceCodeHash d' \<in> used" using ret d'(2) by (simp add: device_retired_def st)
    then obtain d where "d \<in> set (ad_devices db)" "continues_device d d'"
      using pr d'(1) unfolding progress_def table_step_def by fast
    then show ?thesis using ret d'(2) by (auto simp: device_retired_def st continues_device_def device_life_def)
  qed
  then show "device_retired target h st'" using ret auth_step_ok [OF step] pr by (auto simp: device_retired_def st progress_def)
next
  fix st st' h
  assume ret: "device_retired target h st"
  have False if "IssueDeviceCredential aid issue (fst st) = (Inr credential, db')" "di_DeviceCodeHash issue = h" for aid issue credential db'
    using that(1)
  proof (cases rule: IssueDeviceCredential_cases)
    case (issued d dv p log)
    then show False using ret that(2) by (auto simp: device_retired_def)
  qed auto
  then show "\<not> device_redeem target h st st'" by (auto simp: device_redeem_def)
next
  fix h st st'
  assume red: "device_redeem target h st st'"
  obtain db used db' where st: "st = (db, used)" "fst st' = db'" by (metis surj_pair)
  obtain aid issue credential where ok: "auth_ok target (db, used)" and h: "di_DeviceCodeHash issue = h"
    and r: "IssueDeviceCredential aid issue db = (Inr credential, db')" and ne: "di_RefreshTokenHash issue \<noteq> []"
    and used': "snd st' = {di_AccessTokenHash issue, di_RefreshTokenHash issue} \<union> used"
    using red by (auto simp: device_redeem_def st)
  have st': "st' = (db', {di_AccessTokenHash issue, di_RefreshTokenHash issue} \<union> used)" using st(2) used' by (metis prod.collapse)
  have ok': "auth_ok target st'" unfolding st' by (rule exchange_ok [OF ok r ne])
  from r show "device_retired target h st'"
  proof (cases rule: IssueDeviceCredential_cases)
    case (issued d dv p log)
    have uniq: "d' = d" if "d' \<in> set (ad_devices db)" "dr_DeviceCodeHash d' = h" for d'
      using ok that issued(1,2) h by (auto simp: auth_ok_def devices_ok_def distinct_map inj_on_def)
    have "consumable_device (dr_ID d) (di_Now issue) d"
      using issued(1,6) ok by (auto simp: consumable_device_def auth_ok_def devices_ok_def distinct_map inj_on_def)
    then have "dr_Status d' = DeviceConsumed" if "d' \<in> set (ad_devices db')" "dr_DeviceCodeHash d' = h" for d'
      using that uniq by (auto simp: issued(15) update_where_def split: if_splits)
    moreover have "h \<in> used" using ok issued(1,2) h by (auto simp: auth_ok_def hashes_used_def)
    ultimately show ?thesis using ok' by (auto simp: device_retired_def st')
  qed auto
qed

end
