(* ===== verification/Authoring_Sample.thy ===== *)
theory Authoring_Sample
  imports Authoring_Secrets
begin

text \<open>
  A run of the authoring service that the witnesses of its properties use: a device authorization is
  started, approved by a user and exchanged for a credential, which is then refreshed.
\<close>

section \<open>A sample run\<close>

definition sample_principal :: principal where
  "sample_principal = \<lparr>pn_ID = ''user_1'', pn_Kind = ''user'', pn_Email = ''dev@example.com'', pn_DisplayName = ''Dev'',
     pn_DisabledAt = [], pn_CreatedAt = [], pn_UpdatedAt = []\<rparr>"

definition sample_authoring_scope :: authoring_scope where
  "sample_authoring_scope = \<lparr>as_TargetID = ''prod'', as_ProjectID = ''finance'', as_Privileges = [''DEPLOY'']\<rparr>"

definition sample_service :: authoring_service where
  "sample_service = \<lparr>aus_instanceID = ''prod'', aus_canonicalOrigin = ''https://x'', aus_deviceTTL = minutes 10,
     aus_pollInterval = 5 * 10 ^ 9, aus_accessTokenTTL = minutes 15, aus_refreshTokenTTL = minutes 60,
     aus_workloadMaxTTL = minutes 60\<rparr>"

definition sample_hash :: "string \<Rightarrow> string" where
  "sample_hash s = CHR ''#'' # s"

definition sample_device :: device_authorization where
  "sample_device = \<lparr>dv_ID = ''da_1'', dv_ClientID = ''leapview-cli'', dv_DeviceCodeHash = sample_hash ''lv_cli_device_1'',
     dv_UserCodeHash = ''u'', dv_Scope = sample_authoring_scope, dv_Status = DevicePending, dv_PrincipalID = [],
     dv_ExpiresAt = minutes 10 + 1, dv_PollInterval = 5 * 10 ^ 9, dv_LastPolledAt = 0, dv_CreatedAt = 1, dv_ApprovedAt = 0,
     dv_DeniedAt = 0, dv_ConsumedAt = 0\<rparr>"

definition sample_issue :: device_credential_issue where
  "sample_issue = \<lparr>di_DeviceCodeHash = sample_hash ''lv_cli_device_1'', di_ClientID = ''leapview-cli'', di_Now = minutes 2,
     di_SessionID = ''as_1'', di_CredentialID = ''ac_1'', di_AccessTokenHash = sample_hash ''lv_cli_access_1'',
     di_RefreshTokenHash = sample_hash ''lv_cli_refresh_1'', di_AccessExpiresAt = minutes 17, di_RefreshExpiresAt = minutes 62\<rparr>"

text \<open>The base64 text of 32 bytes, all the letter a, and of 18 of them; the reads of random bytes give such bytes.\<close>

definition sample_tail :: string where
  "sample_tail = ''YWFhYWFhYWFhYWFhYWFhYWFhYWFhYWFhYWFhYWFhYWE''"

definition sample_rnd :: entropy where
  "sample_rnd k n = Inr (replicate n (CHR ''a''))"

definition sample_rotation :: credential_rotation where
  "sample_rotation = \<lparr>cn_RefreshTokenHash = sample_hash ''lv_cli_refresh_1'', cn_Now = minutes 16, cn_CredentialID = ''ac_YWFhYWFhYWFhYWFhYWFhYWFh'',
     cn_AccessTokenHash = sample_hash (''lv_cli_access_'' @ sample_tail), cn_RefreshTokenHashNew = sample_hash (''lv_cli_refresh_'' @ sample_tail),
     cn_AccessExpiresAt = minutes 31, cn_RefreshExpiresAt = minutes 76\<rparr>"

definition sample_db0 :: auth_db where
  "sample_db0 = \<lparr>ad_principals = [sample_principal], ad_devices = [], ad_sessions = [], ad_credentials = [], ad_audit = []\<rparr>"

definition sample_row :: "device_status \<Rightarrow> string \<Rightarrow> go_time \<Rightarrow> go_time \<Rightarrow> device_row" where
  "sample_row status pid approved consumed = (device_row_of sample_device)
     \<lparr>dr_Status := status, dr_PrincipalID := pid, dr_ApprovedAt := approved, dr_ConsumedAt := consumed\<rparr>"

definition sample_approved :: device_authorization where
  "sample_approved = sample_device\<lparr>dv_Status := DeviceApproved, dv_PrincipalID := ''user_1'', dv_ApprovedAt := minutes 1\<rparr>"

definition sample_db1 :: auth_db where
  "sample_db1 = sample_db0\<lparr>ad_devices := [sample_row DevicePending [] 0 0],
     ad_audit := [(''audit_1'', authoringDeviceAudit ''authoring.device.started'' sample_device [] ''success'')]\<rparr>"

definition sample_db2 :: auth_db where
  "sample_db2 = sample_db1\<lparr>ad_devices := [sample_row DeviceApproved ''user_1'' (minutes 1) 0],
     ad_audit := ad_audit sample_db1
       @ [(''audit_2'', authoringDeviceAudit ''authoring.device.approved'' sample_approved ''user_1'' ''success'')]\<rparr>"

definition sample_session :: authoring_session where
  "sample_session = issued_session sample_issue sample_approved sample_principal"

definition sample_db3 :: auth_db where
  "sample_db3 = sample_db2\<lparr>ad_devices := [sample_row DeviceConsumed ''user_1'' (minutes 1) (minutes 2)],
     ad_sessions := [sample_session], ad_credentials := [issued_credential sample_issue],
     ad_audit := ad_audit sample_db2
       @ [(''audit_3'', authoringSessionAudit ''authoring.session.created'' sample_session ''success'')]\<rparr>"

definition sample_session2 :: authoring_session where
  "sample_session2 = sample_session\<lparr>ss_ExpiresAt := minutes 76\<rparr>"

definition sample_db4 :: auth_db where
  "sample_db4 = sample_db3\<lparr>ad_sessions := [sample_session2],
     ad_credentials := [(issued_credential sample_issue)\<lparr>cr_Active := False, cr_ReplacedAt := minutes 16\<rparr>, rotated_row sample_rotation ''as_1''],
     ad_audit := ad_audit sample_db3
       @ [(''audit_4'', authoringSessionAudit ''authoring.token.refreshed'' sample_session2 ''success'')]\<rparr>"

lemmas sample_defs = sample_principal_def sample_authoring_scope_def sample_service_def sample_device_def sample_issue_def
  sample_rotation_def sample_hash_def sample_row_def sample_approved_def sample_session_def sample_session2_def
  device_row_of_def issued_session_def issued_credential_def new_credential_def rotated_row_def

lemmas sample_dbs = sample_db0_def sample_db1_def sample_db2_def sample_db3_def sample_db4_def

lemma sample_trim: "trim_space ''prod'' = ''prod''" "trim_space ''finance'' = ''finance''" "trim_space ''DEPLOY'' = ''DEPLOY''"
  "trim_space ''user_1'' = ''user_1''" "trim_space ''authoring.device.started'' = ''authoring.device.started''"
  "trim_space ''authoring.device.approved'' = ''authoring.device.approved''"
  "trim_space ''authoring.session.created'' = ''authoring.session.created''"
  "trim_space ''authoring.token.refreshed'' = ''authoring.token.refreshed''"
  by (rule trim_space_visible; simp add: visible_def)+

lemma sample_scope: "acceptable_scope sample_authoring_scope" "normalized_scope sample_authoring_scope = sample_authoring_scope"
  "scope_for ''prod'' sample_authoring_scope"
  by (simp_all add: acceptable_scope_def normalized_scope_def scope_for_def sample_authoring_scope_def sample_trim known_privileges_def
      sort_strings_def)

lemma sample_map_device: "mapDeviceAuthorization (sample_row status pid approved consumed) =
    Inr (sample_device\<lparr>dv_Status := status, dv_PrincipalID := pid, dv_ApprovedAt := approved, dv_ConsumedAt := consumed\<rparr>)"
  using mapAuthoringScope_Inr [of sample_authoring_scope sample_authoring_scope]
  by (simp add: mapDeviceAuthorization_def sample_row_def device_row_of_def sample_device_def sample_scope to_seconds_def wrap_int64_def)

definition sample_used :: "nat \<Rightarrow> string set" where
  "sample_used n = set (take n [sample_hash ''lv_cli_device_1'', sample_hash ''lv_cli_access_1'', sample_hash ''lv_cli_refresh_1'',
     sample_hash (''lv_cli_access_'' @ sample_tail), sample_hash (''lv_cli_refresh_'' @ sample_tail)])"

lemma sample_begin: "CreateDeviceAuthorization (Inr ''audit_1'') sample_device sample_db0 = (Inr (), sample_db1)"
  by (simp add: CreateDeviceAuthorization_def transaction_def device_violates_def audited_def RecordAuditEvent_def
      authoringDeviceAudit_def sample_dbs sample_defs to_seconds_def blank_def sample_trim)

lemma sample_row_fields [simp]:
  "dr_ID (sample_row status pid approved consumed) = ''da_1''" "dr_Status (sample_row status pid approved consumed) = status"
  "dr_DeviceCodeHash (sample_row status pid approved consumed) = sample_hash ''lv_cli_device_1''"
  "dr_ExpiresAt (sample_row status pid approved consumed) = minutes 10 + 1"
  "(sample_row status pid approved consumed)\<lparr>dr_Status := st, dr_PrincipalID := q, dr_ApprovedAt := a\<rparr> = sample_row st q a consumed"
  "(sample_row status pid approved consumed)\<lparr>dr_Status := st, dr_ConsumedAt := c\<rparr> = sample_row st pid approved c"
  by (simp_all add: sample_row_def device_row_of_def sample_device_def)

lemma text_later_minutes: "0 < n \<Longrightarrow> n < m \<Longrightarrow> text_later (minutes m + 1) (minutes n)"
proof -
  assume n: "0 < n" "n < m"
  have "minutes n div 10 ^ 9 = 60 * n" "(minutes m + 1) div 10 ^ 9 = 60 * m" unfolding minutes_def by simp_all
  then show "text_later (minutes m + 1) (minutes n)" using n by (simp add: text_later_def time_text_le_def)
qed

lemma sample_known: "known_id sample_db0 ''user_1''" "known_id sample_db1 ''user_1''" "known_id sample_db2 ''user_1''" "known_id sample_db3 ''user_1''"
  by (simp_all add: known_id_def sample_dbs sample_principal_def)

lemma sample_approve: "ApproveDeviceAuthorization_db (Inr ''audit_2'') ''da_1'' ''user_1'' (minutes 1) sample_db1 = (Inr (), sample_db2)"
proof -
  have ds: "ad_devices sample_db1 = [sample_row DevicePending [] 0 0]" by (simp add: sample_db1_def)
  have "decidable_device ''da_1'' (minutes 1) (sample_row DevicePending [] 0 0)"
    by (simp add: decidable_device_def text_later_minutes)
  then show ?thesis
    by (simp add: ApproveDeviceAuthorization_db_def decide_device_def Let_def transaction_def audited_def RecordAuditEvent_def rows_affected_def
        ds update_where_def get_device_def sample_map_device authoringDeviceAudit_def blank_def sample_trim sample_known)
      (simp add: sample_db2_def sample_db1_def authoringDeviceAudit_def sample_approved_def sample_device_def)
qed

lemma sample_exchange: "IssueDeviceCredential (Inr ''audit_3'') sample_issue sample_db2 =
    (Inr \<lparr>ac_ID = ''ac_1'', ac_Principal = sample_principal, ac_Session = sample_session, ac_AccessExpiresAt = minutes 17,
          ac_RefreshExpiresAt = minutes 62\<rparr>, sample_db3)"
proof -
  have db: "ad_devices sample_db2 = [sample_row DeviceApproved ''user_1'' (minutes 1) 0]" "ad_sessions sample_db2 = []"
    "ad_credentials sample_db2 = []" "GetPrincipal ''user_1'' sample_db2 = Inr sample_principal"
    by (simp_all add: sample_dbs GetPrincipal_def sample_principal_def)
  have c: "consumable_device ''da_1'' (minutes 2) (sample_row DeviceApproved ''user_1'' (minutes 1) 0)"
    by (simp add: consumable_device_def text_later_minutes)
  have rec: "sample_device\<lparr>dv_Status := DeviceApproved, dv_PrincipalID := ''user_1'', dv_ApprovedAt := minutes 1, dv_ConsumedAt := 0\<rparr> = sample_approved"
    by (simp add: sample_approved_def sample_device_def)
  have f: "di_DeviceCodeHash sample_issue = sample_hash ''lv_cli_device_1''" "di_Now sample_issue = minutes 2" "di_ClientID sample_issue = dv_ClientID sample_approved"
    "minutes 2 < dv_ExpiresAt sample_approved" "dv_Status sample_approved = DeviceApproved" "dv_PrincipalID sample_approved = ''user_1''" "dv_ID sample_approved = ''da_1''"
    "di_CredentialID sample_issue = ''ac_1''" "di_AccessExpiresAt sample_issue = minutes 17" "di_RefreshExpiresAt sample_issue = minutes 62"
    by (simp_all add: sample_issue_def sample_approved_def sample_device_def minutes_def)
  have s: "ss_PrincipalID sample_session = ''user_1''" "sample_session\<lparr>ss_LastUsedAt := 0, ss_RevokedAt := 0\<rparr> = sample_session"
    by (simp_all add: sample_session_def issued_session_def sample_principal_def)
  let ?db = "sample_db2\<lparr>ad_devices := [sample_row DeviceConsumed ''user_1'' (minutes 1) (minutes 2)], ad_sessions := [sample_session]\<rparr>"
  have s1: "createAuthoringSession sample_session (sample_db2\<lparr>ad_devices := ds\<rparr>) = Inr (sample_db2\<lparr>ad_devices := ds, ad_sessions := [sample_session]\<rparr>)" for ds
    by (simp add: createAuthoringSession_def db s sample_known)
  have nv: "\<not> credential_violates (issued_credential sample_issue) ?db"
    by (simp add: credential_violates_def db sample_session_def issued_session_def issued_credential_def new_credential_def sample_issue_def minutes_def sample_hash_def)
  have c1: "createAuthoringCredential ''ac_1'' (ss_ID sample_session) (di_AccessTokenHash sample_issue) (di_RefreshTokenHash sample_issue)
      (minutes 17) (minutes 62) (minutes 2) ?db = Inr (?db\<lparr>ad_credentials := [issued_credential sample_issue]\<rparr>)"
  proof -
    have n: "new_credential ''ac_1'' (ss_ID sample_session) (di_AccessTokenHash sample_issue) (di_RefreshTokenHash sample_issue)
        (minutes 17) (minutes 62) (minutes 2) = issued_credential sample_issue"
      by (simp add: issued_credential_def sample_session_def issued_session_def sample_issue_def)
    show ?thesis using nv by (simp add: createAuthoringCredential_def n db)
  qed
  have a1: "audited (Inr ''audit_3'') (authoringSessionAudit ''authoring.session.created'' sample_session ''success'') res
      (?db\<lparr>ad_credentials := [issued_credential sample_issue]\<rparr>) = Inr (res, sample_db3)" for res :: "auth_error + authoring_credential"
    by (subst audited_fresh) (simp_all add: authoringSessionAudit_def blank_def sample_trim s sample_known sample_db1_def sample_db2_def sample_db3_def)
  have "issue_approved (Inr ''audit_3'') sample_issue sample_approved sample_db2 =
    Inr (Inr \<lparr>ac_ID = ''ac_1'', ac_Principal = sample_principal, ac_Session = sample_session, ac_AccessExpiresAt = minutes 17,
          ac_RefreshExpiresAt = minutes 62\<rparr>, sample_db3)"
    using c by (simp add: issue_approved_def Let_def f db rows_affected_def ConsumeDeviceAuthorization_def update_where_def
        sample_session_def [symmetric] s1 c1 a1) (simp add: sample_principal_def)
  then show ?thesis
    by (simp add: IssueDeviceCredential_def transaction_def get_device_def db f sample_map_device rec)
qed

lemma sample_rotate: "RotateAuthoringCredential (Inr ''audit_4'') sample_rotation sample_db3 =
    (Inr \<lparr>ac_ID = cn_CredentialID sample_rotation, ac_Principal = sample_principal, ac_Session = sample_session2,
          ac_AccessExpiresAt = minutes 31, ac_RefreshExpiresAt = minutes 76\<rparr>, sample_db4)"
proof -
  have p: "GetPrincipal ''user_1'' sample_db3 = Inr sample_principal" by (simp add: GetPrincipal_def sample_dbs sample_principal_def)
  have f: "ad_sessions sample_db3 = [sample_session]" "ad_credentials sample_db3 = [issued_credential sample_issue]"
    by (simp_all add: sample_db3_def)
  have v: "cr_RefreshTokenHash (issued_credential sample_issue) = cn_RefreshTokenHash sample_rotation" "cn_RefreshTokenHash sample_rotation \<noteq> []"
    "cr_SessionID (issued_credential sample_issue) = ss_ID sample_session" "ss_PrincipalID sample_session = ''user_1''"
    "cr_Active (issued_credential sample_issue)" "cr_RefreshExpiresAt (issued_credential sample_issue) = minutes 62"
    "cn_Now sample_rotation = minutes 16" "minutes 16 < minutes 62" "minutes 62 \<noteq> 0" "ss_RevokedAt sample_session = 0" "ss_ID sample_session = ''as_1''"
    "cr_ID (issued_credential sample_issue) = ''ac_1''" "cn_RefreshExpiresAt sample_rotation = minutes 76" "cr_CreatedAt (issued_credential sample_issue) = minutes 2"
    by (simp_all add: issued_credential_def new_credential_def sample_issue_def sample_rotation_def sample_session_def issued_session_def minutes_def sample_principal_def sample_hash_def)
  have g: "GetAuthoringCredentialByRefreshHash (cn_RefreshTokenHash sample_rotation) sample_db3 = Inr (issued_credential sample_issue, sample_session, sample_principal)"
    by (simp add: GetAuthoringCredentialByRefreshHash_def join_credential_def f v p)
  let ?db = "sample_db3\<lparr>ad_credentials := [(issued_credential sample_issue)\<lparr>cr_Active := False, cr_ReplacedAt := minutes 16\<rparr>], ad_sessions := [sample_session2]\<rparr>"
  have u: "UpdateAuthoringSessionExpiry ''as_1'' (minutes 76) (ReplaceAuthoringCredential ''ac_1'' (minutes 16) sample_db3) = ?db"
    by (simp add: UpdateAuthoringSessionExpiry_def ReplaceAuthoringCredential_def update_where_def replaceable_def f v sample_session2_def)
  have nv: "\<not> credential_violates (rotated_row sample_rotation ''as_1'') ?db"
    by (simp add: credential_violates_def rotated_row_def new_credential_def sample_rotation_def sample_tail_def issued_credential_def sample_issue_def
        sample_hash_def sample_session2_def sample_session_def issued_session_def minutes_def)
  have sc: "ss_Scope sample_session = sample_authoring_scope" by (simp add: sample_session_def issued_session_def sample_approved_def sample_device_def)
  have "mapAuthoringScope sample_authoring_scope = Inr sample_authoring_scope" by (simp add: mapAuthoringScope_Inr sample_scope)
  moreover have "sample_session\<lparr>ss_Scope := sample_authoring_scope\<rparr> = sample_session" by (simp add: sc [symmetric])
  ultimately obtain ac where m: "mapCredential (issued_credential sample_issue, sample_session, sample_principal) = Inr ac"
      "ac_Session ac = sample_session" "ac_Principal ac = sample_principal"
    by (simp add: mapCredential_def sc)
  have "rotated_credential sample_rotation ac = \<lparr>ac_ID = cn_CredentialID sample_rotation, ac_Principal = sample_principal,
      ac_Session = sample_session2, ac_AccessExpiresAt = minutes 31, ac_RefreshExpiresAt = minutes 76\<rparr>"
    by (simp add: rotated_credential_def m(2) sample_session2_def v m(3)) (simp add: sample_rotation_def m(3))
  note rs = this
  have a1: "audited (Inr ''audit_4'') (authoringSessionAudit ''authoring.token.refreshed'' sample_session2 ''success'') res
      (?db\<lparr>ad_credentials := ad_credentials ?db @ [rotated_row sample_rotation ''as_1'']\<rparr>) = Inr (res, sample_db4)"
    for res :: "auth_error + authoring_credential"
    by (subst audited_fresh) (simp_all add: authoringSessionAudit_def blank_def sample_trim v sample_session2_def sample_known sample_db1_def sample_db2_def sample_db3_def sample_db4_def)
  have n: "new_credential (cn_CredentialID sample_rotation) ''as_1'' (cn_AccessTokenHash sample_rotation) (cn_RefreshTokenHashNew sample_rotation)
      (cn_AccessExpiresAt sample_rotation) (minutes 76) (minutes 16) = rotated_row sample_rotation ''as_1''"
    by (simp add: rotated_row_def v)
  show ?thesis
    unfolding RotateAuthoringCredential_def transaction_def g
    using nv a1
    by (simp add: v Let_def rows_affected_def f replaceable_def u createAuthoringCredential_def n m rs)
qed

lemma sample_runs_reachable:
  "auth_reachable ''prod'' (sample_db2, sample_used 1)" "auth_reachable ''prod'' (sample_db3, sample_used 3)"
  "auth_reachable ''prod'' (sample_db4, sample_used 5)" "auth_step ''prod'' (sample_db3, sample_used 3) (sample_db4, sample_used 5)"
proof -
  have "auth_step ''prod'' (sample_db0, {}) (sample_db1, insert (dv_DeviceCodeHash sample_device) {})"
    by (rule auth_step.begin_device [OF sample_begin]) (simp_all add: sample_device_def sample_scope)
  moreover have "auth_step ''prod'' (sample_db1, sample_used 1) (sample_db2, sample_used 1)"
    using auth_step.approve [of "Inr ''audit_2''" "''da_1''" sample_principal "minutes 1" sample_db1 "Inr ()" sample_db2]
    by (simp add: sample_approve validHumanAuthoringPrincipal_def sample_principal_def blank_def sample_trim)
  moreover have "auth_step ''prod'' (sample_db2, sample_used 1)
      (sample_db3, {di_AccessTokenHash sample_issue, di_RefreshTokenHash sample_issue} \<union> sample_used 1)"
    by (rule auth_step.exchange [OF sample_exchange]) (simp_all add: sample_issue_def sample_used_def sample_hash_def)
  moreover have "auth_step ''prod'' (sample_db3, sample_used 3)
      (sample_db4, {cn_AccessTokenHash sample_rotation, cn_RefreshTokenHashNew sample_rotation} \<union> sample_used 3)"
    by (rule auth_step.rotate [OF sample_rotate]) (simp_all add: sample_rotation_def sample_tail_def sample_used_def sample_hash_def minutes_def)
  moreover have "insert (dv_DeviceCodeHash sample_device) {} = sample_used 1"
    "{di_AccessTokenHash sample_issue, di_RefreshTokenHash sample_issue} \<union> sample_used 1 = sample_used 3"
    "{cn_AccessTokenHash sample_rotation, cn_RefreshTokenHashNew sample_rotation} \<union> sample_used 3 = sample_used 5"
    by (auto simp: sample_used_def sample_device_def sample_issue_def sample_rotation_def)
  ultimately have "(auth_step ''prod'')\<^sup>*\<^sup>* (sample_db0, {}) (sample_db2, sample_used 1)"
    and s: "auth_step ''prod'' (sample_db2, sample_used 1) (sample_db3, sample_used 3)"
      "auth_step ''prod'' (sample_db3, sample_used 3) (sample_db4, sample_used 5)"
    by (auto intro: rtranclp.intros)
  then have r: "auth_reachable ''prod'' (sample_db2, sample_used 1)" unfolding auth_reachable_def sample_db0_def by blast
  moreover have "auth_step target st st' \<Longrightarrow> auth_reachable target st \<Longrightarrow> auth_reachable target st'" for target st st'
    unfolding auth_reachable_def by (meson rtranclp.rtrancl_into_rtrancl)
  ultimately show "auth_reachable ''prod'' (sample_db2, sample_used 1)" "auth_reachable ''prod'' (sample_db3, sample_used 3)"
    "auth_reachable ''prod'' (sample_db4, sample_used 5)" "auth_step ''prod'' (sample_db3, sample_used 3) (sample_db4, sample_used 5)"
    using s by blast+
qed

lemma sample_random: "randomSecret pre (sample_rnd k 32) = Inr (pre @ sample_tail)"
  "randomSecret pre (sample_rnd k 18) = Inr (pre @ ''YWFhYWFhYWFhYWFhYWFhYWFh'')"
proof -
  have "base64_raw_url (byte_values (replicate 32 (CHR ''a''))) = sample_tail"
    "base64_raw_url (byte_values (replicate 18 (CHR ''a''))) = ''YWFhYWFhYWFhYWFhYWFhYWFh''" by code_simp+
  then show "randomSecret pre (sample_rnd k 32) = Inr (pre @ sample_tail)"
    "randomSecret pre (sample_rnd k 18) = Inr (pre @ ''YWFhYWFhYWFhYWFhYWFhYWFh'')" by (simp_all add: randomSecret_def sample_rnd_def)
qed

end
