(* ===== verification/Authoring_Theorems.thy ===== *)
theory Authoring_Theorems
  imports Authoring_Sample Go_Time
begin

text \<open>
  The properties of the authoring service: what the rows of the authoring tables attest in every
  reachable state, what an accepted access token rests on, that a refresh token is redeemed once and
  its replay ends the session, and that the device flow leads to a token that works. The last
  section has the lemmas behind two divergences of the code from its purpose.
\<close>

section \<open>What an accepted token rests on\<close>

lemma Resolve_result:
  assumes "Resolve hash now token db = (Inr credential, db')"
  obtains c s p where "c \<in> set (ad_credentials db)" "cr_AccessTokenHash c = hash token" "cr_Active c"
    "s \<in> set (ad_sessions db)" "ss_ID s = cr_SessionID c" "ss_RevokedAt s = 0"
    "p \<in> set (ad_principals db)" "pn_ID p = ss_PrincipalID s" "pn_DisabledAt p = []"
    "now < cr_AccessExpiresAt c" "ss_ExpiresAt s = 0 \<or> now < ss_ExpiresAt s"
    "ac_Principal credential = p" "ss_Scope (ac_Session credential) = normalized_scope (ss_Scope s)" "acceptable_scope (ss_Scope s)"
proof -
  obtain credential' where l: "AuthoringCredentialByAccessTokenHash (hash token) now db = (Inr credential', db')"
    and c: "credential = credential'" "pn_DisabledAt (ac_Principal credential) = []" "now < ac_AccessExpiresAt credential"
      "ss_ExpiresAt (ac_Session credential) = 0 \<or> now < ss_ExpiresAt (ac_Session credential)"
    using assms by (auto simp: Resolve_def split: if_splits prod.splits sum.splits)
  from l show thesis
  proof (cases rule: lookup_cases)
    case (touched c s p)
    note j = join_credential_Inr [OF touched(1) [unfolded GetAuthoringCredentialByAccessHash_def]]
    show ?thesis using j touched c by (intro that [of c s p]) auto
  qed auto
qed

lemma access_hash_unique:
  "auth_ok target (db, used) \<Longrightarrow> c \<in> set (ad_credentials db) \<Longrightarrow> c' \<in> set (ad_credentials db)
    \<Longrightarrow> cr_AccessTokenHash c' = cr_AccessTokenHash c \<Longrightarrow> c' = c"
  by (auto simp: auth_ok_def credentials_ok_def distinct_map inj_on_def)

lemma join_found:
  assumes ok: "auth_ok target (db, used)" and c: "c \<in> set (ad_credentials db)" "P c" and uniq: "\<And>x. x \<in> set (ad_credentials db) \<Longrightarrow> P x \<Longrightarrow> x = c"
  obtains s p where "join_credential P db = Inr (c, s, p)" "s \<in> set (ad_sessions db)" "ss_ID s = cr_SessionID c" "acceptable_scope (ss_Scope s)"
    "known_id db (ss_PrincipalID s)" "GetPrincipal (ss_PrincipalID s) db = Inr p"
proof -
  have f: "find P (ad_credentials db) = Some c"
  proof (cases "find P (ad_credentials db)")
    case None
    then show ?thesis using c by (auto simp: find_None_iff)
  next
    case (Some x)
    then have "x \<in> set (ad_credentials db)" "P x" by (auto simp: find_Some_iff)
    then show ?thesis using Some uniq by simp
  qed
  obtain s where s: "s \<in> set (ad_sessions db)" "ss_ID s = cr_SessionID c" using credential_has_session [OF ok c(1)] by blast
  then have fs: "find (\<lambda>s. ss_ID s = cr_SessionID c) (ad_sessions db) = Some s"
    using find_key [of ss_ID "ad_sessions db" s] ok by (simp add: auth_ok_def sessions_ok_def)
  have k: "known_id db (ss_PrincipalID s)" and sc: "acceptable_scope (ss_Scope s)"
    using ok s(1) by (auto simp: auth_ok_def references_ok_def sessions_ok_def session_ok_def scope_for_def)
  then obtain p where "GetPrincipal (ss_PrincipalID s) db = Inr p"
    by (cases "find (\<lambda>p. pn_ID p = ss_PrincipalID s) (ad_principals db)") (auto simp: GetPrincipal_def known_id_def find_None_iff)
  then show thesis using that [of s p] s sc k by (simp add: join_credential_def f fs)
qed

lemma Resolve_accepts:
  assumes ok: "auth_ok target (db, used)" and c: "c \<in> set (ad_credentials db)" "cr_AccessTokenHash c = hash token" "cr_Active c"
    and s: "s \<in> set (ad_sessions db)" "ss_ID s = cr_SessionID c" "ss_RevokedAt s = 0" "GetPrincipal (ss_PrincipalID s) db = Inr p"
    and live: "pn_DisabledAt p = []" "now < cr_AccessExpiresAt c" "now < ss_ExpiresAt s" "access_token_form token"
  shows "\<exists>credential db'. Resolve hash now token db = (Inr credential, db') \<and> ss_Scope (ac_Session credential) = normalized_scope (ss_Scope s)"
proof -
  let ?P = "\<lambda>c. cr_AccessTokenHash c = hash token"
  obtain s' p' where j: "join_credential ?P db = Inr (c, s', p')" "s' \<in> set (ad_sessions db)" "ss_ID s' = cr_SessionID c"
    "acceptable_scope (ss_Scope s')" "GetPrincipal (ss_PrincipalID s') db = Inr p'"
  proof (rule join_found [where P = ?P, OF ok c(1)])
    show "x = c" if "x \<in> set (ad_credentials db)" "?P x" for x using access_hash_unique [OF ok c(1) that(1)] that(2) c(2) by simp
  qed (use c(2) in auto)
  have "s' = s" using ok j(2,3) s(1,2) by (auto simp: auth_ok_def sessions_ok_def distinct_map inj_on_def)
  moreover from this have "p' = p" using j(5) s(4) by simp
  ultimately have "GetAuthoringCredentialByAccessHash (hash token) db = Inr (c, s, p)" using j(1) by (simp add: GetAuthoringCredentialByAccessHash_def)
  moreover have "mapAuthoringScope (ss_Scope s) = Inr (normalized_scope (ss_Scope s))" using j(4) \<open>s' = s\<close> by (simp add: mapAuthoringScope_Inr)
  ultimately show ?thesis using c(3) s(3) live
    by (simp add: Resolve_def AuthoringCredentialByAccessTokenHash_def mapCredential_def)
qed

text \<open>The authorization that a human session stems from.\<close>

definition consent :: "auth_db \<Rightarrow> authoring_session \<Rightarrow> device_row \<Rightarrow> bool" where
  "consent db s d \<longleftrightarrow> d \<in> set (ad_devices db) \<and> dr_Status d = DeviceConsumed \<and> dr_PrincipalID d = ss_PrincipalID s
     \<and> dr_ClientID d = ss_ClientID s \<and> normalized_scope (dr_Scope d) = ss_Scope s \<and> dr_ConsumedAt d = ss_CreatedAt s
     \<and> text_later (dr_ExpiresAt d) (dr_ApprovedAt d) \<and> dr_ConsumedAt d < dr_ExpiresAt d"

lemma human_session_consent:
  assumes ok: "auth_ok target (db, used)" and s: "s \<in> set (ad_sessions db)" "ss_Kind s = SessionHumanCLI"
  shows "\<exists>d. consent db s d"
proof -
  have "session_origin s \<in># mset (map session_origin (human_sessions (ad_sessions db)))" using s by (auto simp: human_sessions_def)
  then have "session_origin s \<in># mset (map device_origin (consumed_devices (ad_devices db)))"
    using ok by (simp only: auth_ok_def origins_match_def prod.case)
  then obtain d where d: "d \<in> set (ad_devices db)" "dr_Status d = DeviceConsumed" "device_origin d = session_origin s"
    by (auto simp: consumed_devices_def)
  then have "device_ok target d" using ok by (auto simp: auth_ok_def devices_ok_def)
  then show ?thesis using d by (auto simp: consent_def device_ok_def device_origin_def session_origin_def)
qed

text \<open>C2. An access token that the service accepts for an action belongs to an active, unexpired
  credential of an unrevoked session, of a principal that is not disabled, whose scope names this
  instance, the project and the action; and a human session stems from a device authorization of the
  same principal, client and scope that was approved and exchanged before it expired.\<close>

theorem authenticated_rests_on_consent:
  assumes "auth_reachable target (db, used)"
    and "Authenticate hash now token targetID projectID privilege db = (Inr credential, db')"
  shows "\<exists>c\<in>set (ad_credentials db). \<exists>s\<in>set (ad_sessions db). \<exists>p\<in>set (ad_principals db).
      cr_AccessTokenHash c = hash token \<and> cr_Active c \<and> now < cr_AccessExpiresAt c
      \<and> ss_ID s = cr_SessionID c \<and> ss_RevokedAt s = 0 \<and> (ss_ExpiresAt s = 0 \<or> now < ss_ExpiresAt s)
      \<and> ac_Principal credential = p \<and> pn_ID p = ss_PrincipalID s \<and> pn_DisabledAt p = []
      \<and> trim_space targetID = target \<and> trim_space projectID = trim_space (as_ProjectID (ss_Scope s))
      \<and> privilege \<in> trim_space ` set (as_Privileges (ss_Scope s))
      \<and> (ss_Kind s = SessionHumanCLI \<longrightarrow> (\<exists>d. consent db s d \<and> privilege \<in> trim_space ` set (as_Privileges (dr_Scope d))))"
proof -
  have ok: "auth_ok target (db, used)" using auth_reachable_ok [OF assms(1)] .
  have r: "Resolve hash now token db = (Inr credential, db')"
    and a: "Authorize_scope (ss_Scope (ac_Session credential)) targetID projectID privilege = Inr ()"
    using assms(2) by (auto simp: Authenticate_def split: prod.splits sum.splits)
  from r obtain c s p where csp: "c \<in> set (ad_credentials db)" "cr_AccessTokenHash c = hash token" "cr_Active c"
    "s \<in> set (ad_sessions db)" "ss_ID s = cr_SessionID c" "ss_RevokedAt s = 0"
    "p \<in> set (ad_principals db)" "pn_ID p = ss_PrincipalID s" "pn_DisabledAt p = []"
    "now < cr_AccessExpiresAt c" "ss_ExpiresAt s = 0 \<or> now < ss_ExpiresAt s"
    "ac_Principal credential = p" "ss_Scope (ac_Session credential) = normalized_scope (ss_Scope s)"
    by (rule Resolve_result)
  have "session_ok target s" using ok csp(4) by (auto simp: auth_ok_def sessions_ok_def)
  then have target: "trim_space (as_TargetID (ss_Scope s)) = target" by (simp add: session_ok_def scope_for_def)
  have scope: "trim_space targetID = target" "trim_space projectID = trim_space (as_ProjectID (ss_Scope s))"
    "privilege \<in> trim_space ` set (as_Privileges (ss_Scope s))"
    using a target by (auto simp: csp(13) Authorize_scope_Inr normalized_scope_def sort_strings_props)
  have "privilege \<in> trim_space ` set (as_Privileges (dr_Scope d))" if "consent db s d" for d
  proof -
    have "as_Privileges (ss_Scope s) = sort_strings (map trim_space (as_Privileges (dr_Scope d)))"
      using that by (auto simp: consent_def normalized_scope_def dest: sym)
    then show ?thesis using scope(3) by (auto simp: sort_strings_props)
  qed
  then show ?thesis using csp scope human_session_consent [OF ok csp(4)] by blast
qed

lemma sample_authenticates:
  "\<exists>credential db'. Authenticate sample_hash (minutes 3) ''lv_cli_access_1'' ''prod'' ''finance'' ''DEPLOY'' sample_db3 = (Inr credential, db')"
proof -
  have f: "ad_credentials sample_db3 = [issued_credential sample_issue]" "ad_sessions sample_db3 = [sample_session]"
    "GetPrincipal ''user_1'' sample_db3 = Inr sample_principal"
    by (simp_all add: sample_db3_def sample_db2_def sample_db1_def sample_db0_def GetPrincipal_def sample_principal_def)
  have "ss_Scope sample_session = sample_authoring_scope" by (simp add: sample_session_def issued_session_def sample_approved_def sample_device_def)
  moreover have "\<exists>credential db'. Resolve sample_hash (minutes 3) ''lv_cli_access_1'' sample_db3 = (Inr credential, db')
      \<and> ss_Scope (ac_Session credential) = normalized_scope (ss_Scope sample_session)"
    by (rule Resolve_accepts [OF auth_reachable_ok [OF sample_runs_reachable(2)], of "issued_credential sample_issue" _ _ _ sample_principal])
      (simp_all add: f issued_credential_def new_credential_def sample_issue_def sample_session_def issued_session_def sample_principal_def
        GetPrincipal_def sample_dbs minutes_def access_token_form_def has_prefix_def)
  moreover have "Authorize_scope sample_authoring_scope ''prod'' ''finance'' ''DEPLOY'' = Inr ()"
    by (simp add: Authorize_scope_def sample_authoring_scope_def sample_trim)
  ultimately show ?thesis by (auto simp: Authenticate_def sample_scope)
qed

theorem authenticated_rests_on_consent_witness:
  "\<exists>s\<in>set (ad_sessions sample_db3). \<exists>d. ss_Kind s = SessionHumanCLI \<and> consent sample_db3 s d
     \<and> ''DEPLOY'' \<in> trim_space ` set (as_Privileges (dr_Scope d))"
proof -
  obtain credential db' where "Authenticate sample_hash (minutes 3) ''lv_cli_access_1'' ''prod'' ''finance'' ''DEPLOY'' sample_db3 = (Inr credential, db')"
    using sample_authenticates by blast
  moreover have "ss_Kind s = SessionHumanCLI" if "s \<in> set (ad_sessions sample_db3)" for s
    using that by (simp add: sample_db3_def sample_session_def issued_session_def)
  ultimately show ?thesis using authenticated_rests_on_consent [OF sample_runs_reachable(2)] by blast
qed

section \<open>Sessions and device authorizations\<close>

text \<open>C39. In every reachable state the human sessions correspond one to one to the device
  authorizations that were exchanged, with the same client, principal, scope and time; every device
  authorization carries the evidence of its status; and a session has at most one active credential,
  which can be refreshed exactly if the session is a human one.\<close>

theorem sessions_match_authorizations:
  assumes "auth_reachable target (db, used)"
  shows "mset (map device_origin (consumed_devices (ad_devices db))) = mset (map session_origin (human_sessions (ad_sessions db)))
    \<and> (\<forall>d\<in>set (ad_devices db). device_ok target d)
    \<and> distinct (active_sessions (ad_credentials db))
    \<and> (\<forall>c\<in>set (ad_credentials db). \<exists>s\<in>set (ad_sessions db). ss_ID s = cr_SessionID c
        \<and> ss_Kind s = (if cr_RefreshTokenHash c = [] then SessionWorkload else SessionHumanCLI))"
proof -
  have ok: "auth_ok target (db, used)" using auth_reachable_ok [OF assms] .
  then show ?thesis using credential_has_session [OF ok]
    by (simp only: auth_ok_def prod.case origins_match_def devices_ok_def credentials_ok_def) blast
qed

theorem sessions_match_authorizations_witness:
  "\<exists>s\<in>set (ad_sessions sample_db3). ss_ID s = ''as_1'' \<and> ss_Kind s = SessionHumanCLI"
proof -
  have "ad_credentials sample_db3 = [issued_credential sample_issue]" by (simp add: sample_db3_def)
  moreover have "cr_SessionID (issued_credential sample_issue) = ''as_1''" "cr_RefreshTokenHash (issued_credential sample_issue) \<noteq> []"
    by (simp_all add: issued_credential_def new_credential_def sample_issue_def sample_hash_def)
  ultimately show ?thesis using sessions_match_authorizations [OF sample_runs_reachable(2)] by auto
qed

section \<open>Refresh tokens\<close>

lemma Refresh_token_rotates:
  assumes "Refresh_token sv hash rnd aid now token db = (Inr ts, db')"
  obtains rotation credential where "RotateAuthoringCredential aid rotation db = (Inr credential, db')"
    "cn_RefreshTokenHash rotation = hash token" "cn_Now rotation = now" "cn_AccessTokenHash rotation = hash (ts_AccessToken ts)"
    "cn_RefreshTokenHashNew rotation = hash (ts_RefreshToken ts)"
  using assms by (fastforce simp: Refresh_token_def tokenSet_def split: if_splits sum.splits prod.splits)

lemma refresh_retired_refused:
  assumes "refresh_retired target (hash token) (db, used)"
  shows "\<exists>e. fst (Refresh_token sv hash rnd aid now token db) = Inl e"
proof (cases "fst (Refresh_token sv hash rnd aid now token db)")
  case (Inr ts)
  then obtain db' where "Refresh_token sv hash rnd aid now token db = (Inr ts, db')" by (metis surj_pair fst_conv)
  then obtain rotation credential where r: "RotateAuthoringCredential aid rotation db = (Inr credential, db')"
    "cn_RefreshTokenHash rotation = hash token"
    by (rule Refresh_token_rotates)
  have "auth_ok target (db, used)" using assms by (simp add: refresh_retired_def)
  from this r(1) show ?thesis by (rule refresh_result) (use assms r(2) in \<open>auto simp: refresh_retired_def dead_credential_def\<close>)
qed blast

text \<open>C38. A refresh token is redeemed at most once: after it has been exchanged for new tokens it is
  refused in every later state.\<close>

theorem refresh_token_redeemed_once:
  assumes "auth_reachable target (db, used)" and "Refresh_token sv hash rnd aid now token db = (Inr ts, db1)"
    and "hash (ts_AccessToken ts) \<notin> used" "hash (ts_RefreshToken ts) \<notin> used" "hash (ts_RefreshToken ts) \<noteq> []" "now \<noteq> 0"
    and "(auth_step target)\<^sup>*\<^sup>* (db1, {hash (ts_AccessToken ts), hash (ts_RefreshToken ts)} \<union> used) (db2, used2)"
  shows "\<exists>e. fst (Refresh_token sv' hash rnd' aid' now2 token db2) = Inl e"
proof -
  obtain rotation credential where "RotateAuthoringCredential aid rotation db = (Inr credential, db1)"
    "cn_RefreshTokenHash rotation = hash token" "cn_Now rotation = now" "cn_AccessTokenHash rotation = hash (ts_AccessToken ts)"
    "cn_RefreshTokenHashNew rotation = hash (ts_RefreshToken ts)"
    using assms(2) by (rule Refresh_token_rotates)
  then have "refresh_redeem target (hash token) (db, used) (db1, {hash (ts_AccessToken ts), hash (ts_RefreshToken ts)} \<union> used)"
    using auth_reachable_ok [OF assms(1)] assms(3-6) unfolding refresh_redeem_def fst_conv snd_conv by metis
  then show ?thesis using refresh.retired_steps [OF assms(7)] refresh.redeem_retires refresh_retired_refused by blast
qed

lemma sample_refresh: "\<exists>ts. Refresh_token sample_service sample_hash sample_rnd (Inr ''audit_4'') (minutes 16) ''lv_cli_refresh_1'' sample_db3
    = (Inr ts, sample_db4) \<and> ts_AccessToken ts = ''lv_cli_access_'' @ sample_tail \<and> ts_RefreshToken ts = ''lv_cli_refresh_'' @ sample_tail"
proof -
  have "sample_rotation = \<lparr>cn_RefreshTokenHash = sample_hash ''lv_cli_refresh_1'', cn_Now = minutes 16,
      cn_CredentialID = ''ac_'' @ ''YWFhYWFhYWFhYWFhYWFhYWFh'', cn_AccessTokenHash = sample_hash (''lv_cli_access_'' @ sample_tail),
      cn_RefreshTokenHashNew = sample_hash (''lv_cli_refresh_'' @ sample_tail),
      cn_AccessExpiresAt = minutes 16 + aus_accessTokenTTL sample_service, cn_RefreshExpiresAt = minutes 16 + aus_refreshTokenTTL sample_service\<rparr>"
    by (simp add: sample_rotation_def sample_service_def minutes_def)
  note rot = sample_rotate [unfolded this]
  have "ss_Scope sample_session2 = sample_authoring_scope" "ss_ID sample_session2 = ''as_1''" "ss_Kind sample_session2 = SessionHumanCLI"
    by (simp_all add: sample_session2_def sample_session_def issued_session_def sample_approved_def sample_device_def sample_issue_def)
  moreover have "pn_ID sample_principal \<noteq> []" "as_TargetID sample_authoring_scope = aus_instanceID sample_service"
    by (simp_all add: sample_principal_def sample_authoring_scope_def sample_service_def)
  moreover have "has_prefix ''lv_cli_refresh_1'' ''lv_cli_refresh_''" by (simp add: has_prefix_def)
  ultimately show ?thesis using rot
    by (simp add: Refresh_token_def sample_random validateIssuedCredential_def Let_def tokenSet_def)
qed

theorem refresh_token_redeemed_once_witness:
  "\<exists>e. fst (Refresh_token sample_service sample_hash sample_rnd (Inr ''audit_5'') (minutes 17) ''lv_cli_refresh_1'' sample_db4) = Inl e"
proof -
  obtain ts where ts: "Refresh_token sample_service sample_hash sample_rnd (Inr ''audit_4'') (minutes 16) ''lv_cli_refresh_1'' sample_db3
      = (Inr ts, sample_db4)" "ts_AccessToken ts = ''lv_cli_access_'' @ sample_tail" "ts_RefreshToken ts = ''lv_cli_refresh_'' @ sample_tail"
    using sample_refresh by blast
  show ?thesis
    by (rule refresh_token_redeemed_once [OF sample_runs_reachable(2) ts(1) _ _ _ _ rtranclp.rtrancl_refl])
      (simp_all add: ts(2,3) sample_used_def sample_hash_def sample_tail_def minutes_def)
qed

section \<open>Replays\<close>

lemma access_retired_refused:
  assumes "access_retired target (hash token) (db, used)"
  shows "fst (Resolve hash now token db) = Inl ErrInvalidAuthoringCredential"
proof (cases "AuthoringCredentialByAccessTokenHash (hash token) now db")
  case (Pair r db')
  then show ?thesis
  proof (cases r)
    case (Inr credential)
    then have "access_redeem target (hash token) (db, used) (db', used)"
      using Pair assms by (auto simp: access_redeem_def access_retired_def)
    then show ?thesis using access.retired_refused [OF assms] by blast
  qed (use Pair in \<open>simp add: Resolve_def\<close>)
qed

text \<open>Revoking a session retires all its tokens.\<close>

lemma revoked_session_retires:
  assumes ok: "auth_ok target (db, used)" and now: "now \<noteq> 0" and c: "c \<in> set (ad_credentials db)" "cr_SessionID c = i"
    and db': "db' = (RevokeAuthoringSessionByID i now db)\<lparr>ad_audit := log\<rparr>"
  shows "access_retired target (cr_AccessTokenHash c) (db', used)"
    "cr_RefreshTokenHash c \<noteq> [] \<Longrightarrow> refresh_retired target (cr_RefreshTokenHash c) (db', used)"
proof -
  have ok': "auth_ok target (db', used)" using RevokeAuthoringSessionByID_ok [OF ok] by (simp add: db')
  have cs: "ad_credentials db' = ad_credentials db" by (simp add: db' revoke_by_id_rows)
  have dead: "dead_credential db' c"
    using c(2) now by (auto simp: dead_credential_def db' RevokeAuthoringSessionByID_def update_where_def split: if_splits)
  have used: "cr_AccessTokenHash c \<in> used" "cr_RefreshTokenHash c \<noteq> [] \<Longrightarrow> cr_RefreshTokenHash c \<in> used"
    using ok c(1) by (auto simp: auth_ok_def hashes_used_def refresh_hashes_def)
  show "access_retired target (cr_AccessTokenHash c) (db', used)"
    using ok' used dead access_hash_unique [OF ok c(1)] by (auto simp: access_retired_def cs)
  show "refresh_retired target (cr_RefreshTokenHash c) (db', used)" if "cr_RefreshTokenHash c \<noteq> []"
    using ok' used(2) that dead refresh_hash_unique [OF ok c(1)] by (auto simp: refresh_retired_def cs)
qed

text \<open>C37. Presenting a refresh token that has been replaced is answered as a replay, and from then on
  no access token and no refresh token of its session is accepted, whatever happens.\<close>

theorem replay_revokes_session:
  assumes "auth_reachable target (db, used)" and "c \<in> set (ad_credentials db)" "\<not> cr_Active c" "cr_RefreshTokenHash c = hash token"
    and "hash token \<noteq> []" "has_prefix token ''lv_cli_refresh_''" "now \<noteq> 0"
    and "rnd 0 32 = Inr r0" "rnd 1 32 = Inr r1" "rnd 2 18 = Inr r2" "i \<notin> fst ` set (ad_audit db)"
  shows "\<exists>db1. Refresh_token sv hash rnd (Inr i) now token db = (Inl ErrAuthoringRefreshReplay, db1)
    \<and> (\<forall>db2 used2 c' tok now2. (auth_step target)\<^sup>*\<^sup>* (db1, used) (db2, used2) \<and> c' \<in> set (ad_credentials db) \<and> cr_SessionID c' = cr_SessionID c \<longrightarrow>
        (hash tok = cr_AccessTokenHash c' \<longrightarrow> fst (Resolve hash now2 tok db2) = Inl ErrInvalidAuthoringCredential)
        \<and> (hash tok = cr_RefreshTokenHash c' \<and> hash tok \<noteq> [] \<longrightarrow>
            (\<exists>e. fst (Refresh_token sv' hash rnd' aid' now2 tok db2) = Inl e)))"
proof -
  have ok: "auth_ok target (db, used)" using auth_reachable_ok [OF assms(1)] .
  let ?P = "\<lambda>c. hash token \<noteq> [] \<and> cr_RefreshTokenHash c = hash token"
  obtain s p where j: "join_credential ?P db = Inr (c, s, p)" and s: "acceptable_scope (ss_Scope s)" "known_id db (ss_PrincipalID s)"
  proof (rule join_found [where P = ?P, OF ok assms(2)])
    show "?P c" using assms(4,5) by simp
    show "x = c" if "x \<in> set (ad_credentials db)" "?P x" for x
      using refresh_hash_unique [OF ok assms(2) that(1)] that(2) assms(4,5) by simp
  qed
  let ?s = "s\<lparr>ss_Scope := normalized_scope (ss_Scope s)\<rparr>"
  let ?db = "RevokeAuthoringSessionByID (cr_SessionID c) now db"
  have audit: "audited (Inr i) (authoringSessionAudit ''authoring.refresh.replay'' ?s ''security_event'') res ?db =
      Inr (res, ?db\<lparr>ad_audit := ad_audit ?db @ [(i, authoringSessionAudit ''authoring.refresh.replay'' ?s ''security_event'')]\<rparr>)"
    for res :: "auth_error + authoring_credential"
  proof (rule audited_fresh)
    show "i \<notin> fst ` set (ad_audit ?db)" using assms(11) by (simp add: RevokeAuthoringSessionByID_def)
    show "\<not> blank (ae_Action (authoringSessionAudit ''authoring.refresh.replay'' ?s ''security_event''))"
      using trim_space_visible [of "''authoring.refresh.replay''"] by (simp add: authoringSessionAudit_def blank_def visible_def)
    show "known_id ?db (ae_PrincipalID (authoringSessionAudit ''authoring.refresh.replay'' ?s ''security_event''))"
      using s(2) by (simp add: authoringSessionAudit_def RevokeAuthoringSessionByID_def)
  qed
  define db1 where "db1 = ?db\<lparr>ad_audit := ad_audit ?db @ [(i, authoringSessionAudit ''authoring.refresh.replay'' ?s ''security_event'')]\<rparr>"
  have "Refresh_token sv hash rnd (Inr i) now token db = (Inl ErrAuthoringRefreshReplay, db1)"
    using j s assms(3,6,8-10)
    by (simp add: Refresh_token_def randomSecret_def RotateAuthoringCredential_def transaction_def GetAuthoringCredentialByRefreshHash_def
        refresh_replayed_def Let_def mapCredential_def mapAuthoringScope_Inr bind_res_Inr_iff audit db1_def
        mapAuthoringScope_Inr [of "ss_Scope s" "normalized_scope (ss_Scope s)", THEN iffD2])
  moreover have "(hash tok = cr_AccessTokenHash c' \<longrightarrow> fst (Resolve hash now2 tok db2) = Inl ErrInvalidAuthoringCredential)
      \<and> (hash tok = cr_RefreshTokenHash c' \<and> hash tok \<noteq> [] \<longrightarrow> (\<exists>e. fst (Refresh_token sv' hash rnd' aid' now2 tok db2) = Inl e))"
    if "(auth_step target)\<^sup>*\<^sup>* (db1, used) (db2, used2)" "c' \<in> set (ad_credentials db)" "cr_SessionID c' = cr_SessionID c" for db2 used2 c' tok now2
    using revoked_session_retires [OF ok assms(7) that(2,3) db1_def] access.retired_steps [OF that(1)] refresh.retired_steps [OF that(1)]
      access_retired_refused refresh_retired_refused by metis
  ultimately show ?thesis by blast
qed

theorem replay_revokes_session_witness:
  "\<exists>db1. Refresh_token sample_service sample_hash sample_rnd (Inr ''audit_5'') (minutes 17) ''lv_cli_refresh_1'' sample_db4
      = (Inl ErrAuthoringRefreshReplay, db1)
    \<and> fst (Resolve sample_hash (minutes 18) (''lv_cli_access_'' @ sample_tail) db1) = Inl ErrInvalidAuthoringCredential"
proof -
  let ?c = "(issued_credential sample_issue)\<lparr>cr_Active := False, cr_ReplacedAt := minutes 16\<rparr>" and ?n = "rotated_row sample_rotation ''as_1''"
  have m: "?c \<in> set (ad_credentials sample_db4)" "?n \<in> set (ad_credentials sample_db4)" by (simp_all add: sample_db4_def)
  have f: "\<not> cr_Active ?c" "cr_RefreshTokenHash ?c = sample_hash ''lv_cli_refresh_1''" "cr_SessionID ?n = cr_SessionID ?c"
    "cr_AccessTokenHash ?n = sample_hash (''lv_cli_access_'' @ sample_tail)"
    by (simp_all add: issued_credential_def rotated_row_def new_credential_def sample_issue_def sample_rotation_def)
  have i: "''audit_5'' \<notin> fst ` set (ad_audit sample_db4)" by (simp add: sample_dbs)
  have h: "sample_hash ''lv_cli_refresh_1'' \<noteq> []" "has_prefix ''lv_cli_refresh_1'' ''lv_cli_refresh_''" "minutes 17 \<noteq> 0"
    by (simp_all add: has_prefix_def minutes_def sample_hash_def)
  note th = replay_revokes_session [where hash = sample_hash and token = "''lv_cli_refresh_1''" and i = "''audit_5''" and rnd = sample_rnd and rnd' = sample_rnd and sv = sample_service and sv' = sample_service
      and aid' = "Inr ''audit_6''", OF sample_runs_reachable(3) m(1) f(1,2) h sample_rnd_def sample_rnd_def sample_rnd_def i]
  then show ?thesis using m(2) f(3,4) by (metis rtranclp.rtrancl_refl)
qed

section \<open>The device flow\<close>

lemma consumable_count:
  assumes "auth_ok target (db, used)" "d \<in> set (ad_devices db)" "consumable_device (dr_ID d) now d"
  shows "rows_affected (consumable_device (dr_ID d) now) (ad_devices db) = 1"
proof -
  have "distinct (map dr_ID (ad_devices db))" using assms(1) by (simp add: auth_ok_def devices_ok_def)
  moreover have "filter (consumable_device (dr_ID d) now) (ad_devices db) = filter (\<lambda>r. dr_ID r = dr_ID d \<and> consumable_device (dr_ID d) now r) (ad_devices db)"
    by (rule filter_cong) (auto simp: consumable_device_def)
  ultimately show ?thesis using filter_key [of dr_ID "ad_devices db" d] assms(2,3) by (simp add: rows_affected_def)
qed

text \<open>With fresh secrets, an approved authorization of an enabled principal yields a credential.\<close>

lemma issue_succeeds:
  assumes ok: "auth_ok target (db, used)" and d: "d \<in> set (ad_devices db)" "dr_Status d = DeviceApproved" "dr_ClientID d = di_ClientID issue"
      "dr_DeviceCodeHash d = di_DeviceCodeHash issue" "di_Now issue < dr_ExpiresAt d" "text_later (dr_ExpiresAt d) (di_Now issue)"
    and p: "GetPrincipal (dr_PrincipalID d) db = Inr p" "pn_DisabledAt p = []"
    and new: "di_SessionID issue \<notin> ss_ID ` set (ad_sessions db)" "di_CredentialID issue \<notin> cr_ID ` set (ad_credentials db)"
      "i \<notin> fst ` set (ad_audit db)" "di_AccessTokenHash issue \<notin> used" "di_RefreshTokenHash issue \<notin> used"
      "di_RefreshTokenHash issue \<noteq> []" "di_RefreshExpiresAt issue \<noteq> 0"
  obtains dv db' where "mapDeviceAuthorization d = Inr dv"
    "IssueDeviceCredential (Inr i) issue db = (Inr \<lparr>ac_ID = di_CredentialID issue, ac_Principal = p, ac_Session = issued_session issue dv p,
       ac_AccessExpiresAt = di_AccessExpiresAt issue, ac_RefreshExpiresAt = di_RefreshExpiresAt issue\<rparr>, db')"
    "ad_sessions db' = ad_sessions db @ [issued_session issue dv p]" "ad_credentials db' = ad_credentials db @ [issued_credential issue]"
    "ad_principals db' = ad_principals db"
proof -
  have "device_ok target d" using ok d(1) by (auto simp: auth_ok_def devices_ok_def)
  then have sc: "acceptable_scope (dr_Scope d)" "dr_PrincipalID d \<noteq> []" using d(2) by (auto simp: device_ok_def scope_for_def)
  obtain dv where dv: "mapDeviceAuthorization d = Inr dv"
    using sc(1) mapAuthoringScope_Inr [of "dr_Scope d" "normalized_scope (dr_Scope d)"] by (simp add: mapDeviceAuthorization_def)
  have f: "dv_ID dv = dr_ID d" "dv_Status dv = dr_Status d" "dv_ExpiresAt dv = dr_ExpiresAt d" "dv_ClientID dv = dr_ClientID d"
    "dv_PrincipalID dv = dr_PrincipalID d"
    using dv by (auto simp: mapDeviceAuthorization_def)
  have get: "get_device (\<lambda>x. dr_DeviceCodeHash x = di_DeviceCodeHash issue) db = Inr d"
    using find_key [of dr_DeviceCodeHash "ad_devices db" d] ok d(1,4) by (simp add: get_device_def auth_ok_def devices_ok_def)
  let ?now = "di_Now issue" and ?s = "issued_session issue dv p" and ?c = "issued_credential issue"
  have k: "known_id db (pn_ID p)" using GetPrincipal_Inr [OF p(1)] by (auto simp: known_id_def)
  have s: "ss_ID ?s = di_SessionID issue" "ss_PrincipalID ?s = pn_ID p" "?s\<lparr>ss_LastUsedAt := 0, ss_RevokedAt := 0\<rparr> = ?s"
    by (simp_all add: issued_session_def)
  have c: "cr_ID ?c = di_CredentialID issue" "cr_SessionID ?c = di_SessionID issue" "cr_AccessTokenHash ?c = di_AccessTokenHash issue"
    "cr_RefreshTokenHash ?c = di_RefreshTokenHash issue" "cr_RefreshExpiresAt ?c = di_RefreshExpiresAt issue"
    by (simp_all add: issued_credential_def new_credential_def)
  have old: "cr_ID r \<noteq> di_CredentialID issue \<and> cr_AccessTokenHash r \<noteq> di_AccessTokenHash issue
      \<and> cr_RefreshTokenHash r \<noteq> di_RefreshTokenHash issue \<and> cr_SessionID r \<noteq> di_SessionID issue" if "r \<in> set (ad_credentials db)" for r
    using ok that new credential_has_session [OF ok that] by (auto simp: auth_ok_def hashes_used_def refresh_hashes_def image_iff)
  have frame: "ad_sessions (ConsumeDeviceAuthorization j n db) = ad_sessions db" "ad_credentials (ConsumeDeviceAuthorization j n db) = ad_credentials db"
    "ad_audit (ConsumeDeviceAuthorization j n db) = ad_audit db" "known_id (ConsumeDeviceAuthorization j n db) = known_id db"
    "ad_principals (ConsumeDeviceAuthorization j n db) = ad_principals db" for j n
    by (simp_all add: ConsumeDeviceAuthorization_def)
  let ?db = "(ConsumeDeviceAuthorization (dr_ID d) ?now db)\<lparr>ad_sessions := ad_sessions db @ [?s]\<rparr>"
  let ?event = "authoringSessionAudit ''authoring.session.created'' ?s ''success''"
  have nv: "\<not> credential_violates ?c ?db" using old new(6,7) unfolding credential_violates_def c by (simp add: frame s(1))
  have cs: "createAuthoringSession ?s (ConsumeDeviceAuthorization (dr_ID d) ?now db) = Inr ?db"
    using new(1) k by (simp add: createAuthoringSession_Inr frame s)
  have audit: "audited (Inr i) ?event res (?db\<lparr>ad_credentials := ad_credentials db @ [?c]\<rparr>) =
      Inr (res, ?db\<lparr>ad_credentials := ad_credentials db @ [?c], ad_audit := ad_audit db @ [(i, ?event)]\<rparr>)" for res :: "auth_error + authoring_credential"
    using new(3) k trim_space_visible [of "''authoring.session.created''"]
    by (subst audited_fresh) (simp_all add: authoringSessionAudit_def blank_def visible_def s frame)
  show thesis
  proof (rule that [OF dv])
    show "IssueDeviceCredential (Inr i) issue db = (Inr \<lparr>ac_ID = di_CredentialID issue, ac_Principal = p, ac_Session = ?s,
        ac_AccessExpiresAt = di_AccessExpiresAt issue, ac_RefreshExpiresAt = di_RefreshExpiresAt issue\<rparr>,
        ?db\<lparr>ad_credentials := ad_credentials db @ [?c], ad_audit := ad_audit db @ [(i, ?event)]\<rparr>)"
      using sc(2) p d(2,3,5,6) consumable_count [OF ok d(1), of ?now] nv
      by (simp add: IssueDeviceCredential_def transaction_def get dv f issue_approved_def Let_def cs createAuthoringCredential_def
          s(1) issued_credential_def [symmetric] audit frame consumable_device_def [of _ _ d])
  qed (simp_all add: frame)
qed



section \<open>Divergences\<close>

text \<open>The SQL update that decides a device authorization compares texts of times, in which a whole
  second is later than every instant within it: it still approves an authorization that has expired.\<close>

lemma fraction_text_Z: "fraction_text t = ''Z'' \<longleftrightarrow> t mod 10 ^ 9 = 0"
proof
  assume "fraction_text t = ''Z''"
  then show "t mod 10 ^ 9 = 0" using parse_fraction_text [of t] by (simp add: parse_fraction_def)
next
  assume "t mod 10 ^ 9 = 0"
  moreover have "cut_zeros (digits 9 0) = []" by code_simp
  ultimately show "fraction_text t = ''Z''" by (simp add: fraction_text_def)
qed

lemma expired_authorization_approved:
  assumes "dr_ID d = i" "dr_Status d = DevicePending" "dr_ExpiresAt d mod 10 ^ 9 = 0"
    and "dr_ExpiresAt d < now" "now div 10 ^ 9 = dr_ExpiresAt d div 10 ^ 9" "now \<noteq> 0"
  shows "decidable_device i now d"
proof -
  have "now mod 10 ^ 9 \<noteq> 0"
  proof
    assume "now mod 10 ^ 9 = 0"
    then show False using assms(3-5) div_mult_mod_eq [of now "10 ^ 9"] div_mult_mod_eq [of "dr_ExpiresAt d" "10 ^ 9"] by simp
  qed
  then have "fraction_text now \<noteq> ''Z''" using fraction_text_Z by blast
  then obtain ds where "fraction_text now = ''.'' @ ds"
    unfolding fraction_text_def by (cases "cut_zeros (digits 9 (now mod 10 ^ 9))") simp_all
  moreover have "fraction_text (dr_ExpiresAt d) = ''Z''" using assms(3) by (simp only: fraction_text_Z)
  ultimately have "\<not> time_text_le (dr_ExpiresAt d) now" using assms(5) by (simp add: time_text_le_def)
  then show ?thesis using assms by (simp add: decidable_device_def text_later_def)
qed

text \<open>A workload exchange whose target is this instance up to white space passes the validation of its
  scope, creates a session and a credential, and is then refused.\<close>

lemma padded_target_refused_after_commit:
  assumes "as_TargetID (wl_Scope input) \<noteq> aus_instanceID sv" "validateScope sv (wl_Scope input) = Inr ()"
    and "0 < wl_Lifetime input" "wl_Lifetime input \<le> aus_workloadMaxTTL sv"
    and "PrincipalForServicePrincipalSecret verified (trim_space (wl_ClientID input)) (wl_ClientSecret input) db = Inr p"
      "pn_Kind p = ''service_principal''" "pn_DisabledAt p = []"
    and "randomSecret ''lv_workload_access_'' (rnd 0 32) = Inr access" "randomSecret ''as_'' (rnd 1 18) = Inr sid"
      "randomSecret ''ac_'' (rnd 2 18) = Inr cid"
    and "CreateWorkloadCredential aid \<lparr>wi_Session = \<lparr>ss_ID = sid, ss_Kind = SessionWorkload, ss_ClientID = pn_ID p, ss_PrincipalID = pn_ID p,
        ss_Scope = wl_Scope input, ss_CreatedAt = now, ss_LastUsedAt = 0, ss_ExpiresAt = now + wl_Lifetime input, ss_RevokedAt = 0\<rparr>,
        wi_CredentialID = cid, wi_AccessTokenHash = hash access, wi_AccessExpiresAt = now + wl_Lifetime input\<rparr> (env db) = (Inr credential, db')"
  shows "ExchangeWorkloadIdentity sv hash verified rnd env aid now input db = (Inl ErrInvalidAuthoringCredential, db')
    \<and> length (ad_credentials db') = length (ad_credentials (env db)) + 1"
  using assms(11)
proof (cases rule: CreateWorkloadCredential_cases)
  case (created p' log)
  then show ?thesis using assms by (simp add: ExchangeWorkloadIdentity_def Let_def validateIssuedCredential_def)
qed auto

end
