(* ===== verification/Spec2Isabelle.thy ===== *)
theory Spec2Isabelle
  imports Workload_Theorems Result_Cache_Theorems Result_Flights Candidate_Theorems Approval_Theorems Filter_Machine_Theorems
    Refresh_Plan Relationship_Paths Refresh_Coordinator_Theorems Authoring_Theorems
begin

text \<open>
  LeapView: verification of the core of a business intelligence platform written in Go. Paths of
  source files are relative to \<open>src/\<close>.

  \<^bold>\<open>The program and its parts.\<close> A LeapView node serves dashboards over governed analytical data. The
  parts modelled are those that decide something and keep state to do so:

  \<^item> every query first asks the \<^bold>\<open>workload\<close> admission controller for a lease, which bounds what runs and
    what waits per class of work and per workspace;
  \<^item> its result, a reference-counted Arrow \<^bold>\<open>result\<close>, is kept in the node-wide result \<^bold>\<open>cache\<close>, which
    bounds memory per scope, workspace and node and lets concurrent requests share one execution;
  \<^item> a dashboard session keeps its filters in the \<^bold>\<open>filter machine\<close>; a rendered page streams events of
    its consumers through the \<^bold>\<open>refresh coordinator\<close>, which supersedes refreshes by generation;
  \<^item> a query over several tables joins them along \<^bold>\<open>safe relationship paths\<close>, and a refresh of the data
    materialises tables in the order of the \<^bold>\<open>refresh plan\<close>;
  \<^item> new versions of a project are staged as private \<^bold>\<open>candidates\<close> and become active only with a
    deployment \<^bold>\<open>approval\<close>;
  \<^item> the command line and workloads act with the short-lived tokens of the \<^bold>\<open>authoring\<close> credentials
    service.

  \<^bold>\<open>Conventions.\<close> \<open>LeapView_Prelude\<close> models what the sources use of the language and its library: strings
  are lists of bytes, \<open>(value, error)\<close> is a sum, a panic is \<open>None\<close>, an \<open>int64\<close> that may overflow is an
  \<open>int\<close> under \<open>wrap_int64\<close> and a \<open>uint64\<close> counter a \<open>64 word\<close>. A structure is a record with the fields of
  the source under a prefix, an enumeration a datatype. A critical section (from taking a mutex to
  releasing it), or one transaction of a database, is one function on an explicit state, and
  concurrent executions are sequences of these functions, given by inductive step relations. Clocks,
  random bytes, digests, the writes of other processes between two transactions, the order in which a
  Go map is iterated, and code outside the repository are arguments of the definitions. \<open>Go_Time\<close> models
  the calendar, RFC 3339 texts and \<open>Date\<close> of package \<open>time\<close>, \<open>Text_Order\<close> the order of strings.

  \<^bold>\<open>Workload admission\<close>, \<open>internal/workload/workload.go\<close> and \<open>controller.go\<close>.
  \<open>Workload_Policy\<close>: classes, policies, the default configuration and its validation. \<open>Workload_Queue\<close>: the
  queue of a class (\<open>classQueue\<close>), one list per workspace served round-robin; the locale
  \<open>workspace_queue\<close> is what the controller relies on, its interpretation \<open>cq\<close> the code's queue.
  \<open>Workload_Controller\<close>: the type \<open>Controller\<close> (record \<open>controller\<close>, with waiters and leases as a heap) and its
  critical sections: \<open>acquire_begin\<close> and the branches of its \<open>select\<close>, \<open>release\<close>, \<open>Close\<close>,
  \<open>scheduleLocked\<close>, statistics. \<open>Workload_Safety\<close> states the invariant, \<open>Workload_Operations\<close> proves that
  every operation returns and keeps it and defines \<open>workload_reachable\<close>, \<open>Workload_Theorems\<close> shows for every
  reachable state that no limit of running or queued work is exceeded, that no admissible waiter is
  left waiting, that reservations are served before borrowed capacity, that a closed controller
  admits nothing and that nothing panics.

  \<^bold>\<open>Results and their cache\<close>, \<open>internal/analytics/arrowresult/result.go\<close> and
  \<open>internal/analytics/resultcache/pool.go\<close>. \<open>Arrow_Result\<close>: builders, results and leases with reference
  counts (locale \<open>lease_store\<close>, interpretation \<open>arrow\<close>); counts are exact and the view of a held lease
  never changes. \<open>Result_Cache\<close>: the pool with its list of entries, counters, scopes and indexes;
  \<open>Result_Cache_Eviction\<close>: the loops of \<open>enforceLocked\<close>, which are partial functions, return (locale
  \<open>eviction_loop\<close>, one interpretation for each of the three loops). \<open>Result_Cache_Safety\<close>,
  \<open>Result_Cache_Operations\<close> and \<open>Result_Cache_Theorems\<close>: the counters are the totals of the entries and
  within the limits after every operation, a store returns and is found by the next lookup,
  invalidation and the isolation of scopes. \<open>Result_Flights\<close>: coalesced executions, whose value reaches
  every caller that waits and whose reference is given back.

  \<^bold>\<open>Candidates and approvals\<close>, \<open>internal/deployment\<close> and \<open>internal/deployment/sqlite\<close>.
  \<open>Deployment_Candidate\<close>: the record, its validation and its transitions, refined to a life cycle of
  states. \<open>Versioned_Store\<close>: a table whose rows carry a revision and are saved by compare-and-set (locale
  \<open>versioned_store\<close>, interpretations \<open>cand\<close> and \<open>appr\<close>) and the order of times kept as text.
  \<open>Candidate_Store\<close>: the statements and the repository of candidates; \<open>Candidate_Service\<close>: its service.
  \<open>Candidate_Safety\<close> and \<open>Candidate_Theorems\<close>: one active session per target, project, owner and key and a
  bounded number per owner, and a mutation is saved on the row it was computed from or not at all.
  \<open>Deployment_Approval\<close>: record, repository and service of approvals. \<open>Approval_Safety\<close> and
  \<open>Approval_Theorems\<close>: nobody decides on the own request, an authorised activation rests on an unexpired
  approval of the same digests, the history of a row is kept, and of two racing decisions one wins.

  \<^bold>\<open>Filters\<close>, \<open>internal/dashboard/filter/model.go\<close> and \<open>state.go\<close>. \<open>Filter_Value\<close> and \<open>Filter_Expression\<close>: typed
  values, expressions, canonical forms and the range of a relative period; \<open>Filter_Periods\<close>: the
  beginnings of calendar periods in closed form. \<open>Filter_Theorems\<close>: canonical forms are stable, unique for
  sets and decimals, and relative ranges are whole consecutive periods. \<open>Filter_Machine\<close>: commands with
  idempotency records, resets, drafts, snapshots; \<open>Filter_Machine_Safety\<close> and \<open>Filter_Machine_Theorems\<close>:
  the invariant, atomic commands, recognition of repeated commands, snapshots that restore the machine.

  \<^bold>\<open>Plans and paths.\<close> \<open>Refresh_Plan\<close> (\<open>internal/refresh/plan/plan.go\<close>): the order of tables is topological
  and complete. \<open>Relationship_Paths\<close> (\<open>internal/analytics/model/relationships.go\<close>): the search for a
  join path that does not multiply rows returns a path exactly if it is the only safe one, and tells
  apart that there is none and that there are several.

  \<^bold>\<open>Page streams\<close>, \<open>internal/dashboard/stream/coordinator.go\<close>. \<open>Refresh_Coordinator\<close>: the canonical filters,
  generations, events and summaries; \<open>Refresh_Coordinator_Safety\<close>: the coordinator with the goroutines of its
  refreshes (\<open>stream_step\<close>); \<open>Refresh_Coordinator_Theorems\<close>: published events carry consecutive revisions
  per target and never an older generation, and every refresh is summarised once.

  \<^bold>\<open>Authoring credentials\<close>, \<open>internal/access/authoring_auth.go\<close> and \<open>internal/access/sqlite/authoring_auth.go\<close>.
  \<open>Authoring_Scope\<close>: privileges and scopes. \<open>Authoring_Store\<close> and \<open>Authoring_Repository\<close>: the tables, the
  statements of \<open>queries/access.sql\<close> and the transactions. \<open>Authoring_Service\<close>: the device flow, refresh with
  rotation, workload identities, authentication and revocation. \<open>Authoring_Safety\<close>: the invariant and the step
  relation \<open>auth_step\<close>; \<open>Authoring_Steps\<close>: what each transaction can return; \<open>Authoring_Invariant\<close>: every step
  keeps the invariant; \<open>Authoring_Secrets\<close>: how rows evolve, and the contracts of secrets that stay
  refused once retired (locales \<open>retirable\<close> and \<open>single_use\<close>, interpretations \<open>refresh\<close>, \<open>access\<close> and
  \<open>device\<close>). \<open>Authoring_Theorems\<close>: an accepted token rests on a consent, a refresh token is redeemed once, a
  replay ends the session for good, sessions and exchanged authorizations correspond, and the device
  flow completes. \<open>Authoring_Sample\<close> is a run the witnesses use.

  \<^bold>\<open>Bounds and termination.\<close> No recursion is cut off by fuel (\<open>expire_attempts\<close> counts the
  attempts the code makes). \<open>scheduleLocked\<close> terminates because every round takes a
  waiter from a queue; the visit of tables and the search for paths by the tables not yet on the
  path; the eviction loops are \<open>partial_function (option)\<close>, and \<open>store_returns_and_lookup_hits\<close> shows that
  they return. The filter machine remembers 512 commands and its guarantee is stated for fewer than
  512 later ones. The data revisions and generations of a stream, and the revisions of rows, are
  \<open>int64\<close>: where a property needs that a counter has not reached its maximum, the step relation or a
  hypothesis says so. The authoring steps assume that fresh secrets hash to values not issued
  before. Byte totals of the cache count resident memory and are unbounded integers.

  \<^bold>\<open>Not modelled.\<close> The rest of the repository delivers these decisions or calls third-party code: HTTP
  handlers, user interfaces, command lines and clients (\<open>internal/*/http\<close>, \<open>internal/*/ui\<close>, \<open>internal/app\<close>,
  \<open>web\<close>, \<open>desktop\<close>), generated API contracts and visualization types, the compilation of projects and
  semantic models to SQL and its execution on DuckDB, object storage, OIDC and SCIM, migrations and the
  job runner. Of the parts modelled, these are left out: the deep copy of Arrow batches and the
  decoding of columns (Arrow library), \<open>Coalesce\<close> (a call of \<open>singleflight\<close>), the URL encoding of
  filters and \<open>BindingKey\<close> (JSON and SHA-256 texts), \<open>CanReachField\<close>, the timings, debounce timer and
  observers of the coordinator, and failures of the database driver other than violated constraints.
\<close>

end
